(* ===== verification/Prelude.thy ===== *)
theory Prelude
  imports Complex_Main
begin

text \<open>
  Shared vocabulary of the development: Python text, Python data values, results that can
  fail, and the generic lemmas the component theories use.

  Text. A Python \<open>str\<close> is modelled as Isabelle's \<open>string\<close>, a list of 8-bit characters read
  as the code points 0 to 255 (Latin-1). On those code points the character classes and the
  case mapping below are the ones of CPython 3.12 (\<open>str.isspace\<close>, \<open>str.lower\<close>, the regular
  expression classes \<open>\s\<close> and \<open>\w\<close>); text outside Latin-1 is outside the model.

  Data. \<open>py\<close> is the closed set of values JSON and YAML documents give the program; a
  dictionary is an association list with string keys, in insertion order. \<open>py_eq\<close> is Python's
  \<open>==\<close> on them (booleans and floats compare with integers by value). The textual form of a
  float is left as an argument \<open>fstr\<close> of the functions that need it.
\<close>

named_theorems text_simps \<open>facts about Python text operations\<close>
named_theorems dict_simps \<open>facts about Python dictionaries as association lists\<close>

subsection \<open>Characters\<close>

definition code_of :: "char \<Rightarrow> nat" where
  "code_of c = of_char c"

definition py_isspace :: "char \<Rightarrow> bool" where
  "py_isspace c = (let n = code_of c in
     9 \<le> n \<and> n \<le> 13 \<or> 28 \<le> n \<and> n \<le> 32 \<or> n = 133 \<or> n = 160)"

definition py_isdigit09 :: "char \<Rightarrow> bool" where
  "py_isdigit09 c = (let n = code_of c in 48 \<le> n \<and> n \<le> 57)"

definition py_isword :: "char \<Rightarrow> bool" where
  "py_isword c = (let n = code_of c in
     48 \<le> n \<and> n \<le> 57 \<or> 65 \<le> n \<and> n \<le> 90 \<or> n = 95 \<or> 97 \<le> n \<and> n \<le> 122
     \<or> n \<in> {170, 178, 179, 181, 185, 186, 188, 189, 190}
     \<or> 192 \<le> n \<and> n \<le> 214 \<or> 216 \<le> n \<and> n \<le> 246 \<or> 248 \<le> n)"

definition lower_char :: "char \<Rightarrow> char" where
  "lower_char c = (let n = code_of c in
     if 65 \<le> n \<and> n \<le> 90 \<or> 192 \<le> n \<and> n \<le> 214 \<or> 216 \<le> n \<and> n \<le> 222
     then char_of (n + 32) else c)"

definition py_lower :: "string \<Rightarrow> string" where
  "py_lower s = map lower_char s"

lemma code_of_less: "code_of c < 256"
  by (simp add: code_of_def)

lemma code_of_char_of: "n < 256 \<Longrightarrow> code_of (char_of n) = n"
  by (simp add: code_of_def)

lemma lower_char_idem [text_simps]: "lower_char (lower_char c) = lower_char c"
  by (auto simp: lower_char_def Let_def code_of_char_of)

lemma lower_char_space [text_simps]: "py_isspace (lower_char c) = py_isspace c"
  by (auto simp: lower_char_def py_isspace_def Let_def code_of_char_of)

lemma py_lower_idem [text_simps]: "py_lower (py_lower s) = py_lower s"
  by (simp add: py_lower_def text_simps)

lemma length_py_lower [text_simps]: "length (py_lower s) = length s"
  by (simp add: py_lower_def)

subsection \<open>Strings\<close>

definition py_lstrip :: "string \<Rightarrow> string" where
  "py_lstrip s = dropWhile py_isspace s"

definition rstrip_by :: "(char \<Rightarrow> bool) \<Rightarrow> string \<Rightarrow> string" where
  "rstrip_by P s = rev (dropWhile P (rev s))"

definition strip_by :: "(char \<Rightarrow> bool) \<Rightarrow> string \<Rightarrow> string" where
  "strip_by P s = rstrip_by P (dropWhile P s)"

definition py_strip :: "string \<Rightarrow> string" where
  "py_strip s = strip_by py_isspace s"

definition starts_with :: "string \<Rightarrow> string \<Rightarrow> bool" where
  "starts_with s p = (take (length p) s = p)"

definition ends_with :: "string \<Rightarrow> string \<Rightarrow> bool" where
  "ends_with s p = starts_with (rev s) (rev p)"

definition removeprefix :: "string \<Rightarrow> string \<Rightarrow> string" where
  "removeprefix s p = (if starts_with s p then drop (length p) s else s)"

fun contains_str :: "string \<Rightarrow> string \<Rightarrow> bool" where
  "contains_str [] p = (p = [])"
| "contains_str (c # s) p = (starts_with (c # s) p \<or> contains_str s p)"

text \<open>\<open>s.replace(old, new)\<close>, for a non-empty \<open>old\<close>: left to right, not overlapping.\<close>

function replace_all :: "string \<Rightarrow> string \<Rightarrow> string \<Rightarrow> string" where
  "replace_all old new s =
     (if s = [] \<or> old = [] then s
      else if starts_with s old then new @ replace_all old new (drop (length old) s)
      else hd s # replace_all old new (tl s))"
  by pat_completeness auto
termination
  by (relation "measure (\<lambda>(old, new, s). length s)") auto

declare replace_all.simps [simp del]

text \<open>The maximal runs of characters satisfying \<open>P\<close>, left to right.\<close>

function runs :: "(char \<Rightarrow> bool) \<Rightarrow> string \<Rightarrow> string list" where
  "runs P s = (let t = dropWhile (\<lambda>c. \<not> P c) s in
     if t = [] then [] else takeWhile P t # runs P (dropWhile P t))"
  by pat_completeness auto
termination
proof (relation "measure (\<lambda>(P, s). length s)")
  fix P :: "char \<Rightarrow> bool" and s t :: string
  assume t: "t = dropWhile (\<lambda>c. \<not> P c) s" and ne: "t \<noteq> []"
  then have "P (hd t)" by (metis dropWhile_eq_Nil_conv hd_dropWhile)
  with ne have "length (dropWhile P t) \<le> length (tl t)"
    by (cases t) (auto simp: length_dropWhile_le)
  also have "\<dots> < length t" using ne by (cases t) auto
  also have "length t \<le> length s" using t by (simp add: length_dropWhile_le)
  finally show "((P, dropWhile P t), (P, s)) \<in> measure (\<lambda>(P, s). length s)" by simp
qed simp

declare runs.simps [simp del]

lemma runs_Nil [simp]: "runs P [] = []"
  by (simp add: runs.simps)

lemma runs_skip: "\<not> P c \<Longrightarrow> runs P (c # s) = runs P s"
  by (subst (1 2) runs.simps) simp

lemma runs_word:
  assumes "w \<noteq> []" "list_all P w" "s = [] \<or> \<not> P (hd s)"
  shows "runs P (w @ s) = w # runs P s"
proof -
  obtain c w' where w: "w = c # w'" using assms(1) by (cases w) auto
  have "dropWhile (\<lambda>c. \<not> P c) (w @ s) = w @ s" using w assms(2) by simp
  moreover have "takeWhile P (w @ s) = w" "dropWhile P (w @ s) = s"
    using assms(2,3) by (auto simp: list_all_iff takeWhile_append2 dropWhile_append2 neq_Nil_conv
        simp del: takeWhile_append dropWhile_append)
       (cases s; auto simp: list_all_iff takeWhile_append2 dropWhile_append2)+
  ultimately show ?thesis using assms(1) by (subst runs.simps) (simp add: Let_def)
qed

lemma runs_append:
  assumes "\<not> P c"
  shows "runs P (u @ c # v) = runs P u @ runs P v"
proof (induction "length u" arbitrary: u rule: less_induct)
  case less
  show ?case
  proof (cases u)
    case Nil
    then show ?thesis using assms by (simp add: runs_skip)
  next
    case (Cons x u')
    show ?thesis
    proof (cases "P x")
      case False
      then show ?thesis using less [of u'] Cons by (simp add: runs_skip)
    next
      case True
      let ?w = "takeWhile P u" and ?r = "dropWhile P u"
      have u: "u = ?w @ ?r" by simp
      have w: "?w \<noteq> []" "list_all P ?w" using Cons True by (auto simp: list_all_iff dest: set_takeWhileD)
      have hr: "?r = [] \<or> \<not> P (hd ?r)" using hd_dropWhile [of P u] by blast
      have "length ?r < length u" using w u by (metis append_eq_conv_conj length_append length_greater_0_conv less_add_same_cancel2 add.commute)
      then have ih: "runs P (?r @ c # v) = runs P ?r @ runs P v" by (rule less)
      have "runs P (u @ c # v) = runs P (?w @ (?r @ c # v))" by (metis append.assoc u)
      also have "\<dots> = ?w # runs P (?r @ c # v)"
        using w hr assms by (intro runs_word) (auto simp: hd_append)
      also have "\<dots> = (?w # runs P ?r) @ runs P v" using ih by simp
      also have "?w # runs P ?r = runs P u" using runs_word [OF w hr] u by simp
      finally show ?thesis .
    qed
  qed
qed

lemma runs_cong:
  "(\<And>c. c \<in> set s \<Longrightarrow> P c = Q c) \<Longrightarrow> runs P s = runs Q s"
proof (induction "length s" arbitrary: s rule: less_induct)
  case less
  have d: "dropWhile (\<lambda>c. \<not> P c) s = dropWhile (\<lambda>c. \<not> Q c) s" (is "?t = _")
    using less.prems by (intro dropWhile_cong) auto
  have sub: "set ?t \<subseteq> set s" using set_dropWhileD by fastforce
  have w: "takeWhile P ?t = takeWhile Q ?t" "dropWhile P ?t = dropWhile Q ?t"
    using less.prems sub by (auto intro!: takeWhile_cong dropWhile_cong)
  show ?case
  proof (cases "?t = []")
    case True
    then show ?thesis using d by (simp add: runs.simps [of P s] runs.simps [of Q s])
  next
    case False
    then have "P (hd ?t)" by (metis dropWhile_eq_Nil_conv hd_dropWhile)
    with False have "length (dropWhile P ?t) < length ?t"
      by (cases ?t) (auto simp: length_dropWhile_le le_imp_less_Suc)
    moreover have "length ?t \<le> length s" by (rule length_dropWhile_le)
    moreover have "set (dropWhile P ?t) \<subseteq> set s" using sub set_dropWhileD by fastforce
    ultimately have "runs P (dropWhile P ?t) = runs Q (dropWhile P ?t)"
      using less.prems by (intro less.hyps) auto
    then show ?thesis using False d w by (simp add: runs.simps [of P s] runs.simps [of Q s] Let_def)
  qed
qed

text \<open>\<open>s.split()\<close>: the maximal runs of non-space characters.\<close>

definition py_split :: "string \<Rightarrow> string list" where
  "py_split s = runs (\<lambda>c. \<not> py_isspace c) s"

fun py_join :: "string \<Rightarrow> string list \<Rightarrow> string" where
  "py_join sep [] = []"
| "py_join sep [x] = x"
| "py_join sep (x # y # xs) = x @ sep @ py_join sep (y # xs)"

definition newline :: char where
  "newline = CHR 0x0A"

lemma dropWhile_idem_P: "dropWhile P (dropWhile P xs) = dropWhile P xs"
  by (induction xs) auto

lemma rstrip_by_Nil [simp]: "rstrip_by P [] = []"
  by (simp add: rstrip_by_def)

lemma rstrip_by_Cons:
  "rstrip_by P (x # xs) = (if rstrip_by P xs = [] \<and> P x then [] else x # rstrip_by P xs)"
proof (cases "dropWhile P (rev xs) = []")
  case True
  then have "\<And>y. y \<in> set (rev xs) \<Longrightarrow> P y" by (simp add: dropWhile_eq_Nil_conv)
  then have "dropWhile P (rev xs @ [x]) = dropWhile P [x]" by (rule dropWhile_append2)
  with True show ?thesis by (simp add: rstrip_by_def)
next
  case False
  then obtain y where "y \<in> set (rev xs)" "\<not> P y" by (auto simp: dropWhile_eq_Nil_conv)
  then have "dropWhile P (rev xs @ [x]) = dropWhile P (rev xs) @ [x]" by (rule dropWhile_append1)
  with False show ?thesis by (simp add: rstrip_by_def)
qed

lemma dropWhile_rstrip: "dropWhile P (rstrip_by P s) = rstrip_by P (dropWhile P s)"
  by (induction s) (auto simp: rstrip_by_Cons)

lemma rstrip_by_idem: "rstrip_by P (rstrip_by P s) = rstrip_by P s"
  by (simp add: rstrip_by_def dropWhile_idem_P)

lemma strip_by_idem [text_simps]: "strip_by P (strip_by P s) = strip_by P s"
  by (simp add: strip_by_def dropWhile_rstrip rstrip_by_idem dropWhile_idem_P)

lemma dropWhile_map_same:
  assumes "\<And>c. P (f c) = P c"
  shows "dropWhile P (map f s) = map f (dropWhile P s)"
  by (induction s) (simp_all add: assms)

lemma strip_by_map:
  assumes "\<And>c. P (f c) = P c"
  shows "strip_by P (map f s) = map f (strip_by P s)"
proof -
  have "\<And>t. rstrip_by P (map f t) = map f (rstrip_by P t)"
    by (simp only: rstrip_by_def rev_map dropWhile_map_same [of P f, OF assms])
  then show ?thesis by (simp only: strip_by_def dropWhile_map_same [of P f, OF assms])
qed

lemma set_dropWhile_subset: "set (dropWhile P s) \<subseteq> set s"
  by (meson set_dropWhileD subsetI)

lemma set_strip_by: "set (strip_by P s) \<subseteq> set s"
proof -
  have "set (strip_by P s) = set (dropWhile P (rev (dropWhile P s)))"
    by (simp only: strip_by_def rstrip_by_def set_rev)
  also have "\<dots> \<subseteq> set (rev (dropWhile P s))" by (rule set_dropWhile_subset)
  also have "\<dots> = set (dropWhile P s)" by (simp only: set_rev)
  also have "\<dots> \<subseteq> set s" by (rule set_dropWhile_subset)
  finally show ?thesis .
qed

subsection \<open>Data values\<close>

datatype py =
    PNone
  | PBool bool
  | PInt int
  | PFloat rat
  | PStr string
  | PList "py list"
  | PDict "(string \<times> py) list"

type_synonym dict = "(string \<times> py) list"

text \<open>\<open>d.get(k)\<close>, and \<open>d.get(k, default)\<close>.\<close>

definition dget :: "dict \<Rightarrow> string \<Rightarrow> py" where
  "dget d k = (case map_of d k of None \<Rightarrow> PNone | Some v \<Rightarrow> v)"

definition dget_or :: "dict \<Rightarrow> string \<Rightarrow> py \<Rightarrow> py" where
  "dget_or d k v = (case map_of d k of None \<Rightarrow> v | Some w \<Rightarrow> w)"

text \<open>Python truthiness.\<close>

fun truthy :: "py \<Rightarrow> bool" where
  "truthy PNone = False"
| "truthy (PBool b) = b"
| "truthy (PInt n) = (n \<noteq> 0)"
| "truthy (PFloat q) = (q \<noteq> 0)"
| "truthy (PStr s) = (s \<noteq> [])"
| "truthy (PList xs) = (xs \<noteq> [])"
| "truthy (PDict d) = (d \<noteq> [])"

text \<open>The value of a number; booleans are the integers 0 and 1 in Python.\<close>

fun num_of :: "py \<Rightarrow> rat option" where
  "num_of (PBool b) = Some (if b then 1 else 0)"
| "num_of (PInt n) = Some (of_int n)"
| "num_of (PFloat q) = Some q"
| "num_of _ = None"

text \<open>\<open>==\<close>. Dictionaries compare as finite maps: same keys, equal values.\<close>

primrec py_eq :: "py \<Rightarrow> py \<Rightarrow> bool" where
  "py_eq PNone = (\<lambda>y. y = PNone)"
| "py_eq (PBool b) = (\<lambda>y. num_of y = Some (if b then 1 else 0))"
| "py_eq (PInt n) = (\<lambda>y. num_of y = Some (of_int n))"
| "py_eq (PFloat q) = (\<lambda>y. num_of y = Some q)"
| "py_eq (PStr s) = (\<lambda>y. y = PStr s)"
| "py_eq (PList xs) = (\<lambda>y. case y of
     PList ys \<Rightarrow> list_all2 (\<lambda>eq z. eq z) (map py_eq xs) ys | _ \<Rightarrow> False)"
| "py_eq (PDict d) = (\<lambda>y. case y of
     PDict e \<Rightarrow> length d = length e \<and>
       list_all (\<lambda>(k, eq). case map_of e k of None \<Rightarrow> False | Some w \<Rightarrow> eq w) (map (map_prod id py_eq) d)
   | _ \<Rightarrow> False)"

lemma py_eq_PStr [simp]: "py_eq v (PStr s) = (v = PStr s)"
  by (cases v) auto

lemma py_eq_PNone [simp]: "py_eq v PNone = (v = PNone)"
  by (cases v) auto

text \<open>\<open>x in xs\<close> for a list.\<close>

definition py_in :: "py \<Rightarrow> py list \<Rightarrow> bool" where
  "py_in x xs = (\<exists>y \<in> set xs. py_eq y x)"

text \<open>A value stored under a key of a dictionary, which keeps an existing key's place.\<close>

fun dset :: "('k \<times> 'v) list \<Rightarrow> 'k \<Rightarrow> 'v \<Rightarrow> ('k \<times> 'v) list" where
  "dset [] k v = [(k, v)]"
| "dset ((k', v') # d) k v = (if k' = k then (k, v) # d else (k', v') # dset d k v)"

definition ddel :: "('k \<times> 'v) list \<Rightarrow> 'k \<Rightarrow> ('k \<times> 'v) list" where
  "ddel d k = filter (\<lambda>kv. fst kv \<noteq> k) d"

lemma map_of_dset [simp, dict_simps]: "map_of (dset d k v) = (map_of d)(k \<mapsto> v)"
  by (induction d k v rule: dset.induct) (auto simp: fun_eq_iff)

lemma map_of_ddel [simp, dict_simps]: "map_of (ddel d k) = (map_of d)(k := None)"
  by (induction d) (auto simp: ddel_def fun_eq_iff)

lemma keys_dset: "fst ` set (dset d k v) = insert k (fst ` set d)"
  by (induction d k v rule: dset.induct) auto

lemma distinct_dset: "distinct (map fst d) \<Longrightarrow> distinct (map fst (dset d k v))"
proof (induction d k v rule: dset.induct)
  case (2 k' v' d k v)
  then show ?case using keys_dset [of d k v] by (auto simp: image_iff)
qed simp

lemma distinct_ddel: "distinct (map fst d) \<Longrightarrow> distinct (map fst (ddel d k))"
  by (simp add: ddel_def distinct_map_filter)

lemma length_dset_le: "length (dset d k v) \<le> Suc (length d)"
  by (induction d k v rule: dset.induct) auto

subsection \<open>Walks over a list\<close>

text \<open>Going through the list, everything satisfies \<open>P\<close> until an element that satisfies \<open>Q\<close>.\<close>

definition reaches :: "('a \<Rightarrow> bool) \<Rightarrow> ('a \<Rightarrow> bool) \<Rightarrow> 'a list \<Rightarrow> bool" where
  "reaches P Q xs \<longleftrightarrow> (\<exists>pre x post. xs = pre @ x # post \<and> list_all P pre \<and> Q x)"

lemma reaches_Nil [simp]: "\<not> reaches P Q []"
  by (simp add: reaches_def)

lemma reaches_Cons [simp]: "reaches P Q (x # xs) \<longleftrightarrow> Q x \<or> (P x \<and> reaches P Q xs)"
proof
  assume "reaches P Q (x # xs)"
  then obtain pre y post where h: "x # xs = pre @ y # post" "list_all P pre" "Q y"
    by (auto simp: reaches_def)
  then show "Q x \<or> (P x \<and> reaches P Q xs)" by (cases pre) (auto simp: reaches_def)
next
  assume "Q x \<or> (P x \<and> reaches P Q xs)"
  then show "reaches P Q (x # xs)"
  proof
    assume "Q x"
    then show ?thesis unfolding reaches_def by (intro exI [of _ "[]"] exI [of _ x] exI [of _ xs]) simp
  next
    assume "P x \<and> reaches P Q xs"
    then obtain pre y post where "P x" "xs = pre @ y # post" "list_all P pre" "Q y"
      by (auto simp: reaches_def)
    then show ?thesis unfolding reaches_def by (intro exI [of _ "x # pre"] exI [of _ y] exI [of _ post]) simp
  qed
qed

lemma reaches_rev:
  "reaches P Q (rev xs) \<longleftrightarrow> (\<exists>before x after. xs = before @ x # after \<and> list_all P after \<and> Q x)"
    (is "?l \<longleftrightarrow> ?r")
proof
  assume ?l
  then obtain pre x post where h: "rev xs = pre @ x # post" "list_all P pre" "Q x" by (auto simp: reaches_def)
  then have "xs = rev post @ x # rev pre" by (simp add: rev_swap)
  with h show ?r by (metis list_all_rev)
next
  assume ?r
  then obtain before x after where h: "xs = before @ x # after" "list_all P after" "Q x" by blast
  then have "rev xs = rev after @ x # rev before" by simp
  with h show ?l unfolding reaches_def by (metis list_all_rev)
qed

end
