(* ===== verification/Predicates.thy ===== *)
theory Predicates
  imports Prelude
begin

text \<open>
  The closed set of argument predicates a policy rule may name
  (\<open>backend/app/policy/predicates.py\<close>) and the one normaliser of tool names
  (\<open>omniharness/tools/names.py\<close>).

  Every predicate answers "is this argument SAFE". Its result is \<open>Some b\<close> when the Python
  function returns \<open>b\<close> and \<open>None\<close> when it raises; the caller treats both \<open>Some False\<close> and
  \<open>None\<close> as not safe. The lemmas show what a positive answer of the SQL predicate guarantees
  about the statement's text, and that the name normaliser is idempotent.
\<close>

subsection \<open>Tool names\<close>

definition dash_to_underscore :: "char \<Rightarrow> char" where
  "dash_to_underscore c = (if c = CHR ''-'' then CHR ''_'' else c)"

definition canonical_tool_name :: "string \<Rightarrow> string" where
  "canonical_tool_name name = map dash_to_underscore (py_lower (py_strip name))"

lemma space_dash [text_simps]: "py_isspace (dash_to_underscore c) = py_isspace c"
  by (simp add: dash_to_underscore_def py_isspace_def code_of_def)

lemma lower_dash [text_simps]: "lower_char (dash_to_underscore (lower_char c)) = dash_to_underscore (lower_char c)"
proof (cases "lower_char c = CHR ''-''")
  case True
  then show ?thesis by (simp add: dash_to_underscore_def) (simp add: lower_char_def code_of_def)
next
  case False
  then show ?thesis by (simp add: dash_to_underscore_def text_simps)
qed

lemma dash_idem [text_simps]: "dash_to_underscore (dash_to_underscore c) = dash_to_underscore c"
  by (simp add: dash_to_underscore_def)

lemma canonical_as_map: "canonical_tool_name s = map (dash_to_underscore \<circ> lower_char) (py_strip s)"
  by (simp add: canonical_tool_name_def py_lower_def)

lemma canonical_tool_name_idem: "canonical_tool_name (canonical_tool_name s) = canonical_tool_name s"
proof -
  let ?f = "dash_to_underscore \<circ> lower_char"
  have sp: "py_isspace (?f c) = py_isspace c" for c by (simp add: text_simps)
  have "py_strip (map ?f (py_strip s)) = map ?f (py_strip (py_strip s))"
    unfolding py_strip_def by (rule strip_by_map) (rule sp)
  then have "py_strip (canonical_tool_name s) = map ?f (py_strip s)"
    by (simp add: canonical_as_map py_strip_def strip_by_idem)
  moreover have "map ?f (map ?f xs) = map ?f xs" for xs
    by (simp add: text_simps)
  ultimately show ?thesis by (simp only: canonical_as_map)
qed

lemma canonical_ignores_case: "canonical_tool_name (py_lower s) = canonical_tool_name s"
proof -
  have "py_strip (map lower_char s) = map lower_char (py_strip s)"
    unfolding py_strip_def by (rule strip_by_map) (simp add: text_simps)
  then show ?thesis by (simp add: canonical_tool_name_def py_lower_def text_simps)
qed

lemma canonical_ignores_dash: "canonical_tool_name (map dash_to_underscore s) = canonical_tool_name s"
proof -
  have "py_strip (map dash_to_underscore s) = map dash_to_underscore (py_strip s)"
    unfolding py_strip_def by (rule strip_by_map) (simp add: text_simps)
  moreover have "dash_to_underscore (lower_char (dash_to_underscore c)) = dash_to_underscore (lower_char c)" for c
    by (cases "c = CHR ''-''") (auto simp: dash_to_underscore_def lower_char_def code_of_def)
  ultimately show ?thesis by (simp add: canonical_as_map comp_def)
qed

subsection \<open>Read-only SQL\<close>

text \<open>The text after the first \<open>*/\<close>, the end of a block comment.\<close>

fun after_close :: "string \<Rightarrow> string option" where
  "after_close [] = None"
| "after_close [c] = None"
| "after_close (c # d # s) =
     (if c = CHR ''*'' \<and> d = CHR ''/'' then Some s else after_close (d # s))"

lemma after_close_length: "after_close s = Some r \<Longrightarrow> length r < length s"
  by (induction s rule: after_close.induct) (auto split: if_splits)

text \<open>\<open>_LEADING_COMMENTS.sub("", s)\<close>: white space, line comments and block comments at the start.\<close>

function skip_leading :: "string \<Rightarrow> string" where
  "skip_leading s =
     (if s = [] then []
      else if py_isspace (hd s) then skip_leading (tl s)
      else if starts_with s ''--'' then
        (case dropWhile (\<lambda>c. c \<noteq> newline) s of
           [] \<Rightarrow> s
         | _ # r \<Rightarrow> skip_leading r)
      else if starts_with s ''/*'' then
        (case after_close (drop 2 s) of None \<Rightarrow> s | Some r \<Rightarrow> skip_leading r)
      else s)"
  by pat_completeness auto
termination
proof (relation "measure length", goal_cases)
  case (3 s x r)
  then have "length (x # r) \<le> length s"
    by (metis length_dropWhile_le)
  then show ?case by simp
next
  case (4 s r)
  then show ?case using after_close_length [of "drop 2 s" r] by simp
qed (auto simp: neq_Nil_conv)

declare skip_leading.simps [simp del]

text \<open>\<open>re.search(r"\bw\b", s, re.I)\<close> for a word \<open>w\<close> in lower case; \<open>prev\<close> tells whether a word
  character precedes \<open>s\<close>.\<close>

fun has_word :: "string \<Rightarrow> bool \<Rightarrow> string \<Rightarrow> bool" where
  "has_word w prev [] = False"
| "has_word w prev (c # s) =
     ((\<not> prev \<and> starts_with (py_lower (c # s)) w
       \<and> (case drop (length w) (c # s) of [] \<Rightarrow> True | d # _ \<Rightarrow> \<not> py_isword d))
      \<or> has_word w (py_isword c) s)"

definition statement_body :: "string \<Rightarrow> string" where
  "statement_body s = py_strip (rstrip_by (\<lambda>c. c = CHR '';'') (py_strip (skip_leading s)))"

definition read_only_sql :: "py \<Rightarrow> bool option" where
  "read_only_sql v = Some (case v of
     PStr s \<Rightarrow>
       (let text = py_strip (skip_leading s); body = statement_body s in
        if text = [] then False
        else if CHR '';'' \<in> set body then False
        else if \<not> starts_with (py_lower body) ''select'' then False
        else \<not> has_word ''into'' False body)
   | _ \<Rightarrow> False)"

text \<open>What precedes the statement is only white space and comments.\<close>

inductive sql_blank :: "string \<Rightarrow> bool" where
  blank_nil: "sql_blank []"
| blank_space: "py_isspace c \<Longrightarrow> sql_blank s \<Longrightarrow> sql_blank (c # s)"
| blank_line: "newline \<notin> set l \<Longrightarrow> sql_blank s \<Longrightarrow> sql_blank (''--'' @ l @ newline # s)"
| blank_block: "after_close (b @ ''*/'') = Some [] \<Longrightarrow> sql_blank s \<Longrightarrow> sql_blank (''/*'' @ b @ ''*/'' @ s)"

lemma starts_with_split: "starts_with s p \<Longrightarrow> s = p @ drop (length p) s"
  by (metis append_take_drop_id starts_with_def)

lemma after_close_split:
  "after_close s = Some r \<Longrightarrow> \<exists>b. s = b @ ''*/'' @ r \<and> after_close (b @ ''*/'') = Some []"
proof (induction s rule: after_close.induct)
  case (3 c d s)
  show ?case
  proof (cases "c = CHR ''*'' \<and> d = CHR ''/''")
    case True
    with "3.prems" show ?thesis by (intro exI [of _ "[]"]) simp
  next
    case False
    with 3 obtain b where b: "d # s = b @ ''*/'' @ r" "after_close (b @ ''*/'') = Some []" by auto
    have "after_close (c # b @ ''*/'') = Some []"
      using b False by (cases b) auto
    with b show ?thesis by (intro exI [of _ "c # b"]) simp
  qed
qed auto

lemma skip_leading_blank: "\<exists>p. s = p @ skip_leading s \<and> sql_blank p"
proof (induction s rule: skip_leading.induct)
  case (1 s)
  consider (nil) "s = []" | (space) "s \<noteq> []" "py_isspace (hd s)"
    | (line) "s \<noteq> []" "\<not> py_isspace (hd s)" "starts_with s ''--''"
    | (block) "s \<noteq> []" "\<not> py_isspace (hd s)" "\<not> starts_with s ''--''" "starts_with s ''/*''"
    | (other) "s \<noteq> []" "\<not> py_isspace (hd s)" "\<not> starts_with s ''--''" "\<not> starts_with s ''/*''"
    by blast
  then show ?case
  proof cases
    case nil
    then show ?thesis by (simp add: skip_leading.simps [of "[]"] blank_nil)
  next
    case space
    with "1.IH"(1) obtain p where "tl s = p @ skip_leading (tl s)" "sql_blank p" by blast
    then show ?thesis using space
      by (intro exI [of _ "hd s # p"]) (auto simp: skip_leading.simps [of s] neq_Nil_conv intro: blank_space)
  next
    case line
    show ?thesis
    proof (cases "dropWhile (\<lambda>c. c \<noteq> newline) s")
      case Nil
      then have "skip_leading s = s"
        using line by (simp add: skip_leading.simps [of s] del: dropWhile_eq_Nil_conv)
      then show ?thesis by (intro exI [of _ "[]"]) (simp add: blank_nil)
    next
      case (Cons x r)
      with line "1.IH"(2) obtain p where p: "r = p @ skip_leading r" "sql_blank p" by blast
      have x: "x = newline" using Cons by (metis (mono_tags, lifting) dropWhile_eq_Cons_conv)
      obtain l where l: "s = ''--'' @ l" using line(3) starts_with_split by fastforce
      have nn: "newline \<noteq> CHR ''-''" by (simp add: newline_def)
      then have dl: "dropWhile (\<lambda>c. c \<noteq> newline) l = newline # r" using Cons l x by simp
      then have "l = takeWhile (\<lambda>c. c \<noteq> newline) l @ newline # r"
        by (metis takeWhile_dropWhile_id)
      moreover have "newline \<notin> set (takeWhile (\<lambda>c. c \<noteq> newline) l)"
        using set_takeWhileD [of newline "\<lambda>c. c \<noteq> newline" l] by blast
      ultimately obtain l' where l': "l = l' @ newline # r" "newline \<notin> set l'" by blast
      have "skip_leading s = skip_leading r"
        using line Cons by (simp add: skip_leading.simps [of s])
      then have "s = (''--'' @ l' @ newline # p) @ skip_leading s" using l l' p by simp
      then show ?thesis using blank_line [OF l'(2) p(2)] by blast
    qed
  next
    case block
    show ?thesis
    proof (cases "after_close (drop 2 s)")
      case None
      with block show ?thesis by (intro exI [of _ "[]"]) (simp add: skip_leading.simps [of s] blank_nil)
    next
      case (Some r)
      with block "1.IH"(3) obtain p where p: "r = p @ skip_leading r" "sql_blank p" by blast
      obtain b where b: "drop 2 s = b @ ''*/'' @ r" "after_close (b @ ''*/'') = Some []"
        using after_close_split [OF Some] by blast
      have "s = ''/*'' @ drop 2 s" using starts_with_split [OF block(4)] by (simp add: numeral_2_eq_2)
      with b p have "s = (''/*'' @ b @ ''*/'' @ p) @ skip_leading r" by simp
      moreover have "skip_leading s = skip_leading r"
        using block Some by (simp add: skip_leading.simps [of s])
      ultimately show ?thesis using blank_block [OF b(2) p(2)] by metis
    qed
  next
    case other
    then show ?thesis by (intro exI [of _ "[]"]) (simp add: skip_leading.simps [of s] blank_nil)
  qed
qed

lemma rstrip_by_split: "\<exists>q. s = rstrip_by P s @ q \<and> (\<forall>c \<in> set q. P c)"
proof -
  have "rev s = takeWhile P (rev s) @ dropWhile P (rev s)" by simp
  then have "s = rev (dropWhile P (rev s)) @ rev (takeWhile P (rev s))" by (metis rev_append rev_rev_ident)
  moreover have "\<forall>c \<in> set (rev (takeWhile P (rev s))). P c" by (auto dest: set_takeWhileD)
  ultimately show ?thesis unfolding rstrip_by_def by blast
qed

lemma strip_by_split:
  "\<exists>p q. s = p @ strip_by P s @ q \<and> (\<forall>c \<in> set p. P c) \<and> (\<forall>c \<in> set q. P c)"
proof -
  obtain q where q: "dropWhile P s = rstrip_by P (dropWhile P s) @ q" "\<forall>c \<in> set q. P c"
    using rstrip_by_split by blast
  have "s = takeWhile P s @ dropWhile P s" by simp
  with q have "s = takeWhile P s @ strip_by P s @ q" by (metis strip_by_def)
  then show ?thesis using q(2) by (metis set_takeWhileD)
qed

lemma sql_blank_append: "sql_blank p \<Longrightarrow> \<forall>c \<in> set q. py_isspace c \<Longrightarrow> sql_blank (p @ q)"
proof (induction rule: sql_blank.induct)
  case blank_nil
  then show ?case by (induction q) (auto intro: sql_blank.intros)
next
  case (blank_space c s)
  then show ?case by (auto intro: sql_blank.blank_space)
next
  case (blank_line l s)
  then show ?case using sql_blank.blank_line [of l "s @ q"] by simp
next
  case (blank_block b s)
  then show ?case using sql_blank.blank_block [of b "s @ q"] by simp
qed

text \<open>The statement judged is the text without leading blanks and trailing semicolons.\<close>

lemma statement_body_split:
  "\<exists>pre post. s = pre @ statement_body s @ post \<and> sql_blank pre
     \<and> (\<forall>c \<in> set post. c = CHR '';'' \<or> py_isspace c)"
proof -
  let ?semi = "\<lambda>c. c = CHR '';''"
  obtain p0 where p0: "s = p0 @ skip_leading s" "sql_blank p0" using skip_leading_blank by blast
  obtain p1 q1 where 1: "skip_leading s = p1 @ py_strip (skip_leading s) @ q1"
    "\<forall>c \<in> set p1. py_isspace c" "\<forall>c \<in> set q1. py_isspace c"
    using strip_by_split unfolding py_strip_def by blast
  obtain q2 where 2: "py_strip (skip_leading s) = rstrip_by ?semi (py_strip (skip_leading s)) @ q2"
    "\<forall>c \<in> set q2. ?semi c"
    using rstrip_by_split by blast
  obtain p3 q3 where 3: "rstrip_by ?semi (py_strip (skip_leading s)) = p3 @ statement_body s @ q3"
    "\<forall>c \<in> set p3. py_isspace c" "\<forall>c \<in> set q3. py_isspace c"
    using strip_by_split unfolding statement_body_def py_strip_def by blast
  have "s = (p0 @ p1 @ p3) @ statement_body s @ (q3 @ q2 @ q1)"
    using p0(1) 1(1) 2(1) 3(1) by (metis append.assoc)
  moreover have "sql_blank (p0 @ p1 @ p3)"
    using sql_blank_append [OF p0(2), of "p1 @ p3"] 1(2) 3(2) by auto
  moreover have "\<forall>c \<in> set (q3 @ q2 @ q1). ?semi c \<or> py_isspace c"
    using 1(3) 2(2) 3(3) by auto
  ultimately show ?thesis by blast
qed

subsection \<open>Branches, flags and ledger changes\<close>

definition DEFAULT_BRANCHES :: "string list" where
  "DEFAULT_BRANCHES = [''main'', ''master'', ''trunk'', ''default'', ''develop'', ''development'',
     ''prod'', ''production'', ''release'']"

definition branch_is_not_default :: "py \<Rightarrow> bool option" where
  "branch_is_not_default v = Some (case v of
     PStr s \<Rightarrow>
       (let branch = strip_by (\<lambda>c. c = CHR ''/'') (removeprefix (py_strip s) ''refs/heads/'') in
        if branch = [] then False else py_lower branch \<notin> set DEFAULT_BRANCHES)
   | _ \<Rightarrow> False)"

definition explicitly_true :: "py \<Rightarrow> bool option" where
  "explicitly_true v = Some (v = PBool True)"

definition REVERSIBLE_LEDGER_OPS :: "string list" where
  "REVERSIBLE_LEDGER_OPS = [''create_task'', ''update_task'', ''add_note'']"

text \<open>An unhashable \<open>op\<close> (a list or a dictionary) raises in the set membership test.\<close>

fun all_reversible :: "py list \<Rightarrow> bool option" where
  "all_reversible [] = Some True"
| "all_reversible (PDict d # cs) =
     (case dget d ''op'' of
        PStr s \<Rightarrow> if s \<in> set REVERSIBLE_LEDGER_OPS then all_reversible cs else Some False
      | PList _ \<Rightarrow> None
      | PDict _ \<Rightarrow> None
      | _ \<Rightarrow> Some False)"
| "all_reversible (_ # cs) = Some False"

definition ledger_changes_reversible :: "py \<Rightarrow> bool option" where
  "ledger_changes_reversible v =
     (case v of PList cs \<Rightarrow> if cs = [] then Some False else all_reversible cs | _ \<Rightarrow> Some False)"

lemma all_reversible_sound:
  "all_reversible cs = Some True \<Longrightarrow> c \<in> set cs \<Longrightarrow>
     \<exists>d s. c = PDict d \<and> dget d ''op'' = PStr s \<and> s \<in> set REVERSIBLE_LEDGER_OPS"
  by (induction cs rule: all_reversible.induct) (auto split: py.splits if_splits)

text \<open>The whole vocabulary a rules file may name.\<close>

definition PREDICATES :: "string \<rightharpoonup> (py \<Rightarrow> bool option)" where
  "PREDICATES = map_of
     [(''read_only_sql'', read_only_sql),
      (''branch_is_not_default'', branch_is_not_default),
      (''explicitly_true'', explicitly_true),
      (''ledger_changes_reversible'', ledger_changes_reversible)]"

end
