(* ===== verification/Datetimes.thy ===== *)
theory Datetimes
  imports Prelude
begin

text \<open>
  The part of Python's \<open>datetime\<close> the program uses. An aware datetime is the instant it
  denotes: an integer number of microseconds, day 1 being 1 January of year 1 (the proleptic
  Gregorian ordinal), so that comparing and subtracting instants is integer arithmetic. The
  civil date of an ordinal and the ordinal of a civil date follow CPython's \<open>_ord2ymd\<close> and
  \<open>_ymd2ord\<close>; \<open>isoformat\<close> and \<open>fromisoformat\<close> are given for UTC datetimes, and the lemmas show
  that they are inverse to each other.
\<close>

type_synonym instant = int

definition seconds :: "int \<Rightarrow> int" where
  "seconds n = n * 1000000"

definition day_us :: int where
  "day_us = 86400000000"

subsection \<open>Calendar\<close>

definition is_leap :: "int \<Rightarrow> bool" where
  "is_leap y = (y mod 4 = 0 \<and> (y mod 100 \<noteq> 0 \<or> y mod 400 = 0))"

definition days_before_year :: "int \<Rightarrow> int" where
  "days_before_year y = (y - 1) * 365 + (y - 1) div 4 - (y - 1) div 100 + (y - 1) div 400"

definition month_lengths :: "bool \<Rightarrow> int list" where
  "month_lengths leap = [31, if leap then 29 else 28, 31, 30, 31, 30, 31, 31, 30, 31, 30, 31]"

definition ymd2ord :: "int \<Rightarrow> nat \<Rightarrow> int \<Rightarrow> int" where
  "ymd2ord y m d = days_before_year y + sum_list (take (m - 1) (month_lengths (is_leap y))) + d"

text \<open>The month and the day in it of the day numbered \<open>n\<close> (from 0) of a year.\<close>

fun month_day :: "nat \<Rightarrow> int list \<Rightarrow> int \<Rightarrow> nat \<times> int" where
  "month_day m [] n = (m, n + 1)"
| "month_day m (l # ls) n = (if n < l then (m, n + 1) else month_day (Suc m) ls (n - l))"

definition ord2ymd :: "int \<Rightarrow> int \<times> nat \<times> int" where
  "ord2ymd ordinal =
     (let n = ordinal - 1;
          n400 = n div 146097; n = n mod 146097;
          n100 = n div 36524; n = n mod 36524;
          n4 = n div 1461; n = n mod 1461;
          n1 = n div 365; n = n mod 365;
          year = n400 * 400 + 1 + n100 * 100 + n4 * 4 + n1
      in if n1 = 4 \<or> n100 = 4 then (year - 1, 12, 31)
         else (let (m, d) = month_day 1 (month_lengths (is_leap year)) n in (year, m, d)))"

lemma month_day_sound:
  "0 \<le> n \<Longrightarrow> n < sum_list ls \<Longrightarrow> month_day m ls n = (m', d) \<Longrightarrow>
     m \<le> m' \<and> m' < m + length ls \<and> sum_list (take (m' - m) ls) + d = n + 1 \<and> 1 \<le> d
     \<and> d \<le> ls ! (m' - m)"
proof (induction m ls n arbitrary: m' d rule: month_day.induct)
  case (2 m l ls n)
  show ?case
  proof (cases "n < l")
    case True
    with 2 show ?thesis by auto
  next
    case False
    then have "Suc m \<le> m' \<and> m' < Suc m + length ls \<and> sum_list (take (m' - Suc m) ls) + d = n - l + 1 \<and> 1 \<le> d
        \<and> d \<le> ls ! (m' - Suc m)"
      using 2 by auto
    moreover from this obtain k where "m' = Suc m + k" using le_Suc_ex by blast
    ultimately show ?thesis by auto
  qed
qed simp

lemma sum_month_lengths: "sum_list (month_lengths leap) = (if leap then 366 else 365)"
  by (simp add: month_lengths_def)

lemma div_mod_add_mult:
  assumes "0 \<le> r" "r < (k::int)"
  shows "(r + k * x) div k = x" "(r + k * x) mod k = r"
  using assms by (simp_all add: mod_pos_pos_trivial div_pos_pos_trivial)

lemma leap_of_parts:
  assumes "0 \<le> a" "a < 4" "0 \<le> b" "b < 25" "0 \<le> c" "c < 4"
  shows "is_leap (q * 400 + 1 + a * 100 + b * 4 + c) = (c = 3 \<and> (b \<noteq> 24 \<or> a = 3))"
proof (cases "c = 3")
  case False
  let ?y = "q * 400 + 1 + a * 100 + b * 4 + c"
  have "(c + 1 + 4 * (q * 100 + a * 25 + b)) mod 4 = c + 1"
    using assms False by (intro div_mod_add_mult(2)) auto
  moreover have "?y = c + 1 + 4 * (q * 100 + a * 25 + b)" by simp
  ultimately have "?y mod 4 = c + 1" by (simp only:)
  then show ?thesis using False assms by (simp add: is_leap_def)
next
  case True
  let ?y = "q * 400 + 4 + a * 100 + b * 4"
  have y: "q * 400 + 1 + a * 100 + b * 4 + c = ?y" using True by simp
  have m4: "?y mod 4 = 0"
    using div_mod_add_mult(2) [of 0 4 "q * 100 + 1 + a * 25 + b"] by (simp add: algebra_simps)
  show ?thesis
  proof (cases "b = 24")
    case False
    then have "?y mod 100 = b * 4 + 4"
      using div_mod_add_mult(2) [of "b * 4 + 4" 100 "q * 4 + a"] assms by (simp add: algebra_simps)
    then show ?thesis unfolding is_leap_def y using m4 True False assms by simp
  next
    case b24: True
    have m100: "?y mod 100 = 0"
      using div_mod_add_mult(2) [of 0 100 "q * 4 + a + 1"] b24 by (simp add: algebra_simps)
    show ?thesis
    proof (cases "a = 3")
      case True
      then have "?y mod 400 = 0"
        using div_mod_add_mult(2) [of 0 400 "q + 1"] b24 by (simp add: algebra_simps)
      then show ?thesis unfolding is_leap_def y using m4 \<open>c = 3\<close> True by simp
    next
      case False
      then have "?y mod 400 = a * 100 + 100"
        using div_mod_add_mult(2) [of "a * 100 + 100" 400 q] b24 assms by (simp add: algebra_simps)
      then show ?thesis unfolding is_leap_def y using m4 m100 \<open>c = 3\<close> b24 False assms by simp
    qed
  qed
qed

lemma days_before_year_parts:
  assumes "0 \<le> a" "a < 4" "0 \<le> b" "b < 25" "0 \<le> c" "c < 4"
  shows "days_before_year (q * 400 + 1 + a * 100 + b * 4 + c)
           = q * 146097 + a * 36524 + b * 1461 + c * 365"
proof -
  let ?z = "q * 400 + a * 100 + b * 4 + c"
  have "?z div 4 = q * 100 + a * 25 + b"
    using div_mod_add_mult(1) [of c 4 "q * 100 + a * 25 + b"] assms by (simp add: algebra_simps)
  moreover have "?z div 100 = q * 4 + a"
    using div_mod_add_mult(1) [of "b * 4 + c" 100 "q * 4 + a"] assms by (simp add: algebra_simps)
  moreover have "?z div 400 = q"
    using div_mod_add_mult(1) [of "a * 100 + b * 4 + c" 400 q] assms by (simp add: algebra_simps)
  ultimately show ?thesis by (simp add: days_before_year_def algebra_simps)
qed

text \<open>The ordinal of the civil date of an ordinal is that ordinal.\<close>

lemma ymd2ord_ord2ymd:
  assumes "ord2ymd z = (y, m, d)"
  shows "ymd2ord y m d = z \<and> 1 \<le> m \<and> m \<le> 12 \<and> 1 \<le> d \<and> d \<le> month_lengths (is_leap y) ! (m - 1)"
proof -
  define q where "q = (z - 1) div 146097"
  define r where "r = (z - 1) mod 146097"
  define a where "a = r div 36524"
  define s where "s = r mod 36524"
  define b where "b = s div 1461"
  define t where "t = s mod 1461"
  define c where "c = t div 365"
  define n where "n = t mod 365"
  have z: "z = q * 146097 + a * 36524 + b * 1461 + c * 365 + n + 1"
    using mult_div_mod_eq [of 146097 "z - 1"] mult_div_mod_eq [of 36524 r]
      mult_div_mod_eq [of 1461 s] mult_div_mod_eq [of 365 t]
    unfolding q_def r_def a_def s_def b_def t_def c_def n_def by linarith
  have rb: "0 \<le> r" "r < 146097" unfolding r_def by simp_all
  have sb: "0 \<le> s" "s < 36524" unfolding s_def by simp_all
  have tb: "0 \<le> t" "t < 1461" unfolding t_def by simp_all
  have nb: "0 \<le> n" "n < 365" unfolding n_def by simp_all
  have ab: "0 \<le> a" "a \<le> 4" unfolding a_def using rb by (simp_all add: pos_imp_zdiv_nonneg_iff)
  have bb: "0 \<le> b" "b < 25" unfolding b_def using sb by (simp_all add: pos_imp_zdiv_nonneg_iff)
  have cb: "0 \<le> c" "c \<le> 4" unfolding c_def using tb by (simp_all add: pos_imp_zdiv_nonneg_iff)
  have a4: "a = 4 \<Longrightarrow> s = 0" using mult_div_mod_eq [of 36524 r] rb sb unfolding a_def s_def by linarith
  have c4: "c = 4 \<Longrightarrow> n = 0" using mult_div_mod_eq [of 365 t] tb nb unfolding c_def n_def by linarith
  define year where "year = q * 400 + 1 + a * 100 + b * 4 + c"
  have o: "ord2ymd z = (if c = 4 \<or> a = 4 then (year - 1, 12, 31)
      else (let (m, d) = month_day 1 (month_lengths (is_leap year)) n in (year, m, d)))"
    unfolding ord2ymd_def year_def q_def r_def a_def s_def b_def t_def c_def n_def by (simp only: Let_def)
  have dec: "sum_list (take 11 (month_lengths True)) = 335" "month_lengths True ! 11 = 31"
    by (simp_all add: month_lengths_def)
  show ?thesis
  proof (cases "a = 4")
    case True
    then have "s = 0" by (rule a4)
    then have "b = 0" "t = 0" unfolding b_def t_def by simp_all
    then have "c = 0" "n = 0" unfolding c_def n_def by simp_all
    have y: "y = q * 400 + 1 + 3 * 100 + 24 * 4 + 3" "m = 12" "d = 31"
      using assms o True \<open>b = 0\<close> \<open>c = 0\<close> unfolding year_def by simp_all
    have "is_leap y" using leap_of_parts [of 3 24 3 q] y by simp
    moreover have "days_before_year y = q * 146097 + 3 * 36524 + 24 * 1461 + 3 * 365"
      using days_before_year_parts [of 3 24 3 q] y by simp
    ultimately show ?thesis
      using z True \<open>b = 0\<close> \<open>c = 0\<close> \<open>n = 0\<close> y(2,3) dec by (simp add: ymd2ord_def)
  next
    case a3: False
    show ?thesis
    proof (cases "c = 4")
      case True
      then have n0: "n = 0" by (rule c4)
      have b24: "b \<noteq> 24 \<or> a = 3"
      proof (rule ccontr)
        assume "\<not> ?thesis"
        then have "b = 24" by simp
        have "s = 1461 * b + t" "t = 365 * c + n"
          unfolding b_def t_def c_def n_def by simp_all
        with sb nb True \<open>b = 24\<close> show False by simp
      qed
      have y: "y = q * 400 + 1 + a * 100 + b * 4 + 3" "m = 12" "d = 31"
        using assms o True unfolding year_def by simp_all
      have "is_leap y" using leap_of_parts [of a b 3 q] y ab a3 bb b24 by simp
      moreover have "days_before_year y = q * 146097 + a * 36524 + b * 1461 + 3 * 365"
        using days_before_year_parts [of a b 3 q] y ab a3 bb by simp
      ultimately show ?thesis using z True n0 y(2,3) dec by (simp add: ymd2ord_def)
    next
      case c3: False
      have ab': "a < 4" using a3 ab by simp
      have cb': "c < 4" using c3 cb by simp
      have y: "y = year" and md: "month_day 1 (month_lengths (is_leap year)) n = (m, d)"
        using assms o a3 c3 by (auto split: prod.splits)
      have "n < sum_list (month_lengths (is_leap year))"
        using nb by (simp add: sum_month_lengths)
      from month_day_sound [OF nb(1) this md]
      have "1 \<le> m" "m < 13" "sum_list (take (m - 1) (month_lengths (is_leap year))) + d = n + 1" "1 \<le> d"
        "d \<le> month_lengths (is_leap year) ! (m - 1)"
        by (auto simp: month_lengths_def)
      moreover have "days_before_year year = q * 146097 + a * 36524 + b * 1461 + c * 365"
        unfolding year_def by (rule days_before_year_parts) (use ab ab' bb cb cb' in auto)
      ultimately show ?thesis using z y by (simp add: ymd2ord_def)
    qed
  qed
qed

subsection \<open>ISO text of UTC datetimes\<close>

definition digit :: "nat \<Rightarrow> char" where
  "digit n = char_of (48 + n)"

text \<open>The last \<open>k\<close> decimal digits of a number.\<close>

fun pad_num :: "nat \<Rightarrow> nat \<Rightarrow> string" where
  "pad_num 0 n = []"
| "pad_num (Suc k) n = pad_num k (n div 10) @ [digit (n mod 10)]"

definition parse_num :: "string \<Rightarrow> nat option" where
  "parse_num s = (if s \<noteq> [] \<and> list_all py_isdigit09 s
     then Some (foldl (\<lambda>acc c. acc * 10 + (code_of c - 48)) 0 s) else None)"

lemma length_pad_num [simp]: "length (pad_num k n) = k"
  by (induction k arbitrary: n) auto

lemma code_of_digit: "n < 10 \<Longrightarrow> code_of (digit n) = 48 + n"
  by (simp add: digit_def code_of_char_of)

lemma list_all_pad_num: "list_all py_isdigit09 (pad_num k n)"
  by (induction k arbitrary: n) (auto simp: py_isdigit09_def code_of_digit)

lemma fold_pad_num:
  "foldl (\<lambda>acc c. acc * 10 + (code_of c - 48)) 0 (pad_num k n) = n mod 10 ^ k"
proof (induction k arbitrary: n)
  case (Suc k)
  have "n mod 10 ^ Suc k = n div 10 mod 10 ^ k * 10 + n mod 10"
    by (metis mod_mult2_eq mult.commute power_Suc)
  with Suc show ?case by (simp add: code_of_digit)
qed simp

lemma parse_pad_num: "0 < k \<Longrightarrow> n < 10 ^ k \<Longrightarrow> parse_num (pad_num k n) = Some n"
  using length_pad_num [of k n]
  by (auto simp: parse_num_def list_all_pad_num fold_pad_num simp del: length_pad_num)

definition isoformat :: "instant \<Rightarrow> string" where
  "isoformat t =
     (let (y, m, d) = ord2ymd (t div day_us);
          us = nat (t mod day_us); secs = us div 1000000; frac = us mod 1000000
      in pad_num 4 (nat y) @ ''-'' @ pad_num 2 m @ ''-'' @ pad_num 2 (nat d) @ ''T''
         @ pad_num 2 (secs div 3600) @ '':'' @ pad_num 2 (secs mod 3600 div 60) @ '':'' @ pad_num 2 (secs mod 60)
         @ (if frac = 0 then [] else ''.'' @ pad_num 6 frac) @ ''+00:00'')"

text \<open>The inverse on the texts \<open>isoformat\<close> writes; any other text is a \<open>ValueError\<close> (\<open>None\<close>).\<close>

definition fromisoformat :: "string \<Rightarrow> instant option" where
  "fromisoformat s =
     (let rest = drop 19 s; frac = (if rest = ''+00:00'' then Some 0
            else if take 1 rest = ''.'' \<and> drop 7 rest = ''+00:00'' then parse_num (take 6 (drop 1 rest))
            else None)
      in case (parse_num (take 4 s), parse_num (take 2 (drop 5 s)), parse_num (take 2 (drop 8 s)),
               parse_num (take 2 (drop 11 s)), parse_num (take 2 (drop 14 s)), parse_num (take 2 (drop 17 s)), frac) of
           (Some y, Some m, Some d, Some h, Some mi, Some sec, Some us) \<Rightarrow>
             if s ! 4 = CHR ''-'' \<and> s ! 7 = CHR ''-'' \<and> s ! 10 = CHR ''T'' \<and> s ! 13 = CHR '':'' \<and> s ! 16 = CHR '':''
                \<and> 1 \<le> y \<and> 1 \<le> m \<and> m \<le> 12 \<and> 1 \<le> d \<and> int d \<le> month_lengths (is_leap (int y)) ! (m - 1)
                \<and> h < 24 \<and> mi < 60 \<and> sec < 60
             then Some (ymd2ord (int y) m (int d) * day_us + int (h * 3600 + mi * 60 + sec) * 1000000 + int us)
             else None
         | _ \<Rightarrow> None)"

definition representable :: "instant \<Rightarrow> bool" where
  "representable t = (let (y, m, d) = ord2ymd (t div day_us) in 1 \<le> y \<and> y \<le> 9999)"

lemma month_lengths_le: "i < 12 \<Longrightarrow> month_lengths leap ! i \<le> 31"
  by (auto simp: month_lengths_def nth_Cons split: nat.splits)

lemma clock_parts:
  assumes "0 \<le> (r::nat)" "r < 86400000000"
  shows "r div 1000000 div 3600 < 24" "r div 1000000 mod 3600 div 60 < 60" "r div 1000000 mod 60 < 60"
    "(r div 1000000 div 3600 * 3600 + r div 1000000 mod 3600 div 60 * 60 + r div 1000000 mod 60) * 1000000
       + r mod 1000000 = r"
proof -
  let ?s = "r div 1000000"
  have s: "?s < 86400" using assms by simp
  then show "?s div 3600 < 24" by simp
  show "?s mod 3600 div 60 < 60" by simp
  show "?s mod 60 < 60" by simp
  have "?s mod 3600 mod 60 = ?s mod 60" by (rule mod_mod_cancel) simp
  moreover have "?s div 3600 * 3600 + ?s mod 3600 = ?s" by (rule div_mult_mod_eq)
  moreover have "?s mod 3600 div 60 * 60 + ?s mod 3600 mod 60 = ?s mod 3600" by (rule div_mult_mod_eq)
  ultimately have "?s div 3600 * 3600 + ?s mod 3600 div 60 * 60 + ?s mod 60 = ?s" by linarith
  then show "(?s div 3600 * 3600 + ?s mod 3600 div 60 * 60 + ?s mod 60) * 1000000 + r mod 1000000 = r"
    by (simp only: div_mult_mod_eq)
qed

lemma iso_parts:
  assumes "length Y = 4" "length M = 2" "length D = 2" "length H = 2" "length I = 2" "length S = 2"
    and s: "s = Y @ ''-'' @ M @ ''-'' @ D @ ''T'' @ H @ '':'' @ I @ '':'' @ S @ rest"
  shows "take 4 s = Y" "take 2 (drop 5 s) = M" "take 2 (drop 8 s) = D" "take 2 (drop 11 s) = H"
    "take 2 (drop 14 s) = I" "take 2 (drop 17 s) = S" "drop 19 s = rest"
    "s ! 4 = CHR ''-''" "s ! 7 = CHR ''-''" "s ! 10 = CHR ''T''" "s ! 13 = CHR '':''" "s ! 16 = CHR '':''"
  using assms(1-6) unfolding s by (simp_all add: nth_append)

lemma fromisoformat_isoformat:
  assumes "representable t"
  shows "fromisoformat (isoformat t) = Some t"
proof -
  obtain y m d where ymd: "ord2ymd (t div day_us) = (y, m, d)" by (cases "ord2ymd (t div day_us)") auto
  then have yb: "1 \<le> y" "y \<le> 9999" using assms by (auto simp: representable_def)
  note o = ymd2ord_ord2ymd [OF ymd]
  have d31: "d \<le> 31" using o month_lengths_le [of "m - 1" "is_leap y"] by fastforce
  define r where "r = nat (t mod day_us)"
  have rb: "r < 86400000000" by (simp add: r_def day_us_def nat_less_iff)
  have rt: "t = t div day_us * day_us + int r"
    by (simp add: r_def day_us_def)
  define h where "h = r div 1000000 div 3600"
  define mi where "mi = r div 1000000 mod 3600 div 60"
  define sec where "sec = r div 1000000 mod 60"
  define us where "us = r mod 1000000"
  note cp = clock_parts [OF _ rb, simplified, folded h_def mi_def sec_def us_def]
  have "sec < 60" by (simp add: sec_def)
  then have nums: "parse_num (pad_num 4 (nat y)) = Some (nat y)" "parse_num (pad_num 2 m) = Some m"
    "parse_num (pad_num 2 (nat d)) = Some (nat d)" "parse_num (pad_num 2 h) = Some h"
    "parse_num (pad_num 2 mi) = Some mi" "parse_num (pad_num 2 sec) = Some sec"
    "parse_num (pad_num 6 us) = Some us"
    using yb o d31 cp by (simp_all add: parse_pad_num us_def)
  note cp = cp \<open>sec < 60\<close>
  let ?frac = "if us = 0 then [] else ''.'' @ pad_num 6 us"
  have iso: "isoformat t = pad_num 4 (nat y) @ ''-'' @ pad_num 2 m @ ''-'' @ pad_num 2 (nat d) @ ''T''
         @ pad_num 2 h @ '':'' @ pad_num 2 mi @ '':'' @ pad_num 2 sec @ ?frac @ ''+00:00''"
    by (simp add: isoformat_def ymd Let_def r_def h_def mi_def sec_def us_def)
  have "(h * 3600 + mi * 60 + sec) * 1000000 + us = r"
    unfolding h_def mi_def sec_def us_def by (rule clock_parts(4) [OF _ rb]) simp
  then have "int ((h * 3600 + mi * 60 + sec) * 1000000 + us) = int r" by (simp only:)
  then have "int (h * 3600 + mi * 60 + sec) * 1000000 + int us = int r" by simp
  then have val: "ymd2ord y m d * day_us + int (h * 3600 + mi * 60 + sec) * 1000000 + int us = t"
    using o rt by simp
  define s where "s = isoformat t"
  note parts = iso_parts [OF length_pad_num length_pad_num length_pad_num length_pad_num
      length_pad_num length_pad_num iso, folded s_def]
  define rest where "rest = ?frac @ ''+00:00''"
  have frac: "(if rest = ''+00:00'' then Some 0
       else if take 1 rest = ''.'' \<and> drop 7 rest = ''+00:00'' then parse_num (take 6 (drop 1 rest))
       else None) = Some us"
    using nums(7) by (simp add: rest_def)
  have ok: "1 \<le> nat y" "1 \<le> m" "m \<le> 12" "1 \<le> nat d" "int (nat d) \<le> month_lengths (is_leap (int (nat y))) ! (m - 1)"
    "int (nat y) = y" "int (nat d) = d"
    using yb o by (simp_all add: Suc_le_eq)
  show ?thesis
    unfolding s_def [symmetric] fromisoformat_def Let_def parts rest_def [symmetric] frac nums
    using ok cp val by simp
qed

end
