(* ===== verification/Policy_Model.thy ===== *)
theory Policy_Model
  imports Predicates Datetimes
begin

text \<open>
  The entities of the policy engine (\<open>backend/app/policy/models.py\<close>): tiers and outcomes as
  datatypes, rules, decisions and pending actions as records, and their methods. A rule's
  \<open>when\<close> and \<open>unless\<close> are the mappings the dataclass declares them to be. The lemmas
  characterise when an exception applies: an \<open>unless\<close> exception applies exactly when safety is
  not established, whatever the reason.
\<close>

subsection \<open>Tiers\<close>

datatype tier = TIER_1 | TIER_2 | TIER_3

fun tier_int :: "tier \<Rightarrow> int" where
  "tier_int TIER_1 = 1"
| "tier_int TIER_2 = 2"
| "tier_int TIER_3 = 3"

lemma tier_int_inj [simp]: "tier_int a = tier_int b \<longleftrightarrow> a = b"
  by (cases a; cases b) auto

instantiation tier :: linorder
begin

definition less_eq_tier :: "tier \<Rightarrow> tier \<Rightarrow> bool" where
  "a \<le> b \<longleftrightarrow> tier_int a \<le> tier_int b"

definition less_tier :: "tier \<Rightarrow> tier \<Rightarrow> bool" where
  "a < b \<longleftrightarrow> tier_int a < tier_int b"

instance
  by standard (auto simp: less_eq_tier_def less_tier_def)

end

definition tier_of_int :: "int \<Rightarrow> tier option" where
  "tier_of_int n = (if n = 1 then Some TIER_1 else if n = 2 then Some TIER_2
     else if n = 3 then Some TIER_3 else None)"

lemma tier_le_3 [simp]: "t \<le> TIER_3"
  by (cases t) (auto simp: less_eq_tier_def)

lemma tier_ge_1 [simp]: "TIER_1 \<le> t"
  by (cases t) (auto simp: less_eq_tier_def)

lemma tier_of_int_tier_int [simp]: "tier_of_int (tier_int t) = Some t"
  by (cases t) (auto simp: tier_of_int_def)

lemma tier_less_simps [simp]:
  "TIER_1 < TIER_2" "TIER_1 < TIER_3" "TIER_2 < TIER_3" "\<not> TIER_3 < t" "\<not> t < TIER_1"
  by (cases t; simp add: less_tier_def)+

subsection \<open>Outcomes\<close>

datatype outcome = Executed | Declined | Expired | Unrecognised | Targets_Drifted | Superseded | Failed

fun outcome_str :: "outcome \<Rightarrow> string" where
  "outcome_str Executed = ''executed''"
| "outcome_str Declined = ''declined''"
| "outcome_str Expired = ''expired''"
| "outcome_str Unrecognised = ''unrecognised''"
| "outcome_str Targets_Drifted = ''targets-drifted''"
| "outcome_str Superseded = ''superseded''"
| "outcome_str Failed = ''failed''"

definition outcome_of_str :: "string \<Rightarrow> outcome option" where
  "outcome_of_str s = map_of (map (\<lambda>o'. (outcome_str o', o'))
     [Executed, Declined, Expired, Unrecognised, Targets_Drifted, Superseded, Failed]) s"

lemma outcome_of_str_str [simp]: "outcome_of_str (outcome_str o') = Some o'"
  by (cases o') (auto simp: outcome_of_str_def)

lemma outcome_str_nonempty [simp]: "outcome_str o' \<noteq> []"
  by (cases o') auto

subsection \<open>Rules and exceptions\<close>

record rule_exception =
  ex_tier :: tier
  ex_when :: dict
  ex_unless :: "(string \<times> string) list"
  ex_after_content :: bool
  ex_after_private_read :: bool

definition when_holds :: "dict \<Rightarrow> (string \<times> py) \<Rightarrow> bool" where
  "when_holds args kv = (case snd kv of
     PList xs \<Rightarrow> py_in (dget args (fst kv)) xs
   | expected \<Rightarrow> py_eq (dget args (fst kv)) expected)"

definition safety_established :: "dict \<Rightarrow> (string \<times> string) \<Rightarrow> bool" where
  "safety_established args kp =
     (case PREDICATES (snd kp) of
        None \<Rightarrow> False
      | Some p \<Rightarrow> (case map_of args (fst kp) of None \<Rightarrow> False | Some v \<Rightarrow> p v = Some True))"

definition exception_matches :: "rule_exception \<Rightarrow> dict \<Rightarrow> bool \<Rightarrow> bool \<Rightarrow> bool" where
  "exception_matches e args after_content private_read =
     (if ex_after_private_read e then private_read
      else if ex_after_content e then after_content
      else if \<not> list_all (when_holds args) (ex_when e) then False
      else if \<not> list_all (safety_established args) (ex_unless e) then True
      else ex_when e \<noteq> [])"

record classification_rule =
  r_pattern :: string
  r_tier :: tier
  r_exceptions :: "rule_exception list"
  r_source_line :: "nat option"
  r_reversible :: "bool option"
  r_reads_private :: "bool option"

record policy_decision =
  d_tool_name :: string
  d_tier :: tier
  d_rule :: "classification_rule option"
  d_raised_by :: "rule_exception option"
  d_refused :: bool

lemma unless_exception_matches:
  assumes "\<not> ex_after_private_read e" "\<not> ex_after_content e" "ex_when e = []"
  shows "exception_matches e args ac pr = (\<exists>kp \<in> set (ex_unless e). \<not> safety_established args kp)"
  using assms by (auto simp: exception_matches_def list_all_iff)

lemma exception_matches_flags_mono:
  "exception_matches e args ac pr \<Longrightarrow> (ac \<Longrightarrow> ac') \<Longrightarrow> (pr \<Longrightarrow> pr') \<Longrightarrow> exception_matches e args ac' pr'"
  by (auto simp: exception_matches_def split: if_splits)

subsection \<open>Pending actions\<close>

record pending_action =
  pa_plan_text :: string
  pa_tool_name :: string
  pa_arguments :: dict
  pa_targets :: "string list"
  pa_tier :: tier
  pa_expires_at :: instant
  pa_thread_id :: "string option"
  pa_requester :: string
  pa_chain :: "string list"
  pa_id :: string
  pa_claimed_by :: "string option"
  pa_outcome :: "outcome option"
  pa_outcome_reason :: string
  pa_confirmation :: "dict option"
  pa_origin :: string
  pa_origin_source :: string
  pa_origin_via :: string
  pa_owner_id :: "string option"
  pa_surface :: dict
  pa_delegation_key :: string
  pa_result_excerpt :: string
  pa_post_state :: string
  pa_post_content :: string
  pa_post_attempts :: int
  pa_continued :: bool
  pa_run_markers :: "(string \<times> string) list"
  pa_private_read :: bool
  pa_outbound :: bool
  pa_group_key :: string

definition confirmable_by_typing :: "pending_action \<Rightarrow> bool" where
  "confirmable_by_typing a = (pa_origin a = ''user'')"

definition action_cause :: "pending_action \<Rightarrow> string" where
  "action_cause a =
     (if pa_origin a = ''content'' then
        ''content from '' @ (if pa_origin_source a = [] then ''a tool result'' else pa_origin_source a)
      else if pa_origin a = ''automation'' then ''an automation''
      else [])"

definition origin_label :: "pending_action \<Rightarrow> string" where
  "origin_label a =
     (if pa_origin a = ''user'' then []
      else if action_cause a = [] then ''I could not tell what suggested this''
      else if pa_origin_via a \<noteq> [] then ''Suggested via '' @ pa_origin_via a @ '' from '' @ action_cause a
      else ''Suggested by '' @ action_cause a)"

definition origin_reason :: "pending_action \<Rightarrow> string" where
  "origin_reason a =
     (if action_cause a = [] then ''proposed without a request I could trace to you''
      else if pa_origin_via a \<noteq> [] then ''suggested via '' @ pa_origin_via a @ '' from '' @ action_cause a @ '', not by you''
      else ''suggested by '' @ action_cause a @ '', not by you'')"

text \<open>The first letter is one of \<open>p\<close> and \<open>s\<close>, so its upper case is the ASCII one.\<close>

definition ascii_upper :: "char \<Rightarrow> char" where
  "ascii_upper c = (if 97 \<le> code_of c \<and> code_of c \<le> 122 then char_of (code_of c - 32) else c)"

definition origin_note :: "pending_action \<Rightarrow> string" where
  "origin_note a =
     (if pa_origin a = ''user'' then []
      else map ascii_upper (take 1 (origin_reason a)) @ drop 1 (origin_reason a) @ ''.'')"

definition card_only_refusal :: "pending_action \<Rightarrow> string" where
  "card_only_refusal a = ''That action was '' @ origin_reason a
     @ '', so it can only be confirmed with the Confirm button on its card. Nothing has happened.''"

definition is_expired :: "pending_action \<Rightarrow> instant \<Rightarrow> bool" where
  "is_expired a now = (pa_expires_at a \<le> now)"

datatype resolve_error = Reason_Required outcome

definition resolve_action :: "pending_action \<Rightarrow> outcome \<Rightarrow> string \<Rightarrow> resolve_error + pending_action" where
  "resolve_action a o' reason =
     (if o' \<noteq> Executed \<and> reason = [] then Inl (Reason_Required o')
      else Inr (a\<lparr>pa_outcome := Some o', pa_outcome_reason := reason\<rparr>))"

definition default_expiry :: "instant \<Rightarrow> int \<Rightarrow> instant" where
  "default_expiry now secs = now + seconds secs"

text \<open>A label is shown exactly when the action cannot be confirmed by typing.\<close>

lemma origin_label_iff: "origin_label a = [] \<longleftrightarrow> confirmable_by_typing a"
  by (simp add: origin_label_def confirmable_by_typing_def)

lemma resolve_action_Inr:
  "resolve_action a o' reason = Inr b \<longleftrightarrow>
     (o' = Executed \<or> reason \<noteq> []) \<and> b = a\<lparr>pa_outcome := Some o', pa_outcome_reason := reason\<rparr>"
  by (auto simp: resolve_action_def)

end
