(* ===== verification/Policy_Config.thy ===== *)
theory Policy_Config
  imports Policy_Model
begin

text \<open>
  Loading the rules file (\<open>backend/app/policy/config.py\<close>): the parser of the YAML document and
  the hot-reloading loader. A document is a \<open>py\<close> value; the YAML reader itself is the argument
  \<open>yaml\<close> (\<open>None\<close> when it raises), and the text of a float in a pattern the argument \<open>fstr\<close>.
  Error texts are constructors of \<open>config_error\<close>; \<open>Malformed\<close> stands for every other Python
  exception of the parser, which the loader treats alike. An exception whose \<open>when\<close> is not a
  mapping (against the dataclass's annotation) is \<open>Malformed\<close> here.

  The lemmas show what a parsed rule set guarantees (\<open>well_formed_rules\<close>: exceptions only raise,
  only known predicates are named, no exception is without a condition), that the loader's
  unchanged-text shortcut gives what a fresh parse would give, that a refused edit keeps the
  previous rules, and that no change of the rules goes unannounced.
\<close>

subsection \<open>Rule sets\<close>

record rule_set =
  rs_rules :: "classification_rule list"
  rs_expires_after :: int
  rs_threshold :: int
  rs_unreadable :: bool

datatype config_error =
    Not_A_Mapping nat
  | No_Pattern nat
  | Bad_Tier "nat \<times> nat option"
  | Exception_Not_A_Mapping nat nat
  | Lowering_Exception nat nat
  | Unknown_Predicates nat "string list"
  | Flag_Not_Bool nat
  | Flags_Combined nat
  | Flag_With_Condition nat
  | No_Condition nat
  | Label_Not_Bool nat
  | Malformed
  | File_Not_Found
  | File_Unreadable

subsection \<open>Reading scalars\<close>

text \<open>\<open>int(text)\<close>: surrounding space, a sign, digits with single underscores between digits.\<close>

fun digits_underscores :: "bool \<Rightarrow> int \<Rightarrow> string \<Rightarrow> int option" where
  "digits_underscores after_digit acc [] = (if after_digit then Some acc else None)"
| "digits_underscores after_digit acc (c # s) =
     (if py_isdigit09 c then digits_underscores True (acc * 10 + int (code_of c - 48)) s
      else if c = CHR ''_'' \<and> after_digit \<and> s \<noteq> [] then digits_underscores False acc s
      else None)"

definition int_of_text :: "string \<Rightarrow> int option" where
  "int_of_text s = (case py_strip s of
     [] \<Rightarrow> None
   | c # t \<Rightarrow> if c = CHR ''-'' then map_option uminus (digits_underscores False 0 t)
             else if c = CHR ''+'' then digits_underscores False 0 t
             else digits_underscores False 0 (c # t))"

text \<open>\<open>int(value)\<close>: a float is truncated towards zero; \<open>None\<close> for a TypeError or ValueError.\<close>

fun py_int :: "py \<Rightarrow> int option" where
  "py_int (PBool b) = Some (if b then 1 else 0)"
| "py_int (PInt n) = Some n"
| "py_int (PFloat q) = Some (if q < 0 then \<lceil>q\<rceil> else \<lfloor>q\<rfloor>)"
| "py_int (PStr s) = int_of_text s"
| "py_int _ = None"

definition config_tier :: "py \<Rightarrow> tier option" where
  "config_tier v = (case py_int v of None \<Rightarrow> None | Some n \<Rightarrow> tier_of_int n)"

text \<open>\<open>str(n)\<close> of an integer.\<close>

fun nat_text :: "nat \<Rightarrow> string" where
  "nat_text n = (if n < 10 then [digit n] else nat_text (n div 10) @ [digit (n mod 10)])"

declare nat_text.simps [simp del]

definition int_text :: "int \<Rightarrow> string" where
  "int_text n = (if n < 0 then CHR ''-'' # nat_text (nat (- n)) else nat_text (nat n))"

text \<open>\<open>repr\<close> and \<open>str\<close>; the text of a float is the argument \<open>fstr\<close>.\<close>

definition hex_digit :: "nat \<Rightarrow> char" where
  "hex_digit n = ''0123456789abcdef'' ! (n mod 16)"

definition repr_char :: "char \<Rightarrow> char \<Rightarrow> string" where
  "repr_char q c =
     (let n = code_of c in
      if c = q \<or> n = 92 then [char_of (92 :: nat), c]
      else if n = 10 then [char_of (92 :: nat), CHR ''n'']
      else if n = 13 then [char_of (92 :: nat), CHR ''r'']
      else if n = 9 then [char_of (92 :: nat), CHR ''t'']
      else if n < 32 \<or> n = 127 \<or> 128 \<le> n \<and> n \<le> 160 \<or> n = 173
      then [char_of (92 :: nat), CHR ''x'', hex_digit (n div 16), hex_digit n]
      else [c])"

definition single_quote :: char where "single_quote = char_of (39 :: nat)"

definition str_repr :: "string \<Rightarrow> string" where
  "str_repr s =
     (let q = (if single_quote \<in> set s \<and> CHR 0x22 \<notin> set s then CHR 0x22 else single_quote)
      in q # concat (map (repr_char q) s) @ [q])"

primrec py_repr :: "(rat \<Rightarrow> string) \<Rightarrow> py \<Rightarrow> string" where
  "py_repr fstr PNone = ''None''"
| "py_repr fstr (PBool b) = (if b then ''True'' else ''False'')"
| "py_repr fstr (PInt n) = int_text n"
| "py_repr fstr (PFloat q) = fstr q"
| "py_repr fstr (PStr s) = str_repr s"
| "py_repr fstr (PList xs) = ''['' @ py_join '', '' (map (py_repr fstr) xs) @ '']''"
| "py_repr fstr (PDict d) = ''{'' @ py_join '', '' (map (\<lambda>kv. str_repr (fst kv) @ '': '' @ snd kv) (map (map_prod id (py_repr fstr)) d)) @ ''}''"

definition py_str :: "(rat \<Rightarrow> string) \<Rightarrow> py \<Rightarrow> string" where
  "py_str fstr v = (case v of PStr s \<Rightarrow> s | _ \<Rightarrow> py_repr fstr v)"

subsection \<open>The parser\<close>

text \<open>\<open>value or {}\<close> and \<open>value or []\<close>, where anything else of another type raises.\<close>

fun mapping_or_empty :: "py \<Rightarrow> dict option" where
  "mapping_or_empty (PDict d) = Some d"
| "mapping_or_empty v = (if truthy v then None else Some [])"

fun list_or_empty :: "py \<Rightarrow> py list option" where
  "list_or_empty (PList xs) = Some xs"
| "list_or_empty (PDict d) = Some (map (PStr \<circ> fst) d)"
| "list_or_empty (PStr s) = Some (map (\<lambda>c. PStr [c]) s)"
| "list_or_empty v = (if truthy v then None else Some [])"

fun all_strings :: "dict \<Rightarrow> (string \<times> string) list option" where
  "all_strings [] = Some []"
| "all_strings ((k, v) # d) = (case (v, all_strings d) of
     (PStr s, Some r) \<Rightarrow> Some ((k, s) # r) | _ \<Rightarrow> None)"

definition as_bool :: "py \<Rightarrow> bool option" where
  "as_bool v = (case v of PBool b \<Rightarrow> Some b | _ \<Rightarrow> None)"

definition as_label :: "py \<Rightarrow> bool option option" where
  "as_label v = (case v of PNone \<Rightarrow> Some None | PBool b \<Rightarrow> Some (Some b) | _ \<Rightarrow> None)"

definition parse_exception :: "nat \<Rightarrow> nat \<Rightarrow> tier \<Rightarrow> py \<Rightarrow> config_error + rule_exception" where
  "parse_exception index j tier raw =
     (case raw of
        PDict d \<Rightarrow>
          (case config_tier (dget d ''tier'') of
             None \<Rightarrow> Inl (Bad_Tier (index, Some j))
           | Some et \<Rightarrow>
               if et \<le> tier then Inl (Lowering_Exception index j)
               else (case mapping_or_empty (dget d ''unless'') of
                   None \<Rightarrow> Inl Malformed
                 | Some un \<Rightarrow>
                     (case all_strings un of
                        None \<Rightarrow> Inl Malformed
                      | Some unless \<Rightarrow>
                          let unknown = filter (\<lambda>p. PREDICATES p = None) (map snd unless) in
                          if unknown \<noteq> [] then Inl (Unknown_Predicates index unknown)
                          else (case (as_bool (dget_or d ''after_content'' (PBool False)),
                                      as_bool (dget_or d ''after_private_read'' (PBool False))) of
                              (None, _) \<Rightarrow> Inl (Flag_Not_Bool index)
                            | (_, None) \<Rightarrow> Inl (Flag_Not_Bool index)
                            | (Some ac, Some apr) \<Rightarrow>
                                let has_when = truthy (dget d ''when'') in
                                if ac \<and> apr then Inl (Flags_Combined index)
                                else if (ac \<or> apr) \<and> (has_when \<or> unless \<noteq> []) then Inl (Flag_With_Condition index)
                                else if \<not> (has_when \<or> unless \<noteq> [] \<or> ac \<or> apr) then Inl (No_Condition index)
                                else (case mapping_or_empty (dget d ''when'') of
                                    None \<Rightarrow> Inl Malformed
                                  | Some wh \<Rightarrow> Inr \<lparr>ex_tier = et, ex_when = wh, ex_unless = unless,
                                      ex_after_content = ac, ex_after_private_read = apr\<rparr>)))))
      | _ \<Rightarrow> Inl (Exception_Not_A_Mapping index j))"

fun parse_exceptions :: "nat \<Rightarrow> nat \<Rightarrow> tier \<Rightarrow> py list \<Rightarrow> config_error + rule_exception list" where
  "parse_exceptions index j tier [] = Inr []"
| "parse_exceptions index j tier (raw # raws) =
     (case parse_exception index j tier raw of
        Inl e \<Rightarrow> Inl e
      | Inr x \<Rightarrow> (case parse_exceptions index (Suc j) tier raws of Inl e \<Rightarrow> Inl e | Inr xs \<Rightarrow> Inr (x # xs)))"

definition parse_rule :: "(rat \<Rightarrow> string) \<Rightarrow> nat \<Rightarrow> py \<Rightarrow> config_error + classification_rule" where
  "parse_rule fstr index raw =
     (case raw of
        PDict d \<Rightarrow>
          if \<not> truthy (dget d ''pattern'') then Inl (No_Pattern index)
          else (case config_tier (dget d ''tier'') of
              None \<Rightarrow> Inl (Bad_Tier (index, None))
            | Some tier \<Rightarrow>
                (case list_or_empty (dget d ''exceptions'') of
                   None \<Rightarrow> Inl Malformed
                 | Some raws \<Rightarrow>
                     (case parse_exceptions index 0 tier raws of
                        Inl e \<Rightarrow> Inl e
                      | Inr exceptions \<Rightarrow>
                          (case (as_label (dget d ''reversible''), as_label (dget d ''reads_private'')) of
                             (None, _) \<Rightarrow> Inl (Label_Not_Bool index)
                           | (_, None) \<Rightarrow> Inl (Label_Not_Bool index)
                           | (Some rev', Some priv) \<Rightarrow>
                               Inr \<lparr>r_pattern = py_str fstr (dget d ''pattern''), r_tier = tier,
                                 r_exceptions = exceptions, r_source_line = Some index,
                                 r_reversible = rev', r_reads_private = priv\<rparr>))))
      | _ \<Rightarrow> Inl (Not_A_Mapping index))"

fun parse_rules :: "(rat \<Rightarrow> string) \<Rightarrow> nat \<Rightarrow> py list \<Rightarrow> config_error + classification_rule list" where
  "parse_rules fstr index [] = Inr []"
| "parse_rules fstr index (raw # raws) =
     (case parse_rule fstr index raw of
        Inl e \<Rightarrow> Inl e
      | Inr x \<Rightarrow> (case parse_rules fstr (Suc index) raws of Inl e \<Rightarrow> Inl e | Inr xs \<Rightarrow> Inr (x # xs)))"

definition parse_policy :: "(rat \<Rightarrow> string) \<Rightarrow> py \<Rightarrow> config_error + rule_set" where
  "parse_policy fstr doc =
     (case mapping_or_empty doc of
        None \<Rightarrow> Inl Malformed
      | Some d \<Rightarrow>
          (case mapping_or_empty (dget d ''policy'') of
             None \<Rightarrow> Inl Malformed
           | Some policy \<Rightarrow>
               (case list_or_empty (dget policy ''rules'') of
                  None \<Rightarrow> Inl Malformed
                | Some raws \<Rightarrow>
                    (case parse_rules fstr 0 raws of
                       Inl e \<Rightarrow> Inl e
                     | Inr rules \<Rightarrow>
                         (case mapping_or_empty (dget policy ''confirmation'') of
                            None \<Rightarrow> Inl Malformed
                          | Some conf \<Rightarrow>
                              (case (py_int (dget_or conf ''expires_after_seconds'' (PInt 14400)),
                                     py_int (dget_or conf ''threshold_targets'' (PInt 10))) of
                                 (Some ex, Some th) \<Rightarrow> Inr \<lparr>rs_rules = rules, rs_expires_after = ex,
                                    rs_threshold = th, rs_unreadable = False\<rparr>
                               | _ \<Rightarrow> Inl Malformed))))))"

subsection \<open>What the parser guarantees\<close>

definition well_formed_exception :: "tier \<Rightarrow> rule_exception \<Rightarrow> bool" where
  "well_formed_exception t e \<longleftrightarrow>
     t < ex_tier e
     \<and> list_all (\<lambda>kp. PREDICATES (snd kp) \<noteq> None) (ex_unless e)
     \<and> \<not> (ex_after_content e \<and> ex_after_private_read e)
     \<and> (ex_after_content e \<or> ex_after_private_read e \<longrightarrow> ex_when e = [] \<and> ex_unless e = [])
     \<and> (ex_when e \<noteq> [] \<or> ex_unless e \<noteq> [] \<or> ex_after_content e \<or> ex_after_private_read e)"

definition well_formed_rule :: "classification_rule \<Rightarrow> bool" where
  "well_formed_rule r = list_all (well_formed_exception (r_tier r)) (r_exceptions r)"

definition well_formed_rules :: "rule_set \<Rightarrow> bool" where
  "well_formed_rules rs = list_all well_formed_rule (rs_rules rs)"

lemma mapping_or_empty_truthy: "mapping_or_empty v = Some d \<Longrightarrow> truthy v = (d \<noteq> [])"
  by (cases v) (auto split: if_splits)

lemma parse_exception_well_formed:
  "parse_exception i j t raw = Inr e \<Longrightarrow> well_formed_exception t e"
  by (auto simp: parse_exception_def well_formed_exception_def Let_def filter_empty_conv list_all_iff
      dest: mapping_or_empty_truthy split: py.splits option.splits if_splits)

lemma parse_exceptions_well_formed:
  "parse_exceptions i j t raws = Inr es \<Longrightarrow> list_all (well_formed_exception t) es"
  by (induction raws arbitrary: j es) (auto split: sum.splits intro: parse_exception_well_formed)

lemma parse_rule_well_formed: "parse_rule fstr i raw = Inr r \<Longrightarrow> well_formed_rule r"
  by (auto simp: parse_rule_def well_formed_rule_def split: py.splits option.splits if_splits sum.splits
      intro: parse_exceptions_well_formed)

lemma parse_rules_well_formed: "parse_rules fstr i raws = Inr rs \<Longrightarrow> list_all well_formed_rule rs"
  by (induction raws arbitrary: i rs) (auto split: sum.splits intro: parse_rule_well_formed)

text \<open>
  A rule set the parser accepts is well formed: every exception raises its rule's tier,
  names only known predicates, combines no flag with another condition, and has a condition;
  and the set is marked readable.
\<close>

theorem parsed_rules_well_formed:
  assumes "parse_policy fstr doc = Inr rs"
  shows "well_formed_rules rs \<and> \<not> rs_unreadable rs"
  using assms
  by (auto simp: parse_policy_def well_formed_rules_def split: option.splits sum.splits
      intro: parse_rules_well_formed)

definition sample_doc :: py where
  "sample_doc = PDict [(''policy'', PDict [(''rules'', PList [PDict
     [(''pattern'', PStr ''postgres_query''), (''tier'', PInt 1),
      (''exceptions'', PList [PDict [(''tier'', PInt 3), (''unless'', PDict [(''sql'', PStr ''read_only_sql'')])]])]])])]"

lemma sample_doc_parses: "\<exists>rs. parse_policy fstr sample_doc = Inr rs \<and> length (rs_rules rs) = 1"
  by (simp add: sample_doc_def parse_policy_def parse_rule_def parse_exception_def dget_def dget_or_def
      config_tier_def tier_of_int_def as_bool_def py_str_def as_label_def PREDICATES_def less_eq_tier_def Let_def)

theorem parsed_rules_well_formed_witness:
  "\<exists>rs. parse_policy (\<lambda>q. []) sample_doc = Inr rs \<and> rs_rules rs \<noteq> [] \<and> well_formed_rules rs"
proof -
  obtain rs where rs: "parse_policy (\<lambda>q. []) sample_doc = Inr rs" "length (rs_rules rs) = 1"
    using sample_doc_parses [of "\<lambda>q. []"] by blast
  then show ?thesis using parsed_rules_well_formed [OF rs(1)] by auto
qed

subsection \<open>The loader\<close>

text \<open>What reading the file gives: its text, or the exception of \<open>read_text\<close>; \<open>Not_Utf8\<close> is a \<open>UnicodeDecodeError\<close>.\<close>

datatype file_read = Missing | Read_Error | Not_Utf8 | Text string

record loader =
  ld_last_good :: "rule_set option"
  ld_notified :: "string option"
  ld_parsed :: "string option"
  ld_error :: "config_error option"
  ld_kept_previous :: bool

definition new_loader :: loader where
  "new_loader = \<lparr>ld_last_good = None, ld_notified = None, ld_parsed = None, ld_error = None,
     ld_kept_previous = False\<rparr>"

definition unreadable_rules :: rule_set where
  "unreadable_rules = \<lparr>rs_rules = [], rs_expires_after = 14400, rs_threshold = 10, rs_unreadable = True\<rparr>"

text \<open>
  The result is the rules in force, \<open>None\<close> when the load raises, and the rule sets the listeners are told about. A
  \<open>UnicodeDecodeError\<close> is no \<open>OSError\<close>: nothing catches it, and the loader is as it was.
\<close>

definition degrade :: "loader \<Rightarrow> config_error \<Rightarrow> loader \<times> rule_set option \<times> rule_set list" where
  "degrade ld e =
     (let ld' = ld\<lparr>ld_error := Some e, ld_kept_previous := (ld_last_good ld \<noteq> None)\<rparr> in
      case ld_last_good ld of Some rs \<Rightarrow> (ld', Some rs, []) | None \<Rightarrow> (ld', Some unreadable_rules, []))"

definition announce :: "bool \<Rightarrow> string \<Rightarrow> rule_set \<Rightarrow> loader \<Rightarrow> loader \<times> rule_set option \<times> rule_set list" where
  "announce notify raw rs ld =
     (if notify \<and> ld_notified ld \<noteq> Some raw then (ld\<lparr>ld_notified := Some raw\<rparr>, Some rs, [rs]) else (ld, Some rs, []))"

definition parse_text :: "(string \<Rightarrow> py option) \<Rightarrow> (rat \<Rightarrow> string) \<Rightarrow> string \<Rightarrow> config_error + rule_set" where
  "parse_text yaml fstr raw = (case yaml raw of None \<Rightarrow> Inl Malformed | Some doc \<Rightarrow> parse_policy fstr doc)"

definition parse_and_keep ::
    "(string \<Rightarrow> py option) \<Rightarrow> (rat \<Rightarrow> string) \<Rightarrow> bool \<Rightarrow> string \<Rightarrow> loader \<Rightarrow> loader \<times> rule_set option \<times> rule_set list" where
  "parse_and_keep yaml fstr notify raw ld =
     (case parse_text yaml fstr raw of
        Inl e \<Rightarrow> degrade ld e
      | Inr rs \<Rightarrow> announce notify raw rs
          (ld\<lparr>ld_last_good := Some rs, ld_parsed := Some raw, ld_error := None, ld_kept_previous := False\<rparr>))"

definition load_rules ::
    "(string \<Rightarrow> py option) \<Rightarrow> (rat \<Rightarrow> string) \<Rightarrow> bool \<Rightarrow> file_read \<Rightarrow> loader \<Rightarrow> loader \<times> rule_set option \<times> rule_set list" where
  "load_rules yaml fstr notify src ld =
     (case src of
        Missing \<Rightarrow> degrade ld File_Not_Found
      | Read_Error \<Rightarrow> degrade ld File_Unreadable
      | Not_Utf8 \<Rightarrow> (ld, None, [])
      | Text raw \<Rightarrow>
          (case ld_last_good ld of
             Some rs \<Rightarrow>
               if ld_parsed ld = Some raw
               then announce notify raw rs (ld\<lparr>ld_error := None, ld_kept_previous := False\<rparr>)
               else parse_and_keep yaml fstr notify raw ld
           | None \<Rightarrow> parse_and_keep yaml fstr notify raw ld))"

definition loader_ok :: "(string \<Rightarrow> py option) \<Rightarrow> (rat \<Rightarrow> string) \<Rightarrow> loader \<Rightarrow> bool" where
  "loader_ok yaml fstr ld \<longleftrightarrow>
     (\<forall>rs. ld_last_good ld = Some rs \<longrightarrow>
        (\<exists>raw. ld_parsed ld = Some raw \<and> parse_text yaml fstr raw = Inr rs))"

lemmas loader_defs = load_rules_def parse_and_keep_def degrade_def announce_def

lemma loader_ok_new [simp]: "loader_ok yaml fstr new_loader"
  by (simp add: loader_ok_def new_loader_def)

lemma load_rules_ok:
  assumes "loader_ok yaml fstr ld" "load_rules yaml fstr notify src ld = (ld', rs, told)"
  shows "loader_ok yaml fstr ld'"
  using assms
  by (auto simp: loader_ok_def loader_defs Let_def split: file_read.splits option.splits sum.splits if_splits)

text \<open>What a load gives: the rules a fresh parse of the text gives, or the ones kept.\<close>

definition kept_rules :: "loader \<Rightarrow> rule_set" where
  "kept_rules ld = (case ld_last_good ld of Some rs \<Rightarrow> rs | None \<Rightarrow> unreadable_rules)"

definition fresh_load :: "(string \<Rightarrow> py option) \<Rightarrow> (rat \<Rightarrow> string) \<Rightarrow> file_read \<Rightarrow> loader \<Rightarrow> rule_set option" where
  "fresh_load yaml fstr src ld = (case src of
     Text raw \<Rightarrow> (case parse_text yaml fstr raw of Inr rs \<Rightarrow> Some rs | Inl _ \<Rightarrow> Some (kept_rules ld))
   | Not_Utf8 \<Rightarrow> None
   | _ \<Rightarrow> Some (kept_rules ld))"

lemma load_rules_fresh:
  assumes "loader_ok yaml fstr ld" "load_rules yaml fstr notify src ld = (ld', rs, told)"
  shows "rs = fresh_load yaml fstr src ld"
proof (cases src)
  case (Text raw)
  show ?thesis
  proof (cases "ld_last_good ld")
    case None
    with assms Text show ?thesis
      by (auto simp: loader_defs fresh_load_def kept_rules_def Let_def split: sum.splits if_splits)
  next
    case (Some good)
    with assms(1) obtain t where t: "ld_parsed ld = Some t" "parse_text yaml fstr t = Inr good"
      by (auto simp: loader_ok_def)
    show ?thesis
    proof (cases "raw = t")
      case True
      with assms(2) Text Some t show ?thesis
        by (auto simp: loader_defs fresh_load_def split: if_splits)
    next
      case False
      with assms(2) Text Some t show ?thesis
        by (auto simp: loader_defs fresh_load_def kept_rules_def Let_def split: sum.splits if_splits)
    qed
  qed
qed (use assms in \<open>cases "ld_last_good ld"; auto simp: loader_defs fresh_load_def kept_rules_def Let_def\<close>)+

text \<open>A run of loads: the loader, the rules each load gave, and everything announced.\<close>

fun load_run ::
    "(string \<Rightarrow> py option) \<Rightarrow> (rat \<Rightarrow> string) \<Rightarrow> loader \<Rightarrow> (bool \<times> file_read) list
       \<Rightarrow> loader \<times> rule_set option list \<times> rule_set list" where
  "load_run yaml fstr ld [] = (ld, [], [])"
| "load_run yaml fstr ld ((notify, src) # es) =
     (let (ld1, rs, told) = load_rules yaml fstr notify src ld;
          (ld2, rss, tolds) = load_run yaml fstr ld1 es
      in (ld2, rs # rss, told @ tolds))"

lemma load_run_ok:
  "loader_ok yaml fstr ld \<Longrightarrow> load_run yaml fstr ld es = (ld', rss, told) \<Longrightarrow> loader_ok yaml fstr ld'"
proof (induction es arbitrary: ld rss told)
  case (Cons e es)
  obtain notify src where e: "e = (notify, src)" by (cases e)
  obtain ld1 rs t1 where l: "load_rules yaml fstr notify src ld = (ld1, rs, t1)"
    by (cases "load_rules yaml fstr notify src ld")
  obtain rss2 t2 where "load_run yaml fstr ld1 es = (ld', rss2, t2)"
    using Cons.prems(2) e l by (auto simp: Let_def split: prod.splits)
  then show ?case using Cons.IH [OF load_rules_ok [OF Cons.prems(1) l]] by blast
qed simp

text \<open>
  C30. After any history of loads, failed ones included, loading a file whose text parses gives exactly the rules a fresh
  parse of its text gives (the unchanged-text shortcut changes nothing); when the file is missing, cannot be read, or its text
  is refused, the rules of the last good load stay in force (or, without one, the empty set that makes every tool Tier 3)
  and nothing is announced; and when it is not UTF-8 the load raises, and changes and announces nothing. No other load raises.
\<close>

theorem load_equals_fresh_parse:
  assumes "load_run yaml fstr new_loader es = (ld, rss, tolds)"
    and "load_rules yaml fstr notify src ld = (ld', rs, told)"
  shows "(\<forall>raw new. src = Text raw \<longrightarrow> parse_text yaml fstr raw = Inr new \<longrightarrow> rs = Some new \<and> ld_last_good ld' = Some new)
    \<and> (src \<noteq> Not_Utf8 \<longrightarrow> (\<forall>raw. src = Text raw \<longrightarrow> (\<exists>e. parse_text yaml fstr raw = Inl e)) \<longrightarrow>
         rs = Some (kept_rules ld) \<and> ld_last_good ld' = ld_last_good ld \<and> told = [])
    \<and> (src = Not_Utf8 \<longrightarrow> rs = None \<and> ld' = ld \<and> told = [])"
proof -
  have ok: "loader_ok yaml fstr ld" using load_run_ok [OF loader_ok_new assms(1)] .
  have fresh: "rs = fresh_load yaml fstr src ld" by (rule load_rules_fresh [OF ok assms(2)])
  have good: "rs = Some new \<and> ld_last_good ld' = Some new" if t: "src = Text raw" "parse_text yaml fstr raw = Inr new" for raw new
  proof -
    have "loader_ok yaml fstr ld'" by (rule load_rules_ok [OF ok assms(2)])
    moreover have "ld_parsed ld' = Some raw" "ld_last_good ld' \<noteq> None"
      using t assms(2) by (cases "ld_last_good ld"; auto simp: loader_defs Let_def split: if_splits)+
    ultimately show ?thesis using fresh t by (auto simp: fresh_load_def loader_ok_def)
  qed
  have kept: "rs = Some (kept_rules ld) \<and> ld_last_good ld' = ld_last_good ld \<and> told = []"
    if bad: "\<forall>raw. src = Text raw \<longrightarrow> (\<exists>e. parse_text yaml fstr raw = Inl e)" and "src \<noteq> Not_Utf8"
  proof (cases src)
    case (Text raw)
    with bad obtain e where e: "parse_text yaml fstr raw = Inl e" by blast
    have "ld_parsed ld \<noteq> Some raw" if "ld_last_good ld = Some good" for good
      using ok that e by (auto simp: loader_ok_def)
    then have "load_rules yaml fstr notify src ld = degrade ld e"
      using Text e by (cases "ld_last_good ld") (simp_all add: load_rules_def parse_and_keep_def)
    then have "(ld', rs, told) = degrade ld e" using assms(2) by simp
    then show ?thesis by (cases "ld_last_good ld") (simp_all add: degrade_def kept_rules_def Let_def)
  qed (use that(2) assms(2) in \<open>cases "ld_last_good ld"; auto simp: loader_defs kept_rules_def Let_def\<close>)+
  have "src = Not_Utf8 \<longrightarrow> rs = None \<and> ld' = ld \<and> told = []" using assms(2) by (auto simp: load_rules_def)
  then show ?thesis using good kept by blast
qed

definition sample_yaml :: "string \<Rightarrow> py option" where
  "sample_yaml t = (if t = ''good'' then Some sample_doc else None)"

theorem load_equals_fresh_parse_witness:
  "\<exists>ld ld' rs. load_run sample_yaml (\<lambda>q. []) new_loader [(True, Text ''good'')] = (ld, [Some rs], [rs])
     \<and> load_rules sample_yaml (\<lambda>q. []) True (Text ''bad'') ld = (ld', Some rs, [])
     \<and> rs = kept_rules ld \<and> ld_last_good ld' = ld_last_good ld"
proof -
  obtain rs where p: "parse_policy (\<lambda>q. []) sample_doc = Inr rs"
    using sample_doc_parses [of "\<lambda>q. []"] by blast
  have g: "parse_text sample_yaml (\<lambda>q. []) ''good'' = Inr rs"
    and b: "parse_text sample_yaml (\<lambda>q. []) ''bad'' = Inl Malformed"
    by (simp_all add: parse_text_def sample_yaml_def p)
  let ?ld = "new_loader\<lparr>ld_last_good := Some rs, ld_parsed := Some ''good'', ld_notified := Some ''good''\<rparr>"
  have run: "load_run sample_yaml (\<lambda>q. []) new_loader [(True, Text ''good'')] = (?ld, [Some rs], [rs])"
    by (simp add: loader_defs g new_loader_def Let_def)
  obtain ld' where step: "load_rules sample_yaml (\<lambda>q. []) True (Text ''bad'') ?ld = (ld', Some rs, [])"
    by (simp add: loader_defs b Let_def)
  from load_equals_fresh_parse [OF run step] b have "rs = kept_rules ?ld" "ld_last_good ld' = ld_last_good ?ld" by auto
  then show ?thesis using run step by blast
qed

text \<open>The rules listeners were told about last are the rules of the last announced text.\<close>

definition told_ok :: "(string \<Rightarrow> py option) \<Rightarrow> (rat \<Rightarrow> string) \<Rightarrow> loader \<Rightarrow> rule_set list \<Rightarrow> bool" where
  "told_ok yaml fstr ld told \<longleftrightarrow>
     (\<forall>raw. ld_notified ld = Some raw \<longrightarrow> told \<noteq> [] \<and> parse_text yaml fstr raw = Inr (last told))"

lemma load_rules_told:
  assumes "loader_ok yaml fstr ld" "told_ok yaml fstr ld before"
    and "load_rules yaml fstr notify src ld = (ld', rs, told)"
  shows "told_ok yaml fstr ld' (before @ told)"
proof (cases src)
  case (Text raw)
  show ?thesis
  proof (cases "ld_last_good ld")
    case None
    with assms Text show ?thesis
      by (auto simp: loader_defs told_ok_def Let_def split: sum.splits if_splits)
  next
    case (Some good)
    with assms(1) obtain t where "ld_parsed ld = Some t" "parse_text yaml fstr t = Inr good"
      by (auto simp: loader_ok_def)
    with assms Text Some show ?thesis
      by (auto simp: loader_defs told_ok_def Let_def split: sum.splits if_splits)
  qed
qed (use assms in \<open>auto simp: loader_defs told_ok_def Let_def split: option.splits\<close>)

lemma load_run_told:
  "loader_ok yaml fstr ld \<Longrightarrow> told_ok yaml fstr ld before \<Longrightarrow> load_run yaml fstr ld es = (ld', rss, told) \<Longrightarrow>
     told_ok yaml fstr ld' (before @ told)"
proof (induction es arbitrary: ld before rss told)
  case (Cons e es)
  obtain notify src where e: "e = (notify, src)" by (cases e)
  obtain ld1 rs t1 where l: "load_rules yaml fstr notify src ld = (ld1, rs, t1)"
    by (cases "load_rules yaml fstr notify src ld")
  obtain rss2 t2 where r: "load_run yaml fstr ld1 es = (ld', rss2, t2)" "told = t1 @ t2"
    using Cons.prems(3) e l by (auto simp: Let_def split: prod.splits)
  have "told_ok yaml fstr ld' ((before @ t1) @ t2)"
    using Cons.IH [OF load_rules_ok [OF Cons.prems(1) l] load_rules_told [OF Cons.prems(1,2) l] r(1)] .
  with r(2) show ?case by simp
qed simp

text \<open>
  C31. No change of the rules is swallowed: in any run of notifying and non-notifying loads, when
  the last load notifies and its text parses, the rule set announced last is the rule set now in
  force, whatever non-notifying reads happened in between.
\<close>

theorem changes_are_announced:
  assumes "load_run yaml fstr new_loader (es @ [(True, Text raw)]) = (ld, rss, told)"
    and "parse_text yaml fstr raw = Inr rs"
  shows "told \<noteq> [] \<and> last told = rs"
proof -
  obtain ld1 rss1 t1 where r1: "load_run yaml fstr new_loader es = (ld1, rss1, t1)"
    by (cases "load_run yaml fstr new_loader es")
  have app: "load_run yaml fstr l (xs @ ys) =
      (let (l1, a, b) = load_run yaml fstr l xs; (l2, a', b') = load_run yaml fstr l1 ys in (l2, a @ a', b @ b'))"
    for l xs ys
    by (induction xs arbitrary: l) (auto simp: Let_def split: prod.splits)
  obtain t2 rs2 where r2: "load_rules yaml fstr True (Text raw) ld1 = (ld, rs2, t2)" "told = t1 @ t2"
    using assms(1) r1 by (auto simp: app Let_def split: prod.splits)
  have ok: "loader_ok yaml fstr ld1" using load_run_ok [OF loader_ok_new r1] .
  have "told_ok yaml fstr new_loader []" by (simp add: told_ok_def new_loader_def)
  from load_run_told [OF loader_ok_new this r1] have "told_ok yaml fstr ld1 t1" by simp
  then have told: "told_ok yaml fstr ld (t1 @ t2)" by (rule load_rules_told [OF ok _ r2(1)])
  have "ld_notified ld = Some raw"
    using r2(1) assms(2) by (auto simp: loader_defs Let_def split: option.splits if_splits)
  with told assms(2) r2(2) show ?thesis by (auto simp: told_ok_def)
qed

theorem changes_are_announced_witness:
  "\<exists>ld rss told rs. load_run sample_yaml (\<lambda>q. []) new_loader [(False, Text ''good''), (True, Text ''good'')]
      = (ld, rss, told) \<and> told \<noteq> [] \<and> last told = rs"
proof -
  obtain rs where p: "parse_policy (\<lambda>q. []) sample_doc = Inr rs"
    using sample_doc_parses [of "\<lambda>q. []"] by blast
  have g: "parse_text sample_yaml (\<lambda>q. []) ''good'' = Inr rs"
    by (simp add: parse_text_def sample_yaml_def p)
  obtain ld rss told where run:
    "load_run sample_yaml (\<lambda>q. []) new_loader ([(False, Text ''good'')] @ [(True, Text ''good'')]) = (ld, rss, told)"
    by (metis prod_cases3)
  show ?thesis using changes_are_announced [OF run g] run by auto
qed

end
