(* ===== verification/Py_Text.thy ===== *)
theory Py_Text
  imports Policy_Config
begin

text \<open>
  Containment of texts, and texts made of values (\<open>str\<close> and \<open>repr\<close>, whose definitions \<open>Policy_Config\<close> holds). Characters beyond Latin-1 that the sources write (dashes, quotation
  marks, brackets) are stood for by unprintable ones, each named where it is used.
\<close>

subsection \<open>Containment\<close>

lemma starts_with_iff: "starts_with s p \<longleftrightarrow> (\<exists>v. s = p @ v)"
  by (metis append_eq_conv_conj starts_with_def append_take_drop_id)

lemma contains_str_iff: "contains_str s p \<longleftrightarrow> (\<exists>u v. s = u @ p @ v)"
proof (induction s)
  case (Cons c s)
  have "(\<exists>u v. c # s = u @ p @ v) \<longleftrightarrow> (\<exists>v. c # s = p @ v) \<or> (\<exists>u v. s = u @ p @ v)"
    by (metis append_Cons append_Nil list.exhaust list.inject)
  then show ?case using Cons by (simp add: starts_with_iff)
qed auto

lemma contains_str_append: "contains_str s p \<Longrightarrow> contains_str (u @ s @ v) p"
  by (auto simp: contains_str_iff) (metis append.assoc)

lemma contains_str_refl [simp]: "contains_str s s"
  by (auto simp: contains_str_iff) (metis append.right_neutral append_Nil)

lemma py_lower_append [simp]: "py_lower (u @ v) = py_lower u @ py_lower v"
  by (simp add: py_lower_def)

lemma contains_py_lower: "contains_str s p \<Longrightarrow> contains_str (py_lower s) (py_lower p)"
  by (auto simp: contains_str_iff) blast

lemma contains_join: "x \<in> set xs \<Longrightarrow> contains_str (py_join sep xs) x"
proof (induction sep xs rule: py_join.induct)
  case (3 sep x' y xs)
  show ?case
  proof (cases "x = x'")
    case True
    then show ?thesis unfolding contains_str_iff by (intro exI [of _ "[]"] exI [of _ "sep @ py_join sep (y # xs)"]) simp
  next
    case False
    then have "contains_str (py_join sep (y # xs)) x" using 3 by auto
    then show ?thesis using contains_str_append [of "py_join sep (y # xs)" x "x' @ sep" "[]"] by simp
  qed
qed (auto intro: contains_str_refl)

lemma contains_str_trans: "contains_str s t \<Longrightarrow> contains_str t u \<Longrightarrow> contains_str s u"
  by (auto simp: contains_str_iff) (metis append.assoc)

lemma rstrip_by_prefix: "\<exists>v. s = rstrip_by P s @ v"
  by (metis rstrip_by_def rev_append rev_rev_ident takeWhile_dropWhile_id)

lemma strip_by_empty: "strip_by P s = [] \<Longrightarrow> rstrip_by P s = []"
proof (rule ccontr)
  assume e: "strip_by P s = []" and ne: "rstrip_by P s \<noteq> []"
  then have d: "dropWhile P (rev s) \<noteq> []" by (simp add: rstrip_by_def)
  have "\<forall>c \<in> set (rstrip_by P s). P c"
    using e by (simp add: strip_by_def dropWhile_rstrip [symmetric] dropWhile_eq_Nil_conv)
  moreover have "hd (dropWhile P (rev s)) \<in> set (rstrip_by P s)" using d by (simp add: rstrip_by_def)
  ultimately show False using hd_dropWhile [OF d] by blast
qed

end
