(* ===== verification/Disclose.thy ===== *)
theory Disclose
  imports Py_Text
begin

text \<open>
  Tier 2 disclosure (\<open>backend/app/policy/disclose.py\<close>): the records of calls that ran without
  asking, when a reply already discloses one, and the reply with the missing disclosures appended.
  A record's result, which nothing reads, is left out.
\<close>

record execution_record =
  er_tool_name :: string
  er_arguments :: dict
  er_targets :: "string list"
  er_disclosed :: bool

definition MAX_VALUE :: nat where "MAX_VALUE = 80"

definition render_arguments :: "(rat \<Rightarrow> string) \<Rightarrow> dict \<Rightarrow> string" where
  "render_arguments fstr args =
     py_join '', '' (map (\<lambda>(k, v). let t = py_str fstr v in
       if MAX_VALUE < length t then k @ ''=<'' @ nat_text (length t) @ '' chars>'' else k @ ''='' @ str_repr t) args)"

definition sentence :: "(rat \<Rightarrow> string) \<Rightarrow> execution_record \<Rightarrow> string" where
  "sentence fstr r =
     (if er_targets r \<noteq> [] then ''I used '' @ er_tool_name r @ '' on '' @ py_join '', '' (er_targets r) @ ''.''
      else if er_arguments r \<noteq> [] then ''I used '' @ er_tool_name r @ '' with '' @ render_arguments fstr (er_arguments r) @ ''.''
      else ''I used '' @ er_tool_name r @ ''.'')"

definition record_execution :: "execution_record list \<Rightarrow> string \<Rightarrow> dict \<Rightarrow> string list \<Rightarrow> execution_record list" where
  "record_execution rs tool args targets =
     rs @ [\<lparr>er_tool_name = tool, er_arguments = args, er_targets = targets, er_disclosed = False\<rparr>]"

definition covered :: "string \<Rightarrow> execution_record \<Rightarrow> bool" where
  "covered reply r =
     (let body = py_lower reply in
      if \<not> contains_str body (py_lower (er_tool_name r)) then False
      else if er_targets r \<noteq> [] then list_all (\<lambda>t. contains_str body (py_lower t)) (er_targets r)
      else True)"

definition disclosure_lines :: "(rat \<Rightarrow> string) \<Rightarrow> execution_record list \<Rightarrow> string list" where
  "disclosure_lines fstr missing = map (\<lambda>r. ''  - '' @ sentence fstr r) missing"

text \<open>The records as they are marked, and the reply to send.\<close>

definition apply_disclosures :: "(rat \<Rightarrow> string) \<Rightarrow> execution_record list \<Rightarrow> string \<Rightarrow> execution_record list \<times> string" where
  "apply_disclosures fstr rs reply =
     (let missing = filter (\<lambda>r. \<not> covered reply r) rs;
          rs' = map (\<lambda>r. r\<lparr>er_disclosed := covered reply r\<rparr>) rs in
      if missing = [] then (rs', reply)
      else (rs', py_join [newline]
        ((if reply \<noteq> [] \<and> py_strip reply \<noteq> [] then [rstrip_by py_isspace reply, [], ''Also, for the record:''] else [''For the record:''])
         @ disclosure_lines fstr missing)))"

lemma covered_mono: "covered s r \<Longrightarrow> contains_str t s \<Longrightarrow> covered t r"
  by (auto simp: covered_def Let_def list_all_iff split: if_splits
      intro: contains_str_trans [OF contains_py_lower])

lemma sentence_covers: "covered (sentence fstr r) r"
proof -
  have "contains_str (sentence fstr r) (er_tool_name r)"
    by (auto simp: sentence_def contains_str_iff) (metis append.assoc append_Cons append_Nil)+
  moreover have "contains_str (sentence fstr r) t" if "t \<in> set (er_targets r)" for t
  proof -
    have "er_targets r \<noteq> []" using that by auto
    then have "sentence fstr r = (''I used '' @ er_tool_name r @ '' on '') @ py_join '', '' (er_targets r) @ ''.''" by (simp add: sentence_def)
    then show ?thesis using contains_str_append [OF contains_join [OF that]] by metis
  qed
  ultimately show ?thesis by (auto simp: covered_def Let_def list_all_iff intro: contains_py_lower)
qed

lemma appended_sentence:
  assumes "r \<in> set rs" "\<not> covered reply r"
  shows "contains_str (snd (apply_disclosures fstr rs reply)) (''  - '' @ sentence fstr r)"
proof -
  let ?m = "filter (\<lambda>r. \<not> covered reply r) rs"
  let ?head = "if reply \<noteq> [] \<and> py_strip reply \<noteq> [] then [rstrip_by py_isspace reply, [], ''Also, for the record:''] else [''For the record:'']"
  have "?m \<noteq> []" using assms by (auto simp: filter_empty_conv)
  then have "snd (apply_disclosures fstr rs reply) = py_join [newline] (?head @ disclosure_lines fstr ?m)"
    by (simp only: apply_disclosures_def Let_def if_False snd_conv)
  moreover have "''  - '' @ sentence fstr r \<in> set (?head @ disclosure_lines fstr ?m)" using assms by (auto simp: disclosure_lines_def)
  ultimately show ?thesis by (simp only: contains_join)
qed

text \<open>
  After the disclosures are applied, each record is covered by the
  reply as the model wrote it or by the reply that is sent, because its own sentence was appended;
  a reply that covers every record is sent unchanged; and applying never removes text of the reply
  but trailing space.
\<close>

lemma every_execution_disclosed:
  shows "(\<forall>r \<in> set rs. covered reply r \<or> covered (snd (apply_disclosures fstr rs reply)) r)
    \<and> ((\<forall>r \<in> set rs. covered reply r) \<longrightarrow> snd (apply_disclosures fstr rs reply) = reply)
    \<and> (\<exists>rest. snd (apply_disclosures fstr rs reply) = rstrip_by py_isspace reply @ rest)"
proof -
  have "covered (snd (apply_disclosures fstr rs reply)) r" if "r \<in> set rs" "\<not> covered reply r" for r
  proof -
    have "contains_str (snd (apply_disclosures fstr rs reply)) (sentence fstr r)"
      using contains_str_trans [OF appended_sentence [OF that, of fstr]] contains_str_append [of "sentence fstr r" _ "''  - ''" "[]"] by simp
    then show ?thesis using covered_mono [OF sentence_covers] by blast
  qed
  moreover have "snd (apply_disclosures fstr rs reply) = reply" if "\<forall>r \<in> set rs. covered reply r"
    using that by (simp add: apply_disclosures_def filter_False Let_def)
  moreover have "\<exists>rest. snd (apply_disclosures fstr rs reply) = rstrip_by py_isspace reply @ rest"
  proof (cases "filter (\<lambda>r. \<not> covered reply r) rs = []")
    case True
    then show ?thesis
      using rstrip_by_prefix by (simp add: apply_disclosures_def)
  next
    case False
    show ?thesis
    proof (cases "py_strip reply = []")
      case True
      then have "rstrip_by py_isspace reply = []" by (simp add: py_strip_def strip_by_empty)
      then show ?thesis by simp
    next
      case ne: False
      then have "reply \<noteq> []" by (auto simp: py_strip_def strip_by_def)
      then show ?thesis using False ne by (simp add: apply_disclosures_def Let_def)
    qed
  qed
  ultimately show ?thesis by blast
qed

end
