(* ===== verification/Stores.thy ===== *)
theory Stores
  imports Prelude "HOL-Library.List_Lexorder" "HOL-Library.Char_ord"
begin

text \<open>
  Directories of records. Several components keep one JSON file per record in a directory: the
  pending actions of the policy engine, its grants, the trigger engine's held firings and turns.
  They share a contract (what a read returns after a write) and two loops: list the directory in
  name order and keep what satisfies a test, and sweep it, rewriting what an update function
  changes. The contract is the locale \<open>record_store\<close>; what the loops do is proved from it once.

  The theory also holds the error monad of the loaders and the key order of \<open>json.dump(...,
  sort_keys=True)\<close>.
\<close>

subsection \<open>Results that can fail\<close>

definition bind_res :: "'e + 'a \<Rightarrow> ('a \<Rightarrow> 'e + 'b) \<Rightarrow> 'e + 'b" where
  "bind_res r f = (case r of Inl e \<Rightarrow> Inl e | Inr a \<Rightarrow> f a)"

lemma bind_res_simps [simp]:
  "bind_res (Inl e) f = Inl e"
  "bind_res (Inr a) f = f a"
  by (simp_all add: bind_res_def)

lemma bind_res_Inr: "bind_res r f = Inr b \<longleftrightarrow> (\<exists>a. r = Inr a \<and> f a = Inr b)"
  by (cases r) auto

lemma bind_res_cong [fundef_cong]:
  "r = r' \<Longrightarrow> (\<And>a. r' = Inr a \<Longrightarrow> f a = g a) \<Longrightarrow> bind_res r f = bind_res r' g"
  by (cases r') auto

subsection \<open>Sorted keys\<close>

primrec json_sorted :: "py \<Rightarrow> py" where
  "json_sorted PNone = PNone"
| "json_sorted (PBool b) = PBool b"
| "json_sorted (PInt n) = PInt n"
| "json_sorted (PFloat q) = PFloat q"
| "json_sorted (PStr s) = PStr s"
| "json_sorted (PList xs) = PList (map json_sorted xs)"
| "json_sorted (PDict d) = PDict (sort_key fst (map (map_prod id json_sorted) d))"

definition sorted_dict :: "dict \<Rightarrow> dict" where
  "sorted_dict d = sort_key fst (map (map_prod id json_sorted) d)"

lemma json_sorted_PDict: "json_sorted (PDict d) = PDict (sorted_dict d)"
  by (simp add: sorted_dict_def)

lemma map_of_filter_key: "map_of (filter (\<lambda>x. fst x = k) xs) k = map_of xs k"
  by (induction xs) auto

lemma map_of_sort_key [simp]: "map_of (sort_key fst xs) k = map_of xs (k :: 'a :: linorder)"
  using map_of_filter_key [of k "sort_key fst xs"] map_of_filter_key [of k xs]
    sort_key_stable [of fst k xs] by simp

lemma map_of_sorted_dict: "map_of (sorted_dict d) k = map_option json_sorted (map_of d k)"
  by (simp add: sorted_dict_def) (induction d; auto)

lemma sort_key_Nil_iff [simp]: "sort_key f xs = [] \<longleftrightarrow> xs = []"
  by (metis length_0_conv length_sort)

lemma sorted_dict_Nil_iff [simp]: "sorted_dict d = [] \<longleftrightarrow> d = []"
  by (simp add: sorted_dict_def)

subsection \<open>One file per record\<close>

text \<open>Files are listed in the order of their names, \<open>id.json\<close>.\<close>

definition name_order :: "string list \<Rightarrow> string list" where
  "name_order ids = sort_key (\<lambda>i. i @ ''.json'') ids"

lemma set_name_order [simp]: "set (name_order ids) = set ids"
  by (simp add: name_order_def)

lemma distinct_name_order [simp]: "distinct (name_order ids) = distinct ids"
  by (simp add: name_order_def)

definition listing :: "('s \<Rightarrow> string \<Rightarrow> 'a option) \<Rightarrow> ('a \<Rightarrow> bool) \<Rightarrow> 's \<Rightarrow> string list \<Rightarrow> 'a list" where
  "listing rd P s ids = concat (map (\<lambda>i. case rd s i of None \<Rightarrow> [] | Some a \<Rightarrow> if P a then [a] else []) ids)"

fun sweep ::
  "('s \<Rightarrow> string \<Rightarrow> 'a option) \<Rightarrow> ('s \<Rightarrow> 'a \<Rightarrow> 's) \<Rightarrow> ('a \<Rightarrow> 'a option) \<Rightarrow> 's \<Rightarrow> string list \<Rightarrow> 's \<times> 'a list" where
  "sweep rd wr upd s [] = (s, [])"
| "sweep rd wr upd s (i # ids) =
     (case rd s i of
        None \<Rightarrow> sweep rd wr upd s ids
      | Some a \<Rightarrow>
          (case upd a of
             None \<Rightarrow> sweep rd wr upd s ids
           | Some b \<Rightarrow> let (s', out) = sweep rd wr upd (wr s b) ids in (s', b # out)))"

lemma in_listing: "a \<in> set (listing rd P s ids) \<longleftrightarrow> (\<exists>i \<in> set ids. rd s i = Some a) \<and> P a"
  by (induction ids) (auto simp: listing_def split: option.splits if_splits)

lemma listing_Cons: "listing rd P s (i # ids) =
    (case rd s i of None \<Rightarrow> [] | Some a \<Rightarrow> if P a then [a] else []) @ listing rd P s ids"
  by (simp add: listing_def)

lemma listing_cong:
  "(\<And>i. i \<in> set ids \<Longrightarrow> rd s i = rd s' i) \<Longrightarrow> listing rd P s ids = listing rd P s' ids"
  by (induction ids) (auto simp: listing_def)

locale record_store =
  fixes rd :: "'s \<Rightarrow> string \<Rightarrow> 'a option"
    and wr :: "'s \<Rightarrow> 'a \<Rightarrow> 's"
    and key :: "'a \<Rightarrow> string"
    and good :: "'s \<Rightarrow> bool"
  assumes rd_wr_same: "rd (wr s a) (key a) = Some a"
    and rd_wr_other: "i \<noteq> key a \<Longrightarrow> rd (wr s a) i = rd s i"
    and rd_key: "good s \<Longrightarrow> rd s i = Some a \<Longrightarrow> key a = i"
    and good_wr: "good s \<Longrightarrow> good (wr s a)"
begin

lemma rd_wr: "rd (wr s a) i = (if i = key a then Some a else rd s i)"
  by (simp add: rd_wr_same rd_wr_other)

lemma sweep_other: 
  assumes "good s" "\<And>a b. upd a = Some b \<Longrightarrow> key b = key a" "i \<notin> set ids"
  shows "rd (fst (sweep rd wr upd s ids)) i = rd s i"
  using assms
proof (induction ids arbitrary: s)
  case (Cons j ids)
  then show ?case
    by (auto simp: rd_wr split: option.splits prod.splits)
       (metis Cons.IH fst_conv good_wr rd_key rd_wr)
qed simp

lemma good_sweep: "good s \<Longrightarrow> good (fst (sweep rd wr upd s ids))"
proof (induction ids arbitrary: s)
  case (Cons j ids)
  then show ?case by (auto split: option.splits prod.splits) (metis fst_conv good_wr)
qed simp

lemma sweep_at:
  assumes "good s" "distinct ids" "\<And>a b. upd a = Some b \<Longrightarrow> key b = key a" "i \<in> set ids"
  shows "rd (fst (sweep rd wr upd s ids)) i =
    (case rd s i of None \<Rightarrow> None | Some a \<Rightarrow> (case upd a of None \<Rightarrow> Some a | Some b \<Rightarrow> Some b))"
  using assms
proof (induction ids arbitrary: s)
  case (Cons j ids)
  show ?case
  proof (cases "\<exists>a b. rd s j = Some a \<and> upd a = Some b")
    case False
    then have "fst (sweep rd wr upd s (j # ids)) = fst (sweep rd wr upd s ids)"
      by (auto split: option.splits)
    moreover have "rd (fst (sweep rd wr upd s ids)) i = rd s i" if "i = j"
      using that Cons.prems by (intro sweep_other) auto
    ultimately show ?thesis using False Cons by (auto split: option.splits)
  next
    case True
    then obtain a b where ab: "rd s j = Some a" "upd a = Some b" by blast
    have kb: "key b = j" using ab Cons.prems rd_key by metis
    have eq: "fst (sweep rd wr upd s (j # ids)) = fst (sweep rd wr upd (wr s b) ids)"
      using ab by (auto split: prod.splits)
    show ?thesis
    proof (cases "i = j")
      case True
      then have "rd (fst (sweep rd wr upd (wr s b) ids)) i = rd (wr s b) i"
        using Cons.prems good_wr by (intro sweep_other) auto
      then show ?thesis using eq ab kb True by (simp add: rd_wr)
    next
      case False
      then have "rd (fst (sweep rd wr upd (wr s b) ids)) i =
          (case rd (wr s b) i of None \<Rightarrow> None | Some a \<Rightarrow> (case upd a of None \<Rightarrow> Some a | Some b \<Rightarrow> Some b))"
        using Cons.prems good_wr by (intro Cons.IH) auto
      then show ?thesis using eq kb False by (simp add: rd_wr)
    qed
  qed
qed simp

lemma sweep_out:
  assumes "good s" "distinct ids" "\<And>a b. upd a = Some b \<Longrightarrow> key b = key a"
  shows "snd (sweep rd wr upd s ids) = List.map_filter (\<lambda>i. Option.bind (rd s i) upd) ids"
  using assms
proof (induction ids arbitrary: s)
  case (Cons j ids)
  show ?case
  proof (cases "\<exists>a b. rd s j = Some a \<and> upd a = Some b")
    case False
    then show ?thesis using Cons by (auto simp: map_filter_simps split: option.splits)
  next
    case True
    then obtain a b where ab: "rd s j = Some a" "upd a = Some b" by blast
    have kb: "key b = j" using ab Cons.prems rd_key by metis
    have "snd (sweep rd wr upd (wr s b) ids) = List.map_filter (\<lambda>i. Option.bind (rd (wr s b) i) upd) ids"
      using Cons.prems good_wr by (intro Cons.IH) auto
    also have "\<dots> = List.map_filter (\<lambda>i. Option.bind (rd s i) upd) ids"
      unfolding List.map_filter_def using Cons.prems kb by (auto simp: rd_wr intro!: map_cong filter_cong)
    finally show ?thesis using ab by (auto simp: map_filter_simps split: prod.splits)
  qed
qed (simp add: map_filter_simps)

end

end
