(* ===== verification/Plans.thy ===== *)
theory Plans
  imports Disclose Stores
begin

text \<open>
  The texts a person confirms: what a call acts on (\<open>backend/app/policy/targets.py\<close>), the lines of a
  ledger plan (\<open>render\<close>, \<open>strip_pins\<close> of \<open>backend/app/ledger/service.py\<close>), the plan of an action
  (\<open>PolicyMiddleware._plan_text\<close>), its restatements (\<open>confirm.py\<close>) and the expiry notice (\<open>limits.py\<close>).

  \<open>fstr\<close> is the text of a float and \<open>shown\<close> the display-safe form of a stored value. The quotation
  marks, dash, ellipsis and arrow of the sources stand as the characters named below.
\<close>

definition dash :: string where "dash = [char_of (151 :: nat)]"
definition arrow :: string where "arrow = [char_of (129 :: nat)]"
definition quoted :: "string \<Rightarrow> string" where "quoted s = char_of (147 :: nat) # s @ [char_of (148 :: nat)]"

subsection \<open>What a call acts on\<close>

definition nameable :: "py \<Rightarrow> bool" where
  "nameable v = (case v of PStr _ \<Rightarrow> True | PInt _ \<Rightarrow> True | PFloat _ \<Rightarrow> True | PBool _ \<Rightarrow> True | _ \<Rightarrow> False)"

definition item_lists :: "dict \<Rightarrow> (string \<times> py list) list" where
  "item_lists args = concat (map (\<lambda>(k, v). case v of
      PList xs \<Rightarrow> if xs \<noteq> [] \<and> list_all nameable xs then [(k, xs)] else [] | _ \<Rightarrow> []) args)"

definition describe_unresolved :: "(rat \<Rightarrow> string) \<Rightarrow> string \<Rightarrow> dict \<Rightarrow> nat \<Rightarrow> string" where
  "describe_unresolved fstr tool args candidates =
     (let shown_args = py_repr fstr (PDict (sort_key fst args)) in
      if 1 < candidates
      then tool @ '' '' @ dash @ '' could not tell which arguments are the items it acts on, so this covers the whole call: '' @ shown_args
      else tool @ ''('' @ shown_args @ '')'')"

subsection \<open>The lines of a ledger plan\<close>

definition PIN_KEY :: string where "PIN_KEY = ''_pin''"

definition strip_pins :: "py \<Rightarrow> py" where
  "strip_pins changes = (case changes of
     PList cs \<Rightarrow> PList (map (\<lambda>c. case c of PDict d \<Rightarrow> PDict (ddel d PIN_KEY) | _ \<Rightarrow> c) cs)
   | _ \<Rightarrow> changes)"

definition first_truthy :: "py list \<Rightarrow> py \<Rightarrow> py" where
  "first_truthy vs d = (case find truthy vs of Some v \<Rightarrow> v | None \<Rightarrow> d)"

definition is_op :: "py \<Rightarrow> string \<Rightarrow> bool" where
  "is_op v op = (v = PStr op)"

definition plan_names :: "(rat \<Rightarrow> string) \<Rightarrow> py list \<Rightarrow> (string \<times> string) list" where
  "plan_names fstr cs = foldl (\<lambda>names c. case c of
      PDict d \<Rightarrow> if truthy (dget d ''ref'') \<and> (is_op (dget d ''op'') ''create_project'' \<or> is_op (dget d ''op'') ''create_goal'')
        then dset names (py_str fstr (dget d ''ref''))
               (py_str fstr (first_truthy [dget d ''name'', dget d ''title''] (dget d ''ref'')))
        else names
    | _ \<Rightarrow> names) [] cs"

definition name_in_plan :: "(rat \<Rightarrow> string) \<Rightarrow> (string \<times> string) list \<Rightarrow> py \<Rightarrow> string" where
  "name_in_plan fstr names ref = (case map_of names (py_str fstr ref) of
     Some n \<Rightarrow> quoted n | None \<Rightarrow> if ref = PNone then ''?'' else py_str fstr ref)"

definition with_names :: "(rat \<Rightarrow> string) \<Rightarrow> (string \<times> string) list \<Rightarrow> dict \<Rightarrow> dict" where
  "with_names fstr names d =
     foldl (\<lambda>e k. case map_of d k of None \<Rightarrow> e | Some v \<Rightarrow> dset e k (PStr (name_in_plan fstr names v))) d [''project'', ''goal'']"

definition given :: "dict \<Rightarrow> string \<Rightarrow> bool" where
  "given d k = (dget d k \<noteq> PNone \<and> dget d k \<noteq> PStr [])"

definition UPDATED :: "string list" where
  "UPDATED = [''title'', ''status'', ''due_date'', ''owner'']"

text \<open>The line of one change, once the names are filled in.\<close>

definition change_line :: "(rat \<Rightarrow> string) \<Rightarrow> (py \<Rightarrow> string) \<Rightarrow> bool \<Rightarrow> dict \<Rightarrow> string" where
  "change_line fstr shown stored c =
     (let str = py_str fstr; op = dget c ''op'';
          got = (\<lambda>k d. str (dget_or c k (PStr d)));
          opt = (\<lambda>pre k post. if truthy (dget c k) then pre @ str (dget c k) @ post else []) in
      if is_op op ''create_project'' then ''Create project '' @ quoted (got ''name'' []) @ opt ('' '' @ dash @ '' '') ''why'' []
      else if is_op op ''create_goal'' then
        ''Add goal '' @ quoted (got ''title'' []) @ '' to '' @ got ''project'' ''?'' @ opt '', target '' ''target_date'' []
          @ '': done when '' @ got ''definition_of_done'' []
      else if is_op op ''create_task'' then
        ''Add task '' @ quoted (got ''title'' []) @ '' to '' @ got ''project'' ''?'' @ opt '', under goal '' ''goal'' []
          @ opt '', due '' ''due_date'' [] @ opt '', owner '' ''owner'' []
      else if is_op op ''update_task'' then
        (let fields_text = py_join '', '' (concat (map (\<lambda>k. case map_of c k of None \<Rightarrow> [] | Some v \<Rightarrow> [k @ '' '' @ arrow @ '' '' @ str v]) UPDATED));
             changed = (if fields_text = [] then ''nothing'' else fields_text);
             place = (if given c ''project'' then '' in '' @ str (dget c ''project'') else [])
         in case dget c PIN_KEY of
              PDict pin \<Rightarrow>
                if truthy (dget pin ''short_id'') then
                  (if stored
                   then ''Change task '' @ str (dget pin ''short_id'') @ '' '' @ quoted (shown (dget pin ''title'')) @ '' in ''
                     @ quoted (shown (dget pin ''project_name'')) @ '': '' @ changed
                   else ''Change task '' @ str (dget pin ''short_id'') @ '' (named '' @ got ''task'' ''?'' @ '')'' @ place @ '': '' @ changed)
                else ''Change task '' @ got ''task'' ''?'' @ place @ '': '' @ changed
            | _ \<Rightarrow> ''Change task '' @ got ''task'' ''?'' @ place @ '': '' @ changed)
      else if is_op op ''add_note'' then
        ''Record decision in '' @ got ''project'' ''?'' @ '': '' @ got ''decided'' [] @ opt '' (why: '' ''why'' '')''
      else if is_op op ''link_thread'' then ''Attach this conversation to '' @ got ''project'' ''?''
      else ''Unrecognised change: '' @ py_repr fstr (PDict c))"

text \<open>\<open>None\<close>: the value cannot be iterated, so the code raises.\<close>

definition render :: "(rat \<Rightarrow> string) \<Rightarrow> (py \<Rightarrow> string) \<Rightarrow> bool \<Rightarrow> py \<Rightarrow> string list option" where
  "render fstr shown stored changes = (case list_or_empty changes of
     None \<Rightarrow> None
   | Some cs \<Rightarrow> Some (map (\<lambda>c. case c of
         PDict d \<Rightarrow> change_line fstr shown stored (with_names fstr (plan_names fstr cs) d)
       | _ \<Rightarrow> ''Unrecognised change: '' @ py_repr fstr c) cs))"

definition resolve_targets :: "(rat \<Rightarrow> string) \<Rightarrow> (py \<Rightarrow> string) \<Rightarrow> string \<Rightarrow> dict \<Rightarrow> string list option" where
  "resolve_targets fstr shown tool args =
     (let structured = (if tool = ''ledger_apply'' then render fstr shown True (dget args ''changes'') else Some []) in
      case structured of
        None \<Rightarrow> None
      | Some (line # lines) \<Rightarrow> Some (line # lines)
      | Some [] \<Rightarrow>
          (case item_lists args of
             [(k, xs)] \<Rightarrow> Some (map (py_str fstr) xs)
           | cs \<Rightarrow> Some [describe_unresolved fstr tool args (length cs)]))"

definition source_argument :: "dict \<Rightarrow> string option" where
  "source_argument args =
     (case dget args ''changes'' of
        PList (c # cs) \<Rightarrow> Some ''changes''
      | _ \<Rightarrow> (case item_lists args of [(k, xs)] \<Rightarrow> Some k | _ \<Rightarrow> None))"

subsection \<open>The plan of an action\<close>

definition py_lines :: "string list \<Rightarrow> string" where
  "py_lines ls = py_join [newline] ls"

definition plan_text :: "string \<Rightarrow> string list \<Rightarrow> string \<Rightarrow> string list \<Rightarrow> string option \<Rightarrow> dict option \<Rightarrow> string \<Rightarrow> string" where
  "plan_text tool targets requester chain action_id args note =
     (let via = (if chain \<noteq> [] then py_join '' -> '' chain else requester);
          source = (case args of None \<Rightarrow> None | Some a \<Rightarrow> source_argument a)
      in py_lines
        ((if requester \<noteq> [] \<and> requester \<noteq> ''lead_agent''
          then [''**'' @ requester @ ''**, a subagent I delegated to ('' @ via @ ''), is asking for permission.'', []] else [])
         @ [''Before I do this, please confirm. I intend to use **'' @ tool @ ''** on exactly these '' @ nat_text (length targets)
              @ '' item(s)'' @ (case source of Some k \<Rightarrow> if k \<noteq> [] then '' (from `'' @ k @ ''`)'' else [] | None \<Rightarrow> []) @ '':'', []]
         @ map (\<lambda>t. ''  - '' @ t) targets
         @ (if note \<noteq> [] then [[], note] else [])
         @ (case action_id of
              Some i \<Rightarrow> if i \<noteq> [] then [[], ''Action `'' @ i @ ''`.'',
                 (if note \<noteq> [] then ''Waiting for you: confirm with the button on its card. A typed reply cannot confirm this one.''
                  else ''Waiting for you: confirm on the card, or reply yes.'')] else []
            | None \<Rightarrow> [])))"

definition plan_text_for :: "pending_action \<Rightarrow> string" where
  "plan_text_for a = plan_text (pa_tool_name a) (pa_targets a) (pa_requester a) (pa_chain a) (Some (pa_id a))
     (Some (pa_arguments a)) (origin_note a)"

definition model_safe_plan :: "(rat \<Rightarrow> string) \<Rightarrow> (py \<Rightarrow> string) \<Rightarrow> pending_action \<Rightarrow> (string \<times> string list) option" where
  "model_safe_plan fstr shown a =
     (if pa_tool_name a \<noteq> ''ledger_apply'' then Some (pa_plan_text a, pa_targets a)
      else case render fstr shown False (dget (pa_arguments a) ''changes'') of
        None \<Rightarrow> None
      | Some safe \<Rightarrow>
          if length safe \<noteq> length (pa_targets a) then Some (pa_plan_text a, pa_targets a)
          else Some (foldl (\<lambda>plan (old, new). replace_all (''  - '' @ old) (''  - '' @ new) plan)
                       (pa_plan_text a) (zip (pa_targets a) safe), safe))"

definition in_quotes :: "string \<Rightarrow> string" where
  "in_quotes s = CHR 0x22 # s @ [CHR 0x22]"

text \<open>\<open>iso_minutes\<close> is the expiry as \<open>isoformat(timespec=minutes)\<close> writes it.\<close>

definition restate :: "(rat \<Rightarrow> string) \<Rightarrow> (py \<Rightarrow> string) \<Rightarrow> (instant \<Rightarrow> string) \<Rightarrow> pending_action \<Rightarrow> string option" where
  "restate fstr shown iso_minutes a =
     map_option (\<lambda>(plan, targets). py_lines
       ([''I did not recognise that as a yes or a no, so nothing has happened. Here is the plan again in full:'', [],
         plan, [], ''It affects exactly these '' @ nat_text (length targets) @ '' item(s):'']
        @ map (\<lambda>t. ''  - '' @ t) targets
        @ [[], (if \<not> confirmable_by_typing a
             then ''It was '' @ origin_reason a @ '', so only the Confirm button on its card can approve it. Reply '' @ in_quotes (''no '' @ pa_id a) @ '' to cancel.''
             else ''Reply '' @ in_quotes (''yes '' @ pa_id a) @ '' to go ahead, or '' @ in_quotes (''no '' @ pa_id a) @ '' to cancel.''),
           ''If neither arrives, it expires at '' @ iso_minutes (pa_expires_at a) @ '' and does not run.'']))
       (model_safe_plan fstr shown a)"

definition describe_expiry :: "(instant \<Rightarrow> string) \<Rightarrow> pending_action \<Rightarrow> string" where
  "describe_expiry clock a = ''I asked to use '' @ pa_tool_name a @ '' and didn'' @ [single_quote] @ ''t hear back by ''
     @ clock (pa_expires_at a) @ '' UTC, so I did NOT do it. Nothing changed. Ask again if you still want it.''"

definition duplicate_proposal_text :: "pending_action \<Rightarrow> string" where
  "duplicate_proposal_text a = ''Not proposed: a card for '' @ pa_tool_name a @ '' ('' @ pa_id a
     @ '') is already waiting for the person to answer. Nothing new was proposed and nothing has run. Do not propose ''
     @ pa_tool_name a @ '' again in this turn; end your turn now and let the person answer the card.''"

definition refusal_text :: "string \<Rightarrow> string" where
  "refusal_text tool = ''Refused: '' @ tool @ '' was not run, because no permission policy rule covers it, and a tool without a rule is never run on a default. To use it, add a rule naming it to the policy rules file (the Policy page shows which file is in force).''"

end
