(* ===== verification/Classify.thy ===== *)
theory Classify
  imports Policy_Config "HOL-Library.Multiset"
begin

text \<open>
  Deciding a call's tier (\<open>backend/app/policy/classify.py\<close>, \<open>runtime_floors.py\<close>) and the two
  questions \<open>private_reads.py\<close> asks of the same rules. Names and patterns are compared in
  canonical form; a pattern is a shell glob (\<open>fnmatch.fnmatchcase\<close>). In a bracket expression whose
  reversed range is followed by \<open>!\<close>, \<open>fnmatch\<close> turns the rest into a negated class; that corner of
  the library is not modelled, every other bracket expression is.

  The index of exact patterns and its cache are modelled as written. The lemmas show that they
  select exactly the rules a scan would, in file order; that the decided tier is the highest
  effective tier of any matching rule and never below any rule's own tier; that a call is
  refused exactly when readable rules name no rule for it; and that knowing more about the turn
  (content read, private data read) never lowers a tier.
\<close>

subsection \<open>Globs\<close>

definition split_class :: "string \<Rightarrow> (string \<times> string) option" where
  "split_class p =
     (let n = (if take 1 p = ''!'' then 1 else 0);
          k = (if take 1 (drop n p) = '']'' then Suc n else n);
          body = drop k p
      in if CHR '']'' \<in> set body
         then Some (take k p @ takeWhile (\<lambda>c. c \<noteq> CHR '']'') body, tl (dropWhile (\<lambda>c. c \<noteq> CHR '']'') body))
         else None)"

fun class_ranges :: "string \<Rightarrow> (char \<times> char) list" where
  "class_ranges (a # b # c # s) =
     (if b = CHR ''-'' then (a, c) # class_ranges s else (a, a) # class_ranges (b # c # s))"
| "class_ranges (a # s) = (a, a) # class_ranges s"
| "class_ranges [] = []"

definition in_class :: "string \<Rightarrow> char \<Rightarrow> bool" where
  "in_class stuff x =
     (let hit = (\<lambda>s. list_ex (\<lambda>(a, b). code_of a \<le> code_of x \<and> code_of x \<le> code_of b) (class_ranges s)) in
      if take 1 stuff = ''!'' then \<not> hit (tl stuff) else hit stuff)"

lemma split_class_length: "split_class p = Some (stuff, r) \<Longrightarrow> length r < length p"
proof -
  assume a: "split_class p = Some (stuff, r)"
  then obtain k where ne: "CHR '']'' \<in> set (drop k p)"
    and r: "r = tl (dropWhile (\<lambda>c. c \<noteq> CHR '']'') (drop k p))"
    by (auto simp: split_class_def Let_def split: if_splits)
  have "dropWhile (\<lambda>c. c \<noteq> CHR '']'') (drop k p) \<noteq> []"
    using ne by (auto simp: dropWhile_eq_Nil_conv)
  then have "length r < length (dropWhile (\<lambda>c. c \<noteq> CHR '']'') (drop k p))"
    using r by (auto simp: neq_Nil_conv)
  also have "\<dots> \<le> length p" by (metis length_dropWhile_le length_drop diff_le_self le_trans)
  finally show ?thesis .
qed

function (sequential) glob_match :: "string \<Rightarrow> string \<Rightarrow> bool" where
  "glob_match [] s = (s = [])"
| "glob_match (p # ps) s =
     (if p = CHR ''*'' then glob_match ps s \<or> (if s = [] then False else glob_match (p # ps) (tl s))
      else if p = CHR ''?'' then s \<noteq> [] \<and> glob_match ps (tl s)
      else if p = CHR ''['' then
        (case split_class ps of
           None \<Rightarrow> s \<noteq> [] \<and> hd s = CHR ''['' \<and> glob_match ps (tl s)
         | Some (stuff, r) \<Rightarrow> s \<noteq> [] \<and> in_class stuff (hd s) \<and> glob_match r (tl s))
      else s \<noteq> [] \<and> hd s = p \<and> glob_match ps (tl s))"
  by pat_completeness auto
termination
  by (relation "measure (\<lambda>(p, s). length p + length s)") (auto dest: split_class_length simp: neq_Nil_conv)

declare glob_match.simps(2) [simp del]

definition no_glob :: "string \<Rightarrow> bool" where
  "no_glob p = list_all (\<lambda>c. c \<notin> {CHR ''*'', CHR ''?'', CHR ''[''}) p"

lemma glob_match_literal: "no_glob p \<Longrightarrow> glob_match p s = (s = p)"
proof (induction p arbitrary: s)
  case (Cons c p)
  then show ?case by (cases s) (auto simp: glob_match.simps(2) no_glob_def)
qed simp

subsection \<open>Candidate rules\<close>

text \<open>The positions of the exact patterns, and the globs with theirs.\<close>

type_synonym rule_index = "(string \<times> nat list) list \<times> (nat \<times> string) list"

fun index_rules :: "nat \<Rightarrow> classification_rule list \<Rightarrow> rule_index \<Rightarrow> rule_index" where
  "index_rules i [] ix = ix"
| "index_rules i (r # rs) (exact, globs) =
     (let pattern = canonical_tool_name (r_pattern r) in
      if no_glob pattern
      then index_rules (Suc i) rs
             (dset exact pattern ((case map_of exact pattern of None \<Rightarrow> [] | Some ps \<Rightarrow> ps) @ [i]), globs)
      else index_rules (Suc i) rs (exact, globs @ [(i, pattern)]))"

definition indexed_positions :: "rule_index \<Rightarrow> string \<Rightarrow> nat list" where
  "indexed_positions ix name =
     sort ((case map_of (fst ix) name of None \<Rightarrow> [] | Some ps \<Rightarrow> ps)
       @ map fst (filter (\<lambda>(p, pattern). glob_match pattern name) (snd ix)))"

text \<open>
  The cache \<open>_INDEX\<close>: an association from the identity of a rule set object to the object and
  its index. It is emptied when it holds more than 32 entries.
\<close>

type_synonym index_cache = "(nat \<times> (rule_set \<times> rule_index)) list"

definition candidates :: "index_cache \<Rightarrow> nat \<Rightarrow> string \<Rightarrow> rule_set \<Rightarrow> index_cache \<times> classification_rule list" where
  "candidates cache oid name rs =
     (let pick = (\<lambda>ix. map (\<lambda>p. rs_rules rs ! p) (indexed_positions ix name));
          rebuild = (let ix = index_rules 0 (rs_rules rs) ([], []);
                         cache' = (if 32 < length cache then [] else cache)
                     in (dset cache' oid (rs, ix), pick ix))
      in case map_of cache oid of
           Some (held, ix) \<Rightarrow> if held = rs then (cache, pick ix) else rebuild
         | None \<Rightarrow> rebuild)"

text \<open>The reference: a scan of the rules in file order.\<close>

definition scan_candidates :: "string \<Rightarrow> rule_set \<Rightarrow> classification_rule list" where
  "scan_candidates name rs = filter (\<lambda>r. glob_match (canonical_tool_name (r_pattern r)) name) (rs_rules rs)"

definition pos_matches :: "classification_rule list \<Rightarrow> string \<Rightarrow> nat \<Rightarrow> bool" where
  "pos_matches rs name p = glob_match (canonical_tool_name (r_pattern (rs ! p))) name"

lemma sort_filter_split:
  fixes n :: nat
  assumes "mset (xs @ ys) = mset (filter P [0..<n])"
  shows "sort (xs @ ys) = filter P [0..<n]"
proof -
  have "sorted (filter P [0..<n])" using sorted_filter [of "\<lambda>x. x" "[0..<n]" P] by simp
  then show ?thesis using assms by (metis properties_for_sort)
qed

text \<open>What the index holds after the rules \<open>0..<n\<close>.\<close>

definition index_of :: "classification_rule list \<Rightarrow> nat \<Rightarrow> rule_index \<Rightarrow> bool" where
  "index_of rs n ix \<longleftrightarrow>
     (\<forall>name. (case map_of (fst ix) name of None \<Rightarrow> [] | Some ps \<Rightarrow> ps)
        = filter (\<lambda>i. no_glob (canonical_tool_name (r_pattern (rs ! i)))
                    \<and> canonical_tool_name (r_pattern (rs ! i)) = name) [0..<n])
     \<and> snd ix = map (\<lambda>i. (i, canonical_tool_name (r_pattern (rs ! i))))
         (filter (\<lambda>i. \<not> no_glob (canonical_tool_name (r_pattern (rs ! i)))) [0..<n])"

lemma index_of_empty: "index_of rs 0 ([], [])"
  by (simp add: index_of_def)

lemma index_rules_index_of:
  "rs = pre @ post \<Longrightarrow> index_of rs (length pre) ix \<Longrightarrow>
     index_of rs (length rs) (index_rules (length pre) post ix)"
proof (induction post arbitrary: pre ix)
  case Nil
  then show ?case by simp
next
  case (Cons r post)
  obtain exact globs where ix: "ix = (exact, globs)" by (cases ix)
  let ?n = "length pre"
  have r: "rs ! ?n = r" using Cons.prems(1) by simp
  let ?pat = "canonical_tool_name (r_pattern r)"
  let ?step = "if no_glob ?pat
      then (dset exact ?pat ((case map_of exact ?pat of None \<Rightarrow> [] | Some ps \<Rightarrow> ps) @ [?n]), globs)
      else (exact, globs @ [(?n, ?pat)])"
  have "index_of rs (Suc ?n) ?step"
    using Cons.prems(2) r unfolding index_of_def ix by (auto simp: upt_Suc_append)
  moreover have "index_rules ?n (r # post) ix = index_rules (Suc ?n) post ?step"
    by (simp add: ix Let_def)
  ultimately show ?case
    using Cons.IH [of "pre @ [r]" ?step] Cons.prems(1) by simp
qed

lemma map_nth_filter_upt: "map (\<lambda>i. xs ! i) (filter (\<lambda>i. P (xs ! i)) [0..<length xs]) = filter P xs"
proof -
  have "filter P (map (\<lambda>i. xs ! i) [0..<length xs]) = map (\<lambda>i. xs ! i) (filter (P \<circ> (\<lambda>i. xs ! i)) [0..<length xs])"
    by (rule filter_map)
  then show ?thesis by (simp add: map_nth comp_def)
qed

lemma mset_filter_split:
  "mset (filter P xs @ filter Q xs) = mset (filter R xs)"
  if "\<And>x. x \<in> set xs \<Longrightarrow> R x = (P x \<or> Q x)" "\<And>x. x \<in> set xs \<Longrightarrow> \<not> (P x \<and> Q x)"
  using that by (induction xs) auto

lemma indexed_positions_scan:
  assumes "index_of (rs_rules rs) (length (rs_rules rs)) ix"
  shows "map (\<lambda>p. rs_rules rs ! p) (indexed_positions ix name) = scan_candidates name rs"
proof -
  let ?rs = "rs_rules rs" and ?n = "length (rs_rules rs)"
  let ?pat = "\<lambda>i. canonical_tool_name (r_pattern (?rs ! i))"
  let ?ex = "filter (\<lambda>i. no_glob (?pat i) \<and> ?pat i = name) [0..<?n]"
  let ?gl = "filter (\<lambda>i. \<not> no_glob (?pat i) \<and> glob_match (?pat i) name) [0..<?n]"
  have e: "(case map_of (fst ix) name of None \<Rightarrow> [] | Some ps \<Rightarrow> ps) = ?ex"
    using assms by (auto simp: index_of_def)
  have g: "map fst (filter (\<lambda>(p, pattern). glob_match pattern name) (snd ix)) = ?gl"
    using assms by (simp add: index_of_def filter_map comp_def conj_commute)
  have "mset (?ex @ ?gl) = mset (filter (pos_matches ?rs name) [0..<?n])"
    by (rule mset_filter_split) (auto simp: pos_matches_def glob_match_literal)
  then have "sort (?ex @ ?gl) = filter (pos_matches ?rs name) [0..<?n]"
    by (rule sort_filter_split)
  then have "indexed_positions ix name = filter (pos_matches ?rs name) [0..<?n]"
    unfolding indexed_positions_def e g .
  then show ?thesis
    using map_nth_filter_upt [of ?rs "\<lambda>r. glob_match (canonical_tool_name (r_pattern r)) name"]
    by (simp add: scan_candidates_def pos_matches_def [abs_def])
qed

definition cache_ok :: "index_cache \<Rightarrow> bool" where
  "cache_ok cache \<longleftrightarrow>
     (\<forall>oid rs ix. map_of cache oid = Some (rs, ix) \<longrightarrow> index_of (rs_rules rs) (length (rs_rules rs)) ix)
     \<and> length cache \<le> 33"

lemma candidates_scan_ok:
  assumes "cache_ok cache" "candidates cache oid name rs = (cache', found)"
  shows "found = scan_candidates name rs \<and> cache_ok cache'"
proof -
  have fresh: "index_of (rs_rules rs) (length (rs_rules rs)) (index_rules 0 (rs_rules rs) ([], []))"
    using index_rules_index_of [of "rs_rules rs" "[]"] index_of_empty by simp
  have len: "length (dset (if 32 < length cache then [] else cache) oid (rs, index_rules 0 (rs_rules rs) ([], []))) \<le> 33"
    using length_dset_le [of "if 32 < length cache then [] else cache" oid "(rs, index_rules 0 (rs_rules rs) ([], []))"]
    by (auto split: if_splits)
  show ?thesis
    using assms fresh len indexed_positions_scan
    by (auto simp: candidates_def cache_ok_def Let_def split: option.splits prod.splits if_splits)
qed

text \<open>
  C28. The indexed and cached lookup of the rules for a name returns exactly the rules a scan of
  the file would find, in file order, whatever the cache holds; and the cache stays correct and
  bounded.
\<close>

theorem candidates_equal_scan:
  assumes "cache_ok cache" "candidates cache oid name rs = (cache', found)"
  shows "found = scan_candidates name rs \<and> cache_ok cache'"
  using assms by (rule candidates_scan_ok)

theorem candidates_equal_scan_witness:
  "snd (candidates [] 7 ''a_b'' \<lparr>rs_rules =
     [\<lparr>r_pattern = ''A-*'', r_tier = TIER_2, r_exceptions = [], r_source_line = None, r_reversible = None,
       r_reads_private = None\<rparr>], rs_expires_after = 1, rs_threshold = 1, rs_unreadable = False\<rparr>)
   = scan_candidates ''a_b'' \<lparr>rs_rules =
     [\<lparr>r_pattern = ''A-*'', r_tier = TIER_2, r_exceptions = [], r_source_line = None, r_reversible = None,
       r_reads_private = None\<rparr>], rs_expires_after = 1, rs_threshold = 1, rs_unreadable = False\<rparr>"
  by (rule candidates_equal_scan [THEN conjunct1]) (auto simp: cache_ok_def intro: surjective_pairing)

subsection \<open>Floors that depend on where a tool runs\<close>

text \<open>
  The sandbox section of the configuration and the three facts \<open>sandbox_network\<close>,
  \<open>sandbox_egress\<close> and \<open>key_secret\<close> report; \<open>None\<close> is a configuration that cannot be read.
\<close>

record sandbox_config =
  sb_use :: string
  sb_provisioner_url :: string
  sb_extra_provisioner_url :: string
  sb_network :: "string option"
  sb_egress :: "string option"
  sb_key_secret :: string

definition bash_runs_in_the_hardened_sandbox :: "sandbox_config option \<Rightarrow> bool" where
  "bash_runs_in_the_hardened_sandbox config = (case config of
     None \<Rightarrow> False
   | Some sb \<Rightarrow>
       if \<not> ends_with (sb_use sb) '':AioSandboxProvider'' \<or> \<not> contains_str (sb_use sb) ''aio_sandbox'' then False
       else if sb_provisioner_url sb \<noteq> [] \<or> sb_extra_provisioner_url sb \<noteq> [] then False
       else sb_network sb \<noteq> None \<and> sb_egress sb \<noteq> None \<and> sb_key_secret sb \<noteq> [])"

definition runtime_floor :: "sandbox_config option \<Rightarrow> string \<Rightarrow> tier option" where
  "runtime_floor config name =
     (if name = ''bash'' \<and> \<not> bash_runs_in_the_hardened_sandbox config then Some TIER_3 else None)"

subsection \<open>Classification\<close>

definition rule_step ::
    "dict \<Rightarrow> bool \<Rightarrow> bool \<Rightarrow> tier \<times> rule_exception option \<Rightarrow> rule_exception \<Rightarrow> tier \<times> rule_exception option" where
  "rule_step args ac pr acc e =
     (if exception_matches e args ac pr \<and> fst acc < ex_tier e then (ex_tier e, Some e) else acc)"

definition rule_tier :: "dict \<Rightarrow> bool \<Rightarrow> bool \<Rightarrow> classification_rule \<Rightarrow> tier \<times> rule_exception option" where
  "rule_tier args ac pr r = foldl (rule_step args ac pr) (r_tier r, None) (r_exceptions r)"

type_synonym best_rule = "tier \<times> classification_rule option \<times> rule_exception option"

definition best_step :: "dict \<Rightarrow> bool \<Rightarrow> bool \<Rightarrow> best_rule \<Rightarrow> classification_rule \<Rightarrow> best_rule" where
  "best_step args ac pr best r =
     (let (t, raised) = rule_tier args ac pr r in
      if fst (snd best) = None \<or> fst best < t then (t, Some r, raised) else best)"

definition best_rule :: "dict \<Rightarrow> bool \<Rightarrow> bool \<Rightarrow> classification_rule list \<Rightarrow> best_rule" where
  "best_rule args ac pr rules = foldl (best_step args ac pr) (TIER_3, None, None) rules"

definition decide ::
    "sandbox_config option \<Rightarrow> rule_set \<Rightarrow> string \<Rightarrow> dict \<Rightarrow> bool \<Rightarrow> bool \<Rightarrow> classification_rule list \<Rightarrow> policy_decision" where
  "decide config rs tool_name args ac pr found =
     (if found = [] then
        (if rs_unreadable rs
         then \<lparr>d_tool_name = tool_name, d_tier = TIER_3, d_rule = None, d_raised_by = None, d_refused = False\<rparr>
         else \<lparr>d_tool_name = tool_name, d_tier = TIER_3, d_rule = None, d_raised_by = None, d_refused = True\<rparr>)
      else
        (let (t, rule, raised) = best_rule args ac pr found in
         case runtime_floor config (canonical_tool_name tool_name) of
           Some fl \<Rightarrow>
             if t < fl
             then \<lparr>d_tool_name = tool_name, d_tier = fl, d_rule = rule, d_raised_by = raised, d_refused = False\<rparr>
             else \<lparr>d_tool_name = tool_name, d_tier = t, d_rule = rule, d_raised_by = raised, d_refused = False\<rparr>
         | None \<Rightarrow> \<lparr>d_tool_name = tool_name, d_tier = t, d_rule = rule, d_raised_by = raised, d_refused = False\<rparr>))"

text \<open>With the cache threaded through, as the code runs, and with the scan in its place.\<close>

definition classify_cached ::
    "index_cache \<Rightarrow> nat \<Rightarrow> sandbox_config option \<Rightarrow> rule_set \<Rightarrow> string \<Rightarrow> dict \<Rightarrow> bool \<Rightarrow> bool
       \<Rightarrow> index_cache \<times> policy_decision" where
  "classify_cached cache oid config rs tool_name args ac pr =
     (let (cache', found) = candidates cache oid (canonical_tool_name tool_name) rs
      in (cache', decide config rs tool_name args ac pr found))"

definition classify :: "sandbox_config option \<Rightarrow> rule_set \<Rightarrow> string \<Rightarrow> dict \<Rightarrow> bool \<Rightarrow> bool \<Rightarrow> policy_decision" where
  "classify config rs tool_name args ac pr =
     decide config rs tool_name args ac pr (scan_candidates (canonical_tool_name tool_name) rs)"

lemma classify_cached_classify:
  assumes "cache_ok cache" "classify_cached cache oid config rs tool_name args ac pr = (cache', d)"
  shows "d = classify config rs tool_name args ac pr \<and> cache_ok cache'"
proof -
  have fresh: "index_of (rs_rules rs) (length (rs_rules rs)) (index_rules 0 (rs_rules rs) ([], []))"
    using index_rules_index_of [of "rs_rules rs" "[]"] index_of_empty by simp
  obtain c found where cf: "candidates cache oid (canonical_tool_name tool_name) rs = (c, found)"
    by (cases "candidates cache oid (canonical_tool_name tool_name) rs")
  then have "found = scan_candidates (canonical_tool_name tool_name) rs \<and> cache_ok c"
    using candidates_scan_ok [OF assms(1) cf] by simp
  with assms(2) cf show ?thesis by (auto simp: classify_cached_def classify_def)
qed

lemma rule_step_fold:
  "fst acc \<le> fst (foldl (rule_step args ac pr) acc es)
   \<and> (\<forall>e \<in> set es. exception_matches e args ac pr \<longrightarrow> ex_tier e \<le> fst (foldl (rule_step args ac pr) acc es))
   \<and> (fst (foldl (rule_step args ac pr) acc es) = fst acc
       \<or> (\<exists>e \<in> set es. exception_matches e args ac pr \<and> fst (foldl (rule_step args ac pr) acc es) = ex_tier e))"
proof (induction es arbitrary: acc)
  case (Cons e es)
  let ?acc = "rule_step args ac pr acc e"
  have "fst acc \<le> fst ?acc" "exception_matches e args ac pr \<Longrightarrow> ex_tier e \<le> fst ?acc"
    "fst ?acc = fst acc \<or> (exception_matches e args ac pr \<and> fst ?acc = ex_tier e)"
    by (auto simp: rule_step_def)
  with Cons.IH [of ?acc] show ?case by fastforce
qed simp

lemma rule_tier_bounds:
  "r_tier r \<le> fst (rule_tier args ac pr r)"
  "e \<in> set (r_exceptions r) \<Longrightarrow> exception_matches e args ac pr \<Longrightarrow> ex_tier e \<le> fst (rule_tier args ac pr r)"
  "fst (rule_tier args ac pr r) = r_tier r
     \<or> (\<exists>e \<in> set (r_exceptions r). exception_matches e args ac pr \<and> fst (rule_tier args ac pr r) = ex_tier e)"
  using rule_step_fold [of "(r_tier r, None)" args ac pr "r_exceptions r"] by (auto simp: rule_tier_def)

lemma best_step_fold:
  assumes "fst (snd best) \<noteq> None"
  shows "fst best \<le> fst (foldl (best_step args ac pr) best rules)
     \<and> fst (snd (foldl (best_step args ac pr) best rules)) \<noteq> None
     \<and> (\<forall>r \<in> set rules. fst (rule_tier args ac pr r) \<le> fst (foldl (best_step args ac pr) best rules))
     \<and> (foldl (best_step args ac pr) best rules = best \<or>
         (\<exists>r \<in> set rules. foldl (best_step args ac pr) best rules
            = (fst (rule_tier args ac pr r), Some r, snd (rule_tier args ac pr r))))"
  using assms
proof (induction rules arbitrary: best)
  case (Cons r rules)
  let ?b = "best_step args ac pr best r"
  have b: "fst best \<le> fst ?b" "fst (snd ?b) \<noteq> None" "fst (rule_tier args ac pr r) \<le> fst ?b"
    "?b = best \<or> ?b = (fst (rule_tier args ac pr r), Some r, snd (rule_tier args ac pr r))"
    using Cons.prems by (auto simp: best_step_def Let_def split: prod.splits)
  note ih = Cons.IH [OF b(2)]
  show ?case using b ih by fastforce
qed simp

text \<open>The best rule of a non-empty list has the highest effective tier.\<close>

lemma best_rule_highest:
  assumes "rules \<noteq> []"
  shows "\<exists>r \<in> set rules. best_rule args ac pr rules = (fst (rule_tier args ac pr r), Some r, snd (rule_tier args ac pr r))"
    and "\<forall>r \<in> set rules. fst (rule_tier args ac pr r) \<le> fst (best_rule args ac pr rules)"
proof -
  obtain r rs where rules: "rules = r # rs" using assms by (cases rules) auto
  let ?b = "(fst (rule_tier args ac pr r), Some r, snd (rule_tier args ac pr r))"
  have "best_rule args ac pr rules = foldl (best_step args ac pr) ?b rs"
    by (simp add: best_rule_def rules best_step_def split_def Let_def)
  moreover have "fst (snd ?b) \<noteq> None" by simp
  note best_step_fold [OF this, of args ac pr rs]
  ultimately show "\<exists>r \<in> set rules. best_rule args ac pr rules = (fst (rule_tier args ac pr r), Some r, snd (rule_tier args ac pr r))"
    and "\<forall>r \<in> set rules. fst (rule_tier args ac pr r) \<le> fst (best_rule args ac pr rules)"
    using rules by fastforce+
qed

lemma decide_nonempty:
  assumes "found \<noteq> []"
  shows "\<exists>r \<in> set found. d_rule (decide config rs tool args ac pr found) = Some r
      \<and> d_raised_by (decide config rs tool args ac pr found) = snd (rule_tier args ac pr r)
      \<and> \<not> d_refused (decide config rs tool args ac pr found)
      \<and> d_tier (decide config rs tool args ac pr found)
          = max (fst (rule_tier args ac pr r)) (case runtime_floor config (canonical_tool_name tool) of None \<Rightarrow> TIER_1 | Some f \<Rightarrow> f)
      \<and> (\<forall>r' \<in> set found. fst (rule_tier args ac pr r') \<le> fst (rule_tier args ac pr r))"
proof -
  obtain r where r: "r \<in> set found"
    "best_rule args ac pr found = (fst (rule_tier args ac pr r), Some r, snd (rule_tier args ac pr r))"
    using best_rule_highest(1) [OF assms] by blast
  have "\<forall>r' \<in> set found. fst (rule_tier args ac pr r') \<le> fst (rule_tier args ac pr r)"
    using best_rule_highest(2) [OF assms, of args ac pr] r(2) by simp
  then show ?thesis
    using r assms by (intro bexI [of _ r]) (auto simp: decide_def max_def antisym split: option.splits)
qed

definition floor_tier :: "sandbox_config option \<Rightarrow> string \<Rightarrow> tier" where
  "floor_tier config tool = (case runtime_floor config (canonical_tool_name tool) of None \<Rightarrow> TIER_1 | Some f \<Rightarrow> f)"

text \<open>The tiers a rule may give a call: its own and those of the exceptions that apply.\<close>

definition rule_tiers :: "dict \<Rightarrow> bool \<Rightarrow> bool \<Rightarrow> classification_rule \<Rightarrow> tier set" where
  "rule_tiers args ac pr r = insert (r_tier r) (ex_tier ` {e \<in> set (r_exceptions r). exception_matches e args ac pr})"

lemma rule_tier_in: "fst (rule_tier args ac pr r) \<in> rule_tiers args ac pr r"
  using rule_tier_bounds(3) [of args ac pr r] by (auto simp: rule_tiers_def)

lemma rule_tier_ge: "t \<in> rule_tiers args ac pr r \<Longrightarrow> t \<le> fst (rule_tier args ac pr r)"
  by (auto simp: rule_tiers_def rule_tier_bounds(1,2))

text \<open>The abstract tier of a call: the highest of everything the matching rules and the floor say.\<close>

definition call_tiers :: "sandbox_config option \<Rightarrow> rule_set \<Rightarrow> string \<Rightarrow> dict \<Rightarrow> bool \<Rightarrow> bool \<Rightarrow> tier set" where
  "call_tiers config rs tool args ac pr =
     insert (floor_tier config tool)
       (\<Union>r \<in> set (scan_candidates (canonical_tool_name tool) rs). rule_tiers args ac pr r)"

lemma classify_d_tier:
  assumes ne: "scan_candidates (canonical_tool_name tool) rs \<noteq> []"
  shows "d_tier (classify config rs tool args ac pr) \<in> call_tiers config rs tool args ac pr"
    and "\<forall>t \<in> call_tiers config rs tool args ac pr. t \<le> d_tier (classify config rs tool args ac pr)"
    and "\<not> d_refused (classify config rs tool args ac pr)"
proof -
  let ?c = "scan_candidates (canonical_tool_name tool) rs" and ?d = "classify config rs tool args ac pr"
  obtain r where r: "r \<in> set ?c" "\<not> d_refused ?d"
    "d_tier ?d = max (fst (rule_tier args ac pr r)) (floor_tier config tool)"
    "\<forall>r' \<in> set ?c. fst (rule_tier args ac pr r') \<le> fst (rule_tier args ac pr r)"
    using decide_nonempty [OF ne, of config rs tool args ac pr] unfolding classify_def floor_tier_def by blast
  show "\<not> d_refused ?d" by (rule r(2))
  show "d_tier ?d \<in> call_tiers config rs tool args ac pr"
    using r(1,3) rule_tier_in [of args ac pr r] by (auto simp: call_tiers_def max_def)
  show "\<forall>t \<in> call_tiers config rs tool args ac pr. t \<le> d_tier ?d"
  proof
    fix t assume "t \<in> call_tiers config rs tool args ac pr"
    then consider "t = floor_tier config tool" | r' where "r' \<in> set ?c" "t \<in> rule_tiers args ac pr r'"
      by (auto simp: call_tiers_def)
    then show "t \<le> d_tier ?d"
    proof cases
      case 2
      then have "t \<le> fst (rule_tier args ac pr r')" by (simp add: rule_tier_ge)
      also have "\<dots> \<le> fst (rule_tier args ac pr r)" using 2 r(4) by blast
      finally show ?thesis using r(3) by (simp add: le_max_iff_disj)
    qed (use r(3) in simp)
  qed
qed

text \<open>
  C5. The highest tier wins. When some rule names the tool, the call is not refused and its tier
  is the greatest of: the tiers of all matching rules, the tiers of all their exceptions that
  apply to this call, and the tool's runtime floor. In particular no exception, no later rule
  and no floor can lower what any matching rule demands.
\<close>

theorem classify_highest_tier:
  assumes "scan_candidates (canonical_tool_name tool) rs \<noteq> []"
  shows "\<not> d_refused (classify config rs tool args ac pr)
    \<and> d_tier (classify config rs tool args ac pr) = Max (call_tiers config rs tool args ac pr)"
proof -
  have "finite (call_tiers config rs tool args ac pr)"
    by (auto simp: call_tiers_def rule_tiers_def)
  then show ?thesis
    using classify_d_tier [OF assms, of config args ac pr] by (auto intro: Max_eqI [symmetric])
qed

definition sample_rules :: rule_set where
  "sample_rules = \<lparr>rs_rules =
     [\<lparr>r_pattern = ''postgres_query'', r_tier = TIER_1,
       r_exceptions = [\<lparr>ex_tier = TIER_3, ex_when = [], ex_unless = [(''sql'', ''read_only_sql'')],
          ex_after_content = False, ex_after_private_read = False\<rparr>],
       r_source_line = Some 0, r_reversible = None, r_reads_private = None\<rparr>,
      \<lparr>r_pattern = ''web_*'', r_tier = TIER_1,
       r_exceptions = [\<lparr>ex_tier = TIER_3, ex_when = [], ex_unless = [],
          ex_after_content = False, ex_after_private_read = True\<rparr>],
       r_source_line = Some 1, r_reversible = None, r_reads_private = Some False\<rparr>,
      \<lparr>r_pattern = ''ledger_apply'', r_tier = TIER_2, r_exceptions = [],
       r_source_line = Some 2, r_reversible = Some True, r_reads_private = None\<rparr>],
     rs_expires_after = 14400, rs_threshold = 10, rs_unreadable = False\<rparr>"

lemma sample_candidates:
  "scan_candidates (canonical_tool_name ''Postgres-Query'') sample_rules \<noteq> []"
  "scan_candidates (canonical_tool_name ''web_fetch'') sample_rules \<noteq> []"
  "scan_candidates (canonical_tool_name ''unheard_of'') sample_rules = []"
  by code_simp+

theorem classify_highest_tier_witness:
  "d_tier (classify None sample_rules ''Postgres-Query'' [(''sql'', PStr ''DELETE FROM t'')] False False)
     = Max (call_tiers None sample_rules ''Postgres-Query'' [(''sql'', PStr ''DELETE FROM t'')] False False)"
  using classify_highest_tier [OF sample_candidates(1)] by blast

text \<open>
  C26. A call is refused exactly when the rules are readable and none of them names the tool; a
  call no rule names never gets a tier below Tier 3, so unreadable rules make every call ask.
\<close>

theorem classify_refused_iff:
  "(d_refused (classify config rs tool args ac pr) \<longleftrightarrow>
     scan_candidates (canonical_tool_name tool) rs = [] \<and> \<not> rs_unreadable rs)
   \<and> (scan_candidates (canonical_tool_name tool) rs = [] \<longrightarrow>
     d_tier (classify config rs tool args ac pr) = TIER_3 \<and> d_rule (classify config rs tool args ac pr) = None)"
  using classify_d_tier(3) [of tool rs config args ac pr]
  by (cases "scan_candidates (canonical_tool_name tool) rs = []") (auto simp: classify_def decide_def)

theorem classify_refused_iff_witness:
  "d_refused (classify None sample_rules ''unheard_of'' [] False False)
   \<and> d_tier (classify None sample_rules ''unheard_of'' [] False False) = TIER_3"
  using classify_refused_iff [of None sample_rules "''unheard_of''" "[]" False False] sample_candidates(3)
  by (simp add: sample_rules_def)

lemma call_tiers_mono:
  "(ac \<Longrightarrow> ac') \<Longrightarrow> (pr \<Longrightarrow> pr') \<Longrightarrow> call_tiers config rs tool args ac pr \<subseteq> call_tiers config rs tool args ac' pr'"
proof -
  assume f: "ac \<Longrightarrow> ac'" "pr \<Longrightarrow> pr'"
  have "rule_tiers args ac pr r \<subseteq> rule_tiers args ac' pr' r" for r
    using exception_matches_flags_mono [OF _ f] by (auto simp: rule_tiers_def)
  then show ?thesis unfolding call_tiers_def by (intro insert_mono UN_mono subset_refl)
qed

text \<open>
  C27. Provenance only raises: learning that content the agent read led to the call, or that the
  turn read the person's private data, never lowers the call's tier and never turns a refusal
  into a permission.
\<close>

theorem classify_flags_monotone:
  assumes "ac \<longrightarrow> ac'" "pr \<longrightarrow> pr'"
  shows "d_tier (classify config rs tool args ac pr) \<le> d_tier (classify config rs tool args ac' pr')
    \<and> d_refused (classify config rs tool args ac' pr') = d_refused (classify config rs tool args ac pr)"
proof (cases "scan_candidates (canonical_tool_name tool) rs = []")
  case True
  then show ?thesis by (simp add: classify_def decide_def)
next
  case False
  have "d_tier (classify config rs tool args ac pr) \<in> call_tiers config rs tool args ac' pr'"
    using classify_d_tier(1) [OF False, of config args ac pr] call_tiers_mono assms by blast
  then show ?thesis
    using classify_d_tier(2,3) [OF False] by blast
qed

theorem classify_flags_monotone_witness:
  "d_tier (classify None sample_rules ''web_fetch'' [] False False)
     \<le> d_tier (classify None sample_rules ''web_fetch'' [] False True)
   \<and> d_tier (classify None sample_rules ''web_fetch'' [] False False) = TIER_1
   \<and> d_tier (classify None sample_rules ''web_fetch'' [] False True) = TIER_3"
proof -
  have "d_tier (classify None sample_rules ''web_fetch'' [] False False) = TIER_1"
    "d_tier (classify None sample_rules ''web_fetch'' [] False True) = TIER_3"
    by code_simp+
  then show ?thesis
    using classify_flags_monotone [of False False False True None sample_rules "''web_fetch''" "[]"] by simp
qed

text \<open>
  C29. The SQL escape hatch is tight. Let a rule that names the tool have an exception whose only condition is \<open>unless\<close> one
  argument is read-only SQL. Whatever the other rules and exceptions say, the call is decided below the tier of the exception
  only if that argument is a text that consists of comments and white space, one statement that begins with \<open>select\<close>, holds no
  semicolon and no word \<open>into\<close>, and then only semicolons and white space.
\<close>

theorem unless_read_only_sql_sound:
  assumes "r \<in> set (scan_candidates (canonical_tool_name tool) rs)" "e \<in> set (r_exceptions r)"
    and "ex_unless e = [(key, ''read_only_sql'')]" "ex_when e = []"
    and "\<not> ex_after_content e" "\<not> ex_after_private_read e"
    and "d_tier (classify config rs tool args ac pr) < ex_tier e"
  shows "\<exists>s pre body post. map_of args key = Some (PStr s) \<and> s = pre @ body @ post
    \<and> sql_blank pre \<and> CHR '';'' \<notin> set body \<and> starts_with (py_lower body) ''select''
    \<and> \<not> has_word ''into'' False body
    \<and> (\<forall>c \<in> set post. c = CHR '';'' \<or> py_isspace c)"
proof -
  have ne: "scan_candidates (canonical_tool_name tool) rs \<noteq> []" using assms(1) by auto
  have "ex_tier e \<in> call_tiers config rs tool args ac pr" if "exception_matches e args ac pr"
    using assms(1,2) that by (auto simp: call_tiers_def rule_tiers_def)
  then have "\<not> exception_matches e args ac pr" using classify_d_tier(2) [OF ne] assms(7) by fastforce
  then have "safety_established args (key, ''read_only_sql'')"
    using assms(3-6) by (simp add: unless_exception_matches)
  then obtain v where v: "map_of args key = Some v" "read_only_sql v = Some True"
    by (auto simp: safety_established_def PREDICATES_def split: option.splits)
  then obtain s where s: "v = PStr s" "CHR '';'' \<notin> set (statement_body s)"
    "starts_with (py_lower (statement_body s)) ''select''" "\<not> has_word ''into'' False (statement_body s)"
    by (auto simp: read_only_sql_def Let_def split: py.splits if_splits)
  obtain pre post where "s = pre @ statement_body s @ post" "sql_blank pre" "\<forall>c \<in> set post. c = CHR '';'' \<or> py_isspace c"
    using statement_body_split [of s] by blast
  with v(1) s(2-4) show ?thesis unfolding s(1)
    by (intro exI [of _ s] exI [of _ pre] exI [of _ "statement_body s"] exI [of _ post] conjI)
qed

theorem unless_read_only_sql_sound_witness:
  "\<exists>s pre body post. map_of [(''sql'', PStr '' SELECT 1; '')] ''sql'' = Some (PStr s) \<and> s = pre @ body @ post
    \<and> sql_blank pre \<and> CHR '';'' \<notin> set body \<and> starts_with (py_lower body) ''select''
    \<and> \<not> has_word ''into'' False body \<and> (\<forall>c \<in> set post. c = CHR '';'' \<or> py_isspace c)"
proof -
  let ?e = "\<lparr>ex_tier = TIER_3, ex_when = [], ex_unless = [(''sql'', ''read_only_sql'')],
          ex_after_content = False, ex_after_private_read = False\<rparr>"
  let ?r = "\<lparr>r_pattern = ''postgres_query'', r_tier = TIER_1, r_exceptions = [?e],
       r_source_line = Some 0, r_reversible = None, r_reads_private = None\<rparr>"
  have "glob_match (canonical_tool_name ''postgres_query'') (canonical_tool_name ''Postgres-Query'')" by code_simp
  then have "?r \<in> set (scan_candidates (canonical_tool_name ''Postgres-Query'') sample_rules)"
    by (simp add: scan_candidates_def sample_rules_def)
  moreover have "d_tier (classify None sample_rules ''Postgres-Query'' [(''sql'', PStr '' SELECT 1; '')] False False) = TIER_1"
    by code_simp
  ultimately show ?thesis
    using unless_read_only_sql_sound [of ?r "''Postgres-Query''" sample_rules ?e "''sql''" None "[(''sql'', PStr '' SELECT 1; '')]" False False]
    by (simp add: less_tier_def)
qed

subsection \<open>Private reads and outbound tools\<close>

definition reads_private :: "string option \<Rightarrow> rule_set \<Rightarrow> bool" where
  "reads_private tool_name rs =
     (let name = canonical_tool_name (case tool_name of None \<Rightarrow> [] | Some t \<Rightarrow> t);
          rules = scan_candidates name rs
      in if rs_unreadable rs then True
         else if name = [] then True
         else if rules = [] then True
         else list_ex (\<lambda>r. r_reads_private r \<noteq> Some False) rules)"

definition is_outbound :: "string option \<Rightarrow> rule_set \<Rightarrow> bool" where
  "is_outbound tool_name rs =
     (let name = canonical_tool_name (case tool_name of None \<Rightarrow> [] | Some t \<Rightarrow> t) in
      if name = [] \<or> rs_unreadable rs then False
      else list_ex (\<lambda>r. list_ex ex_after_private_read (r_exceptions r)) (scan_candidates name rs))"

text \<open>Only rules that all say so make a tool public.\<close>

lemma public_tool_iff:
  "\<not> reads_private t rs \<longleftrightarrow> \<not> rs_unreadable rs \<and> (\<exists>n. t = Some n \<and> canonical_tool_name n \<noteq> []
     \<and> scan_candidates (canonical_tool_name n) rs \<noteq> []
     \<and> (\<forall>r \<in> set (scan_candidates (canonical_tool_name n) rs). r_reads_private r = Some False))"
  by (cases t) (auto simp: reads_private_def Let_def list_ex_iff canonical_tool_name_def py_strip_def
      strip_by_def py_lower_def)

end
