(* ===== verification/Grants.thy ===== *)
theory Grants
  imports Classify
begin

text \<open>
  Standing grants (\<open>backend/app/policy/grants.py\<close>): the action classes, which of them the rules in
  force allow to be granted, when granted classes cover a call, when a call repeats a declined
  change, and the counter of granted actions per scheduled run.

  The text canonicaliser of the declined-stays-declined rule (Unicode normalisation) is the
  argument \<open>canon\<close>, the ledger's way of storing an update's field \<open>field\<close>, its lookups
  \<open>find_project\<close> and \<open>find_task\<close>, and the text of a task id \<open>id_text\<close>. The counter is a table of
  rows (key, used, time of the last reservation); every operation is one SQLite transaction, and
  the ISO texts of times in UTC compare as the times do.
\<close>

definition GRANT_CAP_PER_RUN :: int where
  "GRANT_CAP_PER_RUN = 20"

record action_class =
  ac_id :: string
  ac_label :: string
  ac_tool :: string
  ac_also :: "string list"
  ac_whole_call :: bool
  ac_allowlist_agents_only :: bool

definition class_tools :: "action_class \<Rightarrow> string list" where
  "class_tools c = ac_tool c # ac_also c"

definition class_covers :: "action_class \<Rightarrow> dict \<Rightarrow> bool" where
  "class_covers c change =
     (let op = dget change ''op''; status = dget change ''status'' in
      if ac_id c = ''tasks'' then
        op = PStr ''create_task'' \<or> (op = PStr ''update_task'' \<and> status \<noteq> PStr ''dropped'')
      else if ac_id c = ''notes'' then op = PStr ''add_note''
      else if ac_id c = ''archive'' then op = PStr ''update_task'' \<and> status = PStr ''dropped''
      else False)"

definition ACTION_CLASSES :: "action_class list" where
  "ACTION_CLASSES =
    [\<lparr>ac_id = ''tasks'', ac_label = ''Create and update tasks'', ac_tool = ''ledger_apply'', ac_also = [],
      ac_whole_call = False, ac_allowlist_agents_only = False\<rparr>,
     \<lparr>ac_id = ''notes'', ac_label = ''Add notes and decisions'', ac_tool = ''ledger_apply'', ac_also = [],
      ac_whole_call = False, ac_allowlist_agents_only = False\<rparr>,
     \<lparr>ac_id = ''archive'', ac_label = ''Archive stale tasks'', ac_tool = ''ledger_apply'', ac_also = [],
      ac_whole_call = False, ac_allowlist_agents_only = False\<rparr>,
     \<lparr>ac_id = ''drafts'', ac_label = ''Draft emails (never sends)'', ac_tool = ''connector-gmail_GMAIL_CREATE_EMAIL_DRAFT'',
      ac_also = [''gmail_create_draft'', ''gmail_draft_email''], ac_whole_call = True, ac_allowlist_agents_only = True\<rparr>]"

definition BY_ID :: "string \<Rightarrow> action_class option" where
  "BY_ID i = find (\<lambda>c. ac_id c = i) ACTION_CLASSES"

definition rule_for :: "sandbox_config option \<Rightarrow> string \<Rightarrow> rule_set \<Rightarrow> policy_decision" where
  "rule_for config tool rs = classify config rs tool [] False False"

datatype not_grantable =
    Cannot_Be_Undone string | Named_Classes_Only string | Unknown_Class string
  | Not_Reversible string | Not_Tier_2 string tier

definition grantable :: "sandbox_config option \<Rightarrow> string \<Rightarrow> rule_set \<Rightarrow> not_grantable option" where
  "grantable config i rs =
     (if starts_with i ''tool:'' then
        (let tool = drop 5 i in
         case d_rule (rule_for config tool rs) of
           None \<Rightarrow> Some (Cannot_Be_Undone tool)
         | Some r \<Rightarrow> if r_reversible r \<noteq> Some True then Some (Cannot_Be_Undone tool) else Some (Named_Classes_Only tool))
      else case BY_ID i of
        None \<Rightarrow> Some (Unknown_Class i)
      | Some c \<Rightarrow>
          (case d_rule (rule_for config (ac_tool c) rs) of
             None \<Rightarrow> Some (Not_Reversible (ac_tool c))
           | Some r \<Rightarrow>
               if r_reversible r \<noteq> Some True then Some (Not_Reversible (ac_tool c))
               else if r_tier r \<noteq> TIER_2 then Some (Not_Tier_2 (ac_tool c) (r_tier r))
               else None))"

text \<open>The classes covering a list of changes, in the order first used; \<open>None\<close> when one is uncovered.\<close>

fun cover_changes :: "action_class list \<Rightarrow> py list \<Rightarrow> string list \<Rightarrow> string list option" where
  "cover_changes usable [] used = Some used"
| "cover_changes usable (PDict change # cs) used =
     (case find (\<lambda>c. class_covers c change) usable of
        None \<Rightarrow> None
      | Some c \<Rightarrow> cover_changes usable cs (if ac_id c \<in> set used then used else used @ [ac_id c]))"
| "cover_changes usable (_ # cs) used = None"

definition usable_classes :: "sandbox_config option \<Rightarrow> policy_decision \<Rightarrow> string list \<Rightarrow> rule_set \<Rightarrow> action_class list" where
  "usable_classes config d granted rs =
     filter (\<lambda>c. d_tool_name d \<in> set (class_tools c) \<and> grantable config (ac_id c) rs = None)
       (List.map_filter BY_ID granted)"

definition covering_classes ::
  "sandbox_config option \<Rightarrow> policy_decision \<Rightarrow> dict \<Rightarrow> string list \<Rightarrow> rule_set \<Rightarrow> string list option" where
  "covering_classes config d args granted rs =
     (if d_tier d \<noteq> TIER_2 \<or> (case d_rule d of None \<Rightarrow> True | Some r \<Rightarrow> r_reversible r \<noteq> Some True) \<or> d_raised_by d \<noteq> None
      then None
      else
        let usable = usable_classes config d granted rs in
        if usable = [] then None
        else case find ac_whole_call usable of
          Some c \<Rightarrow> Some [ac_id c]
        | None \<Rightarrow>
            (case dget args ''changes'' of
               PList changes \<Rightarrow> if changes = [] then None else cover_changes usable changes []
             | _ \<Rightarrow> None))"

definition governed_by_grants :: "string \<Rightarrow> bool \<Rightarrow> bool" where
  "governed_by_grants tool allowlist_agent =
     list_ex (\<lambda>c. tool \<in> set (class_tools c) \<and> (allowlist_agent \<or> \<not> ac_allowlist_agents_only c)) ACTION_CLASSES"

definition chat_governed :: "string \<Rightarrow> bool" where
  "chat_governed tool = list_ex (\<lambda>c. tool \<in> set (class_tools c) \<and> \<not> ac_allowlist_agents_only c) ACTION_CLASSES"

definition always_waits :: "rule_set \<Rightarrow> string list" where
  "always_waits rs = map r_pattern (filter (\<lambda>r. r_tier r = TIER_3) (rs_rules rs))"

definition action_count :: "dict \<Rightarrow> nat" where
  "action_count args = (case dget args ''changes'' of PList cs \<Rightarrow> length cs | _ \<Rightarrow> 1)"

subsection \<open>What a granted call is\<close>

lemma find_facts: "find P xs = Some x \<Longrightarrow> P x \<and> x \<in> set xs"
  by (induction xs) (auto split: if_splits)

lemma cover_changes_sound:
  assumes "cover_changes usable cs used = Some out"
  shows "set used \<subseteq> set out" "set out \<subseteq> set used \<union> ac_id ` set usable"
    "\<forall>v \<in> set cs. \<exists>change c. v = PDict change \<and> c \<in> set usable \<and> class_covers c change \<and> ac_id c \<in> set out"
  using assms
proof (induction usable cs used rule: cover_changes.induct)
  case (2 usable change cs used)
  {
    case 1
    then obtain c where "find (\<lambda>c. class_covers c change) usable = Some c" by (auto split: option.splits)
    then show ?case using 2 1 by (fastforce split: if_splits)
  next
    case goal2: 2
    then obtain c where c: "find (\<lambda>c. class_covers c change) usable = Some c" by (auto split: option.splits)
    then have "c \<in> set usable" using find_facts by fastforce
    then show ?case using 2(2) [OF c] goal2 c by (auto split: if_splits)
  next
    case goal3: 3
    then obtain c where c: "find (\<lambda>c. class_covers c change) usable = Some c" by (auto split: option.splits)
    then have cc: "c \<in> set usable" "class_covers c change" using find_facts by fastforce+
    have "cover_changes usable cs (if ac_id c \<in> set used then used else used @ [ac_id c]) = Some out"
      using goal3 c by simp
    with 2(1,3) [OF c] cc show ?case by (auto split: if_splits)
  }
qed auto

lemma cover_changes_complete:
  "\<forall>v \<in> set cs. \<exists>change c. v = PDict change \<and> c \<in> set usable \<and> class_covers c change \<Longrightarrow> cover_changes usable cs used \<noteq> None"
proof (induction usable cs used rule: cover_changes.induct)
  case (2 usable change cs used)
  then show ?case by (auto split: option.splits simp: find_None_iff)
qed auto

lemma BY_ID_Some: "BY_ID i = Some c \<Longrightarrow> ac_id c = i \<and> c \<in> set ACTION_CLASSES"
  unfolding BY_ID_def using find_facts by fastforce

lemma usable_iff:
  "c \<in> set (usable_classes config d granted rs) \<longleftrightarrow>
     (\<exists>i \<in> set granted. BY_ID i = Some c) \<and> d_tool_name d \<in> set (class_tools c) \<and> grantable config (ac_id c) rs = None"
  by (force simp: usable_classes_def List.map_filter_def image_iff)

lemma usable_id: "c \<in> set (usable_classes config d granted rs) \<Longrightarrow> BY_ID (ac_id c) = Some c"
  using BY_ID_Some by (auto simp: usable_iff)

lemma grantable_rule:
  assumes "grantable config (ac_id c) rs = None" "BY_ID (ac_id c) = Some c"
  shows "\<exists>r. d_rule (rule_for config (ac_tool c) rs) = Some r \<and> r_tier r = TIER_2 \<and> r_reversible r = Some True"
  using assms by (auto simp: grantable_def Let_def split: if_splits option.splits)

text \<open>
  C12. What a grant lets through. When granted classes cover a call, the call is Tier 2, decided by a
  rule labelled reversible and raised by no exception; every class used was granted, is one of the
  table of classes, names the tool, and is grantable under the rules in force, that is, its own tool's
  rule is Tier 2 and labelled reversible; and either the one class used is a class of the table that
  takes whole calls, or every single change of the call is covered by a class of the table that was used.
\<close>

theorem grant_covers_only_reversible_tier2:
  assumes "covering_classes config d args granted rs = Some used"
  shows "d_tier d = TIER_2 \<and> d_raised_by d = None \<and> (\<exists>r. d_rule d = Some r \<and> r_reversible r = Some True)
    \<and> (\<forall>i \<in> set used. i \<in> set granted \<and> (\<exists>c r. BY_ID i = Some c \<and> d_tool_name d \<in> set (class_tools c)
          \<and> d_rule (rule_for config (ac_tool c) rs) = Some r \<and> r_tier r = TIER_2 \<and> r_reversible r = Some True))
    \<and> ((\<exists>i c. used = [i] \<and> BY_ID i = Some c \<and> ac_whole_call c)
       \<or> (\<exists>changes. dget args ''changes'' = PList changes \<and> changes \<noteq> [] \<and>
            (\<forall>v \<in> set changes. \<exists>change i c. v = PDict change \<and> i \<in> set used \<and> BY_ID i = Some c \<and> class_covers c change)))"
proof -
  let ?u = "usable_classes config d granted rs"
  have d: "d_tier d = TIER_2" "d_raised_by d = None" "\<exists>r. d_rule d = Some r \<and> r_reversible r = Some True"
    using assms by (auto simp: covering_classes_def split: if_splits option.splits)
  let ?G = "\<lambda>i. i \<in> set granted \<and> (\<exists>c r. BY_ID i = Some c \<and> d_tool_name d \<in> set (class_tools c)
          \<and> d_rule (rule_for config (ac_tool c) rs) = Some r \<and> r_tier r = TIER_2 \<and> r_reversible r = Some True)"
  have good: "?G (ac_id c)" if u: "c \<in> set ?u" for c
  proof -
    obtain i where i: "i \<in> set granted" "BY_ID i = Some c" using u by (auto simp: usable_iff)
    then have "ac_id c = i" using BY_ID_Some by blast
    then show ?thesis using i u grantable_rule [of config c rs] by (auto simp: usable_iff)
  qed
  have good: "\<forall>i \<in> set used. ?G i" if u: "set used \<subseteq> ac_id ` set ?u"
  proof
    fix i assume "i \<in> set used"
    then obtain c where "c \<in> set ?u" "i = ac_id c" using u by blast
    then show "?G i" using good [of c] by blast
  qed
  show ?thesis
  proof (cases "find ac_whole_call ?u")
    case (Some c)
    then have c: "c \<in> set ?u" "ac_whole_call c" using find_facts by fastforce+
    have used: "used = [ac_id c]" using assms Some d by (auto simp: covering_classes_def Let_def split: if_splits)
    have "\<exists>i c. used = [i] \<and> BY_ID i = Some c \<and> ac_whole_call c" using used c(2) usable_id [OF c(1)] by blast
    moreover have "\<forall>i \<in> set used. ?G i" using used c(1) by (intro good) simp
    ultimately show ?thesis using d(1,2,3) by (intro conjI disjI1)
  next
    case None
    then obtain changes where ch: "dget args ''changes'' = PList changes" "changes \<noteq> []" "cover_changes ?u changes [] = Some used"
      using assms d by (auto simp: covering_classes_def Let_def split: if_splits py.splits)
    note cs = cover_changes_sound [OF ch(3)]
    have "\<forall>i \<in> set used. ?G i" using cs(2) by (intro good) simp
    moreover have "\<forall>v \<in> set changes. \<exists>change i c. v = PDict change \<and> i \<in> set used \<and> BY_ID i = Some c \<and> class_covers c change"
      using cs(3) usable_id by meson
    ultimately show ?thesis using d(1,2,3) ch(1,2) by (intro conjI disjI2 exI [of _ changes])
  qed
qed

definition tier2_rules :: rule_set where
  "tier2_rules = sample_rules"

definition task_call :: dict where
  "task_call = [(''changes'', PList [PDict [(''op'', PStr ''create_task''), (''title'', PStr ''x'')],
     PDict [(''op'', PStr ''add_note'')]])]"

lemma task_call_covered:
  "covering_classes None (classify None tier2_rules ''ledger_apply'' task_call False False) task_call [''notes'', ''tasks''] tier2_rules
     = Some [''tasks'', ''notes'']"
  by code_simp

theorem grant_covers_only_reversible_tier2_witness:
  "d_tier (classify None tier2_rules ''ledger_apply'' task_call False False) = TIER_2"
  using grant_covers_only_reversible_tier2 [OF task_call_covered] by blast

text \<open>The classes cover every operation of the ledger but one: dropping a task is only the archive's.\<close>

lemma tasks_never_archive:
  "c \<in> set ACTION_CLASSES \<Longrightarrow> c' \<in> set ACTION_CLASSES \<Longrightarrow> class_covers c change \<Longrightarrow> class_covers c' change \<Longrightarrow> ac_id c = ac_id c'"
  by (auto simp: ACTION_CLASSES_def class_covers_def Let_def)

subsection \<open>Repeating a declined change\<close>

type_synonym flds = "(string \<times> string) list"
type_synonym change_summary = "string \<times> string \<times> flds \<times> flds option"

definition UPDATE_FIELDS :: "string list" where
  "UPDATE_FIELDS = [''title'', ''status'', ''due_date'', ''owner'']"

definition op_defaults :: "string \<Rightarrow> dict" where
  "op_defaults op = (if op = ''create_task'' then [(''status'', PStr ''todo'')] else [])"

definition dict_update :: "dict \<Rightarrow> dict \<Rightarrow> dict" where
  "dict_update d e = foldl (\<lambda>d (k, v). dset d k v) d e"

definition space_to_underscore :: "string \<Rightarrow> string" where
  "space_to_underscore s = map (\<lambda>c. if c = CHR '' '' then CHR ''_'' else c) s"

record ledger_lookup =
  ll_canon :: "py \<Rightarrow> string"
  ll_field :: "string \<Rightarrow> py \<Rightarrow> string"
  ll_id_text :: "py \<Rightarrow> string"
  ll_project :: "(py \<Rightarrow> string option) option"
  ll_task :: "(py \<Rightarrow> py \<Rightarrow> dict option) option"

definition summarise_change :: "ledger_lookup \<Rightarrow> bool \<Rightarrow> dict \<Rightarrow> change_summary" where
  "summarise_change l trust_pins c =
     (let op = space_to_underscore (ll_canon l (dget c ''op''));
          filled = dict_update (op_defaults op) (filter (\<lambda>(k, v). v \<noteq> PNone \<and> v \<noteq> PStr []) c);
          project = dget filled ''project'';
          pin = (case dget c ''_pin'' of PDict p \<Rightarrow> if trust_pins then p else [] | _ \<Rightarrow> []);
          found = (if op \<noteq> ''update_task'' then None
             else if truthy (dget pin ''task_id'') then
               Some (''task:'' @ ll_id_text l (dget pin ''task_id''),
                 (case ll_task l of None \<Rightarrow> None | Some f \<Rightarrow> f PNone (dget pin ''task_id'')))
             else (case ll_task l of
                 None \<Rightarrow> None
               | Some f \<Rightarrow>
                   if truthy (dget filled ''task'') then
                     (case f project (dget filled ''task'') of
                        None \<Rightarrow> None
                      | Some cur \<Rightarrow> Some (''task:'' @ ll_id_text l (dget cur ''id''), Some cur))
                   else None))
      in case found of
           Some (target, current) \<Rightarrow>
             (op, target,
              map (\<lambda>k. (k, ll_field l k (dget c k))) (filter (\<lambda>k. map_of c k \<noteq> None) UPDATE_FIELDS),
              map_option (\<lambda>cur. map (\<lambda>k. (k, ll_field l k (dget cur k))) UPDATE_FIELDS)
                (case current of Some [] \<Rightarrow> None | x \<Rightarrow> x))
         | None \<Rightarrow>
             (let resolved = (case ll_project l of None \<Rightarrow> None | Some f \<Rightarrow> if truthy project then f project else None) in
              (op, (case resolved of Some p \<Rightarrow> if p = [] then ll_canon l project else p | None \<Rightarrow> ll_canon l project)
                   @ ''|'' @ ll_canon l (dget filled ''task''),
               [(''text'', ll_canon l (if truthy (dget filled ''title'') then dget filled ''title'' else dget filled ''decided'')),
                (''status'', ll_canon l (dget filled ''status''))], None)))"

definition change_summaries :: "ledger_lookup \<Rightarrow> bool \<Rightarrow> dict \<Rightarrow> change_summary list" where
  "change_summaries l trust_pins args =
     (case dget args ''changes'' of
        PList cs \<Rightarrow> concat (map (\<lambda>v. case v of PDict c \<Rightarrow> [summarise_change l trust_pins c] | _ \<Rightarrow> []) cs)
      | _ \<Rightarrow> [])"

definition changed_fields :: "flds \<Rightarrow> flds option \<Rightarrow> flds" where
  "changed_fields d now =
     (let changed = filter (\<lambda>(k, v). \<not> (case now of None \<Rightarrow> False | Some n \<Rightarrow> n \<noteq> [] \<and> map_of n k = Some v)) d
      in if changed = [] then d else changed)"

definition repeats :: "change_summary \<Rightarrow> change_summary \<Rightarrow> bool" where
  "repeats w d = (case w of (op, target, flds, _) \<Rightarrow> case d of (d_op, d_target, d_fields, d_now) \<Rightarrow>
     op = d_op \<and> target = d_target \<and>
     list_all (\<lambda>(k, v). map_of flds k = Some v) (changed_fields d_fields d_now))"

definition repeats_declined :: "change_summary list \<Rightarrow> change_summary list \<Rightarrow> bool" where
  "repeats_declined wanted declined = list_ex (\<lambda>w. list_ex (repeats w) declined) wanted"

lemma repeats_more_fields:
  assumes "repeats (op, target, flds, n) d" "\<And>k v. map_of flds k = Some v \<Longrightarrow> map_of flds' k = Some v"
  shows "repeats (op, target, flds', n') d"
  using assms by (auto simp: repeats_def list_all_iff split: prod.splits)

lemma repeats_self: "distinct (map fst flds) \<Longrightarrow> repeats (op, target, flds, n) (op, target, flds, n')"
  by (auto simp: repeats_def list_all_iff changed_fields_def Let_def split: prod.splits if_splits)

text \<open>
  A declined change stays declined: a call that repeats one of the declined changes, together
  with any other changes and with any further fields set, is recognised as a repeat, whatever the
  task's values have become since.
\<close>

theorem declined_change_is_recognised:
  assumes "(op, target, d_fields, d_now) \<in> set declined" "distinct (map fst d_fields)"
    and "(op, target, flds, now) \<in> set wanted" "\<forall>(k, v) \<in> set d_fields. map_of flds k = Some v"
  shows "repeats_declined wanted declined"
proof -
  have "map_of flds k = Some v" if "map_of d_fields k = Some v" for k v
    using assms(4) map_of_SomeD [OF that] by auto
  then have "repeats (op, target, flds, now) (op, target, d_fields, d_now)"
    using repeats_more_fields [OF repeats_self [OF assms(2)]] by blast
  then show ?thesis using assms(1,3) by (auto simp: repeats_declined_def list_ex_iff)
qed

definition plain_lookup :: ledger_lookup where
  "plain_lookup = \<lparr>ll_canon = (\<lambda>v. case v of PStr s \<Rightarrow> py_lower s | _ \<Rightarrow> []), ll_field = (\<lambda>k v. case v of PStr s \<Rightarrow> py_lower s | _ \<Rightarrow> []),
     ll_id_text = (\<lambda>v. case v of PStr s \<Rightarrow> s | _ \<Rightarrow> []), ll_project = None, ll_task = None\<rparr>"

theorem declined_change_is_recognised_witness:
  "repeats_declined
     (change_summaries plain_lookup False [(''changes'', PList [PDict [(''op'', PStr ''add_note''), (''title'', PStr ''A'')],
        PDict [(''op'', PStr ''Create_Task''), (''project'', PStr ''P''), (''title'', PStr ''buy MILK''), (''status'', PStr ''todo'')]])])
     (change_summaries plain_lookup True [(''changes'', PList [PDict [(''op'', PStr ''create_task''), (''project'', PStr ''p''),
        (''title'', PStr ''Buy milk'')]])])"
  by (rule declined_change_is_recognised [where op = "''create_task''" and target = "''p|''" and now = None and d_now = None
        and flds = "[(''text'', ''buy milk''), (''status'', ''todo'')]"
        and d_fields = "[(''text'', ''buy milk''), (''status'', ''todo'')]"]) code_simp+

subsection \<open>Counting granted actions\<close>

type_synonym run_counts = "(string \<times> int \<times> instant) list"

definition KEEP :: int where
  "KEEP = 30 * day_us"

definition reserve :: "run_counts \<Rightarrow> instant \<Rightarrow> string \<Rightarrow> int \<Rightarrow> int \<Rightarrow> run_counts \<times> int option" where
  "reserve t now k n cap =
     (let t = (if map_of t k = None then t @ [(k, 0, now)] else t);
          (used, _) = the (map_of t k);
          fits = used + n \<le> cap;
          t = (if fits then dset t k (used + n, now) else t);
          total = fst (the (map_of t k));
          t = filter (\<lambda>(_, _, updated_at). \<not> updated_at < now - KEEP) t
      in (t, if fits then Some total else None))"

definition release :: "run_counts \<Rightarrow> string \<Rightarrow> int \<Rightarrow> run_counts" where
  "release t k n = (case map_of t k of None \<Rightarrow> t | Some (used, updated_at) \<Rightarrow> dset t k (max (used - n) 0, updated_at))"

definition used_actions :: "run_counts \<Rightarrow> string \<Rightarrow> int" where
  "used_actions t k = (case map_of t k of None \<Rightarrow> 0 | Some (used, _) \<Rightarrow> used)"

text \<open>
  A history of the counter: reservations (the ones that were refused took nothing) and releases,
  with what each run holds: granted and not given back.
\<close>

datatype count_op = Reserve instant string int | Release string int

fun count_step :: "int \<Rightarrow> run_counts \<times> (string \<Rightarrow> int) \<Rightarrow> count_op \<Rightarrow> run_counts \<times> (string \<Rightarrow> int)" where
  "count_step cap (t, held) (Reserve now k n) =
     (case reserve t now k n cap of
        (t', None) \<Rightarrow> (t', held)
      | (t', Some _) \<Rightarrow> (t', held(k := held k + n)))"
| "count_step cap (t, held) (Release k n) = (release t k n, held(k := held k - n))"

definition count_run :: "int \<Rightarrow> count_op list \<Rightarrow> run_counts \<times> (string \<Rightarrow> int)" where
  "count_run cap ops = foldl (count_step cap) ([], (\<lambda>_. 0)) ops"

fun op_ok :: "instant \<Rightarrow> (string \<Rightarrow> int) \<Rightarrow> count_op \<Rightarrow> bool" where
  "op_ok start held (Reserve now k n) = (start \<le> now \<and> now < start + KEEP \<and> 0 \<le> n)"
| "op_ok start held (Release k n) = (0 \<le> n \<and> n \<le> held k)"

text \<open>Every operation happens within the retention time and gives back only what its run holds.\<close>

fun ops_ok :: "int \<Rightarrow> instant \<Rightarrow> run_counts \<times> (string \<Rightarrow> int) \<Rightarrow> count_op list \<Rightarrow> bool" where
  "ops_ok cap start s [] = True"
| "ops_ok cap start s (op # ops) = (op_ok start (snd s) op \<and> ops_ok cap start (count_step cap s op) ops)"

definition counts_agree :: "int \<Rightarrow> instant \<Rightarrow> run_counts \<times> (string \<Rightarrow> int) \<Rightarrow> bool" where
  "counts_agree cap start s = (distinct (map fst (fst s))
     \<and> (\<forall>k. used_actions (fst s) k = snd s k \<and> 0 \<le> snd s k \<and> snd s k \<le> cap)
     \<and> (\<forall>(k, u, updated_at) \<in> set (fst s). start \<le> updated_at))"

lemma set_dset: "set (dset d k v) \<subseteq> insert (k, v) (set d)"
  by (induction d k v rule: dset.induct) auto

lemma map_of_append_new: "map_of t k = None \<Longrightarrow> map_of (t @ [(k, v)]) j = (if j = k then Some v else map_of t j)"
  by (auto simp: map_add_def split: option.splits)

lemma reserve_kept:
  assumes "\<forall>(k, u, updated_at) \<in> set t. start \<le> updated_at" "start \<le> now" "now < start + KEEP"
  shows "reserve t now k n cap =
    (let fits = used_actions t k + n \<le> cap; t0 = (if map_of t k = None then t @ [(k, 0, now)] else t)
     in (if fits then dset t0 k (used_actions t k + n, now) else t0, if fits then Some (used_actions t k + n) else None))"
proof -
  let ?t0 = "if map_of t k = None then t @ [(k, 0, now)] else t"
  have fresh: "\<forall>(k, u, updated_at) \<in> set ?t0. start \<le> updated_at" using assms by auto
  have keep: "filter (\<lambda>(_, _, updated_at). \<not> updated_at < now - KEEP) t' = t'" if "set t' \<subseteq> insert (k, v, now) (set ?t0)" for t' v
    unfolding filter_id_conv using that fresh assms(2,3) by (fastforce simp: KEEP_def day_us_def)
  have "\<exists>since. map_of ?t0 k = Some (used_actions t k, since)"
    by (auto simp: used_actions_def map_of_append_new simp del: map_of_append split: option.splits)
  then obtain updated where u: "map_of ?t0 k = Some (used_actions t k, updated)" by blast
  show ?thesis
    using keep [of ?t0] keep [of "dset ?t0 k (used_actions t k + n, now)" "used_actions t k + n"] set_dset [of ?t0 k "(used_actions t k + n, now)"]
    unfolding reserve_def Let_def u by (auto simp: subset_insertI)
qed

lemma counts_agree_step:
  assumes "counts_agree cap start (t, held)" "op_ok start held op"
  shows "counts_agree cap start (count_step cap (t, held) op)"
proof (cases op)
  case (Reserve now k n)
  let ?t0 = "if map_of t k = None then t @ [(k, 0, now)] else t"
  have op: "start \<le> now" "now < start + KEEP" "0 \<le> n" using assms(2) Reserve by simp_all
  have inv: "distinct (map fst t)" "\<And>k. used_actions t k = held k" "\<And>k. 0 \<le> held k \<and> held k \<le> cap"
    "\<forall>(k, u, updated_at) \<in> set t. start \<le> updated_at"
    using assms(1) by (simp_all add: counts_agree_def)
  have d0: "distinct (map fst ?t0)" using inv(1) by (auto simp: map_of_eq_None_iff)
  have s0: "\<forall>(k, u, updated_at) \<in> set ?t0. start \<le> updated_at" using inv(4) op(1) by auto
  have u0: "used_actions ?t0 j = held j" for j
    using inv(2) [of j] by (auto simp: used_actions_def map_of_append_new simp del: map_of_append split: option.splits)
  show ?thesis
  proof (cases "held k + n \<le> cap")
    case True
    let ?t1 = "dset ?t0 k (held k + n, now)"
    have step: "count_step cap (t, held) op = (?t1, held(k := held k + n))"
      using True Reserve by (simp add: reserve_kept [OF inv(4) op(1,2)] inv(2) Let_def)
    have "\<forall>(k, u, updated_at) \<in> set ?t1. start \<le> updated_at"
      using set_dset [of ?t0 k "(held k + n, now)"] s0 op(1) by fastforce
    moreover have "used_actions ?t1 j = (held(k := held k + n)) j" for j
      using u0 [of j] by (simp add: used_actions_def)
    ultimately show ?thesis
      unfolding step counts_agree_def using distinct_dset [OF d0] inv(3) True op(3) by (auto intro: add_nonneg_nonneg)
  next
    case False
    then have "count_step cap (t, held) op = (?t0, held)"
      using Reserve by (simp add: reserve_kept [OF inv(4) op(1,2)] inv(2) Let_def)
    then show ?thesis unfolding counts_agree_def using d0 s0 u0 inv(3) by simp
  qed
next
  case (Release k n)
  have op: "0 \<le> n" "n \<le> held k" using assms(2) Release by simp_all
  have inv: "distinct (map fst t)" "\<And>k. used_actions t k = held k" "\<And>k. 0 \<le> held k \<and> held k \<le> cap"
    "\<forall>(k, u, updated_at) \<in> set t. start \<le> updated_at"
    using assms(1) by (simp_all add: counts_agree_def)
  show ?thesis
  proof (cases "map_of t k")
    case None
    then have "held k = 0" using inv(2) [of k] by (simp add: used_actions_def)
    then have "n = 0" using op by simp
    then show ?thesis using assms(1) Release None by (simp add: release_def)
  next
    case (Some ua)
    obtain u since where ua: "ua = (u, since)" by (cases ua)
    let ?t1 = "dset t k (max (u - n) 0, since)"
    have u: "u = held k" using inv(2) [of k] Some ua by (simp add: used_actions_def)
    have "(k, u, since) \<in> set t" using Some ua by (simp add: map_of_SomeD)
    then have "\<forall>(k, u, updated_at) \<in> set ?t1. start \<le> updated_at"
      using set_dset [of t k "(max (u - n) 0, since)"] inv(4) by fastforce
    moreover have "used_actions ?t1 j = (held(k := held k - n)) j" for j
      using inv(2) [of j] u op by (simp add: used_actions_def)
    moreover have "0 \<le> held k - n \<and> held k - n \<le> cap" using op inv(3) [of k] by simp
    ultimately show ?thesis
      using Release Some ua distinct_dset [OF inv(1)] inv(3) by (simp add: release_def counts_agree_def)
  qed
qed

text \<open>
  C24. The cap holds. Over any history of reservations and releases within the retention time of
  thirty days, however calls of different runs interleave, no run ever holds more granted actions
  than the cap, and the stored count is exactly what the run holds.
\<close>

theorem grant_cap_holds:
  assumes "0 \<le> cap" "ops_ok cap start ([], (\<lambda>_. 0)) ops"
  shows "used_actions (fst (count_run cap ops)) k = snd (count_run cap ops) k \<and> snd (count_run cap ops) k \<le> cap"
proof -
  have "counts_agree cap start (foldl (count_step cap) s ops)" if "counts_agree cap start s" "ops_ok cap start s ops" for s
    using that
  proof (induction ops arbitrary: s)
    case (Cons op ops)
    obtain t held where s: "s = (t, held)" by (cases s)
    then have "counts_agree cap start (count_step cap s op)" using Cons.prems counts_agree_step by simp
    then show ?case using Cons by simp
  qed simp
  moreover have "counts_agree cap start ([], (\<lambda>_. 0))"
    using assms(1) by (simp add: counts_agree_def used_actions_def)
  ultimately have "counts_agree cap start (count_run cap ops)"
    using assms(2) unfolding count_run_def by blast
  then show ?thesis by (simp add: counts_agree_def)
qed

theorem grant_cap_holds_witness:
  "snd (count_run GRANT_CAP_PER_RUN [Reserve 0 ''f1'' 15, Reserve 5 ''f2'' 3, Release ''f1'' 2, Reserve 9 ''f1'' 8]) ''f1'' \<le> 20"
proof -
  have "ops_ok GRANT_CAP_PER_RUN 0 ([], (\<lambda>_. 0)) [Reserve 0 ''f1'' 15, Reserve 5 ''f2'' 3, Release ''f1'' 2, Reserve 9 ''f1'' 8]"
    by (simp add: reserve_def release_def KEEP_def day_us_def GRANT_CAP_PER_RUN_def)
  then show ?thesis using grant_cap_holds [of GRANT_CAP_PER_RUN 0 _ "''f1''"] by (simp add: GRANT_CAP_PER_RUN_def)
qed

text \<open>
  The cap can be lost after the retention time: a reservation that is refused on a row older
  than thirty days deletes that row, so the next one starts again from zero.
\<close>

theorem refused_reservation_resets_old_row:
  assumes "map_of t k = Some (used, updated_at)" "updated_at < now - KEEP" "cap < used + n" "distinct (map fst t)"
    and "0 \<le> m" "m \<le> cap" "now \<le> later"
  shows "snd (reserve t now k n cap) = None \<and> snd (reserve (fst (reserve t now k n cap)) later k m cap) = Some m"
proof -
  let ?t = "filter (\<lambda>(_, _, updated_at). \<not> updated_at < now - KEEP) t"
  have r: "reserve t now k n cap = (?t, None)"
    using assms(1,3) by (simp add: reserve_def Let_def)
  have "map_of ?t k = None"
  proof (rule ccontr)
    assume "map_of ?t k \<noteq> None"
    then obtain u v where "(k, u, v) \<in> set t" "\<not> v < now - KEEP" by (auto dest!: map_of_SomeD)
    then show False using assms(1,2,4) by (metis map_of_is_SomeI option.inject prod.inject)
  qed
  moreover have "snd (reserve t' later k m cap) = Some m" if "map_of t' k = None" for t'
    using that assms(6) by (simp add: reserve_def Let_def map_of_append_new del: map_of_append)
  ultimately show ?thesis by (simp add: r)
qed

theorem refused_reservation_resets_old_row_witness:
  "snd (reserve (fst (reserve [(''f'', 20, 0)] (31 * day_us) ''f'' 1 20)) (32 * day_us) ''f'' 20 20) = Some 20"
  by (rule refused_reservation_resets_old_row [where used = 20 and updated_at = 0, THEN conjunct2]) (simp_all add: KEEP_def day_us_def)

end
