(* ===== verification/Lineage.thy ===== *)
theory Lineage
  imports Classify
begin

text \<open>
  Who is speaking and where content came from: run-context provenance
  (\<open>backend/app/policy/provenance.py\<close>), message lineage (\<open>lineage.py\<close>), the server's markers on
  messages (\<open>omniharness/agents/turns.py\<close>), what an invited agent starts with (\<open>invitation.py\<close>)
  and the private-read walk (\<open>private_reads.py\<close>).

  A message, whether a dictionary or an object in the code, is a record of the attributes the
  code reads; \<open>None\<close> stands for an absent attribute or one of another type. The walks go backwards
  over the messages, so they are recursions over the reversed list. The lemmas characterise the
  origin "user", show that taint stays for the rest of a turn, and show that summarising history
  never clears a private read.
\<close>

subsection \<open>Messages and contexts\<close>

record tool_call =
  tc_id :: "string option"
  tc_name :: string

record message =
  m_type :: "string option"
  m_id :: string
  m_content :: string
  m_name :: string
  m_tool_call_id :: "string option"
  m_tool_calls :: "tool_call list"
  m_kwargs :: "dict option"

definition marked :: "string \<Rightarrow> message \<Rightarrow> bool" where
  "marked k m = (case m_kwargs m of Some kw \<Rightarrow> dget kw k = PBool True | None \<Rightarrow> False)"

definition USER_TURN_MARKER :: string where "USER_TURN_MARKER = ''omniharness_user_turn''"
definition INVITATION_MARKER :: string where "INVITATION_MARKER = ''omniharness_invitation''"
definition TURN_SUMMARY_MARKER :: string where "TURN_SUMMARY_MARKER = ''omniharness_turn_summary''"
definition UNTAGGED_INPUT_MARKER :: string where "UNTAGGED_INPUT_MARKER = ''omniharness_untagged_input''"
definition TRUSTED_ACK_MARKER :: string where "TRUSTED_ACK_MARKER = ''omniharness_trusted_ack''"

definition set_marker :: "string \<Rightarrow> message \<Rightarrow> message" where
  "set_marker k m = m\<lparr>m_kwargs := Some (dset (case m_kwargs m of None \<Rightarrow> [] | Some kw \<Rightarrow> kw) k (PBool True))\<rparr>"

definition mark_user_turn :: "message \<Rightarrow> message" where "mark_user_turn m = set_marker USER_TURN_MARKER m"
definition mark_invitation :: "message \<Rightarrow> message" where "mark_invitation m = set_marker INVITATION_MARKER m"
definition mark_untagged_input :: "message \<Rightarrow> message" where "mark_untagged_input m = set_marker UNTAGGED_INPUT_MARKER m"

definition is_untagged_input :: "message \<Rightarrow> bool" where
  "is_untagged_input m = (m_type m = Some ''human'' \<and> marked UNTAGGED_INPUT_MARKER m)"

definition is_tool_result :: "message \<Rightarrow> bool" where
  "is_tool_result m = (if m_type m = Some ''tool'' then True else m_tool_call_id m \<noteq> None)"

definition is_user_turn :: "message \<Rightarrow> bool" where
  "is_user_turn m = (if m_type m \<noteq> Some ''human'' \<or> is_tool_result m then False else marked USER_TURN_MARKER m)"

definition is_invitation :: "message \<Rightarrow> bool" where
  "is_invitation m = marked INVITATION_MARKER m"

definition eligible_to_confirm :: "message \<Rightarrow> bool" where
  "eligible_to_confirm m = is_user_turn m"

text \<open>Run context: \<open>turn_provenance\<close> marks a turn a trigger injected.\<close>

definition is_synthetic_turn :: "dict option \<Rightarrow> bool" where
  "is_synthetic_turn ctx = (case ctx of
     None \<Rightarrow> False
   | Some d \<Rightarrow> if d = [] then False else dget d ''turn_provenance'' = PStr ''synthetic-trigger'')"

subsection \<open>The origin of a call\<close>

definition TRUSTED_TOOL_RESULTS :: "string list" where
  "TRUSTED_TOOL_RESULTS = [''ledger_apply'']"

definition tool_result_is_trusted :: "message \<Rightarrow> string \<Rightarrow> bool" where
  "tool_result_is_trusted m name = (marked TRUSTED_ACK_MARKER m \<and> name \<noteq> [] \<and> name \<in> set TRUSTED_TOOL_RESULTS)"

text \<open>The name the first message holding the call gives it.\<close>

fun call_name :: "string option \<Rightarrow> tool_call list \<Rightarrow> string option" where
  "call_name cid [] = None"
| "call_name cid (c # cs) = (if tc_id c = cid \<and> tc_name c \<noteq> [] then Some (tc_name c) else call_name cid cs)"

definition find_call_name :: "message list \<Rightarrow> message \<Rightarrow> string option" where
  "find_call_name items result = call_name (m_tool_call_id result) (concat (map m_tool_calls items))"

definition tool_name_of :: "message list \<Rightarrow> message \<Rightarrow> string" where
  "tool_name_of items result =
     (if m_name result \<noteq> [] then m_name result
      else (case find_call_name items result of Some n \<Rightarrow> n | None \<Rightarrow> ''a tool result''))"

datatype origin = Origin_User | Origin_Content | Origin_Automation | Origin_Unknown | Origin_Invitation

definition or_content :: "origin \<Rightarrow> string list \<Rightarrow> origin \<times> string" where
  "or_content o' untrusted = (if untrusted \<noteq> [] then (Origin_Content, py_join '', '' untrusted) else (o', []))"

fun origin_walk :: "message list \<Rightarrow> message list \<Rightarrow> string list \<Rightarrow> origin \<times> string" where
  "origin_walk items [] untrusted = or_content Origin_Unknown untrusted"
| "origin_walk items (m # ms) untrusted =
     (if m_type m = Some ''ai'' \<and> \<not> is_tool_result m then origin_walk items ms untrusted
      else if is_tool_result m then
        (let name = tool_name_of items m in
         if \<not> tool_result_is_trusted m name \<and> name \<notin> set untrusted
         then origin_walk items ms (name # untrusted)
         else origin_walk items ms untrusted)
      else if is_invitation m then or_content Origin_Invitation untrusted
      else if is_user_turn m then or_content Origin_User untrusted
      else or_content Origin_Unknown untrusted)"

definition initiation_origin :: "message list \<Rightarrow> bool \<Rightarrow> origin \<times> string" where
  "initiation_origin items synthetic =
     (if synthetic then (Origin_Automation, []) else origin_walk items (rev items) [])"

text \<open>A message the walk passes without finding content: the agent's own step or a trusted receipt.\<close>

definition untainted :: "message list \<Rightarrow> message \<Rightarrow> bool" where
  "untainted items m \<longleftrightarrow> (m_type m = Some ''ai'' \<and> \<not> is_tool_result m)
     \<or> (is_tool_result m \<and> tool_result_is_trusted m (tool_name_of items m))"

definition turn_start :: "message \<Rightarrow> bool" where
  "turn_start m \<longleftrightarrow> \<not> is_tool_result m \<and> m_type m \<noteq> Some ''ai''"

lemma or_content_user: "fst (or_content o' u) = Origin_User \<longleftrightarrow> o' = Origin_User \<and> u = []"
  by (auto simp: or_content_def)

lemma origin_walk_user:
  "fst (origin_walk items ms u) = Origin_User \<longleftrightarrow>
     u = [] \<and> reaches (untainted items) (\<lambda>m. turn_start m \<and> is_user_turn m \<and> \<not> is_invitation m) ms"
proof (induction items ms u rule: origin_walk.induct)
  case (1 items untrusted)
  then show ?case by (simp add: or_content_user)
next
  case (2 items m ms u)
  show ?case
  proof (cases "is_tool_result m")
    case True
    then have ns: "\<not> turn_start m" by (simp add: turn_start_def)
    show ?thesis
    proof (cases "tool_result_is_trusted m (tool_name_of items m)")
      case t: True
      then have "untainted items m" using True by (simp add: untainted_def)
      with 2 True t ns show ?thesis by (simp add: Let_def)
    next
      case False
      then have "\<not> untainted items m" using True by (simp add: untainted_def)
      with 2 True False ns show ?thesis by (auto simp: Let_def)
    qed
  next
    case nt: False
    show ?thesis
    proof (cases "m_type m = Some ''ai''")
      case True
      then have "untainted items m" "\<not> turn_start m" using nt by (simp_all add: untainted_def turn_start_def)
      with 2 True nt show ?thesis by simp
    next
      case False
      then have "\<not> untainted items m" "turn_start m" using nt by (simp_all add: untainted_def turn_start_def)
      with False nt show ?thesis by (auto simp: or_content_user)
    qed
  qed
qed

text \<open>
  C23. A call counts as the user's own exactly when the turn is not a scheduled one and, going
  back from the call, there are only the agent's own messages and trusted harness receipts until
  a message the server tagged as the person's turn. Any untrusted tool result, any injected or
  untagged message, and any invitation on the way rules it out.
\<close>

theorem initiation_origin_user_iff:
  "fst (initiation_origin items synthetic) = Origin_User \<longleftrightarrow>
     \<not> synthetic \<and> (\<exists>before m after. items = before @ m # after
       \<and> list_all (untainted items) after \<and> turn_start m \<and> is_user_turn m \<and> \<not> is_invitation m)"
  using reaches_rev [of "untainted items" "\<lambda>m. turn_start m \<and> is_user_turn m \<and> \<not> is_invitation m" items]
  by (auto simp: initiation_origin_def origin_walk_user)

subsection \<open>Invited agents\<close>

record inviting_turn =
  it_origin :: string
  it_source :: string
  it_chain :: "string list"
  it_via :: string
  it_run_markers :: "(string \<times> string) list"
  it_private_read :: "bool option"

definition unknown_turn :: inviting_turn where
  "unknown_turn = \<lparr>it_origin = ''unknown'', it_source = [], it_chain = [], it_via = [], it_run_markers = [],
     it_private_read = None\<rparr>"

text \<open>The runtime context of an invited agent; later entries override the run markers.\<close>

definition invited_agent_context :: "inviting_turn option \<Rightarrow> string \<Rightarrow> dict" where
  "invited_agent_context inviting name =
     (let it = (case inviting of None \<Rightarrow> unknown_turn | Some t \<Rightarrow> t);
          chain = (if it_chain it = [] then [''lead_agent''] else it_chain it);
          base = foldl (\<lambda>d (k, v). dset d k (PStr v)) [] (it_run_markers it)
      in foldl (\<lambda>d (k, v). dset d k v) base
           [(''invited_origin'', PStr (if it_origin it = [] then ''unknown'' else it_origin it)),
            (''invited_origin_source'', PStr (it_source it)),
            (''invited_via'', PStr (if it_via it = [] then last chain else it_via it)),
            (''invited_agent'', PStr name),
            (''delegation_chain'', PList (map PStr (chain @ [name]))),
            (''invited_private_read'', PBool (it_private_read it \<noteq> Some False))])"

text \<open>
  Provenance only degrades on invitation: an invited agent's context says "user" only if its
  inviter's recorded origin was "user", is never marked clean of private reads unless the inviter
  said so, and an unmarked invitation starts as "unknown" and private, whatever run markers the
  inviting turn carried.
\<close>

theorem invited_agent_context_degrades:
  "(dget (invited_agent_context inviting name) ''invited_origin'' = PStr ''user''
      \<longleftrightarrow> (\<exists>t. inviting = Some t \<and> it_origin t = ''user''))
   \<and> (dget (invited_agent_context inviting name) ''invited_private_read'' = PBool False
      \<longleftrightarrow> (\<exists>t. inviting = Some t \<and> it_private_read t = Some False))
   \<and> dget (invited_agent_context inviting name) ''delegation_chain''
      = PList (map PStr ((case inviting of None \<Rightarrow> [''lead_agent'']
          | Some t \<Rightarrow> if it_chain t = [] then [''lead_agent''] else it_chain t) @ [name]))"
  by (cases inviting) (auto simp: invited_agent_context_def unknown_turn_def dget_def Let_def)

subsection \<open>The private-read walk\<close>

definition UNKNOWN_START :: string where
  "UNKNOWN_START = ''the turn'' @ [CHR 0x27] @ ''s start could not be found''"

record turn_privacy =
  tp_private :: bool
  tp_sources :: "string list"
  tp_key :: string

definition turn_summary :: "message \<Rightarrow> py option" where
  "turn_summary m =
     (if m_type m \<noteq> Some ''human'' then None
      else (case m_kwargs m of None \<Rightarrow> None | Some kw \<Rightarrow> map_of kw TURN_SUMMARY_MARKER))"

definition str_or_empty :: "py \<Rightarrow> string" where
  "str_or_empty v = (case v of PStr s \<Rightarrow> s | _ \<Rightarrow> [])"

definition unknown_privacy :: "string list \<Rightarrow> turn_privacy" where
  "unknown_privacy sources = \<lparr>tp_private = True, tp_sources = sources @ [UNKNOWN_START], tp_key = []\<rparr>"

definition recorded_label :: "py \<Rightarrow> string" where
  "recorded_label v = (case v of PStr s \<Rightarrow> if s = [] then ''a tool result'' else s | _ \<Rightarrow> ''a tool result'')"

definition recorded_private :: "py \<Rightarrow> rule_set \<Rightarrow> bool" where
  "recorded_private v rs = reads_private (case v of PStr s \<Rightarrow> Some s | _ \<Rightarrow> None) rs"

fun fold_recorded :: "rule_set \<Rightarrow> string list \<Rightarrow> string list \<Rightarrow> py list \<Rightarrow> string list" where
  "fold_recorded rs sources folded [] = folded"
| "fold_recorded rs sources folded (v # vs) =
     (if recorded_private v rs \<and> recorded_label v \<notin> set folded \<and> recorded_label v \<notin> set sources
      then fold_recorded rs sources (folded @ [recorded_label v]) vs
      else fold_recorded rs sources folded vs)"

definition from_summary :: "py \<Rightarrow> string list \<Rightarrow> rule_set \<Rightarrow> turn_privacy" where
  "from_summary record sources rs =
     (case record of
        PDict d \<Rightarrow>
          (case dget d ''tools'' of
             PList tools \<Rightarrow>
               if dget d ''start_found'' \<noteq> PBool True then unknown_privacy sources
               else (let found = fold_recorded rs sources [] tools @ sources in
                     \<lparr>tp_private = (found \<noteq> []), tp_sources = found, tp_key = str_or_empty (dget d ''turn_key'')\<rparr>)
           | _ \<Rightarrow> unknown_privacy sources)
      | _ \<Rightarrow> unknown_privacy sources)"

fun privacy_walk :: "message list \<Rightarrow> rule_set \<Rightarrow> message list \<Rightarrow> string list \<Rightarrow> bool \<Rightarrow> turn_privacy" where
  "privacy_walk items rs [] sources crossed = unknown_privacy sources"
| "privacy_walk items rs (m # ms) sources crossed =
     (if is_tool_result m then
        (let name = tool_name_of items m in
         if reads_private (Some name) rs \<and> name \<notin> set sources
         then privacy_walk items rs ms (name # sources) crossed
         else privacy_walk items rs ms sources crossed)
      else if m_type m = Some ''ai'' then privacy_walk items rs ms sources crossed
      else (case turn_summary m of
          Some record \<Rightarrow> if crossed then unknown_privacy sources else from_summary record sources rs
        | None \<Rightarrow>
            if is_user_turn m \<or> is_invitation m
            then \<lparr>tp_private = (sources \<noteq> []), tp_sources = sources, tp_key = m_id m\<rparr>
            else privacy_walk items rs ms sources (crossed \<or> is_untagged_input m)))"

definition private_reads_in_turn :: "message list \<Rightarrow> rule_set \<Rightarrow> turn_privacy" where
  "private_reads_in_turn items rs = privacy_walk items rs (rev items) [] False"

subsection \<open>Summarised turns\<close>

definition result_tool_name :: "message list \<Rightarrow> message \<Rightarrow> string" where
  "result_tool_name items result =
     (if m_name result \<noteq> [] then m_name result
      else (case find_call_name items result of Some n \<Rightarrow> n | None \<Rightarrow> []))"

definition turn_record :: "string \<Rightarrow> py list \<Rightarrow> bool \<Rightarrow> py" where
  "turn_record key tools found =
     PDict [(''turn_key'', PStr key), (''tools'', PList tools), (''start_found'', PBool found)]"

fun summary_walk :: "message list \<Rightarrow> message list \<Rightarrow> py list \<Rightarrow> py" where
  "summary_walk items [] tools = turn_record [] tools False"
| "summary_walk items (m # ms) tools =
     (if m_type m = Some ''tool'' then summary_walk items ms (PStr (result_tool_name items m) # tools)
      else if m_type m \<noteq> Some ''human'' then summary_walk items ms tools
      else if marked USER_TURN_MARKER m \<or> marked INVITATION_MARKER m then turn_record (m_id m) tools True
      else if marked UNTAGGED_INPUT_MARKER m then turn_record [] tools False
      else (case turn_summary m of
          None \<Rightarrow> summary_walk items ms tools
        | Some earlier \<Rightarrow>
            (case earlier of
               PDict d \<Rightarrow>
                 (case dget d ''tools'' of
                    PList prior \<Rightarrow> turn_record (str_or_empty (dget d ''turn_key'')) (prior @ tools)
                        (dget d ''start_found'' = PBool True)
                  | _ \<Rightarrow> turn_record [] tools False)
             | _ \<Rightarrow> turn_record [] tools False)))"

definition summarized_turn :: "message list \<Rightarrow> py" where
  "summarized_turn items = summary_walk items (rev items) []"

text \<open>The summary message that replaces \<open>old\<close> (\<open>_build_new_messages\<close>, \<open>_mark_turn\<close>).\<close>

definition summary_message :: "string \<Rightarrow> message list \<Rightarrow> message" where
  "summary_message text old = \<lparr>m_type = Some ''human'', m_id = [], m_content = text, m_name = ''summary'',
     m_tool_call_id = None, m_tool_calls = [], m_kwargs = Some [(TURN_SUMMARY_MARKER, summarized_turn old)]\<rparr>"

text \<open>
  Messages as LangChain delivers them: tool results, and only they, are of type "tool" and carry
  the tool's name; invitations are human messages; no start of a turn is a summary.
\<close>

definition wf_message :: "message \<Rightarrow> bool" where
  "wf_message m \<longleftrightarrow> (m_type m = Some ''tool'' \<longleftrightarrow> m_tool_call_id m \<noteq> None)
     \<and> (m_type m = Some ''tool'' \<longrightarrow> m_name m \<noteq> [])
     \<and> (is_invitation m \<longrightarrow> m_type m = Some ''human'')
     \<and> (is_user_turn m \<or> is_invitation m \<longrightarrow> turn_summary m = None)"

lemma fold_recorded_mono: "set folded \<subseteq> set (fold_recorded rs sources folded vs)"
proof (induction vs arbitrary: folded)
  case (Cons v vs)
  show ?case using Cons.IH [of "folded @ [recorded_label v]"] Cons.IH [of folded] by auto
qed simp

lemma fold_recorded_empty:
  "fold_recorded rs sources folded vs = [] \<longleftrightarrow>
     folded = [] \<and> (\<forall>v \<in> set vs. recorded_private v rs \<longrightarrow> recorded_label v \<in> set sources)"
proof (induction vs arbitrary: folded)
  case (Cons v vs)
  have "fold_recorded rs sources (folded @ [x]) vs \<noteq> []" for x
    using fold_recorded_mono [of "folded @ [x]" rs sources vs] by auto
  with Cons.IH [of folded] show ?case by auto
qed simp

lemma from_summary_private:
  "tp_private (from_summary (turn_record key tools found) sources rs) \<longleftrightarrow>
     \<not> found \<or> sources \<noteq> [] \<or> (\<exists>v \<in> set tools. recorded_private v rs)"
  by (auto simp: from_summary_def turn_record_def dget_def Let_def unknown_privacy_def fold_recorded_empty)

lemma from_summary_private_dict:
  assumes "dget d ''tools'' = PList prior"
  shows "tp_private (from_summary (PDict d) sources rs) \<longleftrightarrow>
     dget d ''start_found'' \<noteq> PBool True \<or> sources \<noteq> [] \<or> (\<exists>v \<in> set prior. recorded_private v rs)"
  using assms by (auto simp: from_summary_def Let_def unknown_privacy_def fold_recorded_empty)

lemma wf_tool_result: "wf_message m \<Longrightarrow> is_tool_result m = (m_type m = Some ''tool'')"
  by (auto simp: wf_message_def is_tool_result_def)

lemma wf_tool_name:
  "wf_message m \<Longrightarrow> m_type m = Some ''tool'' \<Longrightarrow> tool_name_of items m = m_name m \<and> result_tool_name items m = m_name m"
  by (simp add: wf_message_def tool_name_of_def result_tool_name_def)

text \<open>One walk over the summarised messages against the record the summary keeps of them.\<close>

lemma summary_keeps_private:
  assumes "list_all wf_message ms"
    and "seen \<noteq> [] \<longrightarrow> sources \<noteq> [] \<or> (\<exists>v \<in> set ts. recorded_private v rs)"
    and "tp_private (privacy_walk items rs ms seen False)"
  shows "tp_private (from_summary (summary_walk items' ms ts) sources rs)"
  using assms
proof (induction ms arbitrary: seen ts)
  case Nil
  then show ?case by (simp add: from_summary_private)
next
  case (Cons m ms)
  have wf: "wf_message m" using Cons.prems(1) by simp
  have tl: "list_all wf_message ms" using Cons.prems(1) by simp
  note tr = wf_tool_result [OF wf]
  consider (tool) "m_type m = Some ''tool''" | (human) "m_type m = Some ''human''"
    | (other) "m_type m \<noteq> Some ''tool''" "m_type m \<noteq> Some ''human''" by blast
  then show ?case
  proof cases
    case tool
    let ?n = "m_name m"
    let ?seen = "if reads_private (Some ?n) rs \<and> ?n \<notin> set seen then ?n # seen else seen"
    note nm = wf_tool_name [OF wf tool]
    have "tp_private (privacy_walk items rs ms ?seen False)"
      using Cons.prems(3) tool tr nm
      by (cases "reads_private (Some ?n) rs \<and> ?n \<notin> set seen") (auto simp: Let_def)
    moreover have "?seen \<noteq> [] \<longrightarrow> sources \<noteq> [] \<or> (\<exists>v \<in> set (PStr ?n # ts). recorded_private v rs)"
      using Cons.prems(2) by (auto simp: recorded_private_def)
    ultimately show ?thesis using Cons.IH [OF tl] tool nm by simp
  next
    case other
    have "\<not> is_invitation m" using wf other by (auto simp: wf_message_def)
    then have "privacy_walk items rs (m # ms) seen False = privacy_walk items rs ms seen False"
      using other tr by (simp add: turn_summary_def is_user_turn_def is_untagged_input_def)
    then show ?thesis using Cons.IH [OF tl Cons.prems(2)] Cons.prems(3) other by simp
  next
    case human
    have nt: "\<not> is_tool_result m" "m_type m \<noteq> Some ''ai''" "m_type m \<noteq> Some ''tool''" using human tr by simp_all
    have ut: "is_user_turn m = marked USER_TURN_MARKER m" using human nt by (simp add: is_user_turn_def)
    show ?thesis
    proof (cases "is_user_turn m \<or> is_invitation m")
      case True
      then have "turn_summary m = None" using wf by (auto simp: wf_message_def)
      then have "seen \<noteq> []" using Cons.prems(3) True nt by simp
      then show ?thesis using Cons.prems(2) True nt human
        by (auto simp: from_summary_private ut is_invitation_def)
    next
      case False
      then have um: "\<not> marked USER_TURN_MARKER m" "\<not> marked INVITATION_MARKER m"
        by (auto simp: ut is_invitation_def)
      show ?thesis
      proof (cases "is_untagged_input m")
        case True
        then show ?thesis using um human nt by (simp add: is_untagged_input_def from_summary_private)
      next
        case nu: False
        then have mu: "\<not> marked UNTAGGED_INPUT_MARKER m" using human by (simp add: is_untagged_input_def)
        show ?thesis
        proof (cases "turn_summary m")
          case None
          then have "tp_private (privacy_walk items rs ms seen False)"
            using Cons.prems(3) False nt nu by simp
          then show ?thesis using Cons.IH [OF tl Cons.prems(2)] um mu human nt None by simp
        next
          case (Some earlier)
          then have p: "tp_private (from_summary earlier seen rs)"
            using Cons.prems(3) nt by simp
          show ?thesis
          proof (cases "\<exists>d prior. earlier = PDict d \<and> dget d ''tools'' = PList prior")
            case True
            then obtain d prior where d: "earlier = PDict d" "dget d ''tools'' = PList prior" by blast
            then show ?thesis
              using p from_summary_private_dict [OF d(2), of seen rs] Some um mu human nt Cons.prems(2)
              by (auto simp: from_summary_private)
          next
            case False
            then show ?thesis using Some um mu human nt
              by (auto simp: from_summary_private split: py.splits)
          qed
        qed
      qed
    qed
  qed
qed

lemma summary_message_walk:
  "privacy_walk items rs (summary_message text old # ms) sources crossed =
     (if crossed then unknown_privacy sources else from_summary (summarized_turn old) sources rs)"
  by (simp add: summary_message_def is_tool_result_def turn_summary_def)

lemma privacy_walk_summary:
  assumes "list_all wf_message ks" "list_all wf_message old"
    and "tp_private (privacy_walk items rs (ks @ rev old) sources crossed)"
  shows "tp_private (privacy_walk items' rs (ks @ [summary_message text old]) sources crossed)"
  using assms(1,3)
proof (induction ks arbitrary: sources crossed)
  case Nil
  have "list_all wf_message (rev old)" using assms(2) by simp
  with Nil have "\<not> crossed \<Longrightarrow> tp_private (from_summary (summarized_turn old) sources rs)"
    using summary_keeps_private [of "rev old" sources sources "[]" rs items old]
    by (simp add: summarized_turn_def)
  then show ?case
    unfolding append_Nil summary_message_walk by (simp add: unknown_privacy_def)
next
  case (Cons k ks)
  have wf: "wf_message k" and tl: "list_all wf_message ks" using Cons.prems(1) by simp_all
  show ?case
  proof (cases "is_tool_result k")
    case True
    then have "tool_name_of items k = m_name k" "tool_name_of items' k = m_name k"
      using wf_tool_result [OF wf] wf_tool_name [OF wf] by simp_all
    with Cons.prems(2) True Cons.IH [OF tl] show ?thesis by (auto simp: Let_def split: if_splits)
  next
    case False
    with Cons.prems(2) Cons.IH [OF tl] show ?thesis by (auto split: option.splits if_splits)
  qed
qed

text \<open>
  Summarising history never clears a private read: if the walk over a conversation finds (or
  cannot rule out) a private read in the current turn, so does the walk over the conversation
  whose older part has been replaced by its summary, wherever the turn began.
\<close>

theorem summarising_keeps_private_reads:
  assumes "list_all wf_message (old @ kept)" "tp_private (private_reads_in_turn (old @ kept) rs)"
  shows "tp_private (private_reads_in_turn (summary_message text old # kept) rs)"
  using privacy_walk_summary [of "rev kept" old "old @ kept" rs "[]" False] assms
  by (simp add: private_reads_in_turn_def)

definition plain_message :: "string \<Rightarrow> message" where
  "plain_message k = \<lparr>m_type = Some k, m_id = ''m1'', m_content = [], m_name = [], m_tool_call_id = None,
     m_tool_calls = [], m_kwargs = None\<rparr>"

definition tool_message :: "string \<Rightarrow> message" where
  "tool_message n = (plain_message ''tool'')\<lparr>m_name := n, m_tool_call_id := Some ''c1''\<rparr>"

theorem summarising_keeps_private_reads_witness:
  "tp_private (private_reads_in_turn
     (summary_message [] [mark_user_turn (plain_message ''human''), tool_message ''read_mail''] # [plain_message ''ai'']) sample_rules)"
proof -
  let ?old = "[mark_user_turn (plain_message ''human''), tool_message ''read_mail'']"
  have "list_all wf_message (?old @ [plain_message ''ai''])" by code_simp
  moreover have "tp_private (private_reads_in_turn (?old @ [plain_message ''ai'']) sample_rules)" by code_simp
  ultimately show ?thesis by (rule summarising_keeps_private_reads)
qed

text \<open>What the walk already holds only adds to what it will say.\<close>

lemma origin_walk_tainted: "u \<noteq> [] \<Longrightarrow> fst (origin_walk items ms u) = Origin_Content"
  by (induction items ms u rule: origin_walk.induct) (auto simp: Let_def or_content_def)

lemma origin_content_mono:
  "fst (origin_walk items ms u) = Origin_Content \<Longrightarrow> list_all wf_message ms \<Longrightarrow> (u \<noteq> [] \<longrightarrow> u' \<noteq> []) \<Longrightarrow>
     fst (origin_walk items' ms u') = Origin_Content"
proof (induction ms arbitrary: u u')
  case Nil
  then show ?case by (auto simp: or_content_def split: if_splits)
next
  case (Cons m ms)
  show ?case
  proof (cases "u' = []")
    case False
    then show ?thesis by (rule origin_walk_tainted)
  next
    case True
    then have u: "u = []" using Cons.prems(3) by blast
    have wf: "wf_message m" "list_all wf_message ms" using Cons.prems(2) by simp_all
    show ?thesis
    proof (cases "is_tool_result m")
      case tr: True
      then have "tool_name_of items m = m_name m" "tool_name_of items' m = m_name m"
        using wf_tool_result [OF wf(1)] wf_tool_name [OF wf(1)] by simp_all
      then show ?thesis
        using Cons.prems(1) Cons.IH [OF _ wf(2)] tr u True by (auto simp: Let_def origin_walk_tainted split: if_splits)
    next
      case False
      then show ?thesis
        using Cons.prems(1) Cons.IH [OF _ wf(2)] u True by (auto simp: or_content_def split: if_splits)
    qed
  qed
qed

text \<open>
  Taint stays for the rest of the turn: once untrusted content entered, whatever the agent
  says and whatever tools return afterwards, no later call of that turn is the user's own.
\<close>

theorem taint_persists:
  assumes "fst (initiation_origin items False) = Origin_Content"
    and "\<forall>m \<in> set later. m_type m = Some ''ai'' \<or> is_tool_result m"
    and "list_all wf_message (items @ later)"
  shows "fst (initiation_origin (items @ later) False) = Origin_Content"
proof -
  have walk: "fst (origin_walk (items @ later) (ls @ rev items) u) = Origin_Content"
    if "\<forall>m \<in> set ls. m_type m = Some ''ai'' \<or> is_tool_result m" for ls u
    using that
  proof (induction ls arbitrary: u)
    case Nil
    have "fst (origin_walk items (rev items) []) = Origin_Content"
      using assms(1) by (simp add: initiation_origin_def)
    then show ?case using origin_content_mono [of items "rev items" "[]" u "items @ later"] assms(3) by simp
  next
    case (Cons k ks)
    then show ?case by (auto simp: Let_def)
  qed
  show ?thesis using walk [of "rev later" "[]"] assms(2) by (simp add: initiation_origin_def)
qed

theorem taint_persists_witness:
  "fst (initiation_origin ([mark_user_turn (plain_message ''human''), tool_message ''read_mail''] @ [plain_message ''ai'']) False)
     = Origin_Content"
proof (rule taint_persists)
  show "fst (initiation_origin [mark_user_turn (plain_message ''human''), tool_message ''read_mail''] False) = Origin_Content"
    by code_simp
  show "\<forall>m \<in> set [plain_message ''ai'']. m_type m = Some ''ai'' \<or> is_tool_result m" by code_simp
  show "list_all wf_message ([mark_user_turn (plain_message ''human''), tool_message ''read_mail''] @ [plain_message ''ai''])"
    by code_simp
qed

end
