(* ===== verification/Confirm.thy ===== *)
theory Confirm
  imports Lineage
begin

text \<open>
  Recognising a typed confirmation (\<open>backend/app/policy/confirm.py\<close>). The normaliser replaces
  every character outside \<open>[a-z0-9' ]\<close> by a space before it splits at white space, which splits
  exactly as the code's replacement of whole runs does; an action id is a word of twelve lower-case
  hexadecimal digits (\<open>\b[0-9a-f]{12}\b\<close>: a maximal run of word characters). The lemmas show what
  a recognised verdict requires of the turn, the message and the pending actions, and that the
  forms the user is told to type are recognised.
\<close>

datatype verdict = CONFIRM | DECLINE | UNRECOGNISED

datatype unrecognised_reason =
    Machine_Turn
  | Not_A_User_Turn
  | Empty_Reply
  | Several_Pending nat
  | Nothing_Pending
  | Neither_Form string
  | No_Reason

record recognition =
  rc_verdict :: verdict
  rc_action :: "string option"
  rc_reason :: unrecognised_reason

definition CONFIRM_FORMS :: "string list" where
  "CONFIRM_FORMS = [''yes'', ''y'', ''confirm'', ''confirmed'', ''approve'', ''approved'', ''go ahead'',
     ''do it'', ''proceed'', ''yes please'', ''yes do it'', ''sure'', ''ok'', ''okay'', ''yep'', ''yeah'', ''please do'']"

definition DECLINE_FORMS :: "string list" where
  "DECLINE_FORMS = [''no'', ''n'', ''decline'', ''declined'', ''cancel'', ''cancelled'', ''stop'',
     ''don'' @ [CHR 0x27] @ ''t'', ''do not'', ''nope'', ''no thanks'', ''never mind'', ''not now'', ''leave it'', ''maybe later'']"

definition is_hex_lower :: "char \<Rightarrow> bool" where
  "is_hex_lower c = (let n = code_of c in 48 \<le> n \<and> n \<le> 57 \<or> 97 \<le> n \<and> n \<le> 102)"

definition allowed_char :: "char \<Rightarrow> bool" where
  "allowed_char c = (let n = code_of c in 97 \<le> n \<and> n \<le> 122 \<or> 48 \<le> n \<and> n \<le> 57 \<or> n = 39 \<or> n = 32)"

definition normalise :: "string \<Rightarrow> string" where
  "normalise text = py_join '' '' (py_split
     (map (\<lambda>c. if allowed_char c then c else CHR '' '') (py_lower (py_strip text))))"

definition is_action_id :: "string \<Rightarrow> bool" where
  "is_action_id w = (length w = 12 \<and> list_all is_hex_lower w)"

definition find_ids :: "string \<Rightarrow> string list" where
  "find_ids text = filter is_action_id (runs py_isword text)"

text \<open>The verdict of what remains once the id is taken out: \<open>text.replace(named, "").strip()\<close>.\<close>

definition judge_words :: "string \<Rightarrow> string \<Rightarrow> recognition" where
  "judge_words text named =
     (let words = py_strip (replace_all named [] text) in
      if words \<in> set CONFIRM_FORMS then \<lparr>rc_verdict = CONFIRM, rc_action = Some named, rc_reason = No_Reason\<rparr>
      else if words \<in> set DECLINE_FORMS then \<lparr>rc_verdict = DECLINE, rc_action = Some named, rc_reason = No_Reason\<rparr>
      else \<lparr>rc_verdict = UNRECOGNISED, rc_action = Some named, rc_reason = Neither_Form words\<rparr>)"

definition recognise :: "message \<Rightarrow> pending_action list \<Rightarrow> dict option \<Rightarrow> recognition" where
  "recognise m pending ctx =
     (if is_synthetic_turn ctx then \<lparr>rc_verdict = UNRECOGNISED, rc_action = None, rc_reason = Machine_Turn\<rparr>
      else if \<not> eligible_to_confirm m then \<lparr>rc_verdict = UNRECOGNISED, rc_action = None, rc_reason = Not_A_User_Turn\<rparr>
      else
        let text = normalise (m_content m); open_ids = remdups (map pa_id pending) in
        if text = [] then \<lparr>rc_verdict = UNRECOGNISED, rc_action = None, rc_reason = Empty_Reply\<rparr>
        else (case find (\<lambda>i. i \<in> set open_ids) (find_ids text) of
            None \<Rightarrow>
              if 1 < length open_ids
              then \<lparr>rc_verdict = UNRECOGNISED, rc_action = None, rc_reason = Several_Pending (length open_ids)\<rparr>
              else (case open_ids of
                  [] \<Rightarrow> \<lparr>rc_verdict = UNRECOGNISED, rc_action = None, rc_reason = Nothing_Pending\<rparr>
                | named # _ \<Rightarrow> judge_words text named)
          | Some named \<Rightarrow> judge_words text named))"

definition self_verdict_id :: "string \<Rightarrow> string option" where
  "self_verdict_id line =
     (let text = normalise line; ids = find_ids text in
      if length ids \<noteq> 1 then None
      else (let words = py_join '' '' (py_split (replace_all (hd ids) '' '' text)) in
            if words \<in> set CONFIRM_FORMS \<or> words \<in> set DECLINE_FORMS then Some (hd ids) else None))"

text \<open>The two closed sets share no form.\<close>

lemma forms_disjoint: "set CONFIRM_FORMS \<inter> set DECLINE_FORMS = {}"
  by code_simp

lemma judge_words_cases:
  "rc_verdict (judge_words text i) \<noteq> UNRECOGNISED \<Longrightarrow>
     rc_action (judge_words text i) = Some i
     \<and> py_strip (replace_all i [] text) \<in> set CONFIRM_FORMS \<union> set DECLINE_FORMS
     \<and> (rc_verdict (judge_words text i) = CONFIRM \<longleftrightarrow> py_strip (replace_all i [] text) \<in> set CONFIRM_FORMS)"
  by (auto simp: judge_words_def Let_def split: if_splits)

lemma find_SomeD: "find P xs = Some x \<Longrightarrow> P x" "find P xs = Some x \<Longrightarrow> x \<in> set xs"
  by (metis find_Some_iff nth_mem)+

lemma verdict_needs:
  assumes "rc_verdict (recognise m pending ctx) = v" "v \<noteq> UNRECOGNISED"
  shows "\<not> is_synthetic_turn ctx \<and> is_user_turn m
    \<and> (\<exists>a \<in> set pending. rc_action (recognise m pending ctx) = Some (pa_id a)
        \<and> (pa_id a \<in> set (find_ids (normalise (m_content m))) \<or> (\<forall>b \<in> set pending. pa_id b = pa_id a))
        \<and> (if v = CONFIRM then py_strip (replace_all (pa_id a) [] (normalise (m_content m))) \<in> set CONFIRM_FORMS
           else py_strip (replace_all (pa_id a) [] (normalise (m_content m))) \<in> set DECLINE_FORMS))"
proof -
  let ?text = "normalise (m_content m)" and ?ids = "remdups (map pa_id pending)"
  have nu: "rc_verdict (recognise m pending ctx) \<noteq> UNRECOGNISED" using assms by simp
  then have 1: "\<not> is_synthetic_turn ctx" "is_user_turn m" "?text \<noteq> []"
    by (auto simp: recognise_def Let_def eligible_to_confirm_def split: if_splits)
  have "\<exists>i. recognise m pending ctx = judge_words ?text i \<and> i \<in> set ?ids
      \<and> (i \<in> set (find_ids ?text) \<or> ?ids = [i])"
  proof (cases "find (\<lambda>i. i \<in> set ?ids) (find_ids ?text)")
    case None
    then have "\<not> 1 < length ?ids" "?ids \<noteq> []"
      using nu 1 by (auto simp: recognise_def Let_def eligible_to_confirm_def split: if_splits list.splits)
    then obtain i where "?ids = [i]" by (cases ?ids) auto
    then show ?thesis using None 1
      by (intro exI [of _ i]) (simp add: recognise_def Let_def eligible_to_confirm_def)
  next
    case (Some i)
    then have "i \<in> set ?ids" "i \<in> set (find_ids ?text)" by (rule find_SomeD)+
    then show ?thesis using Some 1
      by (intro exI [of _ i]) (simp add: recognise_def Let_def eligible_to_confirm_def)
  qed
  then obtain i where i: "recognise m pending ctx = judge_words ?text i" "i \<in> set ?ids"
    "i \<in> set (find_ids ?text) \<or> ?ids = [i]" by blast
  from i(2) obtain a where a: "a \<in> set pending" "i = pa_id a" by auto
  have "?ids = [i] \<Longrightarrow> \<forall>b \<in> set pending. pa_id b = i"
  proof -
    assume "?ids = [i]"
    then have "set (map pa_id pending) = {i}" by (metis list.set(1) list.simps(15) set_remdups)
    then show ?thesis by auto
  qed
  then show ?thesis
    using 1 a i judge_words_cases [of ?text i] nu assms
    by (intro conjI bexI [of _ a]) (auto; cases v; auto)+
qed

text \<open>
  C32. A typed reply is a verdict only if the turn was not machine-generated and the message is the
  person's own server-tagged turn; it then addresses one of the pending actions, named by its id in
  the reply unless it is the only one, and what remains of the reply without that id is, after
  normalisation, exactly a member of the closed sets: a confirmation for the confirm forms only.
\<close>

theorem verdict_requires:
  assumes "rc_verdict (recognise m pending ctx) = v" "v \<noteq> UNRECOGNISED"
  shows "\<not> is_synthetic_turn ctx \<and> is_user_turn m
    \<and> (\<exists>a \<in> set pending. rc_action (recognise m pending ctx) = Some (pa_id a)
        \<and> (pa_id a \<in> set (find_ids (normalise (m_content m))) \<or> (\<forall>b \<in> set pending. pa_id b = pa_id a))
        \<and> (if v = CONFIRM then py_strip (replace_all (pa_id a) [] (normalise (m_content m))) \<in> set CONFIRM_FORMS
           else py_strip (replace_all (pa_id a) [] (normalise (m_content m))) \<in> set DECLINE_FORMS))"
  by (rule verdict_needs [OF assms])

definition sample_action :: pending_action where
  "sample_action = \<lparr>pa_plan_text = [], pa_tool_name = ''send'', pa_arguments = [], pa_targets = [''x''],
     pa_tier = TIER_3, pa_expires_at = 1000, pa_thread_id = Some ''t1'', pa_requester = ''lead_agent'', pa_chain = [],
     pa_id = ''0123456789ab'', pa_claimed_by = None, pa_outcome = None, pa_outcome_reason = [], pa_confirmation = None,
     pa_origin = ''user'', pa_origin_source = [], pa_origin_via = [], pa_owner_id = Some ''u1'', pa_surface = [],
     pa_delegation_key = [], pa_result_excerpt = [], pa_post_state = [], pa_post_content = [], pa_post_attempts = 0,
     pa_continued = False, pa_run_markers = [], pa_private_read = False, pa_outbound = False, pa_group_key = []\<rparr>"

definition typed :: "string \<Rightarrow> message" where
  "typed text = mark_user_turn ((plain_message ''human'')\<lparr>m_content := text\<rparr>)"

theorem verdict_requires_witness:
  "\<exists>a \<in> set [sample_action]. rc_action (recognise (typed ''Yes, please!'') [sample_action] None) = Some (pa_id a)"
proof -
  have "rc_verdict (recognise (typed ''Yes, please!'') [sample_action] None) = CONFIRM" by code_simp
  from verdict_requires [OF this] show ?thesis by auto
qed

subsection \<open>What the user is told to type works\<close>

lemma hex_char_facts:
  assumes "is_hex_lower c"
  shows "py_isword c" "allowed_char c" "\<not> py_isspace c" "lower_char c = c" "c \<noteq> CHR '' ''"
  using assms by (auto simp: is_hex_lower_def py_isword_def allowed_char_def py_isspace_def lower_char_def
      code_of_def Let_def)

lemma allowed_char_facts:
  assumes "allowed_char c"
  shows "lower_char c = c" "py_isspace c \<longleftrightarrow> c = CHR '' ''" "py_isword c \<longleftrightarrow> c \<noteq> CHR '' '' \<and> c \<noteq> CHR 0x27"
proof -
  have eq: "c = d \<longleftrightarrow> code_of c = code_of d" for d by (simp add: code_of_def)
  show "lower_char c = c" using assms by (auto simp: allowed_char_def lower_char_def Let_def)
  show "py_isspace c \<longleftrightarrow> c = CHR '' ''"
    using assms unfolding eq by (auto simp: allowed_char_def py_isspace_def code_of_def Let_def)
  show "py_isword c \<longleftrightarrow> c \<noteq> CHR '' '' \<and> c \<noteq> CHR 0x27"
    using assms unfolding eq by (auto simp: allowed_char_def py_isword_def code_of_def Let_def)
qed

definition good_form :: "string \<Rightarrow> bool" where
  "good_form f \<longleftrightarrow> list_all allowed_char f \<and> py_join '' '' (runs (\<lambda>c. c \<noteq> CHR '' '') f) = f \<and> f \<noteq> []
      \<and> length f < 12 \<and> list_all (\<lambda>w. length w \<noteq> 12) (runs (\<lambda>c. c \<noteq> CHR '' '' \<and> c \<noteq> CHR 0x27) f)
      \<and> hd f \<noteq> CHR '' '' \<and> last f \<noteq> CHR '' '' \<and> runs (\<lambda>c. c \<noteq> CHR '' '') f \<noteq> []"

lemma good_forms: "list_all good_form (CONFIRM_FORMS @ DECLINE_FORMS)"
  by code_simp

lemma form_facts:
  assumes "f \<in> set CONFIRM_FORMS \<union> set DECLINE_FORMS"
  shows "py_lower f = f" "list_all allowed_char f" "py_join '' '' (py_split f) = f" "f \<noteq> []" "length f < 12"
    "filter is_action_id (runs py_isword f) = []" "\<not> py_isspace (hd f)" "\<not> py_isspace (last f)" "py_split f \<noteq> []"
proof -
  have "f \<in> set (CONFIRM_FORMS @ DECLINE_FORMS)" using assms by (simp only: set_append)
  then have g: "good_form f" using good_forms by (simp only: list_all_iff)
  then have al: "\<And>c. c \<in> set f \<Longrightarrow> allowed_char c" by (simp add: good_form_def list_all_iff)
  have sp: "py_split f = runs (\<lambda>c. c \<noteq> CHR '' '') f"
    unfolding py_split_def using al allowed_char_facts(2) by (intro runs_cong) blast
  have wd: "runs py_isword f = runs (\<lambda>c. c \<noteq> CHR '' '' \<and> c \<noteq> CHR 0x27) f"
    using al allowed_char_facts(3) by (intro runs_cong) blast
  show "py_lower f = f" using al allowed_char_facts(1) by (simp add: py_lower_def map_idI)
  show "list_all allowed_char f" "py_join '' '' (py_split f) = f" "f \<noteq> []" "length f < 12" "py_split f \<noteq> []"
    using g unfolding sp by (simp_all add: good_form_def)
  show "filter is_action_id (runs py_isword f) = []"
    using g unfolding wd by (auto simp: good_form_def list_all_iff is_action_id_def filter_empty_conv)
  show "\<not> py_isspace (hd f)" "\<not> py_isspace (last f)"
    using g al allowed_char_facts(2) by (auto simp: good_form_def)
qed

lemma strip_by_id: "s \<noteq> [] \<Longrightarrow> \<not> P (hd s) \<Longrightarrow> \<not> P (last s) \<Longrightarrow> strip_by P s = s"
proof -
  assume a: "s \<noteq> []" "\<not> P (hd s)" "\<not> P (last s)"
  then have "dropWhile P s = s" by (cases s) auto
  moreover have "dropWhile P (rev s) = rev s" using a by (cases "rev s") (auto simp: hd_rev [symmetric])
  ultimately show ?thesis by (simp add: strip_by_def rstrip_by_def)
qed

lemma starts_with_short: "c \<notin> set old \<Longrightarrow> length x < length old \<Longrightarrow> \<not> starts_with (x @ c # r) old"
proof
  assume a: "c \<notin> set old" "length x < length old" "starts_with (x @ c # r) old"
  from a(3) have "x @ c # r = old @ drop (length old) (x @ c # r)" by (rule starts_with_split)
  then have "(x @ c # r) ! length x = old ! length x" using a(2) by (metis nth_append)
  with a(1,2) show False by (metis nth_append_length nth_mem)
qed

lemma replace_all_at_end:
  "old \<noteq> [] \<Longrightarrow> c \<notin> set old \<Longrightarrow> length x < length old \<Longrightarrow> replace_all old new (x @ c # old) = x @ c # new"
proof (induction x)
  case Nil
  have "\<not> starts_with (c # old) old" using starts_with_short [of c old "[]" old] Nil by simp
  moreover have "replace_all old new old = new"
    using Nil by (simp add: replace_all.simps [of old new old] starts_with_def replace_all.simps [of old new "[]"])
  ultimately show ?case using Nil by (simp add: replace_all.simps [of old new "c # old"])
next
  case (Cons y x)
  have "\<not> starts_with ((y # x) @ c # old) old" using Cons.prems by (intro starts_with_short)
  then show ?case using Cons by (simp add: replace_all.simps [of old new "y # x @ c # old"])
qed

lemma join_snoc: "xs \<noteq> [] \<Longrightarrow> py_join sep (xs @ [y]) = py_join sep xs @ sep @ y"
  by (induction sep xs rule: py_join.induct) auto

lemma normalise_form_id:
  assumes f: "f \<in> set CONFIRM_FORMS \<union> set DECLINE_FORMS" and i: "is_action_id i"
  shows "normalise (f @ '' '' @ i) = f @ '' '' @ i"
proof -
  note ff = form_facts [OF f]
  have ne: "i \<noteq> []" and hex: "\<And>c. c \<in> set i \<Longrightarrow> is_hex_lower c"
    using i by (auto simp: is_action_id_def list_all_iff)
  let ?t = "f @ '' '' @ i"
  have "py_strip ?t = ?t"
    unfolding py_strip_def using ff ne hex hex_char_facts(3) last_in_set by (intro strip_by_id) auto
  moreover have "py_lower i = i"
    using hex hex_char_facts(4) by (simp add: py_lower_def map_idI)
  then have "py_lower ?t = ?t" using ff(1) by (simp add: py_lower_def lower_char_def code_of_def)
  moreover have "\<forall>c \<in> set ?t. allowed_char c"
    using ff(2) hex hex_char_facts(2) by (auto simp: list_all_iff allowed_char_def code_of_def)
  then have "map (\<lambda>c. if allowed_char c then c else CHR '' '') ?t = ?t" by (simp add: map_idI)
  moreover have "py_split ?t = py_split f @ [i]"
  proof -
    have "runs (\<lambda>c. \<not> py_isspace c) i = [i]"
      using runs_word [of i "\<lambda>c. \<not> py_isspace c" "[]"] ne hex hex_char_facts(3) by (auto simp: list_all_iff)
    moreover have "py_isspace (CHR '' '')" by (simp add: py_isspace_def code_of_def)
    ultimately show ?thesis using runs_append [of "\<lambda>c. \<not> py_isspace c" "CHR '' ''" f i] by (simp add: py_split_def)
  qed
  ultimately have "normalise ?t = py_join '' '' (py_split f @ [i])" by (simp add: normalise_def)
  also have "\<dots> = py_join '' '' (py_split f) @ '' '' @ i" by (rule join_snoc [OF ff(9)])
  finally show ?thesis using ff(3) by simp
qed

lemma find_ids_form_id:
  assumes f: "f \<in> set CONFIRM_FORMS \<union> set DECLINE_FORMS" and i: "is_action_id i"
  shows "find_ids (f @ '' '' @ i) = [i]"
proof -
  have "i \<noteq> []" "list_all py_isword i"
    using i hex_char_facts(1) by (auto simp: is_action_id_def list_all_iff)
  then have "runs py_isword i = [i]" using runs_word [of i py_isword "[]"] by simp
  moreover have "\<not> py_isword (CHR '' '')" by (simp add: py_isword_def code_of_def)
  ultimately have "runs py_isword (f @ '' '' @ i) = runs py_isword f @ [i]"
    using runs_append [of py_isword "CHR '' ''" f i] by simp
  then show ?thesis using form_facts(6) [OF f] i by (simp add: find_ids_def)
qed

lemma form_id_recognised:
  assumes "\<not> is_synthetic_turn ctx" "is_user_turn m" "m_content m = f @ '' '' @ pa_id a"
    and "a \<in> set pending" "is_action_id (pa_id a)" "f \<in> set CONFIRM_FORMS \<union> set DECLINE_FORMS"
  shows "rc_action (recognise m pending ctx) = Some (pa_id a)
    \<and> rc_verdict (recognise m pending ctx) = (if f \<in> set CONFIRM_FORMS then CONFIRM else DECLINE)"
proof -
  let ?i = "pa_id a"
  note ff = form_facts [OF assms(6)]
  have norm: "normalise (m_content m) = f @ '' '' @ ?i"
    using normalise_form_id [OF assms(6,5)] assms(3) by simp
  have named: "find (\<lambda>i. i \<in> set (remdups (map pa_id pending))) (find_ids (f @ '' '' @ ?i)) = Some ?i"
    using find_ids_form_id [OF assms(6,5)] assms(4) by simp
  have "CHR '' '' \<notin> set ?i" "?i \<noteq> []" "length f < length ?i"
    using assms(5) hex_char_facts(5) ff(5) by (auto simp: is_action_id_def list_all_iff)
  then have "replace_all ?i [] (f @ '' '' @ ?i) = f @ '' ''"
    using replace_all_at_end [of ?i "CHR '' ''" f "[]"] by simp
  moreover have "py_strip (f @ '' '') = f"
  proof -
    have sp: "py_isspace (CHR '' '')" by (simp add: py_isspace_def code_of_def)
    have "dropWhile py_isspace (f @ '' '') = f @ '' ''" using ff(4,7) by (cases f) auto
    moreover have "dropWhile py_isspace (rev f) = rev f" using ff(4,8) by (cases "rev f") (auto simp: hd_rev [symmetric])
    ultimately show ?thesis using sp by (simp add: py_strip_def strip_by_def rstrip_by_def)
  qed
  ultimately have "py_strip (replace_all ?i [] (f @ '' '' @ ?i)) = f" by simp
  then show ?thesis
    using assms(1,2,6) norm named ff(4) forms_disjoint
    by (auto simp: recognise_def eligible_to_confirm_def Let_def judge_words_def)
qed

text \<open>
  The reply the plan asks for always works: on the person's own turn, any form of the closed
  sets followed by a pending action's id is recognised as that verdict on exactly that action,
  however many actions are pending.
\<close>

theorem typed_form_is_recognised:
  assumes "\<not> is_synthetic_turn ctx" "is_user_turn m" "m_content m = f @ '' '' @ pa_id a"
    and "a \<in> set pending" "is_action_id (pa_id a)" "f \<in> set CONFIRM_FORMS \<union> set DECLINE_FORMS"
  shows "rc_action (recognise m pending ctx) = Some (pa_id a)
    \<and> rc_verdict (recognise m pending ctx) = (if f \<in> set CONFIRM_FORMS then CONFIRM else DECLINE)"
  by (rule form_id_recognised [OF assms])

theorem typed_form_is_recognised_witness:
  "rc_verdict (recognise (typed ''no 0123456789ab'') [sample_action, sample_action\<lparr>pa_id := ''0123456789ac''\<rparr>] None) = DECLINE"
proof -
  have "rc_verdict (recognise (typed ''no 0123456789ab'') [sample_action, sample_action\<lparr>pa_id := ''0123456789ac''\<rparr>] None)
      = (if ''no'' \<in> set CONFIRM_FORMS then CONFIRM else DECLINE)"
    by (rule typed_form_is_recognised [where a = sample_action, THEN conjunct2]) code_simp+
  then show ?thesis by (simp add: CONFIRM_FORMS_def)
qed

text \<open>
  Where the id stands matters: with the id between its words, a form of two words is not
  recognised ("yes ID please"), because taking the id out leaves two spaces; the same words
  before the id are a confirmation.
\<close>

theorem id_between_words_is_unrecognised:
  "rc_verdict (recognise (typed ''yes 0123456789ab please'') [sample_action] None) = UNRECOGNISED
   \<and> rc_verdict (recognise (typed ''yes please 0123456789ab'') [sample_action] None) = CONFIRM"
  by code_simp

end
