(* ===== verification/Pending.thy ===== *)
theory Pending
  imports Confirm Stores
begin

text \<open>
  The durable store of pending actions (\<open>backend/app/policy/pending.py\<close>): how an action is
  written to and read from its JSON document, and the store's operations on one file per action,
  the claim files (\<open>os.link\<close>) and the Continue locks.

  A file holds the action it decodes to, or is unreadable; that decoding gives back what was
  encoded is \<open>from_dict_to_dict\<close>. A document with a value of another type than the code writes
  is \<open>Ill_Typed\<close> here (Python stores the value or raises \<open>TypeError\<close>). Every operation that the
  code runs under the per-action \<open>flock\<close> is one step. The host, the boot id and the liveness of
  a process are arguments of the operations on Continue locks.
\<close>

subsection \<open>Documents\<close>

datatype load_error = Key_Missing string | Bad_Value | Ill_Typed

definition req_str :: "dict \<Rightarrow> string \<Rightarrow> load_error + string" where
  "req_str d k = (case map_of d k of None \<Rightarrow> Inl (Key_Missing k)
     | Some (PStr s) \<Rightarrow> Inr s | Some _ \<Rightarrow> Inl Ill_Typed)"

definition opt_str :: "dict \<Rightarrow> string \<Rightarrow> load_error + string option" where
  "opt_str d k = (case dget d k of PNone \<Rightarrow> Inr None | PStr s \<Rightarrow> Inr (Some s) | _ \<Rightarrow> Inl Ill_Typed)"

definition or_str :: "dict \<Rightarrow> string \<Rightarrow> string \<Rightarrow> load_error + string" where
  "or_str d k s0 = (let v = dget d k in if \<not> truthy v then Inr s0
     else case v of PStr s \<Rightarrow> Inr s | _ \<Rightarrow> Inl Ill_Typed)"

definition or_dict :: "dict \<Rightarrow> string \<Rightarrow> load_error + dict" where
  "or_dict d k = (let v = dget d k in if \<not> truthy v then Inr []
     else case v of PDict e \<Rightarrow> Inr e | _ \<Rightarrow> Inl Ill_Typed)"

definition opt_dict :: "dict \<Rightarrow> string \<Rightarrow> load_error + dict option" where
  "opt_dict d k = (case dget d k of PNone \<Rightarrow> Inr None | PDict e \<Rightarrow> Inr (Some e) | _ \<Rightarrow> Inl Ill_Typed)"

fun strs :: "py list \<Rightarrow> load_error + string list" where
  "strs [] = Inr []"
| "strs (PStr s # vs) = bind_res (strs vs) (\<lambda>ss. Inr (s # ss))"
| "strs (_ # vs) = Inl Ill_Typed"

definition or_strs :: "dict \<Rightarrow> string \<Rightarrow> load_error + string list" where
  "or_strs d k = (let v = dget d k in if \<not> truthy v then Inr []
     else case v of PList vs \<Rightarrow> strs vs | _ \<Rightarrow> Inl Ill_Typed)"

fun str_pairs :: "py list \<Rightarrow> load_error + (string \<times> string) list" where
  "str_pairs [] = Inr []"
| "str_pairs (PList [PStr k, PStr v] # vs) = bind_res (str_pairs vs) (\<lambda>ps. Inr ((k, v) # ps))"
| "str_pairs (_ # vs) = Inl Ill_Typed"

definition or_pairs :: "dict \<Rightarrow> string \<Rightarrow> load_error + (string \<times> string) list" where
  "or_pairs d k = (let v = dget d k in if \<not> truthy v then Inr []
     else case v of PList vs \<Rightarrow> str_pairs vs | _ \<Rightarrow> Inl Ill_Typed)"

definition stored_tier :: "dict \<Rightarrow> load_error + tier" where
  "stored_tier d = (case map_of d ''tier_at_statement'' of None \<Rightarrow> Inl (Key_Missing ''tier_at_statement'')
     | Some v \<Rightarrow> (case Option.bind (py_int v) tier_of_int of None \<Rightarrow> Inl Bad_Value | Some t \<Rightarrow> Inr t))"

definition stored_time :: "dict \<Rightarrow> string \<Rightarrow> load_error + instant" where
  "stored_time d k = bind_res (req_str d k)
     (\<lambda>s. case fromisoformat s of None \<Rightarrow> Inl Bad_Value | Some t \<Rightarrow> Inr t)"

definition stored_int :: "dict \<Rightarrow> string \<Rightarrow> load_error + int" where
  "stored_int d k = (let v = dget d k in if \<not> truthy v then Inr 0
     else case py_int v of None \<Rightarrow> Inl Bad_Value | Some n \<Rightarrow> Inr n)"

definition stored_outcome :: "dict \<Rightarrow> load_error + outcome option" where
  "stored_outcome d = (let v = dget d ''outcome'' in if \<not> truthy v then Inr None
     else case v of
       PStr s \<Rightarrow> (case outcome_of_str s of None \<Rightarrow> Inl Bad_Value | Some o' \<Rightarrow> Inr (Some o'))
     | _ \<Rightarrow> Inl Bad_Value)"

definition opt_py :: "string option \<Rightarrow> py" where
  "opt_py s = (case s of None \<Rightarrow> PNone | Some s \<Rightarrow> PStr s)"

definition to_dict :: "pending_action \<Rightarrow> dict" where
  "to_dict a =
    [(''id'', PStr (pa_id a)),
     (''plan_text'', PStr (pa_plan_text a)),
     (''tool_name'', PStr (pa_tool_name a)),
     (''arguments'', PDict (pa_arguments a)),
     (''targets'', PList (map PStr (pa_targets a))),
     (''tier_at_statement'', PInt (tier_int (pa_tier a))),
     (''expires_at'', PStr (isoformat (pa_expires_at a))),
     (''thread_id'', opt_py (pa_thread_id a)),
     (''requester'', PStr (pa_requester a)),
     (''delegation_chain'', PList (map PStr (pa_chain a))),
     (''claimed_by'', opt_py (pa_claimed_by a)),
     (''outcome'', opt_py (map_option outcome_str (pa_outcome a))),
     (''outcome_reason'', PStr (pa_outcome_reason a)),
     (''origin'', PStr (pa_origin a)),
     (''origin_source'', PStr (pa_origin_source a)),
     (''origin_via'', PStr (pa_origin_via a)),
     (''owner_id'', opt_py (pa_owner_id a)),
     (''confirmation'', (case pa_confirmation a of None \<Rightarrow> PNone | Some d \<Rightarrow> PDict d)),
     (''surface'', PDict (pa_surface a)),
     (''delegation_key'', PStr (pa_delegation_key a)),
     (''result_excerpt'', PStr (pa_result_excerpt a)),
     (''post_state'', PStr (pa_post_state a)),
     (''post_content'', PStr (pa_post_content a)),
     (''post_attempts'', PInt (pa_post_attempts a)),
     (''continued'', PBool (pa_continued a)),
     (''run_markers'', PList (map (\<lambda>(k, v). PList [PStr k, PStr v]) (pa_run_markers a))),
     (''private_read'', PBool (pa_private_read a)),
     (''outbound'', PBool (pa_outbound a)),
     (''group_key'', PStr (pa_group_key a))]"

definition from_dict :: "dict \<Rightarrow> load_error + pending_action" where
  "from_dict d =
    bind_res (req_str d ''plan_text'') (\<lambda>plan_text.
    bind_res (req_str d ''tool_name'') (\<lambda>tool_name.
    bind_res (or_dict d ''arguments'') (\<lambda>arguments.
    bind_res (or_strs d ''targets'') (\<lambda>targets.
    bind_res (stored_tier d) (\<lambda>t.
    bind_res (stored_time d ''expires_at'') (\<lambda>expires_at.
    bind_res (opt_str d ''thread_id'') (\<lambda>thread_id.
    bind_res (or_str d ''requester'' ''lead_agent'') (\<lambda>requester.
    bind_res (or_strs d ''delegation_chain'') (\<lambda>chain.
    bind_res (req_str d ''id'') (\<lambda>aid.
    bind_res (or_str d ''origin'' ''unknown'') (\<lambda>origin.
    bind_res (or_str d ''origin_source'' []) (\<lambda>origin_source.
    bind_res (or_str d ''origin_via'' []) (\<lambda>origin_via.
    bind_res (opt_str d ''owner_id'') (\<lambda>owner_id.
    bind_res (opt_dict d ''confirmation'') (\<lambda>confirmation.
    bind_res (or_dict d ''surface'') (\<lambda>surface.
    bind_res (or_str d ''delegation_key'' []) (\<lambda>delegation_key.
    bind_res (or_str d ''result_excerpt'' []) (\<lambda>result_excerpt.
    bind_res (or_str d ''post_state'' []) (\<lambda>post_state.
    bind_res (or_str d ''post_content'' []) (\<lambda>post_content.
    bind_res (stored_int d ''post_attempts'') (\<lambda>post_attempts.
    bind_res (or_pairs d ''run_markers'') (\<lambda>run_markers.
    bind_res (or_str d ''group_key'' []) (\<lambda>group_key.
    bind_res (opt_str d ''claimed_by'') (\<lambda>claimed_by.
    bind_res (stored_outcome d) (\<lambda>outcome.
    bind_res (or_str d ''outcome_reason'' []) (\<lambda>outcome_reason.
    Inr \<lparr>pa_plan_text = plan_text, pa_tool_name = tool_name, pa_arguments = arguments,
         pa_targets = targets, pa_tier = t, pa_expires_at = expires_at, pa_thread_id = thread_id,
         pa_requester = requester, pa_chain = chain, pa_id = aid, pa_claimed_by = claimed_by,
         pa_outcome = outcome, pa_outcome_reason = outcome_reason, pa_confirmation = confirmation,
         pa_origin = origin, pa_origin_source = origin_source, pa_origin_via = origin_via,
         pa_owner_id = owner_id, pa_surface = surface, pa_delegation_key = delegation_key,
         pa_result_excerpt = result_excerpt, pa_post_state = post_state, pa_post_content = post_content,
         pa_post_attempts = post_attempts, pa_continued = truthy (dget d ''continued''),
         pa_run_markers = run_markers, pa_private_read = (dget d ''private_read'' \<noteq> PBool False),
         pa_outbound = truthy (dget d ''outbound''), pa_group_key = group_key\<rparr>
    ))))))))))))))))))))))))))"

text \<open>What an action must satisfy to come back unchanged, and how its dictionaries come back.\<close>

definition storable :: "pending_action \<Rightarrow> bool" where
  "storable a = (representable (pa_expires_at a) \<and> pa_requester a \<noteq> [] \<and> pa_origin a \<noteq> [])"

definition key_sorted :: "pending_action \<Rightarrow> pending_action" where
  "key_sorted a = a\<lparr>pa_arguments := sorted_dict (pa_arguments a), pa_surface := sorted_dict (pa_surface a),
     pa_confirmation := map_option sorted_dict (pa_confirmation a)\<rparr>"

lemma strs_map [simp]: "strs (map (PStr \<circ> f) ss) = Inr (map f ss)" "strs (map PStr ss) = Inr ss"
  by (induction ss) auto

lemma json_strs [simp]: "map (json_sorted \<circ> PStr) ss = map PStr ss"
  by simp

lemma json_opt_py [simp]: "json_sorted (opt_py s) = opt_py s"
  by (cases s) (auto simp: opt_py_def)

lemma str_pairs_map [simp]: "str_pairs (map (\<lambda>(k, v). PList [PStr k, PStr v]) ps) = Inr ps"
  by (induction ps) auto

lemma json_pairs [simp]:
  "map (json_sorted \<circ> (\<lambda>(k, v). PList [PStr k, PStr v])) ps = map (\<lambda>(k, v). PList [PStr k, PStr v]) ps"
  by (induction ps) auto

lemma dget_sorted_dict: "dget (sorted_dict d) k = json_sorted (dget d k)"
  by (auto simp: dget_def map_of_sorted_dict split: option.splits)

lemmas getters = req_str_def opt_str_def or_str_def or_dict_def opt_dict_def or_strs_def or_pairs_def
  stored_tier_def stored_time_def stored_int_def stored_outcome_def dget_def map_of_sorted_dict Let_def

lemma opt_py_cases: "(case opt_py s of PNone \<Rightarrow> x | PBool b \<Rightarrow> f1 b | PInt n \<Rightarrow> f2 n | PFloat q \<Rightarrow> f3 q
     | PStr t \<Rightarrow> f t | PList l \<Rightarrow> f4 l | PDict d \<Rightarrow> f5 d) = (case s of None \<Rightarrow> x | Some t \<Rightarrow> f t)"
  by (cases s) (auto simp: opt_py_def)

lemma decode_encode:
  assumes "storable a"
  shows "from_dict (sorted_dict (to_dict a)) = Inr (key_sorted a)"
proof -
  let ?d = "sorted_dict (to_dict a)"
  have req: "req_str ?d ''plan_text'' = Inr (pa_plan_text a)" "req_str ?d ''tool_name'' = Inr (pa_tool_name a)"
    "req_str ?d ''id'' = Inr (pa_id a)"
    by (simp_all add: getters to_dict_def)
  have opt: "opt_str ?d ''thread_id'' = Inr (pa_thread_id a)" "opt_str ?d ''owner_id'' = Inr (pa_owner_id a)"
    "opt_str ?d ''claimed_by'' = Inr (pa_claimed_by a)"
    by (simp_all add: getters to_dict_def opt_py_cases split: option.splits)
  have dicts: "or_dict ?d ''arguments'' = Inr (sorted_dict (pa_arguments a))"
    "or_dict ?d ''surface'' = Inr (sorted_dict (pa_surface a))"
    "opt_dict ?d ''confirmation'' = Inr (map_option sorted_dict (pa_confirmation a))"
    by (simp_all add: getters to_dict_def json_sorted_PDict del: json_sorted.simps(7) split: option.splits)
       (auto simp: sorted_dict_def)
  have lists: "or_strs ?d ''targets'' = Inr (pa_targets a)" "or_strs ?d ''delegation_chain'' = Inr (pa_chain a)"
    "or_pairs ?d ''run_markers'' = Inr (pa_run_markers a)"
    by (simp_all add: getters to_dict_def)
  have t: "stored_tier ?d = Inr (pa_tier a)" by (simp add: getters to_dict_def)
  have time: "stored_time ?d ''expires_at'' = Inr (pa_expires_at a)"
    using assms by (simp add: getters to_dict_def storable_def fromisoformat_isoformat)
  have nums: "stored_int ?d ''post_attempts'' = Inr (pa_post_attempts a)"
    by (simp add: getters to_dict_def)
  have outc: "stored_outcome ?d = Inr (pa_outcome a)"
    by (cases "pa_outcome a") (simp_all add: getters to_dict_def opt_py_def)
  have ors: "or_str ?d ''requester'' ''lead_agent'' = Inr (pa_requester a)" "or_str ?d ''origin'' ''unknown'' = Inr (pa_origin a)"
    using assms by (simp_all add: getters to_dict_def storable_def)
  have ors2: "or_str ?d ''origin_source'' [] = Inr (pa_origin_source a)" "or_str ?d ''origin_via'' [] = Inr (pa_origin_via a)"
    "or_str ?d ''delegation_key'' [] = Inr (pa_delegation_key a)" "or_str ?d ''result_excerpt'' [] = Inr (pa_result_excerpt a)"
    "or_str ?d ''post_state'' [] = Inr (pa_post_state a)" "or_str ?d ''post_content'' [] = Inr (pa_post_content a)"
    "or_str ?d ''group_key'' [] = Inr (pa_group_key a)" "or_str ?d ''outcome_reason'' [] = Inr (pa_outcome_reason a)"
    by (simp_all add: getters to_dict_def)
  have flags: "truthy (dget ?d ''continued'') = pa_continued a" "truthy (dget ?d ''outbound'') = pa_outbound a"
    "(dget ?d ''private_read'' \<noteq> PBool False) = pa_private_read a"
    by (simp_all add: getters to_dict_def)
  show ?thesis
    by (simp only: from_dict_def req opt dicts lists t time nums outc ors ors2 flags bind_res_simps) (simp add: key_sorted_def)
qed

text \<open>
  Nothing is lost on disk: reading the document an action was written as gives back that
  action, every field of it, with only the order of the keys in its dictionaries sorted, whatever
  the arguments, targets, markers and texts are.
\<close>

theorem from_dict_to_dict:
  assumes "storable a"
  shows "from_dict (sorted_dict (to_dict a)) = Inr (key_sorted a)"
  by (rule decode_encode [OF assms])

definition dated_action :: pending_action where
  "dated_action = sample_action\<lparr>pa_expires_at := 738000 * day_us + 1,
     pa_arguments := [(''b'', PInt 1), (''a'', PList [PBool True])]\<rparr>"

lemma storable_dated: "storable dated_action"
  by code_simp

theorem from_dict_to_dict_witness:
  "from_dict (sorted_dict (to_dict dated_action)) = Inr (key_sorted dated_action)"
  by (rule from_dict_to_dict [OF storable_dated])

subsection \<open>The store\<close>

datatype stored = Stored pending_action | Unreadable

text \<open>The owner written in a Continue lock: the time it was taken, host, boot and process.\<close>

datatype lock_owner = Owner rat string string int | Unreadable_Owner rat

record store =
  st_files :: "(string \<times> stored) list"
  st_claims :: "string list"
  st_continued :: "(string \<times> lock_owner) list"

definition store_get :: "store \<Rightarrow> string \<Rightarrow> pending_action option" where
  "store_get st i = (case map_of (st_files st) i of Some (Stored a) \<Rightarrow> Some a | _ \<Rightarrow> None)"

definition store_save :: "store \<Rightarrow> pending_action \<Rightarrow> store" where
  "store_save st a = st\<lparr>st_files := dset (st_files st) (pa_id a) (Stored a)\<rparr>"

definition store_ids :: "store \<Rightarrow> string list" where
  "store_ids st = name_order (map fst (st_files st))"

definition store_resolve :: "store \<Rightarrow> pending_action \<Rightarrow> outcome \<Rightarrow> string \<Rightarrow> resolve_error + (store \<times> pending_action)" where
  "store_resolve st a o' reason = bind_res (resolve_action a o' reason) (\<lambda>b. Inr (store_save st b, b))"

definition expire_one :: "instant \<Rightarrow> pending_action \<Rightarrow> pending_action option" where
  "expire_one now a =
     (if pa_outcome a = None \<and> is_expired a now
      then (case resolve_action a Expired (''not confirmed before '' @ isoformat (pa_expires_at a)) of
              Inr b \<Rightarrow> Some b | Inl _ \<Rightarrow> None)
      else None)"

definition expire_due :: "store \<Rightarrow> instant \<Rightarrow> store \<times> pending_action list" where
  "expire_due st now = sweep store_get store_save (expire_one now) st (store_ids st)"

definition is_open :: "instant \<Rightarrow> pending_action \<Rightarrow> bool" where
  "is_open now a = (pa_outcome a = None \<and> \<not> is_expired a now)"

definition open_actions :: "store \<Rightarrow> instant \<Rightarrow> store \<times> pending_action list" where
  "open_actions st now = (let (st', _) = expire_due st now in (st', listing store_get (is_open now) st' (store_ids st')))"

definition open_in_thread :: "store \<Rightarrow> string option \<Rightarrow> instant \<Rightarrow> pending_action list" where
  "open_in_thread st thread now = listing store_get
     (\<lambda>a. pa_thread_id a = thread \<and> pa_outcome a = None \<and> pa_claimed_by a = None \<and> \<not> is_expired a now) st (store_ids st)"

definition awaiting_post :: "store \<Rightarrow> string list \<Rightarrow> pending_action list" where
  "awaiting_post st states = listing store_get (\<lambda>a. pa_post_state a \<in> set states) st (store_ids st)"

definition set_post_state :: "store \<Rightarrow> string \<Rightarrow> string \<Rightarrow> string option \<Rightarrow> int option \<Rightarrow> store" where
  "set_post_state st i state content attempts =
     (case store_get st i of
        None \<Rightarrow> st
      | Some a \<Rightarrow>
          let a = a\<lparr>pa_post_state := state\<rparr>;
              a = (case content of None \<Rightarrow> a | Some c \<Rightarrow> a\<lparr>pa_post_content := c\<rparr>);
              a = (case attempts of None \<Rightarrow> a | Some n \<Rightarrow> a\<lparr>pa_post_attempts := n\<rparr>)
          in store_save st a)"

definition in_thread :: "store \<Rightarrow> string option \<Rightarrow> pending_action list" where
  "in_thread st thread =
     (if thread = None \<or> thread = Some [] then []
      else listing store_get (\<lambda>a. pa_thread_id a = thread) st (store_ids st))"

text \<open>\<open>x or None\<close> of an optional text.\<close>

definition or_none :: "string option \<Rightarrow> string option" where
  "or_none x = (if x = Some [] then None else x)"

definition declined_in_thread :: "store \<Rightarrow> string option \<Rightarrow> string option \<Rightarrow> pending_action list" where
  "declined_in_thread st thread owner =
     (if or_none thread = None then []
      else listing store_get (\<lambda>a. pa_outcome a = Some Declined \<and> pa_thread_id a = thread
             \<and> or_none (pa_owner_id a) = or_none owner) st (store_ids st))"

subsection \<open>Claims\<close>

text \<open>
  A claim is two steps that other processes can come between: the link, which fails when the
  claim file exists, and the rewriting of the record it then owns.
\<close>

definition claim_link :: "store \<Rightarrow> string \<Rightarrow> store option" where
  "claim_link st i =
     (if map_of (st_files st) i = None then None
      else if i \<in> set (st_claims st) then None
      else Some (st\<lparr>st_claims := i # st_claims st\<rparr>))"

definition claim_take :: "store \<Rightarrow> string \<Rightarrow> string \<Rightarrow> store \<times> pending_action option" where
  "claim_take st i claimant =
     (case store_get st i of
        None \<Rightarrow> (st, None)
      | Some a \<Rightarrow> let b = a\<lparr>pa_claimed_by := Some claimant\<rparr> in (store_save st b, Some b))"

definition claim :: "store \<Rightarrow> string \<Rightarrow> string \<Rightarrow> store \<times> pending_action option" where
  "claim st i claimant = (case claim_link st i of None \<Rightarrow> (st, None) | Some st' \<Rightarrow> claim_take st' i claimant)"

definition release_claim :: "store \<Rightarrow> pending_action \<Rightarrow> store \<times> pending_action" where
  "release_claim st a = (let b = a\<lparr>pa_claimed_by := None\<rparr> in
     (store_save (st\<lparr>st_claims := removeAll (pa_id a) (st_claims st)\<rparr>) b, b))"

subsection \<open>Continue locks\<close>

definition CONTINUE_LEASE_SECONDS :: rat where
  "CONTINUE_LEASE_SECONDS = 4 * 3600"

definition take_continue :: "store \<Rightarrow> lock_owner \<Rightarrow> string \<Rightarrow> store \<times> bool" where
  "take_continue st me i =
     (case store_get st i of
        None \<Rightarrow> (st, False)
      | Some a \<Rightarrow>
          if pa_continued a then (st, False)
          else if map_of (st_continued st) i \<noteq> None then (st, False)
          else (st\<lparr>st_continued := dset (st_continued st) i me\<rparr>, True))"

definition release_continue :: "store \<Rightarrow> string \<Rightarrow> store" where
  "release_continue st i = st\<lparr>st_continued := ddel (st_continued st) i\<rparr>"

definition finish_continue :: "store \<Rightarrow> string \<Rightarrow> bool \<Rightarrow> store" where
  "finish_continue st i succeeded =
     (if succeeded then
        (case store_get st i of None \<Rightarrow> st | Some a \<Rightarrow> store_save st (a\<lparr>pa_continued := True\<rparr>))
      else release_continue st i)"

definition continue_owner_gone :: "string \<Rightarrow> string \<Rightarrow> (int \<Rightarrow> bool) \<Rightarrow> rat \<Rightarrow> lock_owner \<Rightarrow> bool" where
  "continue_owner_gone host boot pid_alive now lock =
     (case lock of
        Unreadable_Owner mtime \<Rightarrow> now - mtime > CONTINUE_LEASE_SECONDS
      | Owner since h b pid \<Rightarrow>
          if now - since > CONTINUE_LEASE_SECONDS then True
          else if h \<noteq> host then False
          else if b \<noteq> boot then True
          else \<not> pid_alive pid)"

definition recover_one :: "(lock_owner \<Rightarrow> bool) \<Rightarrow> store \<times> string list \<Rightarrow> string \<Rightarrow> store \<times> string list" where
  "recover_one gone acc i = (let (st, released) = acc in
     if (case store_get st i of Some a \<Rightarrow> pa_continued a | None \<Rightarrow> False) then (st, released)
     else case map_of (st_continued st) i of
       None \<Rightarrow> (st, released)
     | Some lock \<Rightarrow> if gone lock then (release_continue st i, released @ [i]) else (st, released))"

definition recover_continues :: "store \<Rightarrow> (lock_owner \<Rightarrow> bool) \<Rightarrow> store \<times> string list" where
  "recover_continues st gone =
     foldl (recover_one gone) (st, []) (sort_key (\<lambda>i. i @ ''.continued'') (map fst (st_continued st)))"

text \<open>Sorted lists of texts are equal exactly when they hold the same texts as often.\<close>

definition targets_still_match :: "pending_action \<Rightarrow> string list \<Rightarrow> bool" where
  "targets_still_match a current = (sort (pa_targets a) = sort current)"

subsection \<open>The store keeps its contract\<close>

text \<open>One file per id, and a readable file holds the action of its name.\<close>

definition files_ok :: "store \<Rightarrow> bool" where
  "files_ok st = (distinct (map fst (st_files st)) \<and>
     (\<forall>(i, c) \<in> set (st_files st). case c of Stored a \<Rightarrow> pa_id a = i | Unreadable \<Rightarrow> True))"

lemma store_get_save [simp]: "store_get (store_save st a) i = (if i = pa_id a then Some a else store_get st i)"
  by (simp add: store_get_def store_save_def)

lemma files_ok_save: "files_ok st \<Longrightarrow> files_ok (store_save st a)"
proof -
  have "set (dset d k v) \<subseteq> insert (k, v) (set d)" for d :: "(string \<times> stored) list" and k v
    by (induction d k v rule: dset.induct) auto
  then show "files_ok st \<Longrightarrow> files_ok (store_save st a)"
    by (fastforce simp: files_ok_def store_save_def distinct_dset)
qed

lemma files_ok_get: "files_ok st \<Longrightarrow> store_get st i = Some a \<Longrightarrow> pa_id a = i"
  by (auto simp: files_ok_def store_get_def split: option.splits stored.splits dest!: map_of_SomeD)

interpretation ps: record_store store_get store_save pa_id files_ok
  by unfold_locales (auto simp: files_ok_save files_ok_get)

lemma store_ids_complete: "store_get st i = Some a \<Longrightarrow> i \<in> set (store_ids st)"
  by (auto simp: store_get_def store_ids_def split: option.splits stored.splits dest!: map_of_SomeD) force

lemma distinct_store_ids: "files_ok st \<Longrightarrow> distinct (store_ids st)"
  by (simp add: files_ok_def store_ids_def)

lemma expire_one_Some:
  "expire_one now a = Some b \<longleftrightarrow> pa_outcome a = None \<and> is_expired a now \<and>
     b = a\<lparr>pa_outcome := Some Expired, pa_outcome_reason := ''not confirmed before '' @ isoformat (pa_expires_at a)\<rparr>"
  by (auto simp: expire_one_def resolve_action_def)

lemma expire_one_key: "expire_one now a = Some b \<Longrightarrow> pa_id b = pa_id a"
  by (auto simp: expire_one_Some)

lemma sweep_frame:
  assumes "\<And>st a. f (store_save st a) = f st"
  shows "f (fst (sweep store_get store_save upd st ids)) = f st"
  by (induction ids arbitrary: st) (auto simp: assms split: option.splits prod.splits, metis assms fst_conv)

lemma store_save_frame [simp]:
  "st_claims (store_save st a) = st_claims st" "st_continued (store_save st a) = st_continued st"
  by (simp_all add: store_save_def)

lemma get_expire_due:
  assumes "files_ok st"
  shows "store_get (fst (expire_due st now)) i =
    (case store_get st i of None \<Rightarrow> None | Some a \<Rightarrow> Some (case expire_one now a of None \<Rightarrow> a | Some b \<Rightarrow> b))"
proof (cases "i \<in> set (store_ids st)")
  case True
  then show ?thesis
    using ps.sweep_at [where upd = "expire_one now", OF assms distinct_store_ids [OF assms] expire_one_key True]
    by (auto simp: expire_due_def split: option.splits)
next
  case False
  then have "store_get st i = None" using store_ids_complete by fastforce
  moreover have "store_get (fst (expire_due st now)) i = store_get st i"
    unfolding expire_due_def
    by (rule ps.sweep_other [OF assms _ False]) (rule expire_one_key)
  ultimately show ?thesis by simp
qed

lemma keys_store_save: "set (map fst (st_files (store_save st a))) = insert (pa_id a) (set (map fst (st_files st)))"
  by (simp add: store_save_def keys_dset)

lemma dset_keys_present: "k \<in> fst ` set d \<Longrightarrow> map fst (dset d k v) = map fst d"
  by (induction d k v rule: dset.induct) auto

lemma store_ids_save_present: "store_get st (pa_id a) \<noteq> None \<Longrightarrow> store_ids (store_save st a) = store_ids st"
proof -
  assume "store_get st (pa_id a) \<noteq> None"
  then have "pa_id a \<in> fst ` set (st_files st)"
    by (auto simp: store_get_def split: option.splits stored.splits dest!: map_of_SomeD) force
  then show ?thesis by (simp add: store_ids_def store_save_def dset_keys_present)
qed

lemma store_ids_sweep:
  assumes "files_ok st" "\<And>a b. upd a = Some b \<Longrightarrow> pa_id b = pa_id a"
  shows "store_ids (fst (sweep store_get store_save upd st ids)) = store_ids st"
  using assms(1)
proof (induction ids arbitrary: st)
  case (Cons i ids)
  have "store_ids (fst (sweep store_get store_save upd (store_save st b) ids)) = store_ids st"
    if "store_get st i = Some a" "upd a = Some b" for a b
  proof -
    have "pa_id b = i" using that assms(2) Cons.prems files_ok_get by metis
    then show ?thesis using Cons.IH [OF files_ok_save [OF Cons.prems]] store_ids_save_present [of st b] that by simp
  qed
  then show ?case using Cons by (auto split: option.splits prod.splits) (metis fst_conv)
qed simp

lemma expire_due_frame:
  assumes "files_ok st"
  shows "files_ok (fst (expire_due st now))" "store_ids (fst (expire_due st now)) = store_ids st"
    "st_claims (fst (expire_due st now)) = st_claims st" "st_continued (fst (expire_due st now)) = st_continued st"
  using assms unfolding expire_due_def
  by (auto intro: ps.good_sweep store_ids_sweep sweep_frame simp: expire_one_key)

text \<open>
  Reading the open actions expires lazily and executes nothing: it returns, in file order,
  exactly the unresolved actions whose time has not come; every unresolved action whose time has
  come is recorded as expired, with the reason; every other action, every claim and every
  Continue lock is left as it was.
\<close>

theorem open_actions_expire_lazily:
  assumes "files_ok st" "open_actions st now = (st', out)"
  shows "out = listing store_get (is_open now) st (store_ids st)
    \<and> (\<forall>i. store_get st' i = map_option (\<lambda>a. if pa_outcome a = None \<and> pa_expires_at a \<le> now
           then a\<lparr>pa_outcome := Some Expired, pa_outcome_reason := ''not confirmed before '' @ isoformat (pa_expires_at a)\<rparr>
           else a) (store_get st i))
    \<and> st_claims st' = st_claims st \<and> st_continued st' = st_continued st \<and> files_ok st'"
proof -
  have st': "st' = fst (expire_due st now)" and out: "out = listing store_get (is_open now) st' (store_ids st')"
    using assms(2) by (auto simp: open_actions_def split: prod.splits)
  have g: "store_get st' i = map_option (\<lambda>a. if pa_outcome a = None \<and> pa_expires_at a \<le> now
           then a\<lparr>pa_outcome := Some Expired, pa_outcome_reason := ''not confirmed before '' @ isoformat (pa_expires_at a)\<rparr>
           else a) (store_get st i)" for i
    using assms(1) unfolding st' get_expire_due [OF assms(1)]
    by (cases "store_get st i") (auto simp: expire_one_def resolve_action_def is_expired_def)
  have "listing store_get (is_open now) st' ids = listing store_get (is_open now) st ids" for ids
    by (induction ids) (auto simp: listing_def g is_open_def is_expired_def split: option.splits)
  then show ?thesis using g out expire_due_frame [OF assms(1)] by (simp add: st')
qed

definition sample_store :: store where
  "sample_store = \<lparr>st_files = [(''0123456789ab'', Stored dated_action), (''00'', Unreadable)], st_claims = [], st_continued = []\<rparr>"

lemma files_ok_sample: "files_ok sample_store"
  by (simp add: files_ok_def sample_store_def dated_action_def sample_action_def)

theorem open_actions_expire_lazily_witness:
  "\<exists>st' out. open_actions sample_store (739000 * day_us) = (st', out) \<and> out = []
     \<and> map_option pa_outcome (store_get st' ''0123456789ab'') = Some (Some Expired)"
proof -
  obtain st' out where o: "open_actions sample_store (739000 * day_us) = (st', out)" by force
  show ?thesis
    using open_actions_expire_lazily [OF files_ok_sample o] o
    by (auto simp: listing_def sample_store_def store_get_def store_ids_def dated_action_def sample_action_def
          is_open_def is_expired_def day_us_def)
qed

end
