(* ===== verification/Gate.thy ===== *)
theory Gate
  imports Plans Grants Pending
begin

text \<open>
  The chokepoint (\<open>PolicyMiddleware.wrap_tool_call\<close> in \<open>backend/app/policy/middleware.py\<close> and what it
  calls): every tool call of an agent is classified, then run, disclosed, held or put on a card.

  \<open>gate_env\<close> holds what the code reads from elsewhere: the rules in force and the sandbox
  configuration, the time and the next action id, the ledger's plan check (\<open>Inl\<close>: it raised) and
  lookups, an agent's grants and allowlist, the run's tool surface, and the tool itself
  (\<open>ge_handler\<close>: how it ended, and whether its write was committed), which is given the request,
  the mark an agent it invites starts from, and how it is executed. The rules do not change
  during one call. Run-context values that name things are texts when present. Targets are
  resolved by \<open>resolve_targets\<close>, or not at all. Log lines are left out. Every operation returns the
  state it leaves, also when it ends by an exception. \<open>ga_calls\<close> lists the calls handed to the tool:
  the request, how it was executed, and whether its write was committed.
\<close>

subsection \<open>The request\<close>

record request =
  rq_tool_name :: string
  rq_ledger_tool :: bool
  rq_call_name :: string
  rq_call_args :: dict
  rq_call_id :: string
  rq_ctx :: "dict option"
  rq_messages :: "message list"

datatype result = Message message | Messages "message list" | Plain string

datatype call_end = Returned result | Raised string | Cancelled

definition context_of :: "request \<Rightarrow> dict" where
  "context_of rq = (case rq_ctx rq of None \<Rightarrow> [] | Some d \<Rightarrow> d)"

definition text_at :: "dict \<Rightarrow> string \<Rightarrow> string" where
  "text_at d k = (case dget d k of PStr s \<Rightarrow> s | _ \<Rightarrow> [])"

definition text_option_at :: "dict \<Rightarrow> string \<Rightarrow> string option" where
  "text_option_at d k = (case dget d k of PStr s \<Rightarrow> Some s | _ \<Rightarrow> None)"

definition tool_name :: "request \<Rightarrow> string" where
  "tool_name rq = (if rq_call_name rq \<noteq> [] then rq_call_name rq else rq_tool_name rq)"

definition thread_id :: "request \<Rightarrow> string option" where
  "thread_id rq = text_option_at (context_of rq) ''thread_id''"

definition owner_id :: "request \<Rightarrow> string option" where
  "owner_id rq = (let u = text_at (context_of rq) ''user_id'' in if u = [] then None else Some u)"

definition requester :: "request \<Rightarrow> string" where
  "requester rq = (let d = context_of rq; i = text_at d ''invited_agent''; n = text_at d ''agent_name'' in
     if i \<noteq> [] then i else if n \<noteq> [] then n else ''lead_agent'')"

definition texts_of :: "py \<Rightarrow> string list" where
  "texts_of v = (case v of PList xs \<Rightarrow> concat (map (\<lambda>x. case x of PStr s \<Rightarrow> [s] | _ \<Rightarrow> []) xs) | _ \<Rightarrow> [])"

definition delegation_chain :: "request \<Rightarrow> string list" where
  "delegation_chain rq = texts_of (dget (context_of rq) ''delegation_chain'')"

definition is_invited :: "request \<Rightarrow> bool" where
  "is_invited rq = (map_of (context_of rq) ''invited_origin'' \<noteq> None \<or> truthy (dget (context_of rq) ''delegation_chain''))"

definition delegation_key :: "request \<Rightarrow> string" where
  "delegation_key rq = (if \<not> is_invited rq then [] else text_at (context_of rq) ''delegation_key'')"

definition run_markers :: "request \<Rightarrow> (string \<times> string) list" where
  "run_markers rq = concat (map (\<lambda>k. let v = text_at (context_of rq) k in if v \<noteq> [] then [(k, v)] else [])
     [''turn_provenance'', ''trigger_rule_id'', ''trigger_firing_id'', ''grants_owner_id''])"

definition TURN_KEY :: string where "TURN_KEY = ''policy_turn_key''"

text \<open>The walk back to the latest human message; positions count from the front.\<close>

fun last_human :: "(nat \<times> message) list \<Rightarrow> string" where
  "last_human [] = []"
| "last_human ((index, m) # ms) =
     (if m_type m = Some ''human'' then (if m_id m \<noteq> [] then m_id m else ''#'' @ nat_text index) else last_human ms)"

definition turn_key :: "request \<Rightarrow> string" where
  "turn_key rq = (let d = context_of rq in
     if text_at d TURN_KEY \<noteq> [] then text_at d TURN_KEY
     else if text_at d ''run_id'' \<noteq> [] then ''run:'' @ text_at d ''run_id''
     else last_human (rev (enumerate 0 (rq_messages rq))))"

subsection \<open>What caused the call\<close>

fun origin_str :: "origin \<Rightarrow> string" where
  "origin_str Origin_User = ''user''"
| "origin_str Origin_Content = ''content''"
| "origin_str Origin_Automation = ''automation''"
| "origin_str Origin_Unknown = ''unknown''"
| "origin_str Origin_Invitation = ''invitation''"

definition call_origin :: "request \<Rightarrow> string \<times> string \<times> string" where
  "call_origin rq =
     (let d = context_of rq; (own, source) = initiation_origin (rq_messages rq) (is_synthetic_turn (Some d));
          invited = is_invited rq in
      if own = Origin_Invitation \<and> \<not> invited then (''unknown'', [], [])
      else if \<not> invited \<or> own \<notin> {Origin_User, Origin_Invitation} then (origin_str own, source, [])
      else
        let inherited = (if text_at d ''invited_origin'' = [] then ''unknown'' else text_at d ''invited_origin'') in
        if inherited = ''user'' then (''user'', [], [])
        else (inherited, text_at d ''invited_origin_source'', text_at d ''invited_via''))"

definition private_read :: "request \<Rightarrow> rule_set \<Rightarrow> turn_privacy" where
  "private_read rq rs =
     (let d = context_of rq; walked = private_reads_in_turn (rq_messages rq) rs;
          inherited = (if is_synthetic_turn (Some d) then [''an automation'' @ [single_quote] @ ''s turn''] else [])
            @ (if is_invited rq \<and> dget_or d ''invited_private_read'' (PBool True) \<noteq> PBool False then [''the turn that invited this agent''] else [])
            @ (case dget d ''resume_action'' of
                 PDict r \<Rightarrow> if dget_or r ''private_read'' (PBool True) \<noteq> PBool False then [''the turn the confirmed calls came from''] else []
               | _ \<Rightarrow> [])
      in if inherited = [] then walked
         else \<lparr>tp_private = True, tp_sources = inherited @ tp_sources walked, tp_key = tp_key walked\<rparr>)"

definition inviting_for :: "request \<Rightarrow> rule_set \<Rightarrow> inviting_turn" where
  "inviting_for rq rs =
     (let (origin, source, via) = call_origin rq in
      \<lparr>it_origin = origin, it_source = source, it_chain = (if delegation_chain rq \<noteq> [] then delegation_chain rq else [requester rq]),
       it_via = via, it_run_markers = run_markers rq @ [(TURN_KEY, turn_key rq)], it_private_read = Some (tp_private (private_read rq rs))\<rparr>)"

subsection \<open>Environment and state\<close>

record gate_env =
  ge_rules :: rule_set
  ge_sandbox :: "sandbox_config option"
  ge_fstr :: "rat \<Rightarrow> string"
  ge_shown :: "py \<Rightarrow> string"
  ge_resolves :: bool
  ge_now :: instant
  ge_new_id :: string
  ge_user :: string
  ge_allowlist :: "string \<Rightarrow> string \<Rightarrow> bool"
  ge_granted :: "string \<Rightarrow> string \<Rightarrow> string list"
  ge_grant_runs :: bool
  ge_check_plan :: "(string \<Rightarrow> py \<Rightarrow> string option \<Rightarrow> string + string option \<times> py list) option"
  ge_lookup :: ledger_lookup
  ge_surface :: "dict \<Rightarrow> dict"
  ge_audit :: bool
  ge_audit_error :: "string option"
  ge_handler :: "request \<Rightarrow> inviting_turn \<Rightarrow> string option \<Rightarrow> call_end \<times> bool"

record granted_call =
  gc_classes :: "string list"
  gc_actions :: int
  gc_total :: int
  gc_run_key :: string

record grant_use =
  gu_tool :: string
  gu_grant :: granted_call
  gu_targets :: "string list"
  gu_origin :: string
  gu_source :: string

record refused_plan =
  rp_key :: string
  rp_tool :: string
  rp_targets :: "string list"
  rp_reason :: string
  rp_origin :: string

record gate =
  ga_store :: store
  ga_records :: "execution_record list"
  ga_counts :: run_counts
  ga_calls :: "(request \<times> string option \<times> bool) list"
  ga_grant_log :: "grant_use list"
  ga_refusals :: "refused_plan list"
  ga_stopped :: "(string \<times> string) list"

definition user_of :: "gate_env \<Rightarrow> dict \<Rightarrow> string" where
  "user_of env d = (if text_at d ''user_id'' \<noteq> [] then text_at d ''user_id'' else ge_user env)"

definition grants_user :: "gate_env \<Rightarrow> dict \<Rightarrow> string" where
  "grants_user env d = (if text_at d ''grants_owner_id'' \<noteq> [] then text_at d ''grants_owner_id'' else user_of env d)"

definition classify_request :: "gate_env \<Rightarrow> request \<Rightarrow> policy_decision" where
  "classify_request env rq =
     (let rs = ge_rules env; name = tool_name rq;
          private = is_outbound (Some name) rs \<and> tp_private (private_read rq rs)
      in classify (ge_sandbox env) rs name (rq_call_args rq) (fst (call_origin rq) \<noteq> ''user'') private)"

text \<open>What a plan states a call acts on; \<open>None\<close>: the renderer raised.\<close>

definition stated_targets :: "gate_env \<Rightarrow> string \<Rightarrow> dict \<Rightarrow> string list option" where
  "stated_targets env tool args =
     (if ge_resolves env then resolve_targets (ge_fstr env) (ge_shown env) tool args
      else Some [tool @ ''('' @ py_repr (ge_fstr env) (PDict args) @ '')''])"

definition TYPE_ERROR :: string where "TYPE_ERROR = ''TypeError''"

subsection \<open>Results\<close>

definition as_tool_result :: "request \<Rightarrow> string \<Rightarrow> result" where
  "as_tool_result rq body =
     (if rq_call_id rq = [] then Plain body
      else Message \<lparr>m_type = Some ''tool'', m_id = [], m_content = body, m_name = rq_call_name rq,
        m_tool_call_id = Some (rq_call_id rq), m_tool_calls = [], m_kwargs = Some []\<rparr>)"

definition acknowledged :: "message \<Rightarrow> message" where
  "acknowledged m = (if m_type m = Some ''tool'' \<and> m_kwargs m \<noteq> None then set_marker TRUSTED_ACK_MARKER m else m)"

definition mark_trusted_ack :: "request \<Rightarrow> result \<Rightarrow> result" where
  "mark_trusted_ack rq r =
     (if \<not> rq_ledger_tool rq then r
      else case r of Message m \<Rightarrow> Message (acknowledged m) | Messages ms \<Rightarrow> Messages (map acknowledged ms) | Plain s \<Rightarrow> Plain s)"

definition refuse_unruled :: "request \<Rightarrow> policy_decision \<Rightarrow> result" where
  "refuse_unruled rq d = as_tool_result rq (refusal_text (d_tool_name d))"

subsection \<open>Ledger plans\<close>

definition without_model_pins :: "request \<Rightarrow> request" where
  "without_model_pins rq =
     (if \<not> rq_ledger_tool rq then rq
      else case map_of (rq_call_args rq) ''changes'' of
        None \<Rightarrow> rq
      | Some v \<Rightarrow> rq\<lparr>rq_call_args := dset (rq_call_args rq) ''changes'' (strip_pins v)\<rparr>)"

definition pin_changes :: "py list \<Rightarrow> py list \<Rightarrow> py list" where
  "pin_changes changes resolutions =
     map (\<lambda>(c, r). case c of PDict d \<Rightarrow> if truthy r then PDict (dset d PIN_KEY r) else c | _ \<Rightarrow> c) (zip changes resolutions)"

definition check_ledger_plan :: "gate_env \<Rightarrow> request \<Rightarrow> (string option \<times> dict) option" where
  "check_ledger_plan env rq =
     (if \<not> rq_ledger_tool rq then None
      else
        let changes = strip_pins (dget (rq_call_args rq) ''changes''); args = dset (rq_call_args rq) ''changes'' changes in
        case ge_check_plan env of
          None \<Rightarrow> Some (None, args)
        | Some check \<Rightarrow>
            (case check (user_of env (context_of rq)) changes (thread_id rq) of
               Inl exc \<Rightarrow> Some (None, args)
             | Inr (invalid, resolutions) \<Rightarrow>
                 Some (invalid, (case changes of
                   PList cs \<Rightarrow> if invalid = None \<and> length resolutions = length cs
                     then dset args ''changes'' (PList (pin_changes cs resolutions)) else args
                 | _ \<Rightarrow> args))))"

definition REFUSED_LINES :: nat where "REFUSED_LINES = 20"
definition REFUSED_CHARS :: nat where "REFUSED_CHARS = 300"

definition clip :: "string \<Rightarrow> string" where
  "clip s = (if length s \<le> REFUSED_CHARS then s else take (REFUSED_CHARS - 1) s @ [char_of (130 :: nat)])"

text \<open>One entry per thread and turn.\<close>

definition record_refused :: "refused_plan list \<Rightarrow> string \<Rightarrow> string option \<Rightarrow> string \<Rightarrow> string list \<Rightarrow> string \<Rightarrow> string \<Rightarrow> refused_plan list" where
  "record_refused entries key thread tool targets reason origin =
     (let k = (case thread of None \<Rightarrow> [] | Some t \<Rightarrow> t) @ ''|'' @ key in
      if key \<noteq> [] \<and> k \<in> set (map rp_key entries) then entries
      else entries @ [\<lparr>rp_key = k, rp_tool = tool, rp_targets = map clip (take REFUSED_LINES targets), rp_reason = clip reason, rp_origin = origin\<rparr>])"

definition record_refused_plan :: "gate_env \<Rightarrow> gate \<Rightarrow> request \<Rightarrow> policy_decision \<Rightarrow> dict \<Rightarrow> string \<Rightarrow> string \<Rightarrow> gate" where
  "record_refused_plan env s rq d args reason origin =
     (if \<not> ge_audit env then s
      else
        let targets = (case dget args ''changes'' of
              PList cs \<Rightarrow> render (ge_fstr env) (ge_shown env) True (PList cs) | _ \<Rightarrow> Some []) in
        case targets of
          None \<Rightarrow> s
        | Some ts \<Rightarrow> s\<lparr>ga_refusals := record_refused (ga_refusals s) (turn_key rq) (thread_id rq) (d_tool_name d) ts reason origin\<rparr>)"

subsection \<open>Cards\<close>

definition ONE_OPEN_CARD_PER_TURN :: "string list" where
  "ONE_OPEN_CARD_PER_TURN = [''task'']"

text \<open>The arguments as compared for the same proposal: key order ignored.\<close>

definition canonical_arguments :: "dict \<Rightarrow> dict" where
  "canonical_arguments args = sorted_dict args"

definition same_proposal :: "request \<Rightarrow> string \<Rightarrow> dict \<Rightarrow> string \<Rightarrow> pending_action \<Rightarrow> bool" where
  "same_proposal rq tool args key a =
     (pa_tool_name a = tool \<and> pa_group_key a = key \<and> pa_owner_id a = owner_id rq \<and> pa_requester a = requester rq
      \<and> pa_delegation_key a = delegation_key rq
      \<and> (tool \<in> set ONE_OPEN_CARD_PER_TURN \<or> canonical_arguments (pa_arguments a) = canonical_arguments args))"

definition open_duplicate :: "store \<Rightarrow> request \<Rightarrow> string \<Rightarrow> dict \<Rightarrow> string \<Rightarrow> instant \<Rightarrow> pending_action option" where
  "open_duplicate st rq tool args key now =
     (if key = [] then None else find (same_proposal rq tool args key) (open_in_thread st (thread_id rq) now))"

definition new_action :: "gate_env \<Rightarrow> request \<Rightarrow> policy_decision \<Rightarrow> dict \<Rightarrow> string list \<Rightarrow> string \<Rightarrow> pending_action" where
  "new_action env rq d args targets note =
     (let (origin, source, via) = call_origin rq; rs = ge_rules env; privacy = private_read rq rs;
          a = \<lparr>pa_plan_text = [], pa_tool_name = d_tool_name d, pa_arguments = args, pa_targets = targets, pa_tier = d_tier d,
            pa_expires_at = default_expiry (ge_now env) (rs_expires_after rs), pa_thread_id = thread_id rq, pa_requester = requester rq,
            pa_chain = delegation_chain rq, pa_id = ge_new_id env, pa_claimed_by = None, pa_outcome = None, pa_outcome_reason = [],
            pa_confirmation = None, pa_origin = origin, pa_origin_source = source, pa_origin_via = via, pa_owner_id = owner_id rq,
            pa_surface = ge_surface env (context_of rq), pa_delegation_key = delegation_key rq, pa_result_excerpt = [], pa_post_state = [],
            pa_post_content = [], pa_post_attempts = 0, pa_continued = False, pa_run_markers = run_markers rq,
            pa_private_read = tp_private privacy, pa_outbound = is_outbound (Some (d_tool_name d)) rs, pa_group_key = tp_key privacy\<rparr>
      in a\<lparr>pa_plan_text := plan_text_for a @ (if note \<noteq> [] then newline # newline # note else [])\<rparr>)"

definition propose :: "gate_env \<Rightarrow> gate \<Rightarrow> request \<Rightarrow> policy_decision \<Rightarrow> dict \<Rightarrow> string \<Rightarrow> gate \<times> call_end" where
  "propose env s rq d args note =
     (case stated_targets env (d_tool_name d) args of
        None \<Rightarrow> (s, Raised TYPE_ERROR)
      | Some targets \<Rightarrow>
          (case open_duplicate (ga_store s) rq (d_tool_name d) args (tp_key (private_read rq (ge_rules env))) (ge_now env) of
             Some earlier \<Rightarrow> (s, Returned (mark_trusted_ack rq (as_tool_result rq (duplicate_proposal_text earlier))))
           | None \<Rightarrow>
               let a = new_action env rq d args targets note;
                   s = s\<lparr>ga_store := store_save (ga_store s) a\<rparr>;
                   s = (if is_invited rq \<and> rq_ctx rq \<noteq> None then s\<lparr>ga_stopped := ga_stopped s @ [(pa_id a, d_tool_name d)]\<rparr> else s)
               in (case model_safe_plan (ge_fstr env) (ge_shown env) a of
                     None \<Rightarrow> (s, Raised TYPE_ERROR)
                   | Some (plan, _) \<Rightarrow> (s, Returned (mark_trusted_ack rq (as_tool_result rq plan))))))"

definition require_confirmation :: "gate_env \<Rightarrow> gate \<Rightarrow> request \<Rightarrow> policy_decision \<Rightarrow> string \<Rightarrow> gate \<times> call_end" where
  "require_confirmation env s rq d note =
     (case check_ledger_plan env rq of
        None \<Rightarrow> propose env s rq d (rq_call_args rq) note
      | Some (None, args) \<Rightarrow> propose env s rq d args note
      | Some (Some invalid, args) \<Rightarrow>
          let origin = fst (call_origin rq);
              s = (if origin \<noteq> ''user'' then record_refused_plan env s rq d args invalid origin else s)
          in (s, Returned (mark_trusted_ack rq (as_tool_result rq (''Nothing was proposed or changed: '' @ invalid @ ''.'')))))"

subsection \<open>Routine writes that wait\<close>

datatype hold_verdict = Run_It | Waits string | Under_Grant granted_call

definition FIRING_KEY :: string where "FIRING_KEY = ''trigger_firing_id''"

definition apostrophe_s :: string where "apostrophe_s = [single_quote, CHR ''s'']"

definition scheduled_hold :: "gate_env \<Rightarrow> gate \<Rightarrow> request \<Rightarrow> policy_decision \<Rightarrow> gate \<times> hold_verdict" where
  "scheduled_hold env s rq d =
     (let ctx = context_of rq; agent = requester rq; user = grants_user env ctx in
      if \<not> is_synthetic_turn (Some ctx) then (s, Run_It)
      else if \<not> governed_by_grants (d_tool_name d) (ge_allowlist env user agent) then (s, Run_It)
      else
        let granted = ge_granted env user agent; args = rq_call_args rq in
        case (if granted \<noteq> [] then covering_classes (ge_sandbox env) d args granted (ge_rules env) else None) of
          None \<Rightarrow> (s, Waits (''Nobody is there to ask in a scheduled run, and none of '' @ agent @ apostrophe_s
            @ '' standing grants covers this, so it waits for you.''))
        | Some used \<Rightarrow>
            let key = text_at ctx FIRING_KEY in
            if key = [] \<or> \<not> ge_grant_runs env
            then (s, Waits (''This scheduled run'' @ apostrophe_s @ '' granted actions can'' @ [single_quote]
              @ ''t be counted, so nothing runs on its own under a standing grant; this waits for you.''))
            else
              let actions = int (action_count args);
                  (counts, total) = reserve (ga_counts s) (ge_now env) key actions GRANT_CAP_PER_RUN;
                  s = s\<lparr>ga_counts := counts\<rparr>
              in case total of
                   None \<Rightarrow> (s, Waits (''This run already did '' @ int_text (used_actions counts key) @ '' of the '' @ int_text GRANT_CAP_PER_RUN
                     @ '' things one run may do on its own under '' @ agent @ apostrophe_s @ '' standing grants, and this call would do ''
                     @ int_text actions @ '' more, so it waits for you.''))
                 | Some n \<Rightarrow> (s, Under_Grant \<lparr>gc_classes = used, gc_actions = actions, gc_total = n, gc_run_key = key\<rparr>))"

definition chat_suggestion :: "gate_env \<Rightarrow> gate \<Rightarrow> request \<Rightarrow> policy_decision \<Rightarrow> string option" where
  "chat_suggestion env s rq d =
     (if \<not> chat_governed (d_tool_name d) then None
      else if truthy (dget (context_of rq) ''workflow_run_id'')
      then Some ''This workflow runs without you watching, so I did not make this change; it runs only if you confirm it here.''
      else if fst (call_origin rq) \<noteq> ''user''
      then Some ''This is a suggestion: it came from something I read, not from your message, so I did not do it. It runs only if you confirm it here.''
      else
        let wanted = change_summaries (ge_lookup env) False (rq_call_args rq) in
        if list_ex (\<lambda>a. pa_tool_name a = d_tool_name d
             \<and> repeats_declined wanted (change_summaries (ge_lookup env) True (pa_arguments a)))
           (declined_in_thread (ga_store s) (thread_id rq) (owner_id rq))
        then Some ''This is a suggestion: you declined this earlier in this chat, so I did not do it. It runs only if you confirm it here.''
        else None)"

definition hold_verdict_of :: "gate_env \<Rightarrow> gate \<Rightarrow> request \<Rightarrow> policy_decision \<Rightarrow> gate \<times> hold_verdict" where
  "hold_verdict_of env s rq d =
     (case scheduled_hold env s rq d of
        (s, Run_It) \<Rightarrow> (s, (case chat_suggestion env s rq d of None \<Rightarrow> Run_It | Some note \<Rightarrow> Waits note))
      | (s, v) \<Rightarrow> (s, v))"

subsection \<open>Running a call\<close>

definition call_tool :: "gate_env \<Rightarrow> gate \<Rightarrow> request \<Rightarrow> string option \<Rightarrow> gate \<times> call_end \<times> bool" where
  "call_tool env s rq how =
     (let (ended, committed) = ge_handler env rq (inviting_for rq (ge_rules env)) how
      in (s\<lparr>ga_calls := ga_calls s @ [(rq, how, committed)]\<rparr>, ended, committed))"

text \<open>\<open>_reserved\<close>: a reservation is given back only for a call that did not write and was not cancelled.\<close>

definition give_back :: "gate \<Rightarrow> granted_call \<Rightarrow> call_end \<Rightarrow> bool \<Rightarrow> gate" where
  "give_back s g ended committed =
     (if committed \<or> ended = Cancelled then s else s\<lparr>ga_counts := release (ga_counts s) (gc_run_key g) (gc_actions g)\<rparr>)"

definition record_grant_use :: "gate_env \<Rightarrow> gate \<Rightarrow> request \<Rightarrow> policy_decision \<Rightarrow> granted_call \<Rightarrow> gate \<times> string option" where
  "record_grant_use env s rq d g =
     (case stated_targets env (d_tool_name d) (rq_call_args rq) of
        None \<Rightarrow> (s, Some TYPE_ERROR)
      | Some targets \<Rightarrow>
          let (cause, source) = initiation_origin (rq_messages rq) False;
              origin = (if cause = Origin_User then ''automation'' else origin_str cause);
              s' = (if ge_audit env then s\<lparr>ga_grant_log := ga_grant_log s
                @ [\<lparr>gu_tool = d_tool_name d, gu_grant = g, gu_targets = targets, gu_origin = origin, gu_source = source\<rparr>]\<rparr> else s)
          in (case (if ge_audit env then ge_audit_error env else None) of
                Some exc \<Rightarrow> (s, Some exc)
              | None \<Rightarrow> (s'\<lparr>ga_records := record_execution (ga_records s') (d_tool_name d) (rq_call_args rq) targets\<rparr>, None)))"

text \<open>The targets a disclosure names: \<open>wrap_tool_call\<close> names none, \<open>awrap_tool_call\<close> those really resolved.\<close>

definition disclosed_targets :: "gate_env \<Rightarrow> bool \<Rightarrow> string \<Rightarrow> dict \<Rightarrow> string list option" where
  "disclosed_targets env async tool args =
     (if async \<and> ge_resolves env \<and> (case source_argument args of None \<Rightarrow> False | Some k \<Rightarrow> k \<noteq> [])
      then resolve_targets (ge_fstr env) (ge_shown env) tool args else Some [])"

definition run_tier2 :: "gate_env \<Rightarrow> bool \<Rightarrow> gate \<Rightarrow> request \<Rightarrow> policy_decision \<Rightarrow> granted_call option \<Rightarrow> gate \<times> call_end" where
  "run_tier2 env async s rq d grant =
     (let (s, ended, committed) = call_tool env s rq (Some (if grant \<noteq> None then ''granted'' else ''disclosed''));
          s = (case grant of None \<Rightarrow> s | Some g \<Rightarrow> give_back s g ended committed)
      in case ended of
           Returned r \<Rightarrow>
             (case grant of
                Some g \<Rightarrow>
                  (case record_grant_use env s rq d g of
                     (s, Some exc) \<Rightarrow> (s, Raised exc)
                   | (s, None) \<Rightarrow> (s, Returned (mark_trusted_ack rq r)))
              | None \<Rightarrow>
                  (case disclosed_targets env async (d_tool_name d) (rq_call_args rq) of
                     None \<Rightarrow> (s, Raised TYPE_ERROR)
                   | Some targets \<Rightarrow>
                       (s\<lparr>ga_records := record_execution (ga_records s) (d_tool_name d) (rq_call_args rq) targets\<rparr>,
                        Returned (mark_trusted_ack rq r))))
         | other \<Rightarrow> (s, other))"

definition dispatch :: "bool \<Rightarrow> gate_env \<Rightarrow> gate \<Rightarrow> request \<Rightarrow> gate \<times> call_end" where
  "dispatch async env s rq =
     (let rq = without_model_pins rq; d = classify_request env rq in
      if d_refused d then (s, Returned (refuse_unruled rq d))
      else case d_tier d of
        TIER_1 \<Rightarrow> (let (s, ended, _) = call_tool env s rq None in (s, ended))
      | TIER_2 \<Rightarrow>
          (case hold_verdict_of env s rq d of
             (s, Waits note) \<Rightarrow> require_confirmation env s rq d note
           | (s, Run_It) \<Rightarrow> run_tier2 env async s rq d None
           | (s, Under_Grant g) \<Rightarrow> run_tier2 env async s rq d (Some g))
      | TIER_3 \<Rightarrow> require_confirmation env s rq d [])"

definition wrap_tool_call :: "gate_env \<Rightarrow> gate \<Rightarrow> request \<Rightarrow> gate \<times> call_end" where
  "wrap_tool_call env s rq = dispatch False env s rq"

definition awrap_tool_call :: "gate_env \<Rightarrow> gate \<Rightarrow> request \<Rightarrow> gate \<times> call_end" where
  "awrap_tool_call env s rq = dispatch True env s rq"

end
