(* ===== verification/Gate_Facts.thy ===== *)
theory Gate_Facts
  imports Gate
begin

text \<open>
  What the chokepoint lets through and what it makes wait: the cases of one dispatch, the action a
  held call becomes, and the two kinds of routine write that never run on their own.
\<close>

subsection \<open>One dispatch\<close>

lemma classify_request_name [simp]: "d_tool_name (classify_request env rq) = tool_name rq"
  by (simp add: classify_request_def Let_def classify_def decide_def split: prod.splits option.splits)

lemma pins_frame [simp]:
  "rq_ctx (without_model_pins rq) = rq_ctx rq" "rq_messages (without_model_pins rq) = rq_messages rq"
  "rq_call_name (without_model_pins rq) = rq_call_name rq" "rq_tool_name (without_model_pins rq) = rq_tool_name rq"
  "rq_ledger_tool (without_model_pins rq) = rq_ledger_tool rq" "rq_call_id (without_model_pins rq) = rq_call_id rq"
  by (simp_all add: without_model_pins_def split: option.split)

lemma pins_context [simp]: "context_of (without_model_pins rq) = context_of rq"
  by (simp add: context_of_def)

lemma pins_accessors [simp]:
  "tool_name (without_model_pins rq) = tool_name rq" "thread_id (without_model_pins rq) = thread_id rq"
  "owner_id (without_model_pins rq) = owner_id rq" "requester (without_model_pins rq) = requester rq"
  "delegation_key (without_model_pins rq) = delegation_key rq" "is_invited (without_model_pins rq) = is_invited rq"
  "delegation_chain (without_model_pins rq) = delegation_chain rq"
  by (simp_all add: tool_name_def thread_id_def owner_id_def requester_def delegation_key_def is_invited_def delegation_chain_def)

lemma pins_origin [simp]:
  "call_origin (without_model_pins rq) = call_origin rq" "private_read (without_model_pins rq) rs = private_read rq rs"
  unfolding call_origin_def private_read_def by (simp_all only: pins_frame pins_context pins_accessors)

text \<open>\<open>ga_calls\<close> and the other logs change only where a call is run.\<close>

definition only_store :: "gate \<Rightarrow> gate \<Rightarrow> bool" where
  "only_store s s' \<longleftrightarrow> ga_calls s' = ga_calls s \<and> ga_records s' = ga_records s \<and> ga_counts s' = ga_counts s \<and> ga_grant_log s' = ga_grant_log s"

text \<open>What \<open>require_confirmation\<close> comes to: nothing new, or one new action, exactly the call.\<close>

lemma require_confirmation_cases:
  assumes "require_confirmation env s rq d note = (s', e)"
  obtains (same) "ga_store s' = ga_store s" "only_store s s'"
      "(\<exists>invalid args. check_ledger_plan env rq = Some (Some invalid, args)) \<or> e = Raised TYPE_ERROR
       \<or> (\<exists>args a. open_duplicate (ga_store s) rq (d_tool_name d) args (tp_key (private_read rq (ge_rules env))) (ge_now env) = Some a
            \<and> e = Returned (mark_trusted_ack rq (as_tool_result rq (duplicate_proposal_text a))))"
  | (new) args targets where "args = (case check_ledger_plan env rq of Some (_, args) \<Rightarrow> args | None \<Rightarrow> rq_call_args rq)"
      "stated_targets env (d_tool_name d) args = Some targets"
      "open_duplicate (ga_store s) rq (d_tool_name d) args (tp_key (private_read rq (ge_rules env))) (ge_now env) = None"
      "ga_store s' = store_save (ga_store s) (new_action env rq d args targets note)" "only_store s s'"
      "\<forall>invalid args. check_ledger_plan env rq \<noteq> Some (Some invalid, args)"
proof -
  have proposed: thesis if p: "propose env s rq d args note = (s', e)"
    and a: "args = (case check_ledger_plan env rq of Some (_, args) \<Rightarrow> args | None \<Rightarrow> rq_call_args rq)"
    and valid: "\<forall>invalid args. check_ledger_plan env rq \<noteq> Some (Some invalid, args)" for args
  proof (cases "stated_targets env (d_tool_name d) args")
    case None
    then show thesis using p same by (simp add: propose_def only_store_def)
  next
    case (Some targets)
    show thesis
    proof (cases "open_duplicate (ga_store s) rq (d_tool_name d) args (tp_key (private_read rq (ge_rules env))) (ge_now env)")
      case None
      have "ga_store s' = store_save (ga_store s) (new_action env rq d args targets note)" "only_store s s'"
        using p Some None by (auto simp: propose_def Let_def only_store_def split: option.splits if_splits)
      then show thesis using new a Some None valid by blast
    next
      case (Some earlier)
      then show thesis using p \<open>stated_targets env (d_tool_name d) args = Some targets\<close> same
        by (auto simp: propose_def only_store_def)
    qed
  qed
  show thesis
  proof (cases "check_ledger_plan env rq")
    case None
    then show thesis using assms proposed by (simp add: require_confirmation_def)
  next
    case (Some ia)
    obtain invalid args where ia: "ia = (invalid, args)" by (cases ia)
    show thesis
    proof (cases invalid)
      case None
      then show thesis using assms proposed Some ia by (simp add: require_confirmation_def)
    next
      case (Some why)
      have "ga_store s' = ga_store s" "only_store s s'"
        using assms Some \<open>check_ledger_plan env rq = Some ia\<close> ia
        by (auto simp: require_confirmation_def record_refused_plan_def only_store_def Let_def split: option.splits if_splits py.splits)
      then show thesis using same Some \<open>check_ledger_plan env rq = Some ia\<close> ia by blast
    qed
  qed
qed

text \<open>What holds when a Tier 2 call is run without asking.\<close>

definition runs_disclosed :: "gate_env \<Rightarrow> gate \<Rightarrow> request \<Rightarrow> bool" where
  "runs_disclosed env s rq \<longleftrightarrow>
     (is_synthetic_turn (Some (context_of rq)) \<longrightarrow>
        \<not> governed_by_grants (tool_name rq) (ge_allowlist env (grants_user env (context_of rq)) (requester rq)))
     \<and> (chat_governed (tool_name rq) \<longrightarrow>
          \<not> truthy (dget (context_of rq) ''workflow_run_id'') \<and> fst (call_origin rq) = ''user''
          \<and> \<not> (\<exists>a \<in> set (declined_in_thread (ga_store s) (thread_id rq) (owner_id rq)). pa_tool_name a = tool_name rq
               \<and> repeats_declined (change_summaries (ge_lookup env) False (rq_call_args rq))
                   (change_summaries (ge_lookup env) True (pa_arguments a))))"

definition runs_granted :: "gate_env \<Rightarrow> gate \<Rightarrow> request \<Rightarrow> granted_call \<Rightarrow> bool" where
  "runs_granted env s rq g \<longleftrightarrow>
     is_synthetic_turn (Some (context_of rq)) \<and> ge_grant_runs env
     \<and> gc_run_key g = text_at (context_of rq) FIRING_KEY \<and> gc_run_key g \<noteq> []
     \<and> gc_actions g = int (action_count (rq_call_args rq))
     \<and> covering_classes (ge_sandbox env) (classify_request env rq) (rq_call_args rq)
         (ge_granted env (grants_user env (context_of rq)) (requester rq)) (ge_rules env) = Some (gc_classes g)
     \<and> snd (reserve (ga_counts s) (ge_now env) (gc_run_key g) (gc_actions g) GRANT_CAP_PER_RUN) = Some (gc_total g)"

lemma hold_verdict_cases:
  assumes "hold_verdict_of env s rq (classify_request env rq) = (s1, v)"
  shows "ga_store s1 = ga_store s \<and> ga_calls s1 = ga_calls s \<and> ga_records s1 = ga_records s \<and> ga_grant_log s1 = ga_grant_log s
    \<and> (v = Run_It \<longrightarrow> s1 = s \<and> runs_disclosed env s rq)
    \<and> (\<forall>g. v = Under_Grant g \<longrightarrow> runs_granted env s rq g
         \<and> ga_counts s1 = fst (reserve (ga_counts s) (ge_now env) (gc_run_key g) (gc_actions g) GRANT_CAP_PER_RUN))"
proof -
  obtain s2 v2 where h: "scheduled_hold env s rq (classify_request env rq) = (s2, v2)" by force
  have f: "ga_store s2 = ga_store s" "ga_calls s2 = ga_calls s" "ga_records s2 = ga_records s" "ga_grant_log s2 = ga_grant_log s"
    "v2 = Run_It \<longrightarrow> s2 = s \<and> (is_synthetic_turn (Some (context_of rq)) \<longrightarrow>
        \<not> governed_by_grants (tool_name rq) (ge_allowlist env (grants_user env (context_of rq)) (requester rq)))"
    "\<forall>g. v2 = Under_Grant g \<longrightarrow> runs_granted env s rq g
       \<and> ga_counts s2 = fst (reserve (ga_counts s) (ge_now env) (gc_run_key g) (gc_actions g) GRANT_CAP_PER_RUN)"
    using h by (auto simp: scheduled_hold_def Let_def runs_granted_def split: if_splits option.splits prod.splits)
  show ?thesis
  proof (cases v2)
    case Run_It
    then have "s1 = s" "v = (case chat_suggestion env s rq (classify_request env rq) of None \<Rightarrow> Run_It | Some x \<Rightarrow> Waits x)"
      using assms h f(5) by (auto simp: hold_verdict_of_def)
    then show ?thesis using f(5) Run_It
      by (auto simp: chat_suggestion_def runs_disclosed_def Let_def list_ex_iff split: if_splits option.splits)
  qed (use assms h f in \<open>auto simp: hold_verdict_of_def\<close>)
qed

lemma run_tier2_frame:
  assumes "run_tier2 env async s rq d grant = (s', e)"
  shows "ga_store s' = ga_store s"
    "\<exists>committed. ga_calls s' = ga_calls s @ [(rq, Some (if grant \<noteq> None then ''granted'' else ''disclosed''), committed)]
       \<and> snd (ge_handler env rq (inviting_for rq (ge_rules env)) (Some (if grant \<noteq> None then ''granted'' else ''disclosed''))) = committed
       \<and> ga_counts s' = (case grant of None \<Rightarrow> ga_counts s | Some g \<Rightarrow>
           if committed \<or> fst (ge_handler env rq (inviting_for rq (ge_rules env)) (Some ''granted'')) = Cancelled
           then ga_counts s else release (ga_counts s) (gc_run_key g) (gc_actions g))"
  using assms
  by (auto simp: run_tier2_def call_tool_def give_back_def record_grant_use_def Let_def
      split: prod.splits option.splits call_end.splits if_splits)

text \<open>Every dispatch: refused, run, or held.\<close>

lemma dispatch_cases:
  assumes "dispatch async env s rq = (s', e)"
  obtains (refused) "d_refused (classify_request env (without_model_pins rq))" "s' = s"
      "e = Returned (refuse_unruled (without_model_pins rq) (classify_request env (without_model_pins rq)))"
  | (tier1) committed where "\<not> d_refused (classify_request env (without_model_pins rq))" "d_tier (classify_request env (without_model_pins rq)) = TIER_1"
      "s' = s\<lparr>ga_calls := ga_calls s @ [(without_model_pins rq, None, committed)]\<rparr>"
  | (disclosed) "\<not> d_refused (classify_request env (without_model_pins rq))" "d_tier (classify_request env (without_model_pins rq)) = TIER_2"
      "runs_disclosed env s (without_model_pins rq)"
      "run_tier2 env async s (without_model_pins rq) (classify_request env (without_model_pins rq)) None = (s', e)"
  | (granted) g s1 where "\<not> d_refused (classify_request env (without_model_pins rq))" "d_tier (classify_request env (without_model_pins rq)) = TIER_2"
      "runs_granted env s (without_model_pins rq) g" "ga_store s1 = ga_store s" "ga_calls s1 = ga_calls s" "ga_records s1 = ga_records s"
      "ga_counts s1 = fst (reserve (ga_counts s) (ge_now env) (gc_run_key g) (gc_actions g) GRANT_CAP_PER_RUN)"
      "run_tier2 env async s1 (without_model_pins rq) (classify_request env (without_model_pins rq)) (Some g) = (s', e)"
  | (held) why s1 where "\<not> d_refused (classify_request env (without_model_pins rq))" "d_tier (classify_request env (without_model_pins rq)) \<noteq> TIER_1"
      "ga_store s1 = ga_store s" "ga_calls s1 = ga_calls s" "ga_records s1 = ga_records s" "ga_grant_log s1 = ga_grant_log s"
      "require_confirmation env s1 (without_model_pins rq) (classify_request env (without_model_pins rq)) why = (s', e)"
proof -
  let ?rq = "without_model_pins rq"
  let ?d = "classify_request env ?rq"
  show thesis
  proof (cases "d_refused ?d")
    case True
    then show thesis using assms refused by (simp add: dispatch_def Let_def)
  next
    case nr: False
    show thesis
    proof (cases "d_tier ?d")
      case TIER_1
      then show thesis using assms nr tier1 by (auto simp: dispatch_def call_tool_def Let_def split: prod.splits)
    next
      case TIER_3
      then show thesis using assms nr held [of s] by (simp add: dispatch_def Let_def)
    next
      case TIER_2
      obtain s1 v where h: "hold_verdict_of env s ?rq ?d = (s1, v)" by force
      note hv = hold_verdict_cases [OF h]
      show thesis
      proof (cases v)
        case Run_It
        then show thesis using assms nr TIER_2 h hv disclosed by (simp add: dispatch_def Let_def)
      next
        case (Waits why)
        then show thesis using assms nr TIER_2 h hv held [of s1 why] by (simp add: dispatch_def Let_def)
      next
        case (Under_Grant g)
        then show thesis using assms nr TIER_2 h hv granted [of g s1] by (simp add: dispatch_def Let_def)
      qed
    qed
  qed
qed

end
