(* ===== verification/Gate_Safety.thy ===== *)
theory Gate_Safety
  imports Gate_Facts
begin

text \<open>
  What the chokepoint promises: a call that must ask is never run, it becomes one action that says
  exactly what the call says; a call that is run was allowed to; what ran is recorded for disclosure;
  and the open cards of a conversation hold no two proposals of the same thing.
\<close>

subsection \<open>The action of a held call\<close>

text \<open>The arguments of a ledger call without the pins the server writes; other calls carry none.\<close>

definition unpinned :: "request \<Rightarrow> dict \<Rightarrow> dict" where
  "unpinned rq args = (if rq_ledger_tool rq then dset args ''changes'' (strip_pins (dget args ''changes'')) else args)"

definition exact_action :: "gate_env \<Rightarrow> request \<Rightarrow> pending_action \<Rightarrow> bool" where
  "exact_action env rq a \<longleftrightarrow>
     pa_tool_name a = tool_name rq \<and> unpinned rq (pa_arguments a) = unpinned rq (rq_call_args rq)
     \<and> stated_targets env (tool_name rq) (pa_arguments a) = Some (pa_targets a)
     \<and> pa_thread_id a = thread_id rq \<and> pa_owner_id a = owner_id rq \<and> pa_requester a = requester rq
     \<and> pa_origin a = fst (call_origin rq) \<and> pa_private_read a = tp_private (private_read rq (ge_rules env))
     \<and> pa_id a = ge_new_id env \<and> pa_outcome a = None \<and> pa_claimed_by a = None"

lemma ddel_dset [simp]: "ddel (dset d k v) k = ddel d k"
  by (induction d k v rule: dset.induct) (auto simp: ddel_def)

lemma ddel_ddel [simp]: "ddel (ddel d k) k = ddel d k"
  by (simp add: ddel_def)

lemma dset_dset [simp]: "dset (dset d k v) k w = dset d k w"
  by (induction d k v rule: dset.induct) auto

lemma dget_dset [simp]: "dget (dset d k v) k = v"
  by (simp add: dget_def)

lemma strip_pins_idem [simp]: "strip_pins (strip_pins v) = strip_pins v"
  by (auto simp: strip_pins_def split: py.splits)

lemma strip_pin_changes:
  assumes "length rs = length cs"
  shows "strip_pins (PList (pin_changes cs rs)) = strip_pins (PList cs)"
  using assms
proof (induction cs arbitrary: rs)
  case (Cons c cs)
  then show ?case
    by (cases rs) (auto simp: strip_pins_def pin_changes_def split: py.splits)
qed (simp add: strip_pins_def pin_changes_def)

lemma checked_args:
  assumes "check_ledger_plan env rq = Some (invalid, args)"
  shows "unpinned rq args = unpinned rq (rq_call_args rq)"
proof -
  have l: "rq_ledger_tool rq" using assms by (cases "rq_ledger_tool rq") (simp_all add: check_ledger_plan_def)
  let ?c = "strip_pins (dget (rq_call_args rq) ''changes'')"
  have "args = dset (rq_call_args rq) ''changes'' ?c
    \<or> (\<exists>cs rs. ?c = PList cs \<and> length rs = length cs \<and> args = dset (dset (rq_call_args rq) ''changes'' ?c) ''changes'' (PList (pin_changes cs rs)))"
    using assms by (auto simp: check_ledger_plan_def Let_def split: if_splits option.splits sum.splits py.splits)
  then show ?thesis
  proof
    assume "\<exists>cs rs. ?c = PList cs \<and> length rs = length cs \<and> args = dset (dset (rq_call_args rq) ''changes'' ?c) ''changes'' (PList (pin_changes cs rs))"
    then obtain cs rs where cs: "?c = PList cs" "length rs = length cs" "args = dset (rq_call_args rq) ''changes'' (PList (pin_changes cs rs))"
      by auto
    have "strip_pins (PList cs) = PList cs" using cs(1) strip_pins_idem [of "dget (rq_call_args rq) ''changes''"] by simp
    then show ?thesis using cs l strip_pin_changes [OF cs(2)] by (simp add: unpinned_def)
  qed (use l in \<open>simp add: unpinned_def\<close>)
qed

lemma unpinned_without_pins: "unpinned rq (rq_call_args (without_model_pins rq)) = unpinned rq (rq_call_args rq)"
  by (auto simp: unpinned_def without_model_pins_def dget_def split: option.splits)

lemma unpinned_pins [simp]: "unpinned (without_model_pins rq) = unpinned rq"
  by (simp add: unpinned_def fun_eq_iff)

lemma exact_action_pins [simp]: "exact_action env (without_model_pins rq) = exact_action env rq"
  by (simp add: exact_action_def fun_eq_iff unpinned_without_pins)

lemma exact_new_action:
  assumes "d_tool_name d = tool_name rq" "unpinned rq args = unpinned rq (rq_call_args rq)"
    "stated_targets env (d_tool_name d) args = Some targets"
  shows "exact_action env rq (new_action env rq d args targets note)"
  using assms by (simp add: exact_action_def new_action_def Let_def split: prod.splits)

lemma only_store_refl [simp]: "only_store s s"
  by (simp add: only_store_def)

lemma as_tool_result_pins [simp]:
  "as_tool_result (without_model_pins rq) body = as_tool_result rq body"
  "mark_trusted_ack (without_model_pins rq) r = mark_trusted_ack rq r"
  by (simp_all add: as_tool_result_def mark_trusted_ack_def)

text \<open>Answers the gate writes itself.\<close>

definition gate_reply :: "request \<Rightarrow> call_end \<Rightarrow> bool" where
  "gate_reply rq e \<longleftrightarrow> e = Raised TYPE_ERROR
     \<or> (\<exists>body. e = Returned (as_tool_result rq body) \<or> e = Returned (mark_trusted_ack rq (as_tool_result rq body)))"

lemma gate_reply_pins [simp]: "gate_reply (without_model_pins rq) = gate_reply rq"
  by (simp add: gate_reply_def fun_eq_iff)

lemma propose_reply: "gate_reply rq (snd (propose env s rq d args note))"
  by (auto simp: propose_def gate_reply_def Let_def split: option.splits prod.splits)

lemma require_confirmation_reply: "gate_reply rq (snd (require_confirmation env s rq d note))"
proof -
  have "snd (require_confirmation env s rq d note) \<in> {snd (propose env s rq d args note) |args. True}
    \<or> gate_reply rq (snd (require_confirmation env s rq d note))"
    by (cases "check_ledger_plan env rq") (auto simp: require_confirmation_def gate_reply_def Let_def split: option.splits)
  then show ?thesis using propose_reply by auto
qed

lemma require_confirmation_exact:
  assumes "require_confirmation env s rq d note = (s', e)" "d_tool_name d = tool_name rq"
  shows "only_store s s' \<and> gate_reply rq e \<and> (ga_store s' = ga_store s \<or> (\<exists>a. exact_action env rq a \<and> ga_store s' = store_save (ga_store s) a))"
proof -
  have "gate_reply rq e" using require_confirmation_reply [of rq env s d "note"] assms(1) by simp
  moreover have "only_store s s' \<and> (ga_store s' = ga_store s \<or> (\<exists>a. exact_action env rq a \<and> ga_store s' = store_save (ga_store s) a))"
    using assms(1)
  proof (cases rule: require_confirmation_cases)
    case (new args targets)
    have "unpinned rq args = unpinned rq (rq_call_args rq)"
      using new(1) checked_args by (auto split: option.splits)
    then show ?thesis using new exact_new_action [OF assms(2)] by blast
  qed auto
  ultimately show ?thesis by blast
qed

text \<open>
  C2. A call the rules make ask, or that no rule names, is never handed to its tool: one dispatch of
  it leaves the calls, the disclosures and the stored actions as they were, or adds exactly one
  open action, which carries the name, the arguments (but for the server's pins), the
  targets, the conversation, the owner and the cause of the call. What comes back is the gate's own
  text, or the error of the renderer. A refused call changes nothing at all.
\<close>

theorem consequential_call_held:
  assumes "dispatch async env s rq = (s', e)"
    "d_refused (classify_request env (without_model_pins rq)) \<or> d_tier (classify_request env (without_model_pins rq)) = TIER_3"
  shows "only_store s s' \<and> gate_reply rq e
    \<and> (ga_store s' = ga_store s \<or> (\<exists>a. exact_action env rq a \<and> ga_store s' = store_save (ga_store s) a))
    \<and> (d_refused (classify_request env (without_model_pins rq)) \<longrightarrow> s' = s)"
  using assms(1)
proof (cases rule: dispatch_cases)
  case refused
  then show ?thesis by (auto simp: refuse_unruled_def gate_reply_def)
next
  case (held why s1)
  have "require_confirmation env s (without_model_pins rq) (classify_request env (without_model_pins rq)) [] = (s', e)"
    using assms held by (simp add: dispatch_def Let_def)
  from require_confirmation_exact [OF this] show ?thesis using held by simp
qed (use assms(2) in auto)

definition stub_env :: gate_env where
  "stub_env = \<lparr>ge_rules = sample_rules, ge_sandbox = None, ge_fstr = (\<lambda>_. []), ge_shown = (\<lambda>_. []), ge_resolves = True,
     ge_now = 0, ge_new_id = ''0123456789ab'', ge_user = ''u'', ge_allowlist = (\<lambda>_ _. True), ge_granted = (\<lambda>_ _. []), ge_grant_runs = True,
     ge_check_plan = None, ge_lookup = plain_lookup, ge_surface = (\<lambda>_. []), ge_audit = True, ge_audit_error = None,
     ge_handler = (\<lambda>_ _ _. (Returned (Plain ''done''), True))\<rparr>"

definition sample_gate :: gate where
  "sample_gate = \<lparr>ga_store = \<lparr>st_files = [], st_claims = [], st_continued = []\<rparr>, ga_records = [], ga_counts = [], ga_calls = [],
     ga_grant_log = [], ga_refusals = [], ga_stopped = []\<rparr>"

definition user_message :: message where
  "user_message = mark_user_turn \<lparr>m_type = Some ''human'', m_id = ''m1'', m_content = ''do it'', m_name = [], m_tool_call_id = None, m_tool_calls = [],
     m_kwargs = Some []\<rparr>"

definition sample_call :: "string \<Rightarrow> dict \<Rightarrow> request" where
  "sample_call tool args = \<lparr>rq_tool_name = tool, rq_ledger_tool = (tool = ''ledger_apply''), rq_call_name = tool, rq_call_args = args,
     rq_call_id = ''c1'', rq_ctx = Some [(''thread_id'', PStr ''t1''), (''user_id'', PStr ''u'')], rq_messages = [user_message]\<rparr>"

theorem consequential_call_held_witness:
  "\<exists>s' e. dispatch False stub_env sample_gate (sample_call ''postgres_query'' [(''sql'', PStr ''DROP TABLE t'')]) = (s', e)
     \<and> ga_calls s' = []"
proof -
  let ?rq = "sample_call ''postgres_query'' [(''sql'', PStr ''DROP TABLE t'')]"
  obtain s' e where d: "dispatch False stub_env sample_gate ?rq = (s', e)" by force
  have "d_tier (classify_request stub_env (without_model_pins ?rq)) = TIER_3" by code_simp
  from consequential_call_held [OF d disjI2, OF this] show ?thesis
    using d by (simp add: only_store_def sample_gate_def)
qed

subsection \<open>What runs\<close>

lemma reserve_fits:
  assumes "snd (reserve t now k n cap) = Some m"
  shows "used_actions t k + n \<le> cap \<and> m = used_actions t k + n"
  using assms
  by (auto simp: reserve_def Let_def used_actions_def map_of_append_new simp del: map_of_append split: if_splits option.splits prod.splits)

lemma runs_disclosed_pins:
  "runs_disclosed env s (without_model_pins rq) \<Longrightarrow> chat_governed (tool_name rq) \<Longrightarrow> fst (call_origin rq) = ''user''
     \<and> \<not> truthy (dget (context_of rq) ''workflow_run_id'')"
  by (simp add: runs_disclosed_def)

text \<open>
  C3. What runs was allowed to. When a dispatch hands a call to its tool, it is this one call, once,
  no stored action changes, and one of three things holds: its tier is 1; its tier is 2 and it is
  not a routine write that must wait (in a scheduled run: one governed by grants; anywhere: a write
  that content or a workflow caused, or that repeats a change the owner declined in this
  conversation); or its tier is 2, the run is scheduled, standing grants of the requesting agent
  cover it, and what its run did before together with what it does stays within the cap.
\<close>

theorem only_allowed_calls_run:
  assumes "dispatch async env s rq = (s', e)" "ga_calls s' \<noteq> ga_calls s"
  shows "\<exists>how committed. ga_calls s' = ga_calls s @ [(without_model_pins rq, how, committed)] \<and> ga_store s' = ga_store s
    \<and> \<not> d_refused (classify_request env (without_model_pins rq))
    \<and> (d_tier (classify_request env (without_model_pins rq)) = TIER_1 \<and> how = None
       \<or> d_tier (classify_request env (without_model_pins rq)) = TIER_2 \<and> how = Some ''disclosed'' \<and> runs_disclosed env s (without_model_pins rq)
       \<or> d_tier (classify_request env (without_model_pins rq)) = TIER_2 \<and> how = Some ''granted''
         \<and> (\<exists>g. runs_granted env s (without_model_pins rq) g
              \<and> used_actions (ga_counts s) (gc_run_key g) + gc_actions g \<le> GRANT_CAP_PER_RUN))"
  using assms(1)
proof (cases rule: dispatch_cases)
  case refused
  then show ?thesis using assms(2) by simp
next
  case (tier1 committed)
  then show ?thesis by auto
next
  case disclosed
  then show ?thesis using run_tier2_frame [OF disclosed(4)] by auto
next
  case (granted g s1)
  have "used_actions (ga_counts s) (gc_run_key g) + gc_actions g \<le> GRANT_CAP_PER_RUN"
    using granted(3) unfolding runs_granted_def by (blast dest: reserve_fits)
  then show ?thesis using run_tier2_frame [OF granted(8)] granted by auto
next
  case (held why s1)
  have "only_store s1 s'" using require_confirmation_exact [OF held(7)] by simp
  then show ?thesis using assms(2) held(4) by (simp add: only_store_def)
qed

definition granted_env :: gate_env where
  "granted_env = stub_env\<lparr>ge_granted := (\<lambda>_ _. [''tasks'', ''notes'']), ge_allowlist := (\<lambda>_ _. False)\<rparr>"

definition scheduled_call :: request where
  "scheduled_call = (sample_call ''ledger_apply'' task_call)
     \<lparr>rq_ctx := Some [(''thread_id'', PStr ''t1''), (''user_id'', PStr ''u''), (''turn_provenance'', PStr ''synthetic-trigger''),
        (''trigger_firing_id'', PStr ''f1'')]\<rparr>"

theorem only_allowed_calls_run_witness:
  "\<exists>s' e how committed. dispatch True granted_env sample_gate scheduled_call = (s', e)
     \<and> ga_calls s' = [(scheduled_call, how, committed)] \<and> how = Some ''granted''"
proof -
  obtain s' e where d: "dispatch True granted_env sample_gate scheduled_call = (s', e)" by force
  have w: "without_model_pins scheduled_call = scheduled_call" by code_simp
  have "map (\<lambda>(_, how, _). how) (ga_calls (fst (dispatch True granted_env sample_gate scheduled_call))) = [Some ''granted'']"
    by code_simp
  then have h: "map (\<lambda>(_, how, _). how) (ga_calls s') = [Some ''granted'']" by (simp add: d)
  then have n: "ga_calls s' \<noteq> ga_calls sample_gate" by (auto simp: sample_gate_def)
  show ?thesis using only_allowed_calls_run [OF d n] d h w by (auto simp: sample_gate_def)
qed

text \<open>
  C7. Every Tier 2 call the person did not see first is disclosed. When a dispatch runs a Tier 2 call
  and returns its result, a record of exactly that call is kept, and once the disclosures are
  applied to any reply, the record is covered by the reply as the model wrote it or by the reply
  that is sent. (A granted call whose audit entry fails raises instead of returning.)
\<close>

theorem tier2_call_is_disclosed:
  assumes "dispatch async env s rq = (s', Returned r)" "ga_calls s' \<noteq> ga_calls s"
    "d_tier (classify_request env (without_model_pins rq)) = TIER_2"
  shows "\<exists>entry. ga_records s' = ga_records s @ [entry] \<and> er_tool_name entry = tool_name rq
    \<and> er_arguments entry = rq_call_args (without_model_pins rq)
    \<and> (covered reply entry \<or> covered (snd (apply_disclosures fstr (ga_records s') reply)) entry)"
proof -
  have ran: "\<exists>targets. ga_records s' = record_execution (ga_records s) (tool_name rq) (rq_call_args (without_model_pins rq)) targets"
    using assms(1)
  proof (cases rule: dispatch_cases)
    case disclosed
    then show ?thesis
      by (auto simp: run_tier2_def call_tool_def give_back_def Let_def split: prod.splits option.splits call_end.splits)
  next
    case (granted g s1)
    from granted(8) granted(6) show ?thesis
      by (auto simp: run_tier2_def call_tool_def give_back_def record_grant_use_def Let_def
          split: prod.splits option.splits call_end.splits if_splits)
  next
    case (held why s1)
    have "only_store s1 s'" using require_confirmation_exact [OF held(7)] by simp
    then show ?thesis using assms(2) held(4) by (simp add: only_store_def)
  qed (use assms(2,3) in auto)
  then obtain targets where r: "ga_records s' = record_execution (ga_records s) (tool_name rq) (rq_call_args (without_model_pins rq)) targets" ..
  then show ?thesis using every_execution_disclosed [of "ga_records s'" reply fstr]
    by (auto simp: record_execution_def)
qed

theorem tier2_call_is_disclosed_witness:
  "\<exists>s' r entry. dispatch True granted_env sample_gate scheduled_call = (s', Returned r) \<and> ga_records s' = [entry]
     \<and> (covered ''Done.'' entry \<or> covered (snd (apply_disclosures (\<lambda>_. []) (ga_records s') ''Done.'')) entry)"
proof -
  obtain s' e where d: "dispatch True granted_env sample_gate scheduled_call = (s', e)" by force
  have "snd (dispatch True granted_env sample_gate scheduled_call) = Returned (Plain ''done'')" by code_simp
  then have e: "dispatch True granted_env sample_gate scheduled_call = (s', Returned (Plain ''done''))" by (simp add: d)
  have "length (ga_calls (fst (dispatch True granted_env sample_gate scheduled_call))) = 1" by code_simp
  then have "length (ga_calls s') = 1" by (simp add: d)
  then have n: "ga_calls s' \<noteq> ga_calls sample_gate" by (auto simp: sample_gate_def)
  have t: "d_tier (classify_request granted_env (without_model_pins scheduled_call)) = TIER_2" by code_simp
  show ?thesis using tier2_call_is_disclosed [OF e n t, of "''Done.''" "\<lambda>_. []"] e by (auto simp: sample_gate_def)
qed

subsection \<open>Open cards\<close>

definition waiting :: "instant \<Rightarrow> pending_action \<Rightarrow> bool" where
  "waiting now a \<longleftrightarrow> pa_outcome a = None \<and> pa_claimed_by a = None \<and> \<not> is_expired a now"

text \<open>Two cards that propose the same thing in one turn.\<close>

definition twins :: "pending_action \<Rightarrow> pending_action \<Rightarrow> bool" where
  "twins a b \<longleftrightarrow> pa_thread_id a = pa_thread_id b \<and> pa_tool_name a = pa_tool_name b \<and> pa_group_key a = pa_group_key b
     \<and> pa_group_key a \<noteq> [] \<and> pa_owner_id a = pa_owner_id b \<and> pa_requester a = pa_requester b \<and> pa_delegation_key a = pa_delegation_key b
     \<and> (pa_tool_name a \<in> set ONE_OPEN_CARD_PER_TURN \<or> canonical_arguments (pa_arguments a) = canonical_arguments (pa_arguments b))"

definition twin_free :: "store \<Rightarrow> instant \<Rightarrow> bool" where
  "twin_free st now \<longleftrightarrow> (\<forall>i j a b. store_get st i = Some a \<longrightarrow> store_get st j = Some b \<longrightarrow> i \<noteq> j
     \<longrightarrow> waiting now a \<longrightarrow> waiting now b \<longrightarrow> \<not> twins a b)"

lemma twins_sym: "twins a b \<longleftrightarrow> twins b a"
  by (auto simp: twins_def)

lemma twin_free_later: "twin_free st now \<Longrightarrow> now \<le> later \<Longrightarrow> twin_free st later"
  unfolding twin_free_def waiting_def is_expired_def by (meson order_trans)

lemma open_duplicate_None:
  assumes "open_duplicate st rq tool args key now = None" "key \<noteq> []" "store_get st i = Some a" "waiting now a" "pa_thread_id a = thread_id rq"
  shows "\<not> same_proposal rq tool args key a"
proof -
  have "a \<in> set (open_in_thread st (thread_id rq) now)"
    using assms(3-5) store_ids_complete by (auto simp: open_in_thread_def in_listing waiting_def)
  then show ?thesis using assms(1,2) by (auto simp: open_duplicate_def find_None_iff)
qed

lemma twin_free_new:
  assumes "twin_free st now" "open_duplicate st rq (d_tool_name d) args (tp_key (private_read rq (ge_rules env))) now = None"
    "store_get st (ge_new_id env) = None"
  shows "twin_free (store_save st (new_action env rq d args targets note)) now"
proof -
  let ?n = "new_action env rq d args targets note"
  have f: "pa_id ?n = ge_new_id env" "pa_thread_id ?n = thread_id rq" "pa_group_key ?n = tp_key (private_read rq (ge_rules env))"
    "pa_owner_id ?n = owner_id rq" "pa_requester ?n = requester rq" "pa_delegation_key ?n = delegation_key rq"
    "pa_tool_name ?n = d_tool_name d" "pa_arguments ?n = args"
    by (simp_all add: new_action_def Let_def split: prod.splits)
  have "\<not> twins a ?n" if "store_get st i = Some a" "waiting now a" for i a
  proof
    assume t: "twins a ?n"
    then have "\<not> same_proposal rq (d_tool_name d) args (tp_key (private_read rq (ge_rules env))) a"
      using that assms(2) f by (intro open_duplicate_None) (auto simp: twins_def)
    then show False using t f by (auto simp: twins_def same_proposal_def)
  qed
  then show ?thesis using assms(1) twins_sym unfolding twin_free_def by (auto simp: f(1)) 
qed

lemma dispatch_twin_free:
  assumes "twin_free (ga_store s) now" "now \<le> ge_now env" "store_get (ga_store s) (ge_new_id env) = None"
  shows "twin_free (ga_store (fst (dispatch async env s rq))) (ge_now env)"
proof -
  obtain s' e where d: "dispatch async env s rq = (s', e)" by force
  have later: "twin_free (ga_store s) (ge_now env)" using assms(1,2) twin_free_later by blast
  from d have "twin_free (ga_store s') (ge_now env)"
  proof (cases rule: dispatch_cases)
    case disclosed
    then show ?thesis using later run_tier2_frame(1) by metis
  next
    case (granted g s1)
    then show ?thesis using later run_tier2_frame(1) by metis
  next
    case (held why s1)
    from held(7) show ?thesis
    proof (cases rule: require_confirmation_cases)
      case same
      then show ?thesis using later held(3) by simp
    next
      case (new args targets)
      then show ?thesis using twin_free_new later assms(3) held(3) by simp
    qed
  qed (use later in auto)
  then show ?thesis by (simp add: d)
qed

text \<open>A run of calls through the gate, each with the environment it found.\<close>

fun gate_run :: "gate \<Rightarrow> (bool \<times> gate_env \<times> request) list \<Rightarrow> gate" where
  "gate_run s [] = s"
| "gate_run s ((async, env, rq) # calls) = gate_run (fst (dispatch async env s rq)) calls"

text \<open>The clock does not go back, and new ids are not in use.\<close>

fun fresh_run :: "instant \<Rightarrow> gate \<Rightarrow> (bool \<times> gate_env \<times> request) list \<Rightarrow> bool" where
  "fresh_run now s [] = True"
| "fresh_run now s ((async, env, rq) # calls) =
     (now \<le> ge_now env \<and> store_get (ga_store s) (ge_new_id env) = None \<and> fresh_run (ge_now env) (fst (dispatch async env s rq)) calls)"

text \<open>
  C15. The person is not flooded: over any run of tool calls, of any tools and agents, starting
  from a conversation without them, there are never two open cards that propose the same thing in
  one turn, nor two open delegations of one turn of one agent: the second call is answered with
  the card that waits already.
\<close>

theorem no_twin_cards:
  assumes "twin_free (ga_store s) now" "fresh_run now s calls" "\<forall>c \<in> set calls. ge_now (fst (snd c)) \<le> later" "now \<le> later"
  shows "twin_free (ga_store (gate_run s calls)) later"
  using assms
proof (induction calls arbitrary: s now)
  case Nil
  then show ?case using twin_free_later by simp
next
  case (Cons c calls)
  obtain async env rq where c: "c = (async, env, rq)" by (cases c) auto
  have "twin_free (ga_store (fst (dispatch async env s rq))) (ge_now env)"
    using dispatch_twin_free Cons.prems(1,2) c by simp
  then show ?case using Cons.IH Cons.prems(2,3) c by auto
qed

definition card_call :: "string \<Rightarrow> request" where
  "card_call sql = sample_call ''postgres_query'' [(''sql'', PStr sql)]"

theorem no_twin_cards_witness:
  "twin_free (ga_store (gate_run sample_gate [(False, stub_env, card_call ''DROP TABLE t''),
     (True, stub_env\<lparr>ge_now := 5, ge_new_id := ''cc''\<rparr>, card_call ''DROP TABLE t'')])) 9"
proof (rule no_twin_cards [where now = 0])
  show "twin_free (ga_store sample_gate) 0" by (simp add: twin_free_def sample_gate_def store_get_def)
  show "fresh_run 0 sample_gate [(False, stub_env, card_call ''DROP TABLE t''),
     (True, stub_env\<lparr>ge_now := 5, ge_new_id := ''cc''\<rparr>, card_call ''DROP TABLE t'')]" by code_simp
qed (simp_all add: stub_env_def)

end
