(* ===== verification/Confirm_Flow.thy ===== *)
theory Confirm_Flow
  imports Pending
begin

text \<open>
  From an answer to an execution (\<open>backend/app/policy/confirm_flow.py\<close> and
  \<open>PolicyMiddleware.execute_confirmed\<close> in \<open>middleware.py\<close>): the two routes by which a person
  answers a pending action, typing (\<open>from_message\<close>) and the card's button (\<open>explicit_answer\<close>),
  and the one place both end in (\<open>flow_apply\<close>), which claims the action, runs the call and
  records the outcome.

  What the code calls and does not define is in \<open>flow_env\<close>: the rules' scope threshold, the
  tool runner and its availability check, the present targets, the texts made from a result, the
  audit record. A runner or an audit that raises gives the exception's text. \<open>fs_calls\<close> is the
  list of calls made, with the id of the action each was made for. The texts shown to the user
  are left out; the outcome, the action and what expired meanwhile are kept. Ids in a run
  context are texts when present. A message is an object with attributes, as the runtime
  delivers it.
\<close>

subsection \<open>Which turns and plans a typed reply may answer\<close>

definition ctx_id :: "dict \<Rightarrow> string \<Rightarrow> string option" where
  "ctx_id ctx k = (case dget ctx k of PStr s \<Rightarrow> Some s | _ \<Rightarrow> None)"

definition same_owner :: "string option \<Rightarrow> string option \<Rightarrow> bool" where
  "same_owner owner speaker =
     (if owner = None \<or> speaker = None then owner = None \<and> speaker = None else owner = speaker)"

definition same_key :: "string option \<Rightarrow> string option \<Rightarrow> bool" where
  "same_key recorded current =
     (if recorded = None \<or> current = None then recorded = None \<and> current = None else recorded = current)"

definition NOT_A_PERSONS_TURN_KEYS :: "string list" where
  "NOT_A_PERSONS_TURN_KEYS = [''continue_action'', ''called_agent'', ''resume_action'']"

definition ctx_or_empty :: "dict option \<Rightarrow> dict" where
  "ctx_or_empty ctx = (case ctx of None \<Rightarrow> [] | Some d \<Rightarrow> d)"

definition turn_may_answer :: "message option \<Rightarrow> dict option \<Rightarrow> bool" where
  "turn_may_answer m ctx =
     (let d = ctx_or_empty ctx in
      if (case m of None \<Rightarrow> False
          | Some m \<Rightarrow> m_type m \<noteq> Some ''human'' \<or> is_tool_result m \<or> is_invitation m) then False
      else if is_synthetic_turn (Some d) \<or> list_ex (\<lambda>k. truthy (dget d k)) NOT_A_PERSONS_TURN_KEYS then False
      else \<not> (map_of d ''invited_origin'' \<noteq> None \<or> truthy (dget d ''delegation_chain'')))"

definition answerable_by_typed_reply :: "pending_action list \<Rightarrow> dict option \<Rightarrow> message option \<Rightarrow> pending_action list" where
  "answerable_by_typed_reply actions ctx m =
     (if \<not> turn_may_answer m ctx then []
      else let d = ctx_or_empty ctx; speaker = ctx_id d ''user_id''; thread = ctx_id d ''thread_id'' in
        filter (\<lambda>a. same_owner (pa_owner_id a) speaker \<and> same_key (pa_thread_id a) thread) actions)"

subsection \<open>The scope proof\<close>

text \<open>
  \<open>(?<![0-9a-f])([0-9]{1,4})(?![0-9a-f])\<close> matches exactly the maximal runs of the characters
  \<open>[0-9a-f]\<close> that consist of one to four digits.
\<close>

definition is_count :: "string \<Rightarrow> bool" where
  "is_count w = (1 \<le> length w \<and> length w \<le> 4 \<and> list_all py_isdigit09 w)"

definition counts :: "string \<Rightarrow> string list" where
  "counts s = filter is_count (runs is_hex_lower s)"

function strip_counts :: "string \<Rightarrow> string" where
  "strip_counts s =
     (if s = [] then []
      else if is_hex_lower (hd s) then
        (let w = takeWhile is_hex_lower s in
         (if is_count w then '' '' else w) @ strip_counts (dropWhile is_hex_lower s))
      else hd s # strip_counts (tl s))"
  by pat_completeness auto
termination
proof (relation "measure length")
  fix s :: string
  assume "s \<noteq> []" "is_hex_lower (hd s)"
  then have "length (dropWhile is_hex_lower s) \<le> length (tl s)"
    by (cases s) (auto simp: length_dropWhile_le)
  then show "(dropWhile is_hex_lower s, s) \<in> measure length" using \<open>s \<noteq> []\<close> by (cases s) auto
qed auto

declare strip_counts.simps [simp del]

definition extract_count :: "string \<Rightarrow> int option \<times> string" where
  "extract_count s =
     (if counts s = [] then (None, s)
      else (map_option int (parse_num (last (counts s))), strip_counts s))"

definition looks_like_an_answer :: "string \<Rightarrow> bool" where
  "looks_like_an_answer s = (let n = length (py_split (py_strip s)) in 0 < n \<and> n \<le> 6)"

subsection \<open>Running a confirmed action\<close>

record flow_env =
  fe_threshold :: int
  fe_claimant :: string
  fe_unavailable :: "pending_action \<Rightarrow> string option"
  fe_targets_now :: "pending_action \<Rightarrow> string list"
  fe_run :: "string \<Rightarrow> dict \<Rightarrow> string + py"
  fe_excerpt :: "string \<Rightarrow> py \<Rightarrow> string"
  fe_posts_result :: bool
  fe_report :: "pending_action \<Rightarrow> py \<Rightarrow> string"
  fe_audit :: "pending_action \<Rightarrow> string option"

record flow_state =
  fs_store :: store
  fs_calls :: "(string \<times> string \<times> dict) list"

datatype flow_outcome =
    EXECUTED | DECLINED | ALREADY_RESOLVED | EXPIRED | TARGETS_DRIFTED | UNRECOGNISED_ANSWER
  | THRESHOLD_NOT_MET | FAILED | CARD_ONLY | TOOL_UNAVAILABLE | ALREADY_RUNNING | NO_VERDICT | WOULD_EXECUTE

record flow_result =
  fr_outcome :: flow_outcome
  fr_action :: "string option"
  fr_expired :: "pending_action list"

definition flow_result_of :: "flow_outcome \<Rightarrow> string option \<Rightarrow> pending_action list \<Rightarrow> flow_result" where
  "flow_result_of o' i expired = \<lparr>fr_outcome = o', fr_action = i, fr_expired = expired\<rparr>"

definition take_claim :: "store \<Rightarrow> string \<Rightarrow> string \<Rightarrow> store \<times> pending_action option" where
  "take_claim st i claimant = claim st i claimant"

text \<open>\<open>resolve\<close> mutates the caller's object, so each branch also returns the action as it now is.\<close>

definition resolve_in :: "store \<Rightarrow> pending_action \<Rightarrow> outcome \<Rightarrow> string \<Rightarrow> store \<times> pending_action" where
  "resolve_in st a o' reason = (case store_resolve st a o' reason of Inr (st', b) \<Rightarrow> (st', b) | Inl _ \<Rightarrow> (st, a))"

definition drift_reason :: "pending_action \<Rightarrow> string list \<Rightarrow> string" where
  "drift_reason a current = ''the '' @ nat_text (length (pa_targets a)) @ '' item(s) confirmed are no longer the ''
     @ nat_text (length current) @ '' present''"

definition execute_confirmed :: "flow_env \<Rightarrow> flow_state \<Rightarrow> pending_action \<Rightarrow> flow_state \<times> pending_action \<times> (string + py option)" where
  "execute_confirmed env s a =
     (let current = fe_targets_now env a in
      if \<not> targets_still_match a current then
        (let (st, b) = resolve_in (fs_store s) a Targets_Drifted (drift_reason a current)
         in (s\<lparr>fs_store := st\<rparr>, b, Inr None))
      else
        let s' = s\<lparr>fs_calls := fs_calls s @ [(pa_id a, pa_tool_name a, pa_arguments a)]\<rparr> in
        (case fe_run env (pa_tool_name a) (pa_arguments a) of
           Inl exc \<Rightarrow> (s', a, Inl exc)
         | Inr result \<Rightarrow>
             let b = a\<lparr>pa_result_excerpt := fe_excerpt env (pa_tool_name a) result\<rparr>;
                 b = (if fe_posts_result env \<and> or_none (pa_thread_id b) \<noteq> None \<and> pa_surface b \<noteq> []
                      then b\<lparr>pa_post_state := ''waiting'', pa_post_content := fe_report env b result\<rparr> else b);
                 (st, c) = resolve_in (fs_store s') b Executed []
             in (case fe_audit env c of
                   None \<Rightarrow> (s'\<lparr>fs_store := st\<rparr>, c, Inr (Some result))
                 | Some exc \<Rightarrow> (s'\<lparr>fs_store := st\<rparr>, c, Inl exc))))"

definition answered_defaults :: "dict option \<Rightarrow> dict" where
  "answered_defaults answered = foldl (\<lambda>d (k, v). dset d k v)
     [(''via'', PNone), (''thread_id'', PNone), (''user_id'', PNone), (''message_id'', PNone)]
     (case answered of None \<Rightarrow> [] | Some d \<Rightarrow> d)"

definition flow_decline :: "flow_env \<Rightarrow> flow_state \<Rightarrow> pending_action \<Rightarrow> pending_action list \<Rightarrow> dict \<Rightarrow> flow_state \<times> flow_result" where
  "flow_decline env s a expired answered =
     (case take_claim (fs_store s) (pa_id a) (''decline:'' @ fe_claimant env) of
        (st, None) \<Rightarrow>
          (s\<lparr>fs_store := st\<rparr>,
           flow_result_of (case store_get st (pa_id a) of
               Some current \<Rightarrow> if pa_outcome current = None then ALREADY_RUNNING else ALREADY_RESOLVED
             | None \<Rightarrow> ALREADY_RESOLVED) (Some (pa_id a)) expired)
      | (st, Some claimed) \<Rightarrow>
          let (st', _) = resolve_in st (claimed\<lparr>pa_confirmation := Some answered\<rparr>) Declined ''declined by the user''
          in (s\<lparr>fs_store := st'\<rparr>, flow_result_of DECLINED (Some (pa_id a)) expired))"

definition flow_execute :: "flow_env \<Rightarrow> flow_state \<Rightarrow> pending_action \<Rightarrow> pending_action list \<Rightarrow> dict \<Rightarrow> flow_state \<times> flow_result" where
  "flow_execute env s a expired answered =
     (case take_claim (fs_store s) (pa_id a) (fe_claimant env) of
        (st, None) \<Rightarrow> (s\<lparr>fs_store := st\<rparr>, flow_result_of ALREADY_RESOLVED (Some (pa_id a)) expired)
      | (st, Some claimed) \<Rightarrow>
          let claimed = claimed\<lparr>pa_confirmation := Some answered\<rparr>;
              (s', b, r) = execute_confirmed env (s\<lparr>fs_store := store_save st claimed\<rparr>) claimed
          in (case r of
                Inl exc \<Rightarrow>
                  let (st', _) = resolve_in (fs_store s') b Failed (''authorised, but the tool did not complete: '' @ exc)
                  in (s'\<lparr>fs_store := st'\<rparr>, flow_result_of FAILED (Some (pa_id b)) expired)
              | Inr _ \<Rightarrow>
                  (case store_get (fs_store s') (pa_id b) of
                     Some refreshed \<Rightarrow>
                       if pa_outcome refreshed = Some Targets_Drifted
                       then (s', flow_result_of TARGETS_DRIFTED (Some (pa_id b)) expired)
                       else (s', flow_result_of EXECUTED (Some (pa_id b)) expired)
                   | None \<Rightarrow> (s', flow_result_of EXECUTED (Some (pa_id b)) expired))))"

definition flow_apply ::
  "flow_env \<Rightarrow> flow_state \<Rightarrow> pending_action \<Rightarrow> verdict \<Rightarrow> int option \<Rightarrow> pending_action list \<Rightarrow> dict option \<Rightarrow> bool
     \<Rightarrow> flow_state \<times> flow_result" where
  "flow_apply env s a v supplied expired answered execute =
     (let answered = answered_defaults answered in
      if v = DECLINE then flow_decline env s a expired answered
      else if int (length (pa_targets a)) > fe_threshold env \<and> supplied \<noteq> Some (int (length (pa_targets a)))
      then (s, flow_result_of THRESHOLD_NOT_MET (Some (pa_id a)) expired)
      else if \<not> execute then (s, flow_result_of WOULD_EXECUTE (Some (pa_id a)) expired)
      else if or_none (fe_unavailable env a) \<noteq> None
      then (s, flow_result_of TOOL_UNAVAILABLE (Some (pa_id a)) expired)
      else flow_execute env s a expired answered)"

subsection \<open>The two routes\<close>

definition reply_answered :: "message \<Rightarrow> dict \<Rightarrow> dict" where
  "reply_answered m ctx =
     [(''via'', PStr (case or_none (ctx_id ctx ''channel'') of Some c \<Rightarrow> ''channel:'' @ c | None \<Rightarrow> ''typed_reply'')),
      (''thread_id'', dget ctx ''thread_id''),
      (''user_id'', dget ctx ''user_id''),
      (''message_id'', (if m_id m = [] then PNone else PStr (m_id m)))]"

definition from_message :: "flow_env \<Rightarrow> flow_state \<Rightarrow> instant \<Rightarrow> message \<Rightarrow> dict option \<Rightarrow> bool \<Rightarrow> flow_state \<times> flow_result" where
  "from_message env s now m ctx execute =
     (let (st, expired) = expire_due (fs_store s) now;
          (st, actions) = open_actions st now;
          s = s\<lparr>fs_store := st\<rparr>;
          pending = answerable_by_typed_reply actions ctx (Some m) in
      if pending = [] then (s, flow_result_of NO_VERDICT None expired)
      else
        let (supplied, stripped) = extract_count (m_content m);
            verdict = recognise (m\<lparr>m_content := stripped\<rparr>) pending ctx in
        if rc_verdict verdict = UNRECOGNISED then
          (if \<not> looks_like_an_answer stripped then (s, flow_result_of NO_VERDICT None expired)
           else (s, flow_result_of UNRECOGNISED_ANSWER (rc_action verdict) expired))
        else (case rc_action verdict of
            None \<Rightarrow> (s, flow_result_of UNRECOGNISED_ANSWER None expired)
          | Some i \<Rightarrow>
              (case store_get st i of
                 None \<Rightarrow> (s, flow_result_of ALREADY_RESOLVED (Some i) expired)
               | Some a \<Rightarrow>
                   if pa_outcome a \<noteq> None then (s, flow_result_of ALREADY_RESOLVED (Some i) expired)
                   else if rc_verdict verdict = CONFIRM \<and> \<not> confirmable_by_typing a
                   then (s, flow_result_of CARD_ONLY (Some (pa_id a)) expired)
                   else flow_apply env s a (rc_verdict verdict) supplied expired
                          (Some (reply_answered m (ctx_or_empty ctx))) execute)))"

definition explicit_answer ::
  "flow_env \<Rightarrow> flow_state \<Rightarrow> instant \<Rightarrow> string \<Rightarrow> bool \<Rightarrow> int option \<Rightarrow> dict option \<Rightarrow> flow_state \<times> flow_result" where
  "explicit_answer env s now i confirm supplied answered =
     (let (st, expired) = expire_due (fs_store s) now; s = s\<lparr>fs_store := st\<rparr> in
      case store_get st i of
        None \<Rightarrow> (s, flow_result_of UNRECOGNISED_ANSWER (Some i) expired)
      | Some a \<Rightarrow>
          if pa_outcome a \<noteq> None then (s, flow_result_of ALREADY_RESOLVED (Some i) expired)
          else if is_expired a now then (s, flow_result_of EXPIRED (Some i) expired)
          else flow_apply env s a (if confirm then CONFIRM else DECLINE) supplied expired
                 (if answered = None \<or> answered = Some [] then Some [(''via'', PStr ''button'')] else answered) True)"

subsection \<open>What one answer can do\<close>

lemma resolve_in_eq:
  "o' = Executed \<or> reason \<noteq> [] \<Longrightarrow> resolve_in st a o' reason =
     (store_save st (a\<lparr>pa_outcome := Some o', pa_outcome_reason := reason\<rparr>), a\<lparr>pa_outcome := Some o', pa_outcome_reason := reason\<rparr>)"
  by (auto simp: resolve_in_def store_resolve_def resolve_action_def)

lemma store_get_claims [simp]: "store_get (st\<lparr>st_claims := cs\<rparr>) i = store_get st i"
  by (simp add: store_get_def)

lemma files_ok_claims [simp]: "files_ok (st\<lparr>st_claims := cs\<rparr>) = files_ok st"
  by (simp add: files_ok_def)

lemma claim_Some:
  assumes "claim st i w = (st', Some b)"
  obtains a where "i \<notin> set (st_claims st)" "store_get st i = Some a" "b = a\<lparr>pa_claimed_by := Some w\<rparr>"
    "st' = store_save (st\<lparr>st_claims := i # st_claims st\<rparr>) b"
  using assms by (auto simp: claim_def claim_link_def claim_take_def Let_def split: if_splits option.splits)

lemma claim_None:
  assumes "claim st i w = (st', None)"
  shows "store_get st' j = store_get st j" "set (st_claims st) \<subseteq> set (st_claims st')" "files_ok st' = files_ok st"
    "store_ids st' = store_ids st" "i \<in> set (st_claims st) \<or> store_get st i = None"
    "j \<in> set (st_claims st') \<Longrightarrow> j \<in> set (st_claims st) \<or> store_get st j = None"
  using assms
  by (auto simp: claim_def claim_link_def claim_take_def Let_def store_ids_def store_get_def split: if_splits option.splits)

text \<open>The action as the winner of the claim holds it.\<close>

definition as_claimed :: "flow_env \<Rightarrow> dict \<Rightarrow> pending_action \<Rightarrow> pending_action" where
  "as_claimed env answered c = c\<lparr>pa_claimed_by := Some (fe_claimant env), pa_confirmation := Some answered\<rparr>"

definition call_of :: "pending_action \<Rightarrow> string \<times> string \<times> dict" where
  "call_of a = (pa_id a, pa_tool_name a, pa_arguments a)"

lemma execute_confirmed_cases:
  assumes "execute_confirmed env s a = (s', b, r)"
  shows "pa_id b = pa_id a \<and> st_claims (fs_store s') = st_claims (fs_store s)
    \<and> (files_ok (fs_store s) \<longrightarrow> files_ok (fs_store s'))
    \<and> (if targets_still_match a (fe_targets_now env a)
       then fs_calls s' = fs_calls s @ [call_of a] \<and>
            (r \<noteq> Inr None \<and> (\<forall>v. r = Inr v \<longrightarrow> pa_outcome b = Some Executed \<and> store_get (fs_store s') (pa_id a) = Some b))
       else fs_calls s' = fs_calls s \<and> r = Inr None \<and> pa_outcome b = Some Targets_Drifted
            \<and> store_get (fs_store s') (pa_id a) = Some b)"
  using assms
  by (auto simp: execute_confirmed_def Let_def resolve_in_eq drift_reason_def call_of_def files_ok_save
      split: if_splits sum.splits option.splits)

lemma flow_execute_cases:
  assumes "flow_execute env s a expired ans = (s', r)" "files_ok (fs_store s)"
  obtains
    (Lost) "fr_outcome r = ALREADY_RESOLVED" "fs_calls s' = fs_calls s" "files_ok (fs_store s')"
      "set (st_claims (fs_store s)) \<subseteq> set (st_claims (fs_store s'))"
      "\<And>j. store_get (fs_store s') j = store_get (fs_store s) j"
      "\<And>j. j \<in> set (st_claims (fs_store s')) \<Longrightarrow> j \<in> set (st_claims (fs_store s)) \<or> store_get (fs_store s) j = None"
      "pa_id a \<in> set (st_claims (fs_store s)) \<or> store_get (fs_store s) (pa_id a) = None"
  | (Won) c b where "store_get (fs_store s) (pa_id a) = Some c" "pa_id a \<notin> set (st_claims (fs_store s))"
      "st_claims (fs_store s') = pa_id a # st_claims (fs_store s)" "files_ok (fs_store s')"
      "store_get (fs_store s') (pa_id a) = Some b"
      "if targets_still_match c (fe_targets_now env (as_claimed env ans c))
       then fs_calls s' = fs_calls s @ [call_of c] \<and>
         (fr_outcome r = EXECUTED \<and> pa_outcome b = Some Executed \<or> fr_outcome r = FAILED \<and> pa_outcome b = Some Failed)
       else fs_calls s' = fs_calls s \<and> fr_outcome r = TARGETS_DRIFTED \<and> pa_outcome b = Some Targets_Drifted"
proof (cases "claim (fs_store s) (pa_id a) (fe_claimant env)")
  case (Pair st oc)
  show thesis
  proof (cases oc)
    case None
    then have cl: "claim (fs_store s) (pa_id a) (fe_claimant env) = (st, None)" using Pair by simp
    have "s' = s\<lparr>fs_store := st\<rparr>" "fr_outcome r = ALREADY_RESOLVED"
      using assms(1) cl by (auto simp: flow_execute_def take_claim_def flow_result_of_def)
    then show thesis using claim_None [OF cl] assms(2) by (intro Lost) auto
  next
    case (Some d)
    then have cl: "claim (fs_store s) (pa_id a) (fe_claimant env) = (st, Some d)" using Pair by simp
    from claim_Some [OF this] obtain c where c: "pa_id a \<notin> set (st_claims (fs_store s))"
      "store_get (fs_store s) (pa_id a) = Some c" "d = c\<lparr>pa_claimed_by := Some (fe_claimant env)\<rparr>"
      "st = store_save ((fs_store s)\<lparr>st_claims := pa_id a # st_claims (fs_store s)\<rparr>) d" by blast
    have idc: "pa_id c = pa_id a" using c(2) assms(2) files_ok_get by blast
    let ?d = "as_claimed env ans c"
    have d: "d\<lparr>pa_confirmation := Some ans\<rparr> = ?d" using c(3) by (simp add: as_claimed_def)
    obtain s1 b1 r1 where x: "execute_confirmed env (s\<lparr>fs_store := store_save st ?d\<rparr>) ?d = (s1, b1, r1)"
      by (metis prod_cases3)
    have ok: "files_ok (store_save st ?d)" using c(4) assms(2) by (simp add: files_ok_save)
    have ids: "pa_id ?d = pa_id a" "call_of ?d = call_of c" "pa_targets ?d = pa_targets c"
      using idc by (simp_all add: as_claimed_def call_of_def)
    note ex = execute_confirmed_cases [OF x, simplified ids]
    have tm: "targets_still_match ?d ts = targets_still_match c ts" for ts
      by (simp add: targets_still_match_def ids)
    have cl1: "st_claims (fs_store s1) = pa_id a # st_claims (fs_store s)" using ex c(4) by simp
    have ok1: "files_ok (fs_store s1)" using ex ok by simp
    show thesis
    proof (cases r1)
      case (Inl exc)
      then have "s' = s1\<lparr>fs_store := store_save (fs_store s1)
          (b1\<lparr>pa_outcome := Some Failed, pa_outcome_reason := ''authorised, but the tool did not complete: '' @ exc\<rparr>)\<rparr>"
        "fr_outcome r = FAILED"
        using assms(1) cl d x by (auto simp: flow_execute_def take_claim_def resolve_in_eq flow_result_of_def)
      then show thesis using ex c cl1 ok1 Inl tm by (intro Won) (auto simp: files_ok_save split: if_splits)
    next
      case (Inr v)
      then have "s' = s1" "fr_outcome r = (case store_get (fs_store s1) (pa_id b1) of
          Some f \<Rightarrow> if pa_outcome f = Some Targets_Drifted then TARGETS_DRIFTED else EXECUTED | None \<Rightarrow> EXECUTED)"
        using assms(1) cl d x
        by (auto simp: flow_execute_def take_claim_def flow_result_of_def split: option.splits if_splits)
      then show thesis using ex c cl1 ok1 Inr tm by (intro Won) (auto split: if_splits)
    qed
  qed
qed

lemma flow_decline_cases:
  assumes "flow_decline env s a expired ans = (s', r)" "files_ok (fs_store s)"
  obtains
    (Lost) "fr_outcome r \<in> {ALREADY_RUNNING, ALREADY_RESOLVED}" "fs_calls s' = fs_calls s" "files_ok (fs_store s')"
      "set (st_claims (fs_store s)) \<subseteq> set (st_claims (fs_store s'))"
      "\<And>j. store_get (fs_store s') j = store_get (fs_store s) j"
      "\<And>j. j \<in> set (st_claims (fs_store s')) \<Longrightarrow> j \<in> set (st_claims (fs_store s)) \<or> store_get (fs_store s) j = None"
      "pa_id a \<in> set (st_claims (fs_store s)) \<or> store_get (fs_store s) (pa_id a) = None"
  | (Won) b where "fr_outcome r = DECLINED" "fs_calls s' = fs_calls s" "files_ok (fs_store s')"
      "pa_id a \<notin> set (st_claims (fs_store s))" "st_claims (fs_store s') = pa_id a # st_claims (fs_store s)"
      "store_get (fs_store s') (pa_id a) = Some b" "pa_outcome b = Some Declined"
proof (cases "claim (fs_store s) (pa_id a) (''decline:'' @ fe_claimant env)")
  case (Pair st oc)
  show thesis
  proof (cases oc)
    case None
    then have cl: "claim (fs_store s) (pa_id a) (''decline:'' @ fe_claimant env) = (st, None)" using Pair by simp
    have "s' = s\<lparr>fs_store := st\<rparr>" "fr_outcome r \<in> {ALREADY_RUNNING, ALREADY_RESOLVED}"
      using assms(1) cl by (auto simp: flow_decline_def take_claim_def flow_result_of_def split: option.splits if_splits)
    then show thesis using claim_None [OF cl] assms(2) by (intro Lost) auto
  next
    case (Some d)
    then have cl: "claim (fs_store s) (pa_id a) (''decline:'' @ fe_claimant env) = (st, Some d)" using Pair by simp
    from claim_Some [OF this] obtain c where c: "pa_id a \<notin> set (st_claims (fs_store s))"
      "store_get (fs_store s) (pa_id a) = Some c" "d = c\<lparr>pa_claimed_by := Some (''decline:'' @ fe_claimant env)\<rparr>"
      "st = store_save ((fs_store s)\<lparr>st_claims := pa_id a # st_claims (fs_store s)\<rparr>) d" by blast
    have "pa_id c = pa_id a" using c(2) assms(2) files_ok_get by blast
    then show thesis using assms cl c
      by (intro Won) (auto simp: flow_decline_def take_claim_def resolve_in_eq flow_result_of_def files_ok_save)
  qed
qed

text \<open>What the whole of \<open>flow_apply\<close> can do to the calls made, the claims and the addressed action.\<close>

lemma flow_apply_cases:
  assumes "flow_apply env s a v supplied expired ans execute = (s', r)" "files_ok (fs_store s)"
  obtains
    (Nothing) "fs_calls s' = fs_calls s" "files_ok (fs_store s')"
      "set (st_claims (fs_store s)) \<subseteq> set (st_claims (fs_store s'))"
      "\<And>j. store_get (fs_store s') j = store_get (fs_store s) j"
      "\<And>j. j \<in> set (st_claims (fs_store s')) \<Longrightarrow> j \<in> set (st_claims (fs_store s)) \<or> store_get (fs_store s) j = None"
      "fr_outcome r \<notin> {EXECUTED, FAILED, DECLINED, TARGETS_DRIFTED}"
  | (Resolved) c b where "store_get (fs_store s) (pa_id a) = Some c" "pa_id a \<notin> set (st_claims (fs_store s))"
      "st_claims (fs_store s') = pa_id a # st_claims (fs_store s)" "files_ok (fs_store s')"
      "store_get (fs_store s') (pa_id a) = Some b"
      "(v = DECLINE \<and> fs_calls s' = fs_calls s \<and> fr_outcome r = DECLINED \<and> pa_outcome b = Some Declined)
       \<or> (v \<noteq> DECLINE \<and> execute \<and> or_none (fe_unavailable env a) = None
          \<and> (int (length (pa_targets a)) > fe_threshold env \<longrightarrow> supplied = Some (int (length (pa_targets a))))
          \<and> (if targets_still_match c (fe_targets_now env (as_claimed env (answered_defaults ans) c))
              then fs_calls s' = fs_calls s @ [call_of c] \<and>
                (fr_outcome r = EXECUTED \<and> pa_outcome b = Some Executed \<or> fr_outcome r = FAILED \<and> pa_outcome b = Some Failed)
              else fs_calls s' = fs_calls s \<and> fr_outcome r = TARGETS_DRIFTED \<and> pa_outcome b = Some Targets_Drifted))"
proof -
  consider
      (D) "v = DECLINE" "flow_decline env s a expired (answered_defaults ans) = (s', r)"
    | (N) "s' = s" "fr_outcome r \<in> {THRESHOLD_NOT_MET, WOULD_EXECUTE, TOOL_UNAVAILABLE}"
    | (E) "v \<noteq> DECLINE" "execute" "or_none (fe_unavailable env a) = None"
        "int (length (pa_targets a)) > fe_threshold env \<longrightarrow> supplied = Some (int (length (pa_targets a)))"
        "flow_execute env s a expired (answered_defaults ans) = (s', r)"
    using assms(1) by (auto simp: flow_apply_def Let_def flow_result_of_def split: if_splits)
  then show thesis
  proof cases
    case D
    show thesis using D(2) assms(2)
    proof (cases rule: flow_decline_cases)
      case Lost
      then show thesis by (intro Nothing) auto
    next
      case (Won b)
      moreover have "store_get (fs_store s) (pa_id a) \<noteq> None"
        using D(2) Won(1) claim_None(5)
        by (auto simp: flow_decline_def take_claim_def flow_result_of_def claim_def claim_link_def claim_take_def
            split: option.splits if_splits prod.splits)
      ultimately show thesis using D(1) by (auto intro: Resolved)
    qed
  next
    case N
    then show thesis using assms(2) by (intro Nothing) auto
  next
    case E
    show thesis using E(5) assms(2)
    proof (cases rule: flow_execute_cases)
      case Lost
      then show thesis by (intro Nothing) auto
    next
      case (Won c b)
      then show thesis using E(1-4) by (intro Resolved) (auto split: if_splits)
    qed
  qed
qed

subsection \<open>The typed route\<close>

lemma open_actions_facts:
  assumes "files_ok st" "expire_due st now = (st1, expired)" "open_actions st1 now = (st2, acts)"
  shows "files_ok st2" "st_claims st2 = st_claims st"
    "store_get st2 i = map_option (\<lambda>a. case expire_one now a of None \<Rightarrow> a | Some b \<Rightarrow> b) (store_get st i)"
    "a \<in> set acts \<longleftrightarrow> store_get st (pa_id a) = Some a \<and> is_open now a"
proof -
  have st1: "st1 = fst (expire_due st now)" and st2: "st2 = fst (expire_due st1 now)"
    and acts: "acts = listing store_get (is_open now) st2 (store_ids st2)"
    using assms(2,3) by (auto simp: open_actions_def split: prod.splits)
  note fr = expire_due_frame [OF assms(1), of now]
  have ok1: "files_ok st1" using fr st1 by simp
  note fr1 = expire_due_frame [OF ok1, of now]
  show ok2: "files_ok st2" "st_claims st2 = st_claims st" using fr fr1 st1 st2 by simp_all
  have twice: "expire_one now b = None" if "expire_one now a = Some b" for a b
    using that by (auto simp: expire_one_def resolve_action_def split: if_splits)
  have g: "store_get st2 i = map_option (\<lambda>a. case expire_one now a of None \<Rightarrow> a | Some b \<Rightarrow> b) (store_get st i)" for i
  proof -
    have "store_get st2 i = map_option f (store_get st1 i)" "store_get st1 i = map_option f (store_get st i)"
      if "f = (\<lambda>a. case expire_one now a of None \<Rightarrow> a | Some b \<Rightarrow> b)" for f
      using get_expire_due [OF ok1, of now i] get_expire_due [OF assms(1), of now i] unfolding st2 [symmetric] st1 [symmetric] that
      by (auto split: option.splits)
    then show ?thesis using twice by (cases "store_get st i") (auto split: option.splits)
  qed
  show "store_get st2 i = map_option (\<lambda>a. case expire_one now a of None \<Rightarrow> a | Some b \<Rightarrow> b) (store_get st i)" by (rule g)
  have open_same: "is_open now a \<Longrightarrow> store_get st2 j = Some a \<longleftrightarrow> store_get st j = Some a" for j
  proof -
    assume "is_open now a"
    then have "expire_one now a = None" by (simp add: is_open_def expire_one_def)
    moreover have "b \<noteq> a" if "expire_one now c = Some b" for b c
      using that \<open>is_open now a\<close> by (auto simp: expire_one_Some is_open_def)
    ultimately show ?thesis unfolding g by (cases "store_get st j") (auto split: option.splits)
  qed
  show "a \<in> set acts \<longleftrightarrow> store_get st (pa_id a) = Some a \<and> is_open now a"
    unfolding acts in_listing
  proof
    assume "(\<exists>i \<in> set (store_ids st2). store_get st2 i = Some a) \<and> is_open now a"
    then obtain j where "store_get st2 j = Some a" "is_open now a" by blast
    then show "store_get st (pa_id a) = Some a \<and> is_open now a"
      using open_same [of j] files_ok_get [OF ok2(1), of j a] by simp
  next
    assume a: "store_get st (pa_id a) = Some a \<and> is_open now a"
    then have "store_get st2 (pa_id a) = Some a" using open_same [of "pa_id a"] by simp
    then show "(\<exists>i \<in> set (store_ids st2). store_get st2 i = Some a) \<and> is_open now a"
      using a store_ids_complete by blast
  qed
qed

lemma find_unique: "find P xs = Some x \<Longrightarrow> P x \<and> x \<in> set xs"
  by (induction xs) (auto split: if_splits)

lemma answerable_facts:
  "a \<in> set (answerable_by_typed_reply acts ctx (Some m)) \<longleftrightarrow> a \<in> set acts \<and> turn_may_answer (Some m) ctx
     \<and> same_owner (pa_owner_id a) (ctx_id (ctx_or_empty ctx) ''user_id'')
     \<and> same_key (pa_thread_id a) (ctx_id (ctx_or_empty ctx) ''thread_id'')"
  by (auto simp: answerable_by_typed_reply_def Let_def)

text \<open>What is left of a reply, without the count it may name and the id it may address, is a form of yes.\<close>

definition confirming_text :: "message \<Rightarrow> string \<Rightarrow> bool" where
  "confirming_text m i = (py_strip (replace_all i [] (normalise (snd (extract_count (m_content m))))) \<in> set CONFIRM_FORMS)"

text \<open>
  Every way a typed reply can end: the calls are unchanged, or it was applied to an open plan of
  the speaker, in the conversation it was stated in.
\<close>

lemma from_message_cases:
  assumes "from_message env s now m ctx execute = (s', r)" "files_ok (fs_store s)"
  obtains
    (Quiet) "fs_calls s' = fs_calls s" "files_ok (fs_store s')" "st_claims (fs_store s') = st_claims (fs_store s)"
      "\<And>j. store_get (fs_store s') j =
         map_option (\<lambda>a. case expire_one now a of None \<Rightarrow> a | Some b \<Rightarrow> b) (store_get (fs_store s) j)"
      "fr_outcome r \<notin> {EXECUTED, FAILED, DECLINED, TARGETS_DRIFTED}"
  | (Applied) s1 a v expired where
      "fs_calls s1 = fs_calls s" "files_ok (fs_store s1)" "st_claims (fs_store s1) = st_claims (fs_store s)"
      "\<And>j. store_get (fs_store s1) j =
         map_option (\<lambda>a. case expire_one now a of None \<Rightarrow> a | Some b \<Rightarrow> b) (store_get (fs_store s) j)"
      "store_get (fs_store s) (pa_id a) = Some a" "is_open now a"
      "turn_may_answer (Some m) ctx" "is_user_turn m" "\<not> is_synthetic_turn ctx"
      "same_owner (pa_owner_id a) (ctx_id (ctx_or_empty ctx) ''user_id'')"
      "same_key (pa_thread_id a) (ctx_id (ctx_or_empty ctx) ''thread_id'')"
      "v = CONFIRM \<or> v = DECLINE" "v = CONFIRM \<Longrightarrow> confirmable_by_typing a"
      "flow_apply env s1 a v (fst (extract_count (m_content m))) expired
         (Some (reply_answered m (ctx_or_empty ctx))) execute = (s', r)"
      "v = CONFIRM \<Longrightarrow> confirming_text m (pa_id a)"
proof -
  obtain st1 expired where e: "expire_due (fs_store s) now = (st1, expired)" by force
  obtain st2 acts where o: "open_actions st1 now = (st2, acts)" by force
  note of = open_actions_facts [OF assms(2) e o]
  let ?s = "s\<lparr>fs_store := st2\<rparr>" and ?p = "answerable_by_typed_reply acts ctx (Some m)"
  obtain sup str where x: "extract_count (m_content m) = (sup, str)" by force
  let ?v = "recognise (m\<lparr>m_content := str\<rparr>) ?p ctx"
  show thesis
  proof (cases "\<exists>i a. rc_action ?v = Some i \<and> rc_verdict ?v \<noteq> UNRECOGNISED \<and> ?p \<noteq> [] \<and> store_get st2 i = Some a
      \<and> pa_outcome a = None \<and> \<not> (rc_verdict ?v = CONFIRM \<and> \<not> confirmable_by_typing a)")
    case False
    then have "fst (from_message env s now m ctx execute) = ?s
        \<and> fr_outcome (snd (from_message env s now m ctx execute)) \<notin> {EXECUTED, FAILED, DECLINED, TARGETS_DRIFTED}"
      by (auto simp: from_message_def e o x Let_def flow_result_of_def split: option.splits)
    then have "s' = ?s" "fr_outcome r \<notin> {EXECUTED, FAILED, DECLINED, TARGETS_DRIFTED}"
      unfolding assms(1) by simp_all
    then show thesis using of by (intro Quiet) auto
  next
    case True
    then obtain i a where i: "rc_action ?v = Some i" "rc_verdict ?v \<noteq> UNRECOGNISED" "?p \<noteq> []" "store_get st2 i = Some a"
      "pa_outcome a = None" "rc_verdict ?v = CONFIRM \<longrightarrow> confirmable_by_typing a" by blast
    note vr = verdict_needs [OF refl i(2)]
    from vr i(1) obtain b where b: "b \<in> set ?p" "i = pa_id b" by auto
    then have "b \<in> set acts" by (simp add: answerable_facts)
    then have sb: "store_get (fs_store s) (pa_id b) = Some b" "is_open now b" using of(4) by auto
    then have "expire_one now b = None" by (auto simp: is_open_def expire_one_def)
    then have ab: "a = b" using i(4) b(2) sb(1) of(3) by simp
    have "flow_apply env ?s a (rc_verdict ?v) sup expired (Some (reply_answered m (ctx_or_empty ctx))) execute = (s', r)"
      using assms(1) i by (simp add: from_message_def e o x Let_def split: if_splits)
    moreover have "rc_verdict ?v = CONFIRM \<or> rc_verdict ?v = DECLINE" using i(2) by (cases "rc_verdict ?v") auto
    moreover have "is_user_turn (m\<lparr>m_content := str\<rparr>)" "\<not> is_synthetic_turn ctx"
      using vr by blast+
    then have "is_user_turn m" "\<not> is_synthetic_turn ctx"
      by (simp_all add: is_user_turn_def is_tool_result_def marked_def cong: if_cong option.case_cong split: if_splits)
    moreover have "turn_may_answer (Some m) ctx"
      "same_owner (pa_owner_id a) (ctx_id (ctx_or_empty ctx) ''user_id'')"
      "same_key (pa_thread_id a) (ctx_id (ctx_or_empty ctx) ''thread_id'')"
      using b(1) unfolding ab answerable_facts by simp_all
    moreover have "store_get (fs_store s) (pa_id a) = Some a" "is_open now a" using sb unfolding ab by simp_all
    moreover have "fs_store ?s = st2" "fs_calls ?s = fs_calls s" "sup = fst (extract_count (m_content m))"
      by (simp_all add: x)
    moreover have "rc_verdict ?v = CONFIRM \<Longrightarrow> confirming_text m (pa_id a)"
      using vr i(1) b(2) unfolding ab confirming_text_def by (auto simp: x)
    ultimately show thesis
      by (intro Applied [of ?s a "rc_verdict ?v" expired]) (simp_all only: of i simp_thms)
  qed
qed

lemma typed_call:
  assumes "from_message env s now m ctx execute = (s', r)" "files_ok (fs_store s)" "fs_calls s' \<noteq> fs_calls s"
  shows "\<exists>a. store_get (fs_store s) (pa_id a) = Some a \<and> fs_calls s' = fs_calls s @ [call_of a]
    \<and> pa_outcome a = None \<and> now < pa_expires_at a \<and> pa_id a \<notin> set (st_claims (fs_store s)) \<and> pa_origin a = ''user''
    \<and> is_user_turn m \<and> turn_may_answer (Some m) ctx \<and> execute \<and> confirming_text m (pa_id a)
    \<and> same_owner (pa_owner_id a) (ctx_id (ctx_or_empty ctx) ''user_id'')
    \<and> same_key (pa_thread_id a) (ctx_id (ctx_or_empty ctx) ''thread_id'')
    \<and> (int (length (pa_targets a)) > fe_threshold env \<longrightarrow>
         fst (extract_count (m_content m)) = Some (int (length (pa_targets a))))
    \<and> (\<exists>ans. targets_still_match a (fe_targets_now env (as_claimed env ans a)))"
  using assms(1,2)
proof (cases rule: from_message_cases)
  case Quiet
  then show ?thesis using assms(3) by simp
next
  case (Applied s1 a v expired)
  have "expire_one now a = None" using Applied(6) by (simp add: is_open_def expire_one_def)
  then have sa: "store_get (fs_store s1) (pa_id a) = Some a" using Applied(4,5) by simp
  show ?thesis using Applied(14,2)
  proof (cases rule: flow_apply_cases)
    case Nothing
    then show ?thesis using assms(3) Applied(1) by simp
  next
    case (Resolved c b)
    then have "c = a" "v \<noteq> DECLINE" using sa assms(3) Applied(1) by auto
    then show ?thesis
      using Resolved Applied assms(3)
      by (intro exI [of _ a]) (auto simp: is_open_def is_expired_def confirmable_by_typing_def split: if_splits)
  qed
qed

text \<open>
  C4. What a typed reply can run. If a reply makes any call at all, it makes exactly one, and it is
  the stored call of an action that was open, unexpired and unclaimed, that the person's own
  request caused, stated in this conversation for this speaker; the reply is the person's own
  tagged message, on a turn that is neither scheduled nor handed to an agent, and its text, without
  the count and the id, is one of the closed set of confirming forms; above the scope threshold it
  names the exact number of targets; and the targets are still the recorded ones.
\<close>

theorem typed_reply_runs_only_own_plan:
  assumes "from_message env s now m ctx execute = (s', r)" "files_ok (fs_store s)" "fs_calls s' \<noteq> fs_calls s"
  shows "\<exists>a. store_get (fs_store s) (pa_id a) = Some a \<and> fs_calls s' = fs_calls s @ [call_of a]
    \<and> pa_outcome a = None \<and> now < pa_expires_at a \<and> pa_id a \<notin> set (st_claims (fs_store s)) \<and> pa_origin a = ''user''
    \<and> is_user_turn m \<and> turn_may_answer (Some m) ctx \<and> execute \<and> confirming_text m (pa_id a)
    \<and> same_owner (pa_owner_id a) (ctx_id (ctx_or_empty ctx) ''user_id'')
    \<and> same_key (pa_thread_id a) (ctx_id (ctx_or_empty ctx) ''thread_id'')
    \<and> (int (length (pa_targets a)) > fe_threshold env \<longrightarrow>
         fst (extract_count (m_content m)) = Some (int (length (pa_targets a))))
    \<and> (\<exists>ans. targets_still_match a (fe_targets_now env (as_claimed env ans a)))"
  by (rule typed_call [OF assms])

lemma explicit_cases:
  assumes "explicit_answer env s now i confirm supplied ans = (s', r)" "files_ok (fs_store s)"
  obtains
    (Quiet) "fs_calls s' = fs_calls s" "files_ok (fs_store s')" "st_claims (fs_store s') = st_claims (fs_store s)"
      "\<And>j. store_get (fs_store s') j =
         map_option (\<lambda>a. case expire_one now a of None \<Rightarrow> a | Some b \<Rightarrow> b) (store_get (fs_store s) j)"
      "fr_outcome r \<notin> {EXECUTED, FAILED, DECLINED, TARGETS_DRIFTED}"
  | (Applied) s1 a v expired ans' where
      "fs_calls s1 = fs_calls s" "files_ok (fs_store s1)" "st_claims (fs_store s1) = st_claims (fs_store s)"
      "\<And>j. store_get (fs_store s1) j =
         map_option (\<lambda>a. case expire_one now a of None \<Rightarrow> a | Some b \<Rightarrow> b) (store_get (fs_store s) j)"
      "store_get (fs_store s) i = Some a" "pa_id a = i" "is_open now a" "v = (if confirm then CONFIRM else DECLINE)"
      "flow_apply env s1 a v supplied expired ans' True = (s', r)"
proof -
  obtain st1 expired where e: "expire_due (fs_store s) now = (st1, expired)" by force
  have g: "store_get st1 j = map_option (\<lambda>a. case expire_one now a of None \<Rightarrow> a | Some b \<Rightarrow> b) (store_get (fs_store s) j)" for j
    using get_expire_due [OF assms(2), of now j] e by (auto split: option.splits)
  have fr: "files_ok st1" "st_claims st1 = st_claims (fs_store s)"
    using expire_due_frame [OF assms(2), of now] e by simp_all
  let ?s = "s\<lparr>fs_store := st1\<rparr>"
  show thesis
  proof (cases "\<exists>a. store_get st1 i = Some a \<and> is_open now a")
    case False
    then have "s' = ?s" "fr_outcome r \<notin> {EXECUTED, FAILED, DECLINED, TARGETS_DRIFTED}"
      using assms(1) by (cases "store_get st1 i"; auto simp: explicit_answer_def e Let_def flow_result_of_def is_open_def split: if_splits)+
    then show thesis using g fr by (intro Quiet) simp_all
  next
    case True
    then obtain a where a: "store_get st1 i = Some a" "is_open now a" by blast
    from a(1) obtain c where c: "store_get (fs_store s) i = Some c" "a = (case expire_one now c of None \<Rightarrow> c | Some b \<Rightarrow> b)"
      unfolding g by auto
    have "a = c" using c(2) a(2) by (auto simp: expire_one_Some is_open_def split: option.splits)
    moreover have "pa_id a = i" using fr(1) a(1) files_ok_get by blast
    moreover have "flow_apply env ?s a (if confirm then CONFIRM else DECLINE) supplied expired
        (if ans = None \<or> ans = Some [] then Some [(''via'', PStr ''button'')] else ans) True = (s', r)"
      using assms(1) a by (simp add: explicit_answer_def e is_open_def split: if_splits)
    moreover have "is_open now c" using a(2) \<open>a = c\<close> by simp
    moreover have "fs_store ?s = st1" "fs_calls ?s = fs_calls s" by simp_all
    ultimately show thesis
      by (intro Applied [of ?s a "if confirm then CONFIRM else DECLINE" expired]) (simp_all only: a c g fr)
  qed
qed

lemma button_call:
  assumes "explicit_answer env s now i confirm supplied ans = (s', r)" "files_ok (fs_store s)" "fs_calls s' \<noteq> fs_calls s"
  shows "\<exists>a. store_get (fs_store s) i = Some a \<and> fs_calls s' = fs_calls s @ [call_of a] \<and> confirm
    \<and> pa_outcome a = None \<and> now < pa_expires_at a \<and> i \<notin> set (st_claims (fs_store s))
    \<and> or_none (fe_unavailable env a) = None
    \<and> (int (length (pa_targets a)) > fe_threshold env \<longrightarrow> supplied = Some (int (length (pa_targets a))))
    \<and> (\<exists>ans. targets_still_match a (fe_targets_now env (as_claimed env ans a)))"
  using assms(1,2)
proof (cases rule: explicit_cases)
  case Quiet
  then show ?thesis using assms(3) by simp
next
  case (Applied s1 a v expired ans')
  have "expire_one now a = None" using Applied(7) by (simp add: is_open_def expire_one_def)
  then have sa: "store_get (fs_store s1) (pa_id a) = Some a" using Applied(4,5,6) by simp
  show ?thesis using Applied(9,2)
  proof (cases rule: flow_apply_cases)
    case Nothing
    then show ?thesis using assms(3) Applied(1) by simp
  next
    case (Resolved c b)
    then have "c = a" "v \<noteq> DECLINE" using sa assms(3) Applied(1) by auto
    then show ?thesis
      using Resolved Applied assms(3)
      by (intro exI [of _ a]) (auto simp: is_open_def is_expired_def split: if_splits)
  qed
qed

text \<open>
  C10. What the button can run. A press on a card makes at most one call, and only a confirming press
  on an open, unexpired, unclaimed action whose tool is available, with the exact number of targets
  above the scope threshold and with the targets still the recorded ones; it is the stored call.
\<close>

theorem button_runs_only_open_action:
  assumes "explicit_answer env s now i confirm supplied ans = (s', r)" "files_ok (fs_store s)" "fs_calls s' \<noteq> fs_calls s"
  shows "\<exists>a. store_get (fs_store s) i = Some a \<and> fs_calls s' = fs_calls s @ [call_of a] \<and> confirm
    \<and> pa_outcome a = None \<and> now < pa_expires_at a \<and> i \<notin> set (st_claims (fs_store s))
    \<and> or_none (fe_unavailable env a) = None
    \<and> (int (length (pa_targets a)) > fe_threshold env \<longrightarrow> supplied = Some (int (length (pa_targets a))))
    \<and> (\<exists>ans. targets_still_match a (fe_targets_now env (as_claimed env ans a)))"
  by (rule button_call [OF assms])

subsection \<open>Sequences of answers\<close>

datatype answer =
    Typed message "dict option" bool
  | Button string bool "int option" "dict option"

fun answer_step :: "flow_state \<Rightarrow> flow_env \<times> instant \<times> answer \<Rightarrow> flow_state \<times> flow_result" where
  "answer_step s (env, now, Typed m ctx execute) = from_message env s now m ctx execute"
| "answer_step s (env, now, Button i confirm supplied ans) = explicit_answer env s now i confirm supplied ans"

definition answer_run :: "flow_state \<Rightarrow> (flow_env \<times> instant \<times> answer) list \<Rightarrow> flow_state" where
  "answer_run s evs = foldl (\<lambda>s e. fst (answer_step s e)) s evs"

text \<open>Every call was made for an action whose claim is taken, and no action has two calls.\<close>

definition calls_ok :: "flow_state \<Rightarrow> bool" where
  "calls_ok s = (files_ok (fs_store s) \<and> distinct (map fst (fs_calls s))
     \<and> fst ` set (fs_calls s) \<subseteq> set (st_claims (fs_store s)))"

lemma calls_ok_apply:
  assumes "flow_apply env s a v supplied expired ans execute = (s', r)" "calls_ok s"
  shows "calls_ok s'"
proof -
  have "files_ok (fs_store s)" using assms(2) by (simp add: calls_ok_def)
  with assms(1) show ?thesis
  proof (cases rule: flow_apply_cases)
    case Nothing
    then show ?thesis using assms(2) by (auto simp: calls_ok_def)
  next
    case (Resolved c b)
    have "pa_id c = pa_id a" using assms(2) Resolved(1) files_ok_get by (auto simp: calls_ok_def)
    then have "fst (call_of c) = pa_id a" by (simp add: call_of_def)
    moreover have "fs_calls s' = fs_calls s \<or> fs_calls s' = fs_calls s @ [call_of c]"
      using Resolved(6) by (auto split: if_splits)
    moreover have sub: "set (map fst (fs_calls s)) \<subseteq> set (st_claims (fs_store s))" and "distinct (map fst (fs_calls s))"
      using assms(2) by (simp_all add: calls_ok_def)
    moreover have "pa_id a \<notin> set (map fst (fs_calls s))" using sub Resolved(2) by blast
    ultimately have "distinct (map fst (fs_calls s')) \<and> set (map fst (fs_calls s')) \<subseteq> set (st_claims (fs_store s'))"
      using Resolved(3) by (elim disjE) (simp_all add: subset_insertI2)
    then show ?thesis using Resolved(4) by (simp add: calls_ok_def)
  qed
qed

lemma calls_ok_step: "calls_ok s \<Longrightarrow> calls_ok (fst (answer_step s e))"
proof -
  assume ok: "calls_ok s"
  then have f: "files_ok (fs_store s)" by (simp add: calls_ok_def)
  obtain s' r where step: "answer_step s e = (s', r)" by force
  obtain env now a where e: "e = (env, now, a)" by (cases e)
  have "calls_ok s'"
  proof (cases a)
    case (Typed m ctx execute)
    then have "from_message env s now m ctx execute = (s', r)" using step e by simp
    then show ?thesis using f
    proof (cases rule: from_message_cases)
      case Quiet
      then show ?thesis using ok by (simp add: calls_ok_def)
    next
      case (Applied s1 a v expired)
      then have "calls_ok s1" using ok by (simp add: calls_ok_def)
      then show ?thesis using Applied calls_ok_apply by blast
    qed
  next
    case (Button i confirm supplied ans)
    then have "explicit_answer env s now i confirm supplied ans = (s', r)" using step e by simp
    then show ?thesis using f
    proof (cases rule: explicit_cases)
      case Quiet
      then show ?thesis using ok by (simp add: calls_ok_def)
    next
      case (Applied s1 a v expired ans')
      then have "calls_ok s1" using ok by (simp add: calls_ok_def)
      then show ?thesis using Applied calls_ok_apply by blast
    qed
  qed
  then show ?thesis using step by simp
qed

lemma calls_ok_run: "calls_ok s \<Longrightarrow> calls_ok (answer_run s evs)"
  unfolding answer_run_def by (induction evs arbitrary: s) (simp_all add: calls_ok_step)

text \<open>
  No action runs twice: over any sequence of typed replies and button presses, by anyone, at any
  times and whatever the tools, the audit and the rules do, each action is run at most once.
\<close>

theorem each_action_runs_at_most_once:
  assumes "files_ok (fs_store s)" "fs_calls s = []"
  shows "distinct (map fst (fs_calls (answer_run s evs)))"
  using calls_ok_run [of s evs] assms by (simp add: calls_ok_def)

text \<open>
  C33. A claimed action is never left open: when an answer takes the claim of an action, that action
  is resolved by the time the answer is reported, as declined, executed, failed or drifted, even
  when the tool raises.
\<close>

theorem claimed_action_is_resolved:
  assumes "answer_step s e = (s', r)" "files_ok (fs_store s)"
    and "i \<in> set (st_claims (fs_store s'))" "i \<notin> set (st_claims (fs_store s))"
    and "store_get (fs_store s) i = Some a"
  shows "\<exists>b. store_get (fs_store s') i = Some b
    \<and> pa_outcome b \<in> {Some Declined, Some Executed, Some Failed, Some Targets_Drifted}"
proof -
  have applied: ?thesis
    if "flow_apply env s1 c v supplied expired ans execute = (s', r)" "files_ok (fs_store s1)"
      "st_claims (fs_store s1) = st_claims (fs_store s)" "store_get (fs_store s1) i \<noteq> None"
    for env s1 c v supplied expired ans execute
    using that(1,2)
  proof (cases rule: flow_apply_cases)
    case Nothing
    then show ?thesis using Nothing(5) [of i] assms(3,4) that(3,4) by simp
  next
    case (Resolved d b)
    then have "i = pa_id c" using assms(3,4) that(3) by auto
    then show ?thesis using Resolved by (auto split: if_splits)
  qed
  obtain env now ans where e: "e = (env, now, ans)" by (cases e)
  show ?thesis
  proof (cases ans)
    case (Typed m ctx execute)
    then have "from_message env s now m ctx execute = (s', r)" using assms(1) e by simp
    then show ?thesis using assms(2)
    proof (cases rule: from_message_cases)
      case Quiet
      then show ?thesis using assms(3,4) by simp
    next
      case (Applied s1 c v expired)
      then have "store_get (fs_store s1) i \<noteq> None" using assms(5) by simp
      then show ?thesis using Applied applied by blast
    qed
  next
    case (Button j confirm supplied ans')
    then have "explicit_answer env s now j confirm supplied ans' = (s', r)" using assms(1) e by simp
    then show ?thesis using assms(2)
    proof (cases rule: explicit_cases)
      case Quiet
      then show ?thesis using assms(3,4) by simp
    next
      case (Applied s1 c v expired ans'')
      then have "store_get (fs_store s1) i \<noteq> None" using assms(5) by simp
      then show ?thesis using Applied applied by blast
    qed
  qed
qed

subsection \<open>A concrete conversation\<close>

definition sample_env :: flow_env where
  "sample_env = \<lparr>fe_threshold = 10, fe_claimant = ''worker-1'', fe_unavailable = (\<lambda>a. None), fe_targets_now = pa_targets,
     fe_run = (\<lambda>t args. Inr PNone), fe_excerpt = (\<lambda>t r. ''done''), fe_posts_result = False,
     fe_report = (\<lambda>a r. []), fe_audit = (\<lambda>a. None)\<rparr>"

definition sample_flow :: flow_state where
  "sample_flow = \<lparr>fs_store = sample_store, fs_calls = []\<rparr>"

definition sample_ctx :: "dict option" where
  "sample_ctx = Some [(''user_id'', PStr ''u1''), (''thread_id'', PStr ''t1'')]"

lemma sample_typed_runs:
  "fs_calls (fst (from_message sample_env sample_flow 1000 (typed ''yes'') sample_ctx True)) = [call_of dated_action]"
  by code_simp

lemma sample_button_runs:
  "fs_calls (fst (explicit_answer sample_env sample_flow 1000 ''0123456789ab'' True None None)) = [call_of dated_action]"
  by code_simp

theorem typed_reply_runs_only_own_plan_witness:
  "\<exists>a. store_get sample_store (pa_id a) = Some a \<and> pa_origin a = ''user''"
proof -
  obtain s' r where x: "from_message sample_env sample_flow 1000 (typed ''yes'') sample_ctx True = (s', r)" by force
  have ne: "fs_calls s' \<noteq> fs_calls sample_flow" using sample_typed_runs x by (simp add: sample_flow_def)
  have "files_ok (fs_store sample_flow)" using files_ok_sample by (simp add: sample_flow_def)
  from typed_reply_runs_only_own_plan [OF x this ne] show ?thesis by (auto simp: sample_flow_def)
qed

theorem button_runs_only_open_action_witness:
  "\<exists>a. store_get sample_store ''0123456789ab'' = Some a \<and> ''0123456789ab'' \<notin> set (st_claims sample_store)"
proof -
  obtain s' r where x: "explicit_answer sample_env sample_flow 1000 ''0123456789ab'' True None None = (s', r)" by force
  have ne: "fs_calls s' \<noteq> fs_calls sample_flow" using sample_button_runs x by (simp add: sample_flow_def)
  have "files_ok (fs_store sample_flow)" using files_ok_sample by (simp add: sample_flow_def)
  from button_runs_only_open_action [OF x this ne] show ?thesis by (auto simp: sample_flow_def)
qed

theorem each_action_runs_at_most_once_witness:
  "distinct (map fst (fs_calls (answer_run sample_flow
     [(sample_env, 1000, Typed (typed ''yes'') sample_ctx True), (sample_env, 2000, Button ''0123456789ab'' True None None)])))"
  by (rule each_action_runs_at_most_once) (simp_all add: sample_flow_def files_ok_sample)

lemma sample_button_claims:
  "''0123456789ab'' \<in> set (st_claims (fs_store (fst (answer_step sample_flow (sample_env, 1000, Button ''0123456789ab'' True None None)))))"
  by code_simp

theorem claimed_action_is_resolved_witness:
  "\<exists>b. store_get (fs_store (fst (answer_step sample_flow (sample_env, 1000, Button ''0123456789ab'' True None None)))) ''0123456789ab'' = Some b
    \<and> pa_outcome b \<in> {Some Declined, Some Executed, Some Failed, Some Targets_Drifted}"
proof -
  obtain s' r where x: "answer_step sample_flow (sample_env, 1000, Button ''0123456789ab'' True None None) = (s', r)" by force
  have "''0123456789ab'' \<in> set (st_claims (fs_store s'))" using sample_button_claims unfolding x by simp
  moreover have "files_ok (fs_store sample_flow)" "''0123456789ab'' \<notin> set (st_claims (fs_store sample_flow))"
    "store_get (fs_store sample_flow) ''0123456789ab'' = Some dated_action"
    using files_ok_sample by (simp_all add: sample_flow_def sample_store_def store_get_def)
  ultimately show ?thesis using claimed_action_is_resolved [OF x] unfolding x by simp
qed

subsection \<open>A confirmation is carried out\<close>

lemma no_counts: "list_all (\<lambda>f. counts f = []) CONFIRM_FORMS"
  by code_simp

lemma extract_count_form:
  assumes "f \<in> set CONFIRM_FORMS" "is_action_id i"
  shows "extract_count (f @ '' '' @ i) = (None, f @ '' '' @ i)"
proof -
  have "i \<noteq> []" "list_all is_hex_lower i" "length i = 12" using assms(2) by (auto simp: is_action_id_def)
  then have "runs is_hex_lower i = [i]" "\<not> is_count i"
    using runs_word [of i is_hex_lower "[]"] by (simp_all add: is_count_def)
  moreover have "\<not> is_hex_lower (CHR '' '')" by (simp add: is_hex_lower_def code_of_def)
  then have "runs is_hex_lower (f @ '' '' @ i) = runs is_hex_lower f @ runs is_hex_lower i"
    using runs_append [of is_hex_lower "CHR '' ''" f i] by simp
  moreover have "counts f = []" using no_counts assms(1) by (simp only: list_all_iff)
  ultimately have "counts (f @ '' '' @ i) = []" by (simp add: counts_def)
  then show ?thesis by (simp add: extract_count_def)
qed

text \<open>
  C34. An approval is carried out: when a person types a confirm form and the id of an action, on a turn
  the server tagged as theirs and that may answer, and they own the action and are in its conversation,
  then the action's stored call is made, and the reply says that it executed or failed; provided the
  action is unresolved, unexpired and unclaimed, the user's own request caused it, its tool is available,
  its targets have not changed and their number is within the scope threshold.
\<close>

theorem typed_confirmation_runs:
  assumes "files_ok (fs_store s)" "store_get (fs_store s) (pa_id a) = Some a" "pa_outcome a = None" "now < pa_expires_at a"
    and "pa_id a \<notin> set (st_claims (fs_store s))" "pa_origin a = ''user''" "is_action_id (pa_id a)"
    and "m_content m = f @ '' '' @ pa_id a" "f \<in> set CONFIRM_FORMS" "is_user_turn m" "turn_may_answer (Some m) ctx"
    and "same_owner (pa_owner_id a) (ctx_id (ctx_or_empty ctx) ''user_id'')"
    and "same_key (pa_thread_id a) (ctx_id (ctx_or_empty ctx) ''thread_id'')"
    and "int (length (pa_targets a)) \<le> fe_threshold env" "fe_unavailable env a = None"
    and "\<And>ans. targets_still_match a (fe_targets_now env (as_claimed env ans a))"
  shows "fs_calls (fst (from_message env s now m ctx True)) = fs_calls s @ [call_of a]
    \<and> fr_outcome (snd (from_message env s now m ctx True)) \<in> {EXECUTED, FAILED}"
proof -
  obtain st1 expired where e: "expire_due (fs_store s) now = (st1, expired)" by force
  obtain st2 acts where o: "open_actions st1 now = (st2, acts)" by force
  note of = open_actions_facts [OF assms(1) e o]
  let ?s = "s\<lparr>fs_store := st2\<rparr>" and ?p = "answerable_by_typed_reply acts ctx (Some m)"
  have op: "is_open now a" using assms(3,4) by (simp add: is_open_def is_expired_def)
  have ap: "a \<in> set ?p" using of(4) assms(2,11,12,13) op by (simp add: answerable_facts)
  have x: "extract_count (m_content m) = (None, f @ '' '' @ pa_id a)"
    unfolding assms(8) by (rule extract_count_form [OF assms(9,7)])
  have mc: "m\<lparr>m_content := f @ CHR '' '' # pa_id a\<rparr> = m" using assms(8) by simp
  have syn: "\<not> is_synthetic_turn ctx"
    using assms(11) by (cases ctx) (auto simp: turn_may_answer_def ctx_or_empty_def Let_def is_synthetic_turn_def split: if_splits)
  have v: "rc_action (recognise m ?p ctx) = Some (pa_id a)" "rc_verdict (recognise m ?p ctx) = CONFIRM"
    using form_id_recognised [OF syn assms(10) assms(8) ap assms(7)] assms(9) by auto
  have g: "store_get st2 (pa_id a) = Some a" using of(3) assms(2) op by (simp add: is_open_def expire_one_def)
  have "?p \<noteq> []" using ap by auto
  then have m: "from_message env s now m ctx True = flow_apply env ?s a CONFIRM None expired
      (Some (reply_answered m (ctx_or_empty ctx))) True"
    using v g assms(3,6) by (simp add: from_message_def e o x mc Let_def confirmable_by_typing_def)
  obtain s' r where fa: "flow_apply env ?s a CONFIRM None expired (Some (reply_answered m (ctx_or_empty ctx))) True = (s', r)"
    by force
  then have fe: "flow_execute env ?s a expired (answered_defaults (Some (reply_answered m (ctx_or_empty ctx)))) = (s', r)"
    using assms(14,15) by (simp add: flow_apply_def Let_def or_none_def)
  have "files_ok (fs_store ?s)" using of(1) by simp
  with fe show ?thesis
  proof (cases rule: flow_execute_cases)
    case Lost
    then show ?thesis using g assms(5) of(2) by simp
  next
    case (Won c b)
    then show ?thesis using g assms(16) unfolding m fa by auto
  qed
qed

theorem typed_confirmation_runs_witness:
  "fs_calls (fst (from_message sample_env sample_flow 1000 (typed (''go ahead'' @ '' '' @ pa_id dated_action)) sample_ctx True))
     = fs_calls sample_flow @ [call_of dated_action]"
proof (rule typed_confirmation_runs [where f = "''go ahead''", THEN conjunct1])
  show "files_ok (fs_store sample_flow)" using files_ok_sample by (simp add: sample_flow_def)
qed (simp_all add: targets_still_match_def sample_env_def as_claimed_def, code_simp+)

lemma flow_execute_raises:
  assumes "flow_execute env s a expired ans = (s', r)" "store_get (fs_store s) (pa_id a) = Some c"
    and "pa_id a \<notin> set (st_claims (fs_store s))"
    and "\<And>s0. \<exists>exc. snd (snd (execute_confirmed env s0 (as_claimed env ans c))) = Inl exc"
  shows "fr_outcome r = FAILED"
proof -
  let ?st = "(fs_store s)\<lparr>st_claims := pa_id a # st_claims (fs_store s)\<rparr>" and ?d = "c\<lparr>pa_claimed_by := Some (fe_claimant env)\<rparr>"
  have cl: "claim (fs_store s) (pa_id a) (fe_claimant env) = (store_save ?st ?d, Some ?d)"
    using assms(2,3) by (auto simp: claim_def claim_link_def claim_take_def Let_def store_get_def split: option.splits)
  have d: "?d\<lparr>pa_confirmation := Some ans\<rparr> = as_claimed env ans c" by (simp add: as_claimed_def)
  obtain s1 b1 r1 where x: "execute_confirmed env (s\<lparr>fs_store := store_save (store_save ?st ?d) (as_claimed env ans c)\<rparr>)
      (as_claimed env ans c) = (s1, b1, r1)" by (metis prod_cases3)
  obtain exc where "r1 = Inl exc"
    using assms(4) [of "s\<lparr>fs_store := store_save (store_save ?st ?d) (as_claimed env ans c)\<rparr>"] x by auto
  then show ?thesis
    using assms(1) by (auto simp: flow_execute_def take_claim_def cl d x resolve_in_eq flow_result_of_def Let_def split: prod.splits)
qed

text \<open>
  A failing audit record hides an execution: when the call succeeds and only the writing of the
  audit entry raises, the call has been made, yet the answer is reported as failed and the action,
  already saved as executed, is saved again as failed.
\<close>

theorem audit_error_reported_as_failure:
  assumes "calls_ok s" "store_get (fs_store s) i = Some a" "is_open now a" "i \<notin> set (st_claims (fs_store s))"
    and "int (length (pa_targets a)) \<le> fe_threshold env" "fe_unavailable env a = None"
    and "\<And>ans. targets_still_match a (fe_targets_now env (as_claimed env ans a))"
    and "fe_run env (pa_tool_name a) (pa_arguments a) = Inr result" "\<And>b. fe_audit env b = Some exc"
  shows "\<exists>b. fs_calls (fst (explicit_answer env s now i True None None)) = fs_calls s @ [call_of a]
    \<and> fr_outcome (snd (explicit_answer env s now i True None None)) = FAILED
    \<and> store_get (fs_store (fst (explicit_answer env s now i True None None))) i = Some b \<and> pa_outcome b = Some Failed"
proof -
  have ok: "files_ok (fs_store s)" using assms(1) by (simp add: calls_ok_def)
  obtain st1 expired where e: "expire_due (fs_store s) now = (st1, expired)" by force
  let ?s = "s\<lparr>fs_store := st1\<rparr>"
  have g: "store_get st1 i = Some a"
    using get_expire_due [OF ok, of now i] e assms(2,3) by (simp add: is_open_def expire_one_def)
  have ok1: "files_ok (fs_store ?s)" and cl: "st_claims (fs_store ?s) = st_claims (fs_store s)"
    using expire_due_frame [OF ok, of now] e by simp_all
  have ai: "pa_id a = i" using ok assms(2) files_ok_get by blast
  let ?ans = "answered_defaults (Some [(''via'', PStr ''button'')])"
  have x: "explicit_answer env s now i True None None = flow_execute env ?s a expired ?ans"
    using g assms(3,5,6) by (simp add: explicit_answer_def e is_open_def flow_apply_def Let_def or_none_def)
  obtain s' r where fe: "flow_execute env ?s a expired ?ans = (s', r)" by force
  have "\<exists>exc. snd (snd (execute_confirmed env s0 (as_claimed env ?ans a))) = Inl exc" for s0
    using assms(7,8,9) by (auto simp: execute_confirmed_def Let_def targets_still_match_def as_claimed_def resolve_in_eq)
  then have "fr_outcome r \<noteq> EXECUTED"
    using flow_execute_raises [OF fe] g ai assms(4) cl by simp
  from fe ok1 show ?thesis
  proof (cases rule: flow_execute_cases)
    case Lost
    then show ?thesis using g ai assms(4) cl by simp
  next
    case (Won c b)
    then show ?thesis using \<open>fr_outcome r \<noteq> EXECUTED\<close> g assms(7) ai unfolding x fe by auto
  qed
qed

theorem audit_error_reported_as_failure_witness:
  "\<exists>b. store_get (fs_store (fst (explicit_answer (sample_env\<lparr>fe_audit := \<lambda>b. Some ''disk full''\<rparr>) sample_flow 1000
      ''0123456789ab'' True None None))) ''0123456789ab'' = Some b \<and> pa_outcome b = Some Failed"
proof -
  let ?env = "sample_env\<lparr>fe_audit := \<lambda>b. Some ''disk full''\<rparr>"
  have "calls_ok sample_flow" using files_ok_sample by (simp add: calls_ok_def sample_flow_def)
  moreover have "store_get (fs_store sample_flow) ''0123456789ab'' = Some dated_action" "is_open 1000 dated_action"
    "''0123456789ab'' \<notin> set (st_claims (fs_store sample_flow))"
    by (simp_all add: sample_flow_def sample_store_def store_get_def is_open_def is_expired_def dated_action_def
        sample_action_def day_us_def)
  moreover have "int (length (pa_targets dated_action)) \<le> fe_threshold ?env" "fe_unavailable ?env dated_action = None"
    by (simp_all add: sample_env_def dated_action_def sample_action_def)
  moreover have "targets_still_match dated_action (fe_targets_now ?env (as_claimed ?env ans dated_action))" for ans
    by (simp add: targets_still_match_def sample_env_def as_claimed_def)
  moreover have "fe_run ?env (pa_tool_name dated_action) (pa_arguments dated_action) = Inr PNone"
    "\<And>b. fe_audit ?env b = Some ''disk full''" by (simp_all add: sample_env_def)
  ultimately show ?thesis
    using audit_error_reported_as_failure [of sample_flow "''0123456789ab''" dated_action 1000 ?env PNone "''disk full''"] by blast
qed

end
