(* ===== verification/Supersede.thy ===== *)
theory Supersede
  imports Confirm_Flow
begin

text \<open>
  Resolving actions without an answer (\<open>backend/app/policy/supersede.py\<close>): an agent taken out of a
  chat has its open requests refused, and a rules change supersedes the open actions that the new
  rules demand less for. Both loops go over the open actions, leave out the ones a test passes
  over, take the claim and resolve what they won: \<open>claim_each\<close>, whose argument \<open>why\<close> gives the
  reason, or \<open>None\<close> for an action the loop continues past. \<open>rp\<close> is Python's \<open>repr\<close> of a text.

  The lemmas give the exact effect on every action, and show that what was claimed here is never
  run by any later answer.
\<close>

fun claim_each ::
  "store \<Rightarrow> string \<Rightarrow> outcome \<Rightarrow> (pending_action \<Rightarrow> string option) \<Rightarrow> pending_action list \<Rightarrow> store \<times> pending_action list" where
  "claim_each st who o' why [] = (st, [])"
| "claim_each st who o' why (a # as) =
     (case why a of
        None \<Rightarrow> claim_each st who o' why as
      | Some reason \<Rightarrow>
          (case take_claim st (pa_id a) who of
             (st', None) \<Rightarrow> claim_each st' who o' why as
           | (st', Some claimed) \<Rightarrow>
               let (st2, b) = resolve_in st' claimed o' reason;
                   (st3, out) = claim_each st2 who o' why as
               in (st3, b # out)))"

definition removed_reason :: "string \<Rightarrow> string \<Rightarrow> pending_action \<Rightarrow> string option" where
  "removed_reason thread agent a =
     (if pa_thread_id a \<noteq> Some thread \<or> pa_requester a \<noteq> agent \<or> \<not> truthy (dget (pa_surface a) ''called_agent'') then None
      else Some (agent @ '' was taken out of this chat, so its request was refused. Nothing has run.''))"

definition refuse_removed_agent :: "store \<Rightarrow> string \<Rightarrow> string \<Rightarrow> instant \<Rightarrow> store \<times> pending_action list" where
  "refuse_removed_agent st thread agent now =
     (let (st', acts) = open_actions st now
      in claim_each st' ''member-removed'' Declined (removed_reason thread agent) acts)"

definition decision_now :: "sandbox_config option \<Rightarrow> rule_set \<Rightarrow> pending_action \<Rightarrow> policy_decision" where
  "decision_now config rs a =
     classify config rs (pa_tool_name a) (pa_arguments a) (pa_origin a \<noteq> ''user'') (pa_private_read a)"

definition superseded_reason :: "(string \<Rightarrow> string) \<Rightarrow> sandbox_config option \<Rightarrow> rule_set \<Rightarrow> pending_action \<Rightarrow> string option" where
  "superseded_reason rp config rs a =
     (let d = decision_now config rs a in
      if \<not> d_refused d \<and> min (pa_tier a) TIER_3 \<le> d_tier d then None
      else if d_refused d then
        Some (''the rules changed: no policy rule covers '' @ pa_tool_name a
          @ '' any more, so it is refused. It was NOT run.'')
      else
        Some (''the rules changed: '' @ pa_tool_name a @ '' is now Tier '' @ int_text (tier_int (d_tier d)) @ '' (rule ''
          @ rp (case d_rule d of Some r \<Rightarrow> r_pattern r | None \<Rightarrow> ''the default'')
          @ ''), so it no longer needs your confirmation. It was NOT run; ask again if you still want it.''))"

definition supersede_unneeded ::
  "(string \<Rightarrow> string) \<Rightarrow> sandbox_config option \<Rightarrow> store \<Rightarrow> rule_set \<Rightarrow> instant \<Rightarrow> store \<times> pending_action list" where
  "supersede_unneeded rp config st rs now =
     (if rs_unreadable rs then (st, [])
      else let (st', acts) = open_actions st now
        in claim_each st' ''rules-reload'' Superseded (superseded_reason rp config rs) acts)"

subsection \<open>The exact effect\<close>

definition taken :: "string \<Rightarrow> outcome \<Rightarrow> string \<Rightarrow> pending_action \<Rightarrow> pending_action" where
  "taken who o' reason a = a\<lparr>pa_claimed_by := Some who, pa_outcome := Some o', pa_outcome_reason := reason\<rparr>"

lemma claim_free:
  assumes "store_get st i = Some a" "i \<notin> set (st_claims st)"
  shows "claim st i w = (store_save (st\<lparr>st_claims := i # st_claims st\<rparr>) (a\<lparr>pa_claimed_by := Some w\<rparr>), Some (a\<lparr>pa_claimed_by := Some w\<rparr>))"
  using assms by (auto simp: claim_def claim_link_def claim_take_def Let_def store_get_def split: option.splits)

lemma claim_taken: "i \<in> set (st_claims st) \<Longrightarrow> claim st i w = (st, None)"
  by (simp add: claim_def claim_link_def)

lemma claim_each_effect:
  assumes "claim_each st who o' why as = (st', out)" "files_ok st" "distinct (map pa_id as)"
    and "\<forall>a \<in> set as. store_get st (pa_id a) = Some a" "\<forall>a r. why a = Some r \<longrightarrow> r \<noteq> []"
  shows "store_get st' i = (case store_get st i of None \<Rightarrow> None
      | Some a \<Rightarrow> Some (if a \<in> set as \<and> i \<notin> set (st_claims st)
          then (case why a of None \<Rightarrow> a | Some r \<Rightarrow> taken who o' r a) else a))
    \<and> files_ok st' \<and> set (st_claims st) \<subseteq> set (st_claims st') \<and> pa_id ` set out \<subseteq> set (st_claims st')
    \<and> (\<forall>b \<in> set out. \<exists>a \<in> set as. \<exists>r. why a = Some r \<and> b = taken who o' r a)"
  using assms(1-4)
proof (induction as arbitrary: st out)
  case Nil
  then show ?case by (simp split: option.splits)
next
  case (Cons a as)
  have ids: "\<And>c. store_get st i = Some c \<Longrightarrow> pa_id c = i" using files_ok_get Cons.prems(2) by blast
  have notin: "a \<notin> set as" using Cons.prems(3) by auto
  show ?case
  proof (cases "why a")
    case None
    then have "claim_each st who o' why as = (st', out)" using Cons.prems(1) by simp
    from Cons.IH [OF this Cons.prems(2)] Cons.prems(3,4) None show ?thesis by (auto split: option.splits)
  next
    case (Some r)
    show ?thesis
    proof (cases "pa_id a \<in> set (st_claims st)")
      case True
      then have "claim_each st who o' why as = (st', out)"
        using Cons.prems(1) Some by (simp add: take_claim_def claim_taken)
      from Cons.IH [OF this Cons.prems(2)] Cons.prems(3,4) True ids show ?thesis by (auto split: option.splits)
    next
      case False
      let ?st = "store_save (st\<lparr>st_claims := pa_id a # st_claims st\<rparr>) (a\<lparr>pa_claimed_by := Some who\<rparr>)"
      have g: "store_get st (pa_id a) = Some a" using Cons.prems(4) by simp
      have r: "r \<noteq> []" using assms(5) Some by blast
      let ?b = "taken who o' r a" and ?st2 = "store_save ?st (taken who o' r a)"
      have b: "(a\<lparr>pa_claimed_by := Some who\<rparr>)\<lparr>pa_outcome := Some o', pa_outcome_reason := r\<rparr> = ?b"
        by (simp add: taken_def)
      obtain out' where o: "claim_each ?st2 who o' why as = (st', out')" "out = ?b # out'"
        using Cons.prems(1) Some claim_free [OF g False, of who] r
        by (auto simp: take_claim_def resolve_in_eq b Let_def split: prod.splits)
      have idb: "pa_id ?b = pa_id a" by (simp add: taken_def)
      have "store_get ?st2 (pa_id c) = Some c" if "c \<in> set as" for c
      proof -
        have "pa_id c \<in> pa_id ` set as" using that by (rule imageI)
        then have "pa_id c \<noteq> pa_id a" using Cons.prems(3) by auto
        moreover have "store_get st (pa_id c) = Some c" using Cons.prems(4) that by simp
        ultimately show ?thesis using idb by simp
      qed
      then have "\<forall>c \<in> set as. store_get ?st2 (pa_id c) = Some c" by blast
      note IH = Cons.IH [OF o(1) _ _ this]
      have "files_ok ?st2" using Cons.prems(2) by (simp add: files_ok_save)
      note IH = IH [OF this]
      have "distinct (map pa_id as)" using Cons.prems(3) by simp
      note IH = IH [OF this]
      have get2: "store_get ?st2 i = (if i = pa_id a then Some ?b else store_get st i)" using idb by simp
      have out: "\<forall>d \<in> set out. \<exists>c \<in> set (a # as). \<exists>r. why c = Some r \<and> d = taken who o' r c"
        using IH o(2) Some by auto
      have cl2: "set (st_claims ?st2) = insert (pa_id a) (set (st_claims st))" by simp
      have frame: "files_ok st'" "set (st_claims st) \<subseteq> set (st_claims st')" "pa_id ` set out \<subseteq> set (st_claims st')"
        using IH cl2 o(2) idb by auto
      have get: "store_get st' i = (case store_get ?st2 i of None \<Rightarrow> None
          | Some c \<Rightarrow> Some (if c \<in> set as \<and> i \<notin> set (st_claims ?st2)
              then (case why c of None \<Rightarrow> c | Some r \<Rightarrow> taken who o' r c) else c))"
        using IH by blast
      have "store_get st' i = (case store_get st i of None \<Rightarrow> None
          | Some c \<Rightarrow> Some (if c \<in> set (a # as) \<and> i \<notin> set (st_claims st)
              then (case why c of None \<Rightarrow> c | Some r \<Rightarrow> taken who o' r c) else c))"
      proof (cases "i = pa_id a")
        case True
        then show ?thesis using get get2 g Some False cl2 by simp
      next
        case ne: False
        then have "c \<noteq> a" if "store_get st i = Some c" for c using ids that by auto
        then show ?thesis using get get2 ne cl2 by (simp split: option.split)
      qed
      then show ?thesis using frame out by blast
    qed
  qed
qed

lemma open_now_facts:
  assumes "files_ok st" "open_actions st now = (st', acts)"
  shows "files_ok st'" "st_claims st' = st_claims st" "distinct (map pa_id acts)"
    "store_get st' i = map_option (\<lambda>a. case expire_one now a of None \<Rightarrow> a | Some b \<Rightarrow> b) (store_get st i)"
    "\<forall>a \<in> set acts. store_get st' (pa_id a) = Some a"
    "a \<in> set acts \<longleftrightarrow> store_get st (pa_id a) = Some a \<and> is_open now a"
proof -
  have st': "st' = fst (expire_due st now)" and acts: "acts = listing store_get (is_open now) st' (store_ids st')"
    using assms(2) by (auto simp: open_actions_def split: prod.splits)
  show ok: "files_ok st'" and "st_claims st' = st_claims st"
    using expire_due_frame [OF assms(1), of now] st' by simp_all
  show g: "store_get st' i = map_option (\<lambda>a. case expire_one now a of None \<Rightarrow> a | Some b \<Rightarrow> b) (store_get st i)" for i
    using get_expire_due [OF assms(1), of now i] unfolding st' by (auto split: option.splits)
  show all: "\<forall>a \<in> set acts. store_get st' (pa_id a) = Some a"
    unfolding acts using files_ok_get [OF ok] by (fastforce simp: in_listing)
  have "distinct (map pa_id (listing store_get P st' ids))" if "distinct ids" for P ids
    using that
  proof (induction ids)
    case (Cons j ids)
    have "j \<notin> pa_id ` set (listing store_get P st' ids)"
      using Cons.prems files_ok_get [OF ok] by (auto simp: in_listing)
    then show ?case using Cons files_ok_get [OF ok, of j] by (auto simp: listing_Cons split: option.splits)
  qed (simp add: listing_def)
  then show "distinct (map pa_id acts)" unfolding acts using distinct_store_ids [OF ok] by blast
  have same: "is_open now a \<Longrightarrow> store_get st' j = Some a \<longleftrightarrow> store_get st j = Some a" for j
  proof -
    assume "is_open now a"
    then have "expire_one now a = None" by (simp add: is_open_def expire_one_def)
    moreover have "b \<noteq> a" if "expire_one now c = Some b" for b c
      using that \<open>is_open now a\<close> by (auto simp: expire_one_Some is_open_def)
    ultimately show ?thesis unfolding g by (cases "store_get st j") (auto split: option.splits)
  qed
  show "a \<in> set acts \<longleftrightarrow> store_get st (pa_id a) = Some a \<and> is_open now a"
  proof
    assume "a \<in> set acts"
    then show "store_get st (pa_id a) = Some a \<and> is_open now a"
      using all same [of "pa_id a"] by (auto simp: acts in_listing)
  next
    assume "store_get st (pa_id a) = Some a \<and> is_open now a"
    then show "a \<in> set acts"
      unfolding acts in_listing using same [of "pa_id a"] store_ids_complete by blast
  qed
qed

lemma superseded_reason_Some:
  "superseded_reason rp config rs a \<noteq> None \<longleftrightarrow>
     d_refused (decision_now config rs a) \<or> d_tier (decision_now config rs a) < pa_tier a"
  "superseded_reason rp config rs a = Some r \<Longrightarrow> r \<noteq> []"
proof -
  have "min t TIER_3 = t" for t by (cases t) (auto simp: min_def less_eq_tier_def)
  then show "superseded_reason rp config rs a \<noteq> None \<longleftrightarrow>
     d_refused (decision_now config rs a) \<or> d_tier (decision_now config rs a) < pa_tier a"
    by (auto simp: superseded_reason_def Let_def)
qed (auto simp: superseded_reason_def Let_def split: if_splits)

text \<open>
  C14. A rules change supersedes exactly what it should. With readable rules, an action is resolved
  as superseded if and only if it is open, unexpired and unclaimed and the rules in force refuse its
  call or demand a lower tier than when it was stated, judged with the provenance recorded on it;
  every other action is only expired if its time has come; unreadable rules resolve nothing.
\<close>

theorem supersede_exact:
  assumes "supersede_unneeded rp config st rs now = (st', out)" "files_ok st"
  shows "if rs_unreadable rs then st' = st \<and> out = []
    else (\<forall>i a. store_get st i = Some a \<longrightarrow>
      (if is_open now a \<and> i \<notin> set (st_claims st) \<and>
          (d_refused (decision_now config rs a) \<or> d_tier (decision_now config rs a) < pa_tier a)
       then \<exists>r. store_get st' i = Some (taken ''rules-reload'' Superseded r a)
       else store_get st' i = Some (case expire_one now a of None \<Rightarrow> a | Some b \<Rightarrow> b)))"
proof (cases "rs_unreadable rs")
  case True
  then show ?thesis using assms(1) by (simp add: supersede_unneeded_def)
next
  case False
  obtain st1 acts where o: "open_actions st now = (st1, acts)" by force
  note of = open_now_facts [OF assms(2) o]
  have ce: "claim_each st1 ''rules-reload'' Superseded (superseded_reason rp config rs) acts = (st', out)"
    using assms(1) False o by (simp add: supersede_unneeded_def)
  have ne: "\<forall>a r. superseded_reason rp config rs a = Some r \<longrightarrow> r \<noteq> []" using superseded_reason_Some(2) by blast
  note eff = claim_each_effect [OF ce of(1,3,5) ne, THEN conjunct1]
  have "if is_open now a \<and> i \<notin> set (st_claims st) \<and>
          (d_refused (decision_now config rs a) \<or> d_tier (decision_now config rs a) < pa_tier a)
       then \<exists>r. store_get st' i = Some (taken ''rules-reload'' Superseded r a)
       else store_get st' i = Some (case expire_one now a of None \<Rightarrow> a | Some b \<Rightarrow> b)"
    if a: "store_get st i = Some a" for i a
  proof -
    have ai: "pa_id a = i" using a assms(2) files_ok_get by blast
    show ?thesis
    proof (cases "is_open now a")
      case op: True
      then have x: "expire_one now a = None" by (simp add: is_open_def expire_one_def)
      then have g1: "store_get st1 i = Some a" using of(4) [of i] a by simp
      have "a \<in> set acts" using of(6) op a ai by simp
      then show ?thesis
        using eff [of i] g1 of(2) op x superseded_reason_Some(1) [of rp config rs a]
        by (cases "superseded_reason rp config rs a") auto
    next
      case no: False
      have "b \<notin> set acts" if "store_get st1 i = Some b" for b
      proof
        assume "b \<in> set acts"
        then have "is_open now b" "store_get st (pa_id b) = Some b" using of(6) by auto
        moreover have "pa_id b = i" using that of(1) files_ok_get by blast
        ultimately show False using a no by simp
      qed
      then show ?thesis using eff [of i] of(4) [of i] a no by (auto split: option.splits)
    qed
  qed
  then show ?thesis using False by simp
qed

text \<open>What is claimed stays claimed, and no answer makes a call for a claimed action.\<close>

lemma claimed_never_runs:
  "calls_ok s \<Longrightarrow> i \<in> set (st_claims (fs_store s)) \<Longrightarrow>
     i \<in> set (st_claims (fs_store (fst (answer_step s e))))
     \<and> (\<forall>c \<in> set (fs_calls (fst (answer_step s e))). fst c = i \<longrightarrow> c \<in> set (fs_calls s))"
proof -
  assume ok: "calls_ok s" and i: "i \<in> set (st_claims (fs_store s))"
  have f: "files_ok (fs_store s)" using ok by (simp add: calls_ok_def)
  obtain s' r where step: "answer_step s e = (s', r)" by force
  obtain env now ans where e: "e = (env, now, ans)" by (cases e)
  have applied: "i \<in> set (st_claims (fs_store s')) \<and> (\<forall>c \<in> set (fs_calls s'). fst c = i \<longrightarrow> c \<in> set (fs_calls s))"
    if "flow_apply env s1 c v supplied expired ans execute = (s', r)" "files_ok (fs_store s1)"
      "st_claims (fs_store s1) = st_claims (fs_store s)" "fs_calls s1 = fs_calls s"
    for env s1 c v supplied expired ans execute
    using that(1,2)
  proof (cases rule: flow_apply_cases)
    case Nothing
    then show ?thesis using that(3,4) i by auto
  next
    case (Resolved d b)
    then have "pa_id d \<noteq> i" using that(2,3) i files_ok_get by metis
    then have "fst (call_of d) \<noteq> i" by (simp add: call_of_def)
    moreover have "fs_calls s' = fs_calls s \<or> fs_calls s' = fs_calls s @ [call_of d]"
      using Resolved(6) that(4) by (auto split: if_splits)
    ultimately show ?thesis using Resolved(3) that(3) i by (elim disjE) (simp_all add: ball_Un del: split_paired_All)
  qed
  have "i \<in> set (st_claims (fs_store s')) \<and> (\<forall>c \<in> set (fs_calls s'). fst c = i \<longrightarrow> c \<in> set (fs_calls s))"
  proof (cases ans)
    case (Typed m ctx execute)
    then have "from_message env s now m ctx execute = (s', r)" using step e by simp
    then show ?thesis using f
    proof (cases rule: from_message_cases)
      case Quiet
      then show ?thesis using i by simp
    next
      case (Applied s1 c v expired)
      then show ?thesis using applied by blast
    qed
  next
    case (Button j confirm supplied ans')
    then have "explicit_answer env s now j confirm supplied ans' = (s', r)" using step e by simp
    then show ?thesis using f
    proof (cases rule: explicit_cases)
      case Quiet
      then show ?thesis using i by simp
    next
      case (Applied s1 c v expired ans'')
      then show ?thesis using applied by blast
    qed
  qed
  then show ?thesis using step by simp
qed

lemma claimed_never_runs_run:
  assumes "calls_ok s" "i \<in> set (st_claims (fs_store s))" "c \<in> set (fs_calls (answer_run s evs))" "fst c = i"
  shows "c \<in> set (fs_calls s)"
  using assms unfolding answer_run_def
proof (induction evs arbitrary: s)
  case (Cons e evs)
  let ?t = "fst (answer_step s e)"
  have "calls_ok ?t" "i \<in> set (st_claims (fs_store ?t))"
    using Cons.prems(1,2) calls_ok_step claimed_never_runs by blast+
  moreover have "c \<in> set (fs_calls (foldl (\<lambda>s e. fst (answer_step s e)) ?t evs))" using Cons.prems(3) by simp
  ultimately have "c \<in> set (fs_calls ?t)" using Cons.IH Cons.prems(4) by blast
  then show ?case using claimed_never_runs [OF Cons.prems(1,2), of e] Cons.prems(4) by blast
qed simp

text \<open>
  What the rules superseded stays unrun: after a rules change resolved an action as superseded,
  no sequence of typed replies and button presses makes a call for it.
\<close>

theorem superseded_never_runs:
  assumes "supersede_unneeded rp config (fs_store s) rs now = (st', out)" "calls_ok s"
    and "a \<in> set out" "c \<in> set (fs_calls (answer_run (s\<lparr>fs_store := st'\<rparr>) evs))" "fst c = pa_id a"
  shows "c \<in> set (fs_calls s)"
proof -
  have ok: "files_ok (fs_store s)" using assms(2) by (simp add: calls_ok_def)
  have nr: "\<not> rs_unreadable rs" using assms(1,3) by (auto simp: supersede_unneeded_def split: if_splits)
  obtain st1 acts where o: "open_actions (fs_store s) now = (st1, acts)" by force
  note of = open_now_facts [OF ok o]
  have ce: "claim_each st1 ''rules-reload'' Superseded (superseded_reason rp config rs) acts = (st', out)"
    using assms(1) nr o by (simp add: supersede_unneeded_def)
  have ne: "\<forall>a r. superseded_reason rp config rs a = Some r \<longrightarrow> r \<noteq> []" using superseded_reason_Some(2) by blast
  note eff = claim_each_effect [OF ce of(1,3,5) ne]
  let ?s = "s\<lparr>fs_store := st'\<rparr>"
  have "files_ok st'" "set (st_claims (fs_store s)) \<subseteq> set (st_claims st')" "pa_id a \<in> set (st_claims st')"
    using eff of(2) assms(3) by auto
  then have "calls_ok ?s" "pa_id a \<in> set (st_claims (fs_store ?s))"
    using assms(2) by (auto simp: calls_ok_def)
  then have "c \<in> set (fs_calls ?s)" using assms(4,5) by (rule claimed_never_runs_run)
  then show ?thesis by simp
qed

definition read_action :: pending_action where
  "read_action = dated_action\<lparr>pa_tool_name := ''ledger_apply''\<rparr>"

definition reload_store :: store where
  "reload_store = \<lparr>st_files = [(''0123456789ab'', Stored read_action)], st_claims = [], st_continued = []\<rparr>"

lemma reload_facts:
  "files_ok reload_store" "store_get reload_store ''0123456789ab'' = Some read_action" "is_open 1000 read_action"
  "''0123456789ab'' \<notin> set (st_claims reload_store)"
  by (simp_all add: files_ok_def reload_store_def read_action_def dated_action_def sample_action_def store_get_def
      is_open_def is_expired_def day_us_def)

lemma reload_lowers: "d_tier (decision_now None sample_rules read_action) < pa_tier read_action"
  by code_simp

theorem supersede_exact_witness:
  "\<exists>r. store_get (fst (supersede_unneeded id None reload_store sample_rules 1000)) ''0123456789ab''
     = Some (taken ''rules-reload'' Superseded r read_action)"
proof -
  obtain st' out where s: "supersede_unneeded id None reload_store sample_rules 1000 = (st', out)" by force
  have "\<not> rs_unreadable sample_rules" by (simp add: sample_rules_def)
  then show ?thesis
    using supersede_exact [OF s reload_facts(1)] reload_facts(2,3,4) reload_lowers unfolding s by simp
qed

lemma reload_out: "map pa_id (snd (supersede_unneeded id None reload_store sample_rules 1000)) = [''0123456789ab'']"
  by code_simp

theorem superseded_never_runs_witness:
  "''0123456789ab'' \<notin> set (map fst (fs_calls (answer_run \<lparr>fs_store = fst (supersede_unneeded id None reload_store sample_rules 1000), fs_calls = []\<rparr>
     [(sample_env, 2000, Typed (typed ''yes'') sample_ctx True)])))"
proof -
  let ?s = "\<lparr>fs_store = reload_store, fs_calls = []\<rparr>"
  obtain st' out where s: "supersede_unneeded id None (fs_store ?s) sample_rules 1000 = (st', out)" by force
  obtain a where a: "a \<in> set out" "pa_id a = ''0123456789ab''"
    using reload_out s by (cases out) auto
  have ok: "calls_ok ?s" using reload_facts(1) by (simp add: calls_ok_def)
  show ?thesis using superseded_never_runs [OF s ok a(1)] a(2) s by fastforce
qed

end
