(* ===== verification/System.thy ===== *)
theory System
  imports Gate_Safety Supersede
begin

text \<open>
  The whole loop of one deployment: tool calls pass the gate (\<open>Gate\<close>), people answer the actions it
  stores (\<open>Confirm_Flow\<close>), rules reloads and removed members resolve some of them (\<open>Supersede\<close>). The
  components share the pending store. Their operations are the steps of a relation, in any order
  and with any environments; reachable systems carry the history of events that led to them. The
  only assumption on the steps is that a new action id names no stored file.
\<close>

record system =
  sy_gate :: gate
  sy_confirmed :: "(string \<times> string \<times> dict) list"

datatype event =
    Gate_Call bool gate_env request
  | Answer flow_env instant answer
  | Rules_Reload "string \<Rightarrow> string" "sandbox_config option" rule_set instant
  | Member_Removed string string instant

abbreviation sy_store :: "system \<Rightarrow> store" where
  "sy_store s \<equiv> ga_store (sy_gate s)"

definition flow_of :: "system \<Rightarrow> flow_state" where
  "flow_of s = \<lparr>fs_store = sy_store s, fs_calls = sy_confirmed s\<rparr>"

definition with_store :: "system \<Rightarrow> store \<Rightarrow> system" where
  "with_store s st = s\<lparr>sy_gate := (sy_gate s)\<lparr>ga_store := st\<rparr>\<rparr>"

definition empty_system :: system where
  "empty_system = \<lparr>sy_gate = \<lparr>ga_store = \<lparr>st_files = [], st_claims = [], st_continued = []\<rparr>, ga_records = [], ga_counts = [],
     ga_calls = [], ga_grant_log = [], ga_refusals = [], ga_stopped = []\<rparr>, sy_confirmed = []\<rparr>"

inductive sys_step :: "system \<Rightarrow> event \<Rightarrow> system \<Rightarrow> bool" where
  gate: "dispatch async env (sy_gate s) rq = (g, e) \<Longrightarrow> store_get (sy_store s) (ge_new_id env) = None
     \<Longrightarrow> sys_step s (Gate_Call async env rq) (s\<lparr>sy_gate := g\<rparr>)"
| answer: "answer_step (flow_of s) (env, now, a) = (f, r)
     \<Longrightarrow> sys_step s (Answer env now a) ((with_store s (fs_store f))\<lparr>sy_confirmed := fs_calls f\<rparr>)"
| reload: "supersede_unneeded rp config (sy_store s) rs now = (st, out)
     \<Longrightarrow> sys_step s (Rules_Reload rp config rs now) (with_store s st)"
| removed: "refuse_removed_agent (sy_store s) thread agent now = (st, out)
     \<Longrightarrow> sys_step s (Member_Removed thread agent now) (with_store s st)"

inductive reachable :: "event list \<Rightarrow> system \<Rightarrow> bool" where
  start: "reachable [] empty_system"
| step: "reachable evs s \<Longrightarrow> sys_step s e s' \<Longrightarrow> reachable (evs @ [e]) s'"

inductive_cases sys_stepE: "sys_step s e s'"
inductive_simps reachable_Nil: "reachable [] s"

lemma store_with_store [simp]: "sy_store (with_store s st) = st" "sy_confirmed (with_store s st) = sy_confirmed s"
  by (simp_all add: with_store_def)

lemma flow_of_sel [simp]: "fs_store (flow_of s) = sy_store s" "fs_calls (flow_of s) = sy_confirmed s"
  by (simp_all add: flow_of_def)

subsection \<open>What no operation changes\<close>

text \<open>The part of an action that is fixed when it is proposed.\<close>

definition core :: "pending_action \<Rightarrow> string \<times> string \<times> dict \<times> string list \<times> string \<times> string option \<times> string option" where
  "core a = (pa_id a, pa_tool_name a, pa_arguments a, pa_targets a, pa_origin a, pa_owner_id a, pa_thread_id a)"

lemma core_updates [simp]:
  "core (a\<lparr>pa_claimed_by := c\<rparr>) = core a" "core (a\<lparr>pa_outcome := x\<rparr>) = core a" "core (a\<lparr>pa_outcome_reason := y\<rparr>) = core a"
  "core (a\<lparr>pa_confirmation := z\<rparr>) = core a" "core (a\<lparr>pa_result_excerpt := u\<rparr>) = core a" "core (a\<lparr>pa_post_state := u\<rparr>) = core a"
  "core (a\<lparr>pa_post_content := u\<rparr>) = core a"
  by (simp_all add: core_def)

definition same_cores :: "store \<Rightarrow> store \<Rightarrow> bool" where
  "same_cores st st' \<longleftrightarrow> (\<forall>i. map_option core (store_get st' i) = map_option core (store_get st i))"

lemma same_cores_refl [simp]: "same_cores st st"
  by (simp add: same_cores_def)

lemma same_cores_trans: "same_cores st st' \<Longrightarrow> same_cores st' st'' \<Longrightarrow> same_cores st st''"
  by (simp add: same_cores_def)

lemma same_cores_get: "same_cores st st' \<Longrightarrow> store_get st' i = Some b \<Longrightarrow> \<exists>a. store_get st i = Some a \<and> core a = core b"
  unfolding same_cores_def by (metis map_option_eq_Some)

lemma core_id: "core a = core b \<Longrightarrow> pa_id a = pa_id b"
  by (simp add: core_def)

lemma same_cores_save:
  assumes "map_option core (store_get st (pa_id a)) = Some (core b)" "core b = core a"
  shows "same_cores st (store_save st a)"
  using assms by (auto simp: same_cores_def)

lemma same_cores_expire: "files_ok st \<Longrightarrow> same_cores st (fst (expire_due st now))"
  by (auto simp: same_cores_def get_expire_due expire_one_Some split: option.splits)

lemma same_cores_open: "files_ok st \<Longrightarrow> same_cores st (fst (open_actions st now))"
  using same_cores_expire [of st now] by (cases "expire_due st now") (simp add: open_actions_def)

text \<open>An action in hand is the stored one, up to what may change.\<close>

definition in_hand :: "store \<Rightarrow> pending_action \<Rightarrow> bool" where
  "in_hand st a \<longleftrightarrow> map_option core (store_get st (pa_id a)) = Some (core a)"

lemma in_hand_same: "in_hand st a \<Longrightarrow> same_cores st st' \<Longrightarrow> core b = core a \<Longrightarrow> in_hand st' b"
  using core_id [of b a] by (simp add: in_hand_def same_cores_def)

lemma in_hand_save: "in_hand st a \<Longrightarrow> core b = core a \<Longrightarrow> same_cores st (store_save st b)"
  using core_id [of b a] by (auto simp: in_hand_def same_cores_def)

lemma same_cores_claim:
  assumes "files_ok st" "claim st i w = (st', b)"
  shows "same_cores st st' \<and> (\<forall>c. b = Some c \<longrightarrow> in_hand st' c)"
  using assms files_ok_get
  by (cases b) (auto simp: same_cores_def in_hand_def claim_None(1) elim!: claim_Some)

lemma same_cores_resolve:
  assumes "resolve_in st a o' reason = (st', b)" "in_hand st a"
  shows "same_cores st st' \<and> core b = core a"
  using assms in_hand_save [OF assms(2)]
  by (auto simp: resolve_in_def store_resolve_def resolve_action_def split: if_splits sum.splits)

lemma same_cores_execute:
  assumes "execute_confirmed env s a = (s', b, r)" "in_hand (fs_store s) a"
  shows "same_cores (fs_store s) (fs_store s') \<and> core b = core a"
proof (cases "targets_still_match a (fe_targets_now env a)")
  case False
  then show ?thesis
    using assms same_cores_resolve by (auto simp: execute_confirmed_def Let_def split: prod.splits)
next
  case True
  show ?thesis
  proof (cases "fe_run env (pa_tool_name a) (pa_arguments a)")
    case (Inl exc)
    then show ?thesis using assms True by (auto simp: execute_confirmed_def Let_def)
  next
    case (Inr v)
    define c where "c = (let c = a\<lparr>pa_result_excerpt := fe_excerpt env (pa_tool_name a) v\<rparr> in
      if fe_posts_result env \<and> or_none (pa_thread_id c) \<noteq> None \<and> pa_surface c \<noteq> []
      then c\<lparr>pa_post_state := ''waiting'', pa_post_content := fe_report env c v\<rparr> else c)"
    obtain st d where rs: "resolve_in (fs_store s) c Executed [] = (st, d)" by force
    have c: "core c = core a" "resolve_in (fs_store s) c Executed [] = (st, b)" "fs_store s' = st"
      using assms(1) True Inr rs by (auto simp: c_def execute_confirmed_def Let_def split: option.splits if_splits)
    have "in_hand (fs_store s) c" using in_hand_same [OF assms(2) same_cores_refl c(1)] .
    from same_cores_resolve [OF c(2) this] show ?thesis using c by simp
  qed
qed

lemma same_cores_flow_execute:
  assumes "flow_execute env s a expired ans = (s', r)" "files_ok (fs_store s)"
  shows "same_cores (fs_store s) (fs_store s')"
proof -
  obtain st m where cl: "take_claim (fs_store s) (pa_id a) (fe_claimant env) = (st, m)" by force
  then have sc: "same_cores (fs_store s) st \<and> (\<forall>c. m = Some c \<longrightarrow> in_hand st c)"
    using same_cores_claim [OF assms(2)] by (simp add: take_claim_def)
  show ?thesis
  proof (cases m)
    case None
    then show ?thesis using assms(1) cl sc by (auto simp: flow_execute_def)
  next
    case (Some c)
    let ?c = "c\<lparr>pa_confirmation := Some ans\<rparr>"
    have h: "in_hand st c" using sc Some by simp
    have sv: "same_cores st (store_save st ?c)" using in_hand_save [OF h, of ?c] by simp
    have h2: "in_hand (store_save st ?c) ?c" using in_hand_same [OF h sv, of ?c] by simp
    obtain t b w where e: "execute_confirmed env (s\<lparr>fs_store := store_save st ?c\<rparr>) ?c = (t, b, w)" by (metis prod_cases3)
    have ex: "same_cores (store_save st ?c) (fs_store t) \<and> core b = core ?c"
      using same_cores_execute [OF e] h2 by simp
    have hb: "in_hand (fs_store t) b" using in_hand_same [OF h2] ex by blast
    have "same_cores (fs_store t) (fs_store s')"
      using assms(1) cl Some e same_cores_resolve [OF _ hb]
      by (auto simp: flow_execute_def Let_def split: sum.splits option.splits if_splits prod.splits)
    then show ?thesis using sc sv ex same_cores_trans by blast
  qed
qed

lemma same_cores_flow_decline:
  assumes "flow_decline env s a expired ans = (s', r)" "files_ok (fs_store s)"
  shows "same_cores (fs_store s) (fs_store s')"
proof -
  obtain st m where cl: "take_claim (fs_store s) (pa_id a) (''decline:'' @ fe_claimant env) = (st, m)" by force
  then have sc: "same_cores (fs_store s) st \<and> (\<forall>c. m = Some c \<longrightarrow> in_hand st c)"
    using same_cores_claim [OF assms(2)] by (simp add: take_claim_def)
  show ?thesis
  proof (cases m)
    case None
    then show ?thesis using assms(1) cl sc by (auto simp: flow_decline_def)
  next
    case (Some c)
    let ?c = "c\<lparr>pa_confirmation := Some ans\<rparr>"
    have "in_hand st ?c" using sc Some in_hand_same [of st c st ?c] by simp
    then have "same_cores st (fs_store s')"
      using assms(1) cl Some same_cores_resolve by (auto simp: flow_decline_def split: prod.splits)
    then show ?thesis using sc same_cores_trans by blast
  qed
qed

lemma same_cores_apply:
  assumes "flow_apply env s a v supplied expired ans execute = (s', r)" "files_ok (fs_store s)"
  shows "same_cores (fs_store s) (fs_store s')"
  using assms same_cores_flow_decline same_cores_flow_execute
  by (auto simp: flow_apply_def Let_def split: if_splits)

lemma core_expired [simp]: "core (case expire_one now a of None \<Rightarrow> a | Some b \<Rightarrow> b) = core a"
  by (auto simp: expire_one_Some split: option.splits)

lemma same_cores_expired:
  assumes "\<And>j. store_get st' j = map_option (\<lambda>a. case expire_one now a of None \<Rightarrow> a | Some b \<Rightarrow> b) (store_get st j)"
  shows "same_cores st st'"
  by (simp add: same_cores_def assms option.map_comp comp_def)

lemma same_cores_answer:
  assumes "answer_step s (env, now, a) = (s', r)" "files_ok (fs_store s)"
  shows "same_cores (fs_store s) (fs_store s')"
proof (cases a)
  case (Typed m ctx execute)
  then have "from_message env s now m ctx execute = (s', r)" using assms(1) by simp
  then show ?thesis using assms(2)
  proof (cases rule: from_message_cases)
    case Quiet
    then show ?thesis using same_cores_expired by blast
  next
    case (Applied s1 c v expired)
    then show ?thesis using same_cores_expired same_cores_apply same_cores_trans by blast
  qed
next
  case (Button i confirm supplied ans)
  then have "explicit_answer env s now i confirm supplied ans = (s', r)" using assms(1) by simp
  then show ?thesis using assms(2)
  proof (cases rule: explicit_cases)
    case Quiet
    then show ?thesis using same_cores_expired by blast
  next
    case (Applied s1 c v expired ans')
    then show ?thesis using same_cores_expired same_cores_apply same_cores_trans by blast
  qed
qed

lemma claim_each_facts:
  assumes "open_actions st now = (st1, acts)" "claim_each st1 who o' why acts = (st', out)" "files_ok st"
    "\<forall>a r. why a = Some r \<longrightarrow> r \<noteq> []"
  shows "same_cores st st' \<and> files_ok st' \<and> set (st_claims st) \<subseteq> set (st_claims st')"
proof -
  note of = open_now_facts [OF assms(3,1)]
  note eff = claim_each_effect [OF assms(2) of(1,3,5) assms(4)]
  have "same_cores st1 st'"
    unfolding same_cores_def using eff
    by (auto simp: taken_def split: option.splits)
  moreover have "same_cores st st1" using same_cores_open [OF assms(3), of now] assms(1) by simp
  ultimately show ?thesis using eff of(2) same_cores_trans by auto
qed

subsection \<open>Proposals and answers\<close>

type_synonym action_core = "string \<times> string \<times> dict \<times> string list \<times> string \<times> string option \<times> string option"

text \<open>The event is a tool call that asks, and the action is exactly that call.\<close>

fun proposes :: "event \<Rightarrow> action_core \<Rightarrow> bool" where
  "proposes (Gate_Call async env rq) (i, tool, args, targets, cause, owner, thread) =
     (i = ge_new_id env \<and> tool = tool_name rq \<and> unpinned rq args = unpinned rq (rq_call_args rq)
      \<and> stated_targets env tool args = Some targets \<and> cause = fst (call_origin rq) \<and> owner = owner_id rq \<and> thread = thread_id rq
      \<and> \<not> d_refused (classify_request env (without_model_pins rq)) \<and> d_tier (classify_request env (without_model_pins rq)) \<noteq> TIER_1)"
| "proposes _ _ = False"

text \<open>
  The event is a person's yes to the action: a confirming form typed by its owner in its conversation, with no more than the
  count and the id beside it; or the confirm button pressed on its card.
\<close>

fun says_yes :: "event \<Rightarrow> action_core \<Rightarrow> bool" where
  "says_yes (Answer env now (Typed m ctx execute)) (i, tool, args, targets, cause, owner, thread) =
     (is_user_turn m \<and> turn_may_answer (Some m) ctx \<and> execute \<and> confirming_text m i \<and> cause = ''user''
      \<and> same_owner owner (ctx_id (ctx_or_empty ctx) ''user_id'') \<and> same_key thread (ctx_id (ctx_or_empty ctx) ''thread_id'')
      \<and> (int (length targets) > fe_threshold env \<longrightarrow> fst (extract_count (m_content m)) = Some (int (length targets))))"
| "says_yes (Answer env now (Button j confirm supplied ans)) (i, tool, args, targets, cause, owner, thread) =
     (confirm \<and> j = i \<and> (int (length targets) > fe_threshold env \<longrightarrow> supplied = Some (int (length targets))))"
| "says_yes _ _ = False"

definition called :: "action_core \<Rightarrow> string \<times> string \<times> dict" where
  "called c = (case c of (i, tool, args, _) \<Rightarrow> (i, tool, args))"

lemma called_core: "called (core a) = call_of a"
  by (simp add: called_def core_def call_of_def)

lemma dispatch_store:
  assumes "dispatch async env s rq = (s', e)"
  shows "ga_store s' = ga_store s \<or> (\<exists>a. ga_store s' = store_save (ga_store s) a \<and> pa_id a = ge_new_id env \<and> proposes (Gate_Call async env rq) (core a))"
  using assms
proof (cases rule: dispatch_cases)
  case disclosed
  then show ?thesis using run_tier2_frame(1) by blast
next
  case (granted g s1)
  then show ?thesis using run_tier2_frame(1) by metis
next
  case (held why s1)
  from require_confirmation_exact [OF held(7)] held(1,2,3) show ?thesis
    by (auto simp: exact_action_def core_def)
qed auto

lemma answer_call:
  assumes "answer_step s (env, now, a) = (s', r)" "files_ok (fs_store s)" "fs_calls s' \<noteq> fs_calls s"
  shows "\<exists>b. store_get (fs_store s) (pa_id b) = Some b \<and> fs_calls s' = fs_calls s @ [call_of b] \<and> says_yes (Answer env now a) (core b)"
proof (cases a)
  case (Typed m ctx execute)
  then have "from_message env s now m ctx execute = (s', r)" using assms(1) by simp
  from typed_call [OF this assms(2,3)] show ?thesis by (auto simp: Typed core_def)
next
  case (Button i confirm supplied ans)
  then have b: "explicit_answer env s now i confirm supplied ans = (s', r)" using assms(1) by simp
  obtain c where c: "store_get (fs_store s) i = Some c" "fs_calls s' = fs_calls s @ [call_of c]" confirm
      "int (length (pa_targets c)) > fe_threshold env \<longrightarrow> supplied = Some (int (length (pa_targets c)))"
    using button_call [OF b assms(2,3)] by blast
  then have "pa_id c = i" using assms(2) files_ok_get by blast
  then show ?thesis using c by (intro exI [of _ c]) (simp add: Button core_def)
qed

lemma removed_reason_nonempty: "removed_reason thread agent a = Some r \<Longrightarrow> r \<noteq> []"
  by (auto simp: removed_reason_def split: if_splits)

text \<open>What a system knows of its past: stored actions were proposed, confirmed calls also answered.\<close>

definition asked_and_answered :: "event list \<Rightarrow> string \<times> string \<times> dict \<Rightarrow> bool" where
  "asked_and_answered evs c \<longleftrightarrow>
     (\<exists>pre e1 mid e2 post k. evs = pre @ e1 # mid @ e2 # post \<and> called k = c \<and> proposes e1 k \<and> says_yes e2 k)"

definition accounted :: "event list \<Rightarrow> system \<Rightarrow> bool" where
  "accounted evs s \<longleftrightarrow> calls_ok (flow_of s)
     \<and> (\<forall>i a. store_get (sy_store s) i = Some a \<longrightarrow> (\<exists>e \<in> set evs. proposes e (core a)))
     \<and> (\<forall>c \<in> set (sy_confirmed s). asked_and_answered evs c)"

lemma asked_and_answered_later: "asked_and_answered evs c \<Longrightarrow> asked_and_answered (evs @ [e]) c"
proof -
  assume "asked_and_answered evs c"
  then obtain pre e1 mid e2 post k where "evs = pre @ e1 # mid @ e2 # post" "called k = c" "proposes e1 k" "says_yes e2 k"
    by (auto simp: asked_and_answered_def)
  then have "evs @ [e] = pre @ e1 # mid @ e2 # (post @ [e]) \<and> called k = c \<and> proposes e1 k \<and> says_yes e2 k" by simp
  then show ?thesis unfolding asked_and_answered_def by blast
qed

lemma asked_and_answered_now:
  assumes "e1 \<in> set evs" "proposes e1 k" "says_yes e2 k" "called k = c"
  shows "asked_and_answered (evs @ [e2]) c"
proof -
  obtain pre mid where "evs = pre @ e1 # mid" using assms(1) by (auto dest: split_list)
  then have "evs @ [e2] = pre @ e1 # mid @ e2 # [] \<and> called k = c \<and> proposes e1 k \<and> says_yes e2 k" using assms by simp
  then show ?thesis unfolding asked_and_answered_def by blast
qed

lemma accounted_store:
  assumes "accounted evs s" "same_cores (sy_store s) st" "files_ok st" "set (st_claims (sy_store s)) \<subseteq> set (st_claims st)"
  shows "accounted (evs @ [e]) (with_store s st)"
proof -
  have "calls_ok (flow_of (with_store s st))"
    using assms by (auto simp: accounted_def calls_ok_def)
  moreover have "\<exists>e \<in> set evs. proposes e (core a)" if "store_get st i = Some a" for i a
    using same_cores_get [OF assms(2) that] assms(1) unfolding accounted_def by metis
  ultimately show ?thesis using assms(1) asked_and_answered_later by (fastforce simp: accounted_def)
qed

lemma accounted_gate:
  assumes "accounted evs s" "dispatch async env (sy_gate s) rq = (g, e)" "store_get (sy_store s) (ge_new_id env) = None"
  shows "accounted (evs @ [Gate_Call async env rq]) (s\<lparr>sy_gate := g\<rparr>)"
proof -
  consider "ga_store g = sy_store s"
    | a where "ga_store g = store_save (sy_store s) a" "pa_id a = ge_new_id env" "proposes (Gate_Call async env rq) (core a)"
    using dispatch_store [OF assms(2)] by blast
  then have "calls_ok (flow_of (s\<lparr>sy_gate := g\<rparr>)) \<and> (\<forall>i a. store_get (ga_store g) i = Some a \<longrightarrow>
      (\<exists>e \<in> set (evs @ [Gate_Call async env rq]). proposes e (core a)))"
  proof cases
    case 1
    then show ?thesis using assms(1) unfolding accounted_def calls_ok_def by auto
  next
    case 2
    then show ?thesis using assms(1) files_ok_save unfolding accounted_def calls_ok_def by (auto split: if_splits)
  qed
  moreover have "sy_store (s\<lparr>sy_gate := g\<rparr>) = ga_store g" "sy_confirmed (s\<lparr>sy_gate := g\<rparr>) = sy_confirmed s" by simp_all
  ultimately show ?thesis using assms(1) asked_and_answered_later unfolding accounted_def by metis
qed

lemma accounted_answer:
  assumes "accounted evs s" "answer_step (flow_of s) (env, now, a) = (f, r)"
  shows "accounted (evs @ [Answer env now a]) ((with_store s (fs_store f))\<lparr>sy_confirmed := fs_calls f\<rparr>)"
proof -
  let ?t = "(with_store s (fs_store f))\<lparr>sy_confirmed := fs_calls f\<rparr>"
  have ok: "calls_ok (flow_of s)" "files_ok (fs_store (flow_of s))" using assms(1) by (simp_all add: accounted_def calls_ok_def)
  have f: "calls_ok f" using calls_ok_step [OF ok(1), of "(env, now, a)"] assms(2) by simp
  have t: "sy_store ?t = fs_store f" "sy_confirmed ?t = fs_calls f" "flow_of ?t = f" by (simp_all add: with_store_def flow_of_def)
  have sc: "same_cores (sy_store s) (fs_store f)" using same_cores_answer [OF assms(2) ok(2)] by simp
  have st: "\<exists>e \<in> set evs. proposes e (core b)" if "store_get (fs_store f) i = Some b" for i b
    using same_cores_get [OF sc that] assms(1) unfolding accounted_def by metis
  have "asked_and_answered (evs @ [Answer env now a]) c" if c: "c \<in> set (fs_calls f)" for c
  proof (cases "c \<in> set (sy_confirmed s)")
    case True
    then show ?thesis using assms(1) asked_and_answered_later by (simp add: accounted_def)
  next
    case False
    then have "fs_calls f \<noteq> fs_calls (flow_of s)" using c by auto
    from answer_call [OF assms(2) ok(2) this] obtain b where b: "store_get (sy_store s) (pa_id b) = Some b"
      "fs_calls f = sy_confirmed s @ [call_of b]" "says_yes (Answer env now a) (core b)" by auto
    then have "c = call_of b" using c False by simp
    moreover obtain e1 where "e1 \<in> set evs" "proposes e1 (core b)" using assms(1) b(1) unfolding accounted_def by blast
    ultimately show ?thesis using asked_and_answered_now b(3) called_core by blast
  qed
  then show ?thesis using f st unfolding accounted_def t by fastforce
qed

lemma accounted_step:
  assumes "sys_step s e s'" "accounted evs s"
  shows "accounted (evs @ [e]) s'"
  using assms(1)
proof cases
  case (gate async env rq g e')
  then show ?thesis using accounted_gate assms(2) by simp
next
  case (answer env now a f r)
  then show ?thesis using accounted_answer assms(2) by simp
next
  case (reload rp config rs now st out)
  have ok: "files_ok (sy_store s)" using assms(2) by (simp add: accounted_def calls_ok_def)
  have "same_cores (sy_store s) st \<and> files_ok st \<and> set (st_claims (sy_store s)) \<subseteq> set (st_claims st)"
  proof (cases "rs_unreadable rs")
    case True
    then show ?thesis using reload ok by (simp add: supersede_unneeded_def)
  next
    case False
    obtain st1 acts where o: "open_actions (sy_store s) now = (st1, acts)" by force
    then have "claim_each st1 ''rules-reload'' Superseded (superseded_reason rp config rs) acts = (st, out)"
      using reload False by (simp add: supersede_unneeded_def)
    from claim_each_facts [OF o this ok] superseded_reason_Some(2) show ?thesis by blast
  qed
  then show ?thesis using accounted_store [OF assms(2)] reload by simp
next
  case (removed thread agent now st out)
  have ok: "files_ok (sy_store s)" using assms(2) by (simp add: accounted_def calls_ok_def)
  obtain st1 acts where o: "open_actions (sy_store s) now = (st1, acts)" by force
  then have "claim_each st1 ''member-removed'' Declined (removed_reason thread agent) acts = (st, out)"
    using removed by (simp add: refuse_removed_agent_def)
  from claim_each_facts [OF o this ok] removed_reason_nonempty
  have "same_cores (sy_store s) st \<and> files_ok st \<and> set (st_claims (sy_store s)) \<subseteq> set (st_claims st)" by blast
  then show ?thesis using accounted_store [OF assms(2)] removed by simp
qed

lemma reachable_accounted: "reachable evs s \<Longrightarrow> accounted evs s"
proof (induction rule: reachable.induct)
  case start
  show ?case by (simp add: accounted_def empty_system_def calls_ok_def files_ok_def store_get_def)
next
  case (step evs s e s')
  then show ?case by (rule_tac accounted_step)
qed

text \<open>
  C1. Nothing consequential happens that nobody asked for and nobody allowed. In every reachable
  state of the gate with its typed and card answers, whatever calls, answers, rules reloads and
  removals came before, in any order, every confirmed call that was run goes back to two events of
  its history: first a tool call of an agent that the gate made ask, with this id, this tool and
  (but for the server's pins) these arguments, stated with exactly its targets; and later a person's
  yes to it: either a reply typed on their own tagged turn, by the owner in the conversation, to a
  call that owner's own message caused, whose text is one of the closed set of confirming forms; or
  the confirm button pressed on the card of this id; each with the exact count above the threshold.
  And no action is ever run twice. The routes that edit a card or apply all suggestions of a thread
  are not steps of this system.
\<close>

theorem confirmed_calls_were_asked_and_answered:
  assumes "reachable evs s"
  shows "distinct (map fst (sy_confirmed s)) \<and> (\<forall>c \<in> set (sy_confirmed s). asked_and_answered evs c)"
  using reachable_accounted [OF assms] by (simp add: accounted_def calls_ok_def)

text \<open>A run: a deletion is asked for, shown, and confirmed by its owner's typed reply.\<close>

definition deletion :: request where
  "deletion = sample_call ''postgres_query'' [(''sql'', PStr ''DROP TABLE t'')]"

definition after_ask :: system where
  "after_ask = empty_system\<lparr>sy_gate := fst (dispatch False stub_env (sy_gate empty_system) deletion)\<rparr>"

definition yes_reply :: answer where
  "yes_reply = Typed (typed ''yes'') (Some [(''user_id'', PStr ''u''), (''thread_id'', PStr ''t1'')]) True"

definition after_yes :: system where
  "after_yes = (let f = fst (answer_step (flow_of after_ask) (sample_env, 1000, yes_reply))
     in (with_store after_ask (fs_store f))\<lparr>sy_confirmed := fs_calls f\<rparr>)"

lemma ask_then_yes: "reachable [Gate_Call False stub_env deletion, Answer sample_env 1000 yes_reply] after_yes"
proof -
  have "sys_step empty_system (Gate_Call False stub_env deletion) after_ask"
    unfolding after_ask_def by (rule sys_step.gate [where e = "snd (dispatch False stub_env (sy_gate empty_system) deletion)"])
      (simp_all add: empty_system_def store_get_def)
  from reachable.step [OF reachable.start this] have a: "reachable [Gate_Call False stub_env deletion] after_ask" by simp
  have "sys_step after_ask (Answer sample_env 1000 yes_reply) after_yes"
    unfolding after_yes_def Let_def
    by (rule sys_step.answer [where r = "snd (answer_step (flow_of after_ask) (sample_env, 1000, yes_reply))"]) simp
  from reachable.step [OF a this] show ?thesis by simp
qed

lemma yes_runs: "map fst (sy_confirmed after_yes) = [''0123456789ab'']"
  by code_simp

theorem confirmed_calls_were_asked_and_answered_witness:
  "\<exists>c. sy_confirmed after_yes = [c] \<and> fst c = ''0123456789ab''
     \<and> asked_and_answered [Gate_Call False stub_env deletion, Answer sample_env 1000 yes_reply] c"
  using confirmed_calls_were_asked_and_answered [OF ask_then_yes] yes_runs by (cases "sy_confirmed after_yes") auto

end
