(* ===== verification/Model_Call.thy ===== *)
theory Model_Call
  imports Gate_Safety Confirm_Flow Grants
begin

text \<open>
  The policy around a model call (\<open>PolicyMiddleware.wrap_model_call\<close>, \<open>awrap_model_call\<close>): a typed
  answer is completed before the model is asked, tools no rule names are not offered
  (\<open>backend/app/policy/coverage.py\<close>), what ran is disclosed in the final reply, and a line of it
  that is a verdict on a known action is replaced.

  A reply's content is a text or a list of blocks; only the fields read here are modelled.
  \<open>me_said\<close> is the message of a resolved confirmation, \<open>me_report\<close> the report of an executed one
  that has a surface (\<open>surface_run.py\<close>), \<open>me_handler\<close> the model: it gets the names of the
  offered tools (\<open>None\<close>: the tool has no name) and the note appended to the messages.
\<close>

datatype content = Text string | Blocks "py list"

record model_message =
  mm_ai :: bool
  mm_content :: content
  mm_tool_calls :: bool

subsection \<open>Tools that are offered\<close>

definition has_rule :: "sandbox_config option \<Rightarrow> rule_set \<Rightarrow> string \<Rightarrow> bool" where
  "has_rule config rs tool = (\<not> d_refused (classify config rs tool [] False False))"

record coverage_report =
  cr_checked :: "string list"
  cr_unruled :: "string list"

text \<open>\<open>dict.fromkeys\<close>: the first occurrences, in order.\<close>

definition from_keys :: "'a list \<Rightarrow> 'a list" where
  "from_keys xs = rev (remdups (rev xs))"

definition check_coverage :: "sandbox_config option \<Rightarrow> rule_set \<Rightarrow> string list \<Rightarrow> coverage_report" where
  "check_coverage config rs tools =
     (let names = from_keys (filter (\<lambda>n. n \<noteq> []) tools) in
      \<lparr>cr_checked = names, cr_unruled = filter (\<lambda>n. \<not> has_rule config rs n) names\<rparr>)"

definition unruled_by_server :: "sandbox_config option \<Rightarrow> rule_set \<Rightarrow> (string \<times> string list) list \<Rightarrow> (string \<times> string list) list" where
  "unruled_by_server config rs tools = map (\<lambda>(server, names). (server, filter (\<lambda>n. \<not> has_rule config rs n) names)) tools"

definition offered :: "sandbox_config option \<Rightarrow> rule_set \<Rightarrow> string option list \<Rightarrow> string option list" where
  "offered config rs tools =
     (let named = concat (map (\<lambda>n. case n of Some s \<Rightarrow> if s \<noteq> [] then [s] else [] | None \<Rightarrow> []) tools) in
      if named = [] then tools
      else
        let unruled = cr_unruled (check_coverage config rs named) in
        if unruled = [] then tools else filter (\<lambda>n. case n of Some s \<Rightarrow> s \<notin> set unruled | None \<Rightarrow> True) tools)"

subsection \<open>The final reply\<close>

text \<open>The latest message of the assistant, unless tools are still running; given latest first.\<close>

fun on_final :: "(content \<Rightarrow> content) \<Rightarrow> model_message list \<Rightarrow> model_message list" where
  "on_final f [] = []"
| "on_final f (m # ms) =
     (if mm_ai m then (if mm_tool_calls m then m # ms else m\<lparr>mm_content := f (mm_content m)\<rparr> # ms)
      else m # on_final f ms)"

definition final_message :: "model_message list \<Rightarrow> model_message option" where
  "final_message response = (case find mm_ai (rev response) of
     None \<Rightarrow> None | Some m \<Rightarrow> if mm_tool_calls m then None else Some m)"

definition update_final :: "(content \<Rightarrow> content) \<Rightarrow> model_message list \<Rightarrow> model_message list" where
  "update_final f response = rev (on_final f (rev response))"

text \<open>\<open>text.split\<close> at newlines.\<close>

fun lines_of :: "string \<Rightarrow> string list" where
  "lines_of [] = [[]]"
| "lines_of (c # s) = (if c = newline then [] # lines_of s
     else (case lines_of s of [] \<Rightarrow> [[c]] | l # ls \<Rightarrow> (c # l) # ls))"

definition waiting_line :: "pending_action \<Rightarrow> string" where
  "waiting_line a = (if confirmable_by_typing a then ''Waiting for you: confirm action `'' @ pa_id a @ ''` on the card, or reply yes.''
     else ''Waiting for you: confirm action `'' @ pa_id a @ ''` with the button on its card.'')"

definition verdict_on :: "store \<Rightarrow> string \<Rightarrow> pending_action option" where
  "verdict_on st line = (case self_verdict_id line of None \<Rightarrow> None | Some i \<Rightarrow> store_get st i)"

definition without_self_verdicts :: "store \<Rightarrow> string \<Rightarrow> string" where
  "without_self_verdicts st s =
     (let ls = map (\<lambda>line. case verdict_on st line of None \<Rightarrow> line | Some a \<Rightarrow> waiting_line a) (lines_of s) in
      if list_ex (\<lambda>line. \<not> Option.is_none (verdict_on st line)) (lines_of s) then py_join [newline] ls else s)"

definition guard_content :: "store \<Rightarrow> content \<Rightarrow> content" where
  "guard_content st c = (case c of
     Text s \<Rightarrow> Text (without_self_verdicts st s)
   | Blocks bs \<Rightarrow> Blocks (map (\<lambda>b. case b of
         PDict d \<Rightarrow> (case dget d ''text'' of PStr s \<Rightarrow> PDict (dset d ''text'' (PStr (without_self_verdicts st s))) | _ \<Rightarrow> b)
       | _ \<Rightarrow> b) bs))"

definition guard_self_verdict :: "store \<Rightarrow> model_message list \<Rightarrow> model_message list" where
  "guard_self_verdict st response = update_final (guard_content st) response"

text \<open>\<open>str(content or "")\<close>.\<close>

definition content_text :: "(rat \<Rightarrow> string) \<Rightarrow> content \<Rightarrow> string" where
  "content_text fstr c = (case c of Text s \<Rightarrow> s | Blocks bs \<Rightarrow> if bs = [] then [] else py_repr fstr (PList bs))"

definition disclose_content :: "(rat \<Rightarrow> string) \<Rightarrow> execution_record list \<Rightarrow> content \<Rightarrow> content" where
  "disclose_content fstr rs c =
     (let disclosed = snd (apply_disclosures fstr rs (content_text fstr c)) in if Text disclosed \<noteq> c then Text disclosed else c)"

definition disclose :: "(rat \<Rightarrow> string) \<Rightarrow> execution_record list \<Rightarrow> model_message list \<Rightarrow> execution_record list \<times> model_message list" where
  "disclose fstr rs response =
     (if rs = [] \<or> final_message response = None then (rs, response)
      else ([], update_final (disclose_content fstr rs) response))"

subsection \<open>Completing a confirmation\<close>

record model_env =
  me_flow :: flow_env
  me_now :: instant
  me_rules :: rule_set
  me_sandbox :: "sandbox_config option"
  me_fstr :: "rat \<Rightarrow> string"
  me_clock :: "instant \<Rightarrow> string"
  me_said :: "store \<Rightarrow> flow_outcome \<Rightarrow> string option \<Rightarrow> string"
  me_report :: "pending_action \<Rightarrow> model_message"
  me_handler :: "string option list \<Rightarrow> string option \<Rightarrow> model_message list"

record model_request =
  mr_messages :: "message list"
  mr_ctx :: "dict option"
  mr_tools :: "string option list"

datatype completion = No_Answer "string option" | Would_Run | Reply model_message

definition may_answer :: "model_request \<Rightarrow> bool" where
  "may_answer rq = (mr_messages rq \<noteq> [] \<and> turn_may_answer (Some (last (mr_messages rq))) (mr_ctx rq))"

definition ai_text :: "string \<Rightarrow> model_message" where
  "ai_text s = \<lparr>mm_ai = True, mm_content = Text s, mm_tool_calls = False\<rparr>"

definition expiry_note :: "(instant \<Rightarrow> string) \<Rightarrow> pending_action list \<Rightarrow> string option" where
  "expiry_note clock expired = (if expired = [] then None
     else Some (''('' @ py_join '' '' (map (describe_expiry clock) expired) @ '')''))"

definition complete_confirmation :: "model_env \<Rightarrow> flow_state \<Rightarrow> model_request \<Rightarrow> bool \<Rightarrow> flow_state \<times> completion" where
  "complete_confirmation env s rq execute =
     (if \<not> may_answer rq then (s, No_Answer None)
      else
        let (s', r) = from_message (me_flow env) s (me_now env) (last (mr_messages rq)) (mr_ctx rq) execute in
        if fr_outcome r = WOULD_EXECUTE then (s', Would_Run)
        else if fr_outcome r = NO_VERDICT then (s', No_Answer (expiry_note (me_clock env) (fr_expired r)))
        else
          let posted = (if fr_outcome r = EXECUTED
                then (case or_none (fr_action r) of None \<Rightarrow> None
                   | Some i \<Rightarrow> (case store_get (fs_store s') i of Some a \<Rightarrow> if pa_surface a \<noteq> [] then Some a else None | None \<Rightarrow> None))
                else None)
          in (s', Reply (case posted of Some a \<Rightarrow> me_report env a
                | None \<Rightarrow> ai_text (me_said env (fs_store s') (fr_outcome r) (fr_action r)))))"

definition ask_model :: "model_env \<Rightarrow> flow_state \<Rightarrow> execution_record list \<Rightarrow> model_request \<Rightarrow> string option
     \<Rightarrow> flow_state \<times> execution_record list \<times> model_message list" where
  "ask_model env s rs rq note =
     (let response = me_handler env (offered (me_sandbox env) (me_rules env) (mr_tools rq)) note;
          (rs', disclosed) = disclose (me_fstr env) rs response
      in (s, rs', guard_self_verdict (fs_store s) disclosed))"

definition wrap_model_call :: "model_env \<Rightarrow> flow_state \<Rightarrow> execution_record list \<Rightarrow> model_request
     \<Rightarrow> flow_state \<times> execution_record list \<times> model_message list" where
  "wrap_model_call env s rs rq =
     (case complete_confirmation env s rq True of
        (s', Reply m) \<Rightarrow> (s', rs, [m])
      | (s', No_Answer note) \<Rightarrow> ask_model env s' rs rq note
      | (s', Would_Run) \<Rightarrow> (s', rs, []))"

subsection \<open>Admission to the confirmation pool\<close>

text \<open>\<open>_ConfirmSlots\<close> of \<open>gateway/routers/confirmations.py\<close>: the calls running, by user.\<close>

type_synonym slots = "(string \<times> int) list"

definition CONFIRM_WORKERS :: int where "CONFIRM_WORKERS = 8"
definition CONFIRMS_PER_USER :: int where "CONFIRMS_PER_USER = 4"

definition CONFIRM_BUSY_MESSAGE :: string where
  "CONFIRM_BUSY_MESSAGE = int_text CONFIRMS_PER_USER
     @ '' confirmed actions are already running, so this one has not started. Nothing has run. Confirm again when one finishes.''"

definition running :: "slots \<Rightarrow> string \<Rightarrow> int" where
  "running t user = (case map_of t user of Some n \<Rightarrow> n | None \<Rightarrow> 0)"

definition slots_take :: "slots \<Rightarrow> string \<Rightarrow> slots \<times> bool" where
  "slots_take t user =
     (if CONFIRM_WORKERS \<le> sum_list (map snd t) \<or> CONFIRMS_PER_USER \<le> running t user then (t, False)
      else (dset t user (running t user + 1), True))"

definition slots_give_back :: "slots \<Rightarrow> string \<Rightarrow> slots" where
  "slots_give_back t user = (let left = running t user - 1 in if left > 0 then dset t user left else ddel t user)"

definition user_of_run :: "model_request \<Rightarrow> string" where
  "user_of_run rq = (let u = text_at (ctx_or_empty (mr_ctx rq)) ''user_id'' in if u = [] then ''default'' else u)"

text \<open>
  The probe settles every turn that runs nothing; a run takes a slot, when one is free, and gives
  it back when it ends.
\<close>

definition awrap_model_call :: "model_env \<Rightarrow> slots \<Rightarrow> flow_state \<Rightarrow> execution_record list \<Rightarrow> model_request
     \<Rightarrow> slots \<times> flow_state \<times> execution_record list \<times> model_message list" where
  "awrap_model_call env t s rs rq =
     (case complete_confirmation env s rq False of
        (s', Reply m) \<Rightarrow> (t, s', rs, [m])
      | (s', No_Answer note) \<Rightarrow> (t, ask_model env s' rs rq note)
      | (s', Would_Run) \<Rightarrow>
          (case slots_take t (user_of_run rq) of
             (t', False) \<Rightarrow> (t', s', rs, [ai_text CONFIRM_BUSY_MESSAGE])
           | (t', True) \<Rightarrow>
               let t'' = slots_give_back t' (user_of_run rq) in
               (case complete_confirmation env s' rq True of
                  (s2, Reply m) \<Rightarrow> (t'', s2, rs, [m])
                | (s2, No_Answer note) \<Rightarrow> (t'', ask_model env s2 rs rq note)
                | (s2, Would_Run) \<Rightarrow> (t'', s2, rs, []))))"

subsection \<open>The lines of the reply\<close>

lemma lines_of_ne: "lines_of s \<noteq> []"
  by (cases s) (auto split: list.splits)

lemma lines_of_no_newline: "line \<in> set (lines_of s) \<Longrightarrow> newline \<notin> set line"
  by (induction s arbitrary: line) (auto split: list.splits if_splits)

lemma lines_of_plain: "newline \<notin> set s \<Longrightarrow> lines_of s = [s]"
  by (induction s) auto

lemma lines_of_append: "newline \<notin> set l \<Longrightarrow> lines_of (l @ newline # s) = l # lines_of s"
  by (induction l) auto

lemma lines_of_join:
  "ls \<noteq> [] \<Longrightarrow> \<forall>l \<in> set ls. newline \<notin> set l \<Longrightarrow> lines_of (py_join [newline] ls) = ls"
proof (induction ls)
  case (Cons l ls)
  then show ?case by (cases ls) (auto simp: lines_of_plain lines_of_append)
qed simp

text \<open>A line of waiting is not itself a verdict: its first word is none of the forms'.\<close>

lemma forms_start: "list_all (\<lambda>f. f \<noteq> [] \<and> hd f \<noteq> CHR ''w'') (CONFIRM_FORMS @ DECLINE_FORMS)"
  by code_simp

lemma split_first_word:
  assumes "\<not> py_isspace c"
  shows "\<exists>w ws. py_split (c # s) = (c # w) # ws"
  using assms by (auto simp: py_split_def runs.simps [of _ "c # s"] Let_def)

lemma join_first_word: "\<exists>x. py_join sep ((c # w) # ws) = c # x"
  by (cases ws) auto

lemma lower_w: "lower_char (CHR ''W'') = CHR ''w''" "allowed_char (CHR ''w'')"
  by code_simp+

lemma waiting_normalised:
  assumes "s \<noteq> []" "last s = CHR ''.''"
  shows "\<exists>x. normalise (''Waiting '' @ s) = CHR ''w'' # x"
proof -
  have "py_strip (''Waiting '' @ s) = ''Waiting '' @ s"
    unfolding py_strip_def using assms by (intro strip_by_id) (auto simp: py_isspace_def code_of_def)
  moreover have "\<exists>y. map (\<lambda>c. if allowed_char c then c else CHR '' '') (py_lower (''Waiting '' @ s)) = CHR ''w'' # y"
    using lower_w by (simp add: py_lower_def)
  moreover have "\<not> py_isspace (CHR ''w'')" by (simp add: py_isspace_def code_of_def)
  ultimately show ?thesis unfolding normalise_def by (metis split_first_word join_first_word)
qed

lemma waiting_not_a_verdict:
  assumes "s \<noteq> []" "last s = CHR ''.''"
  shows "self_verdict_id (''Waiting '' @ s) = None"
proof (rule ccontr)
  assume a: "self_verdict_id (''Waiting '' @ s) \<noteq> None"
  obtain x where x: "normalise (''Waiting '' @ s) = CHR ''w'' # x" using waiting_normalised [OF assms] by blast
  let ?i = "hd (find_ids (CHR ''w'' # x))"
  let ?words = "py_join '' '' (py_split (replace_all ?i '' '' (CHR ''w'' # x)))"
  have len: "length (find_ids (CHR ''w'' # x)) = 1" and w: "?words \<in> set (CONFIRM_FORMS @ DECLINE_FORMS)"
    using a unfolding self_verdict_id_def Let_def x by (simp_all split: if_splits)
  have "?i \<in> set (find_ids (CHR ''w'' # x))" using len by (intro hd_in_set) auto
  then have "is_action_id ?i" by (simp add: find_ids_def)
  then obtain h t where i: "?i = h # t" "is_hex_lower h" by (cases ?i) (auto simp: is_action_id_def)
  then have "h \<noteq> CHR ''w''" by (auto simp: is_hex_lower_def code_of_def Let_def)
  then have "replace_all ?i '' '' (CHR ''w'' # x) = CHR ''w'' # replace_all ?i '' '' x"
    unfolding i(1) by (simp add: replace_all.simps [of "h # t" _ "CHR ''w'' # x"] starts_with_def)
  moreover have "\<not> py_isspace (CHR ''w'')" by (simp add: py_isspace_def code_of_def)
  ultimately obtain y where "?words = CHR ''w'' # y" by (metis split_first_word join_first_word)
  then show False using w forms_start unfolding list_all_iff by (metis list.sel(1))
qed

lemma waiting_line_plain: "verdict_on st (waiting_line a) = None"
proof -
  have "\<exists>s. waiting_line a = ''Waiting '' @ s \<and> s \<noteq> [] \<and> last s = CHR ''.''"
    by (auto simp: waiting_line_def)
  then show ?thesis using waiting_not_a_verdict by (auto simp: verdict_on_def)
qed

lemma verdict_id_no_newline:
  assumes "files_ok st" "verdict_on st line = Some a"
  shows "newline \<notin> set (pa_id a)"
proof -
  obtain i where i: "self_verdict_id line = Some i" "store_get st i = Some a"
    using assms(2) by (auto simp: verdict_on_def split: option.splits)
  let ?ids = "find_ids (normalise line)"
  have "i = hd ?ids" "length ?ids = 1" using i(1) by (auto simp: self_verdict_id_def Let_def split: if_splits)
  then have "i \<in> set ?ids" by (cases ?ids) auto
  then have "list_all is_hex_lower i" by (simp add: find_ids_def is_action_id_def)
  moreover have "\<not> is_hex_lower newline" by (simp add: is_hex_lower_def newline_def code_of_def)
  moreover have "pa_id a = i" using files_ok_get [OF assms(1) i(2)] .
  ultimately show ?thesis by (auto simp: list_all_iff)
qed

lemma plain_lines:
  assumes "files_ok st"
  shows "\<forall>line \<in> set (lines_of (without_self_verdicts st s)). verdict_on st line = None"
proof (cases "list_ex (\<lambda>line. \<not> Option.is_none (verdict_on st line)) (lines_of s)")
  case False
  then show ?thesis by (auto simp: without_self_verdicts_def list_ex_iff Let_def Option.is_none_def)
next
  case True
  let ?f = "\<lambda>line. case verdict_on st line of None \<Rightarrow> line | Some a \<Rightarrow> waiting_line a"
  have "\<forall>l \<in> set (map ?f (lines_of s)). newline \<notin> set l"
    using lines_of_no_newline verdict_id_no_newline [OF assms]
    by (auto simp: waiting_line_def newline_def split: option.splits)
  then have "lines_of (without_self_verdicts st s) = map ?f (lines_of s)"
    using True lines_of_ne by (simp add: without_self_verdicts_def Let_def lines_of_join del: set_map)
  then show ?thesis using waiting_line_plain by (auto split: option.splits)
qed

lemma without_none: "\<forall>line \<in> set (lines_of s). verdict_on st line = None \<Longrightarrow> without_self_verdicts st s = s"
  by (auto simp: without_self_verdicts_def list_ex_iff Let_def Option.is_none_def)

text \<open>The texts of a reply's content that are read line by line: the content, or the \<open>text\<close> of each block that is a dict.\<close>

definition content_texts :: "content \<Rightarrow> string list" where
  "content_texts c = (case c of Text s \<Rightarrow> [s]
     | Blocks bs \<Rightarrow> concat (map (\<lambda>b. case b of PDict d \<Rightarrow> (case dget d ''text'' of PStr s \<Rightarrow> [s] | _ \<Rightarrow> []) | _ \<Rightarrow> []) bs))"

definition free_of_verdicts :: "store \<Rightarrow> content \<Rightarrow> bool" where
  "free_of_verdicts st c = (\<forall>s \<in> set (content_texts c). \<forall>line \<in> set (lines_of s). verdict_on st line = None)"

lemma guard_content_free:
  assumes "files_ok st"
  shows "free_of_verdicts st (guard_content st c)"
proof (cases c)
  case (Blocks bs)
  then show ?thesis using plain_lines [OF assms]
    by (auto simp: free_of_verdicts_def content_texts_def guard_content_def split: py.splits)
qed (use plain_lines [OF assms] in \<open>simp add: free_of_verdicts_def content_texts_def guard_content_def\<close>)

lemma dset_present: "map_of d k = Some v \<Longrightarrow> dset d k v = d"
  by (induction d k v rule: dset.induct) (auto split: if_splits)

lemma guard_content_same:
  assumes "free_of_verdicts st c"
  shows "guard_content st c = c"
proof (cases c)
  case (Text s)
  then show ?thesis using assms without_none by (simp add: free_of_verdicts_def content_texts_def guard_content_def)
next
  case (Blocks bs)
  let ?f = "\<lambda>b. case b of
         PDict d \<Rightarrow> (case dget d ''text'' of PStr s \<Rightarrow> PDict (dset d ''text'' (PStr (without_self_verdicts st s))) | _ \<Rightarrow> b)
       | _ \<Rightarrow> b"
  have "?f b = b" if b: "b \<in> set bs" for b
  proof (cases "\<exists>d s. b = PDict d \<and> dget d ''text'' = PStr s")
    case True
    then obtain d s where d: "b = PDict d" "dget d ''text'' = PStr s" by blast
    then have "s \<in> set (content_texts c)" using b by (force simp: Blocks content_texts_def)
    then have "without_self_verdicts st s = s" using assms without_none by (simp add: free_of_verdicts_def)
    moreover have "map_of d ''text'' = Some (PStr s)" using d(2) by (auto simp: dget_def split: option.splits)
    ultimately show ?thesis using d dset_present by simp
  qed (auto split: py.splits)
  then show ?thesis by (simp add: Blocks guard_content_def map_idI)
qed

lemma on_final_first: "find mm_ai (on_final f ms) = map_option (\<lambda>m. if mm_tool_calls m then m else m\<lparr>mm_content := f (mm_content m)\<rparr>) (find mm_ai ms)"
  by (induction f ms rule: on_final.induct) auto

lemma final_update: "final_message (update_final f response) = map_option (\<lambda>m. m\<lparr>mm_content := f (mm_content m)\<rparr>) (final_message response)"
  by (simp add: final_message_def update_final_def on_final_first split: option.splits)

lemma content_same [simp]: "(m :: model_message)\<lparr>mm_content := mm_content m\<rparr> = m"
  by simp

lemma on_final_same:
  "\<forall>m. find mm_ai ms = Some m \<longrightarrow> \<not> mm_tool_calls m \<longrightarrow> f (mm_content m) = mm_content m \<Longrightarrow> on_final f ms = ms"
proof (induction ms)
  case (Cons m ms)
  then show ?case by (cases "mm_ai m"; cases "mm_tool_calls m") simp_all
qed simp

lemma update_final_same:
  assumes "\<forall>m. final_message response = Some m \<longrightarrow> f (mm_content m) = mm_content m"
  shows "update_final f response = response"
proof -
  have "on_final f (rev response) = rev response" using assms by (intro on_final_same) (auto simp: final_message_def)
  then show ?thesis by (simp add: update_final_def)
qed

lemma completed_files:
  assumes "complete_confirmation env s rq execute = (s', c)" "files_ok (fs_store s)"
  shows "files_ok (fs_store s')"
proof (cases "may_answer rq")
  case True
  obtain s1 r where r: "from_message (me_flow env) s (me_now env) (last (mr_messages rq)) (mr_ctx rq) execute = (s1, r)" by force
  then have "s' = s1" using assms(1) True by (auto simp: complete_confirmation_def Let_def split: if_splits)
  moreover have "files_ok (fs_store s1)" using r assms(2)
  proof (cases rule: from_message_cases)
    case (Applied s2 a v expired)
    show ?thesis using Applied(14,2) by (cases rule: flow_apply_cases)
  qed
  ultimately show ?thesis by simp
qed (use assms in \<open>simp add: complete_confirmation_def\<close>)

text \<open>
  C37. The assistant never answers for the user. Whatever the model returned and whatever the store holds: the reply a person
  reads after a model call, that is the last message of the assistant if it calls no tool, after what ran was disclosed in it,
  has no line that is a verdict on a stored action, neither in a plain text nor in the text of a block; every other message is
  as the model returned it; and a reply that had no such line is left as it is.
\<close>

theorem no_self_verdict_in_reply:
  assumes "files_ok (fs_store s)" "complete_confirmation env s rq True = (s1, No_Answer note)"
    and "wrap_model_call env s rs rq = (s2, rs', response)"
  shows "s2 = s1
    \<and> (\<forall>m. final_message response = Some m \<longrightarrow> free_of_verdicts (fs_store s1) (mm_content m))
    \<and> (\<exists>disclosed. disclose (me_fstr env) rs (me_handler env (offered (me_sandbox env) (me_rules env) (mr_tools rq)) note) = (rs', disclosed)
        \<and> response = update_final (guard_content (fs_store s1)) disclosed
        \<and> ((\<forall>m. final_message disclosed = Some m \<longrightarrow> free_of_verdicts (fs_store s1) (mm_content m)) \<longrightarrow> response = disclosed))"
proof -
  let ?offer = "me_handler env (offered (me_sandbox env) (me_rules env) (mr_tools rq)) note"
  obtain rs1 disclosed where di: "disclose (me_fstr env) rs ?offer = (rs1, disclosed)" by (metis surj_pair)
  have "wrap_model_call env s rs rq = (s1, rs1, update_final (guard_content (fs_store s1)) disclosed)"
    by (simp add: wrap_model_call_def assms(2) ask_model_def di guard_self_verdict_def)
  then have d: "disclose (me_fstr env) rs ?offer = (rs', disclosed)" "response = update_final (guard_content (fs_store s1)) disclosed" "s2 = s1"
    using assms(3) di by simp_all
  have ok: "files_ok (fs_store s1)" by (rule completed_files [OF assms(2,1)])
  have free: "free_of_verdicts (fs_store s1) (mm_content m)" if "final_message response = Some m" for m
  proof -
    obtain m' where "m = m'\<lparr>mm_content := guard_content (fs_store s1) (mm_content m')\<rparr>"
      using \<open>final_message response = Some m\<close> unfolding d(2) final_update map_option_eq_Some by blast
    then show ?thesis using guard_content_free [OF ok] by simp
  qed
  have same: "response = disclosed" if all: "\<forall>m. final_message disclosed = Some m \<longrightarrow> free_of_verdicts (fs_store s1) (mm_content m)"
    unfolding d(2)
  proof (rule update_final_same, intro allI impI)
    fix m assume "final_message disclosed = Some m"
    then show "guard_content (fs_store s1) (mm_content m) = mm_content m" using all by (simp add: guard_content_same)
  qed
  show ?thesis
  proof (intro conjI exI [of _ disclosed])
    show "s2 = s1" by (rule d(3))
    show "\<forall>m. final_message response = Some m \<longrightarrow> free_of_verdicts (fs_store s1) (mm_content m)" using free by blast
    show "disclose (me_fstr env) rs ?offer = (rs', disclosed)" by (rule d(1))
    show "response = update_final (guard_content (fs_store s1)) disclosed" by (rule d(2))
    show "(\<forall>m. final_message disclosed = Some m \<longrightarrow> free_of_verdicts (fs_store s1) (mm_content m)) \<longrightarrow> response = disclosed"
      by (intro impI same)
  qed
qed

text \<open>The model repeats a verdict as its own reply: the person reads that it waits for them.\<close>

definition parrot_env :: model_env where
  "parrot_env = \<lparr>me_flow = sample_env, me_now = 1000, me_rules = sample_rules, me_sandbox = None, me_fstr = (\<lambda>_. []), me_clock = (\<lambda>_. []),
     me_said = (\<lambda>_ _ _. ''done''), me_report = (\<lambda>_. ai_text ''report''),
     me_handler = (\<lambda>_ _. [ai_text (''Sure.'' @ newline # ''`Yes, 0123456789ab`.'')])\<rparr>"

definition idle_request :: model_request where
  "idle_request = \<lparr>mr_messages = [], mr_ctx = None, mr_tools = []\<rparr>"

theorem no_self_verdict_in_reply_witness:
  "map_option pa_id (verdict_on sample_store ''`Yes, 0123456789ab`.'') = Some ''0123456789ab''
   \<and> (\<exists>m. final_message (snd (snd (wrap_model_call parrot_env \<lparr>fs_store = sample_store, fs_calls = []\<rparr> [] idle_request))) = Some m
        \<and> free_of_verdicts sample_store (mm_content m))"
proof
  show "map_option pa_id (verdict_on sample_store ''`Yes, 0123456789ab`.'') = Some ''0123456789ab''" by code_simp
  let ?s = "\<lparr>fs_store = sample_store, fs_calls = []\<rparr>"
  obtain s2 rs' response where w: "wrap_model_call parrot_env ?s [] idle_request = (s2, rs', response)" by (metis prod_cases3)
  have c: "complete_confirmation parrot_env ?s idle_request True = (?s, No_Answer None)"
    by (simp add: complete_confirmation_def may_answer_def idle_request_def)
  have m: "final_message response \<noteq> None"
  proof -
    have "response = update_final (guard_content sample_store) (me_handler parrot_env [] None)"
      using w unfolding wrap_model_call_def c by (simp add: ask_model_def disclose_def guard_self_verdict_def idle_request_def offered_def)
    then show ?thesis by (simp add: final_update) (simp add: parrot_env_def final_message_def ai_text_def)
  qed
  have "files_ok (fs_store ?s)" using files_ok_sample by simp
  from no_self_verdict_in_reply [OF this c w] m
  show "\<exists>m. final_message (snd (snd (wrap_model_call parrot_env ?s [] idle_request))) = Some m \<and> free_of_verdicts sample_store (mm_content m)"
    by (auto simp: w)
qed

text \<open>A block that is a bare string, which a content list may hold, is not looked at.\<close>

lemma bare_string_block_is_not_guarded:
  "guard_content st (Blocks [PStr s]) = Blocks [PStr s]"
  by (simp add: guard_content_def)

subsection \<open>What the model is offered\<close>

lemma set_from_keys [simp]: "set (from_keys xs) = set xs"
  by (simp add: from_keys_def)

lemma offered_filter:
  "offered config rs tools = filter (\<lambda>n. case n of Some s \<Rightarrow> s = [] \<or> has_rule config rs s | None \<Rightarrow> True) tools"
proof -
  define named where "named = concat (map (\<lambda>n. case n of Some s \<Rightarrow> if s \<noteq> [] then [s] else [] | None \<Rightarrow> []) tools)"
  define unruled where "unruled = cr_unruled (check_coverage config rs named)"
  have "offered config rs tools = (if named = [] \<or> unruled = [] then tools
      else filter (\<lambda>n. case n of Some s \<Rightarrow> s \<notin> set unruled | None \<Rightarrow> True) tools)"
    by (simp only: offered_def Let_def named_def unruled_def split: if_splits) auto
  also have "\<dots> = filter (\<lambda>n. case n of Some s \<Rightarrow> s \<notin> set unruled | None \<Rightarrow> True) tools"
  proof (cases "named = [] \<or> unruled = []")
    case True
    then have "unruled = []" by (auto simp: unruled_def check_coverage_def from_keys_def)
    then show ?thesis by (auto simp: filter_id_conv split: option.splits intro!: filter_True [symmetric])
  qed simp
  also have "\<dots> = filter (\<lambda>n. case n of Some s \<Rightarrow> s = [] \<or> has_rule config rs s | None \<Rightarrow> True) tools"
  proof -
    have "s \<in> set unruled \<longleftrightarrow> s \<noteq> [] \<and> \<not> has_rule config rs s" if "Some s \<in> set tools" for s
      using that by (force simp: unruled_def check_coverage_def named_def Let_def split: option.splits)
    then show ?thesis by (intro filter_cong refl) (auto split: option.splits)
  qed
  finally show ?thesis .
qed

lemma refused_iff:
  "d_refused (classify config rs tool args ac pr) \<longleftrightarrow> scan_candidates (canonical_tool_name tool) rs = [] \<and> \<not> rs_unreadable rs"
  using classify_d_tier(3) [of tool rs config args ac pr]
  by (cases "scan_candidates (canonical_tool_name tool) rs = []") (auto simp: classify_def decide_def)

text \<open>
  C38. Coverage and the gate agree: the model is offered, in order, exactly the tools that have no
  name or that the gate would not refuse, whatever arguments they are called with and whatever led
  to the call; so no offered tool is refused for want of a rule, and no refused one is offered.
\<close>

theorem offered_iff_not_refused:
  "offered config rs tools = filter (\<lambda>n. case n of Some s \<Rightarrow> s = [] \<or> \<not> d_refused (classify config rs s args ac pr) | None \<Rightarrow> True) tools"
  unfolding offered_filter has_rule_def refused_iff ..

theorem offered_iff_not_refused_witness:
  "offered None sample_rules [Some ''ledger_apply'', Some ''unheard_of'', None] = [Some ''ledger_apply'', None]"
proof -
  have "\<not> d_refused (classify None sample_rules ''ledger_apply'' [] True True)" "d_refused (classify None sample_rules ''unheard_of'' [] True True)"
    by code_simp+
  then show ?thesis
    using offered_iff_not_refused [of None sample_rules "[Some ''ledger_apply'', Some ''unheard_of'', None]" "[]" True True] by simp
qed

subsection \<open>Content in blocks\<close>

text \<open>
  A final reply whose content is a list of blocks is not disclosed but replaced: once a Tier 2
  call ran, what is sent is one text that starts with Python's representation of the list, also
  when the reply covered every call.
\<close>

theorem block_reply_becomes_repr:
  assumes "rs \<noteq> []" "bs \<noteq> []"
  shows "\<exists>m rest. snd (disclose fstr rs [\<lparr>mm_ai = True, mm_content = Blocks bs, mm_tool_calls = False\<rparr>]) = [m]
    \<and> mm_content m = Text (rstrip_by py_isspace (py_repr fstr (PList bs)) @ rest)"
proof -
  obtain rest where "snd (apply_disclosures fstr rs (py_repr fstr (PList bs))) = rstrip_by py_isspace (py_repr fstr (PList bs)) @ rest"
    using every_execution_disclosed by blast
  then show ?thesis using assms
    by (auto simp: disclose_def final_message_def update_final_def disclose_content_def content_text_def Let_def)
qed

theorem block_reply_becomes_repr_witness:
  "\<exists>m rest. snd (disclose (\<lambda>_. []) [\<lparr>er_tool_name = ''t'', er_arguments = [], er_targets = [], er_disclosed = False\<rparr>]
      [\<lparr>mm_ai = True, mm_content = Blocks [PDict [(''type'', PStr ''text''), (''text'', PStr ''I used t.'')]], mm_tool_calls = False\<rparr>]) = [m]
    \<and> mm_content m = Text (rstrip_by py_isspace (py_repr (\<lambda>_. []) (PList [PDict [(''type'', PStr ''text''), (''text'', PStr ''I used t.'')]])) @ rest)"
  by (rule block_reply_becomes_repr) simp_all

subsection \<open>The probe\<close>

lemma sweep_none:
  "(\<And>i a. i \<in> set ids \<Longrightarrow> rd s i = Some a \<Longrightarrow> upd a = None) \<Longrightarrow> sweep rd wr upd s ids = (s, [])"
proof (induction ids)
  case (Cons i ids)
  have "upd a = None" if "rd s i = Some a" for a using Cons.prems [of i a] that by simp
  moreover have "sweep rd wr upd s ids = (s, [])" using Cons.prems by (intro Cons.IH) auto
  ultimately show ?case by (cases "rd s i") simp_all
qed simp

lemma expire_again:
  assumes "files_ok st" "expire_due st now = (st1, out)"
  shows "expire_due st1 now = (st1, [])"
proof -
  have "expire_one now a = None" if "store_get st1 i = Some a" for i a
    using that get_expire_due [OF assms(1), of now i] assms(2)
    by (auto simp: expire_one_def resolve_action_def split: option.splits if_splits)
  then show ?thesis unfolding expire_due_def by (intro sweep_none) blast
qed

lemma open_again:
  assumes "files_ok st" "expire_due st now = (st1, out)"
  shows "open_actions st1 now = (st1, listing store_get (is_open now) st1 (store_ids st1))"
  using expire_again [OF assms] by (simp add: open_actions_def)

text \<open>The actions that expired only ride along.\<close>

definition with_expired :: "pending_action list \<Rightarrow> flow_state \<times> flow_result \<Rightarrow> flow_state \<times> flow_result" where
  "with_expired x p = (fst p, (snd p)\<lparr>fr_expired := x\<rparr>)"

lemma flow_result_expired [simp]: "(flow_result_of o' i y)\<lparr>fr_expired := x\<rparr> = flow_result_of o' i x"
  by (simp add: flow_result_of_def)

lemma flow_decline_expired: "flow_decline env s a x ans = with_expired x (flow_decline env s a y ans)"
  by (simp add: flow_decline_def with_expired_def split: option.splits prod.splits)

lemma flow_execute_expired: "flow_execute env s a x ans = with_expired x (flow_execute env s a y ans)"
proof -
  obtain st c where c: "take_claim (fs_store s) (pa_id a) (fe_claimant env) = (st, c)" by force
  show ?thesis
  proof (cases c)
    case (Some d)
    obtain t b r where e: "execute_confirmed env (s\<lparr>fs_store := store_save st (d\<lparr>pa_confirmation := Some ans\<rparr>)\<rparr>) (d\<lparr>pa_confirmation := Some ans\<rparr>) = (t, b, r)"
      by (metis prod_cases3)
    show ?thesis by (cases r) (simp_all add: flow_execute_def c Some e Let_def with_expired_def split: option.splits prod.splits)
  qed (simp add: flow_execute_def c with_expired_def)
qed

lemma flow_apply_expired: "flow_apply env s a v supplied x ans execute = with_expired x (flow_apply env s a v supplied y ans execute)"
  using flow_decline_expired [of env s a x "answered_defaults ans" y] flow_execute_expired [of env s a x "answered_defaults ans" y]
  by (simp add: flow_apply_def with_expired_def Let_def)

lemma flow_decline_outcome: "fr_outcome (snd (flow_decline env s a x ans)) \<notin> {WOULD_EXECUTE, NO_VERDICT}"
  by (simp add: flow_decline_def flow_result_of_def split: option.splits prod.splits)

lemma flow_execute_outcome: "fr_outcome (snd (flow_execute env s a x ans)) \<notin> {WOULD_EXECUTE, NO_VERDICT}"
  by (simp add: flow_execute_def flow_result_of_def Let_def split: option.splits prod.splits sum.splits)

text \<open>A probe of an answer is the answer itself, or stops exactly before the run.\<close>

lemma flow_apply_probe:
  "flow_apply env s a v supplied x ans True = flow_apply env s a v supplied x ans False
     \<and> fr_outcome (snd (flow_apply env s a v supplied x ans False)) \<notin> {WOULD_EXECUTE}
   \<or> flow_apply env s a v supplied x ans False = (s, flow_result_of WOULD_EXECUTE (Some (pa_id a)) x)
     \<and> fr_outcome (snd (flow_apply env s a v supplied x ans True)) \<notin> {WOULD_EXECUTE, NO_VERDICT}"
proof (cases "v = DECLINE")
  case True
  then show ?thesis using flow_decline_outcome by (simp add: flow_apply_def)
next
  case False
  then show ?thesis using flow_execute_outcome by (simp add: flow_apply_def flow_result_of_def)
qed

text \<open>After the expiry a typed reply is answered at once or applied to one action.\<close>

lemma from_message_shape:
  assumes "files_ok (fs_store s)" "expire_due (fs_store s) now = (st1, out)"
  obtains (Done) o' i where "o' \<noteq> WOULD_EXECUTE"
      "\<And>ex. from_message env s now m ctx ex = (s\<lparr>fs_store := st1\<rparr>, flow_result_of o' i out)"
      "\<And>ex. from_message env (s\<lparr>fs_store := st1\<rparr>) now m ctx ex = (s\<lparr>fs_store := st1\<rparr>, flow_result_of o' i [])"
  | (Apply) a v supplied ans where
      "\<And>ex. from_message env s now m ctx ex = flow_apply env (s\<lparr>fs_store := st1\<rparr>) a v supplied out ans ex"
      "\<And>ex. from_message env (s\<lparr>fs_store := st1\<rparr>) now m ctx ex = flow_apply env (s\<lparr>fs_store := st1\<rparr>) a v supplied [] ans ex"
proof -
  note e2 = expire_again [OF assms] and o1 = open_again [OF assms]
  define pending where "pending = answerable_by_typed_reply (listing store_get (is_open now) st1 (store_ids st1)) ctx (Some m)"
  obtain supplied stripped where x: "extract_count (m_content m) = (supplied, stripped)" by force
  define verdict where "verdict = recognise (m\<lparr>m_content := stripped\<rparr>) pending ctx"
  note unfolds = from_message_def assms(2) e2 o1 pending_def [symmetric] x verdict_def [symmetric]
  consider "pending = []" | "pending \<noteq> []" "rc_verdict verdict = UNRECOGNISED"
    | "pending \<noteq> []" "rc_verdict verdict \<noteq> UNRECOGNISED" "rc_action verdict = None"
    | i where "pending \<noteq> []" "rc_verdict verdict \<noteq> UNRECOGNISED" "rc_action verdict = Some i" "store_get st1 i = None"
    | i a where "pending \<noteq> []" "rc_verdict verdict \<noteq> UNRECOGNISED" "rc_action verdict = Some i" "store_get st1 i = Some a"
        "pa_outcome a \<noteq> None"
    | i a where "pending \<noteq> []" "rc_verdict verdict \<noteq> UNRECOGNISED" "rc_action verdict = Some i" "store_get st1 i = Some a"
        "pa_outcome a = None" "rc_verdict verdict = CONFIRM \<and> \<not> confirmable_by_typing a"
    | i a where "pending \<noteq> []" "rc_verdict verdict \<noteq> UNRECOGNISED" "rc_action verdict = Some i" "store_get st1 i = Some a"
        "pa_outcome a = None" "\<not> (rc_verdict verdict = CONFIRM \<and> \<not> confirmable_by_typing a)"
    by blast
  then show thesis
  proof cases
    case 1
    then show thesis by (intro Done [of NO_VERDICT None]) (simp_all add: unfolds)
  next
    case 2
    then show thesis
    proof (cases "looks_like_an_answer stripped")
      case True
      then show thesis using 2 by (intro Done [of UNRECOGNISED_ANSWER "rc_action verdict"]) (simp_all add: unfolds)
    next
      case False
      then show thesis using 2 by (intro Done [of NO_VERDICT None]) (simp_all add: unfolds)
    qed
  next
    case 3
    then show thesis by (intro Done [of UNRECOGNISED_ANSWER None]) (simp_all add: unfolds)
  next
    case (4 i)
    then show thesis by (intro Done [of ALREADY_RESOLVED "Some i"]) (simp_all add: unfolds)
  next
    case (5 i a)
    then show thesis by (intro Done [of ALREADY_RESOLVED "Some i"]) (simp_all add: unfolds)
  next
    case (6 i a)
    then show thesis by (intro Done [of CARD_ONLY "Some (pa_id a)"]) (simp_all add: unfolds)
  next
    case (7 i a)
    then show thesis
      by (intro Apply [of a "rc_verdict verdict" supplied "Some (reply_answered m (ctx_or_empty ctx))"]) (auto simp add: unfolds)
  qed
qed

lemma probe_then_run:
  assumes "files_ok (fs_store s)" "from_message env s now m ctx False = (s1, r1)"
  shows "if fr_outcome r1 = WOULD_EXECUTE
    then from_message env s1 now m ctx True = with_expired [] (from_message env s now m ctx True)
      \<and> fr_outcome (snd (from_message env s now m ctx True)) \<notin> {WOULD_EXECUTE, NO_VERDICT}
      \<and> fs_calls s1 = fs_calls s \<and> st_claims (fs_store s1) = st_claims (fs_store s)
    else from_message env s now m ctx True = (s1, r1)"
proof -
  obtain st1 out where e: "expire_due (fs_store s) now = (st1, out)" by force
  have cl: "st_claims st1 = st_claims (fs_store s)" using expire_due_frame(3) [OF assms(1), of now] e by simp
  from assms(1) e show ?thesis
  proof (cases rule: from_message_shape [where env = env and m = m and ctx = ctx])
    case (Done o' i)
    then show ?thesis using assms(2) by (auto simp: flow_result_of_def)
  next
    case (Apply a v supplied ans)
    show ?thesis
      using flow_apply_probe [of env "s\<lparr>fs_store := st1\<rparr>" a v supplied out ans] assms(2) cl
        flow_apply_expired [of env "s\<lparr>fs_store := st1\<rparr>" a v supplied "[]" ans True out]
      by (auto simp: Apply flow_result_of_def)
  qed
qed

text \<open>
  C25. Probing first changes nothing: a model call that first probes the answer and then, with a free
  slot, runs it off the event loop leaves the same actions, makes the same calls and returns the
  same messages as the one that answers directly. Without a free slot it either does the same, or
  makes no call, takes no claim, and says that confirmed actions are already running.
\<close>

theorem awrap_agrees_with_wrap:
  assumes "files_ok (fs_store s)"
  shows "snd (awrap_model_call env t s rs rq) = wrap_model_call env s rs rq
    \<or> \<not> snd (slots_take t (user_of_run rq))
      \<and> (\<exists>s'. snd (awrap_model_call env t s rs rq) = (s', rs, [ai_text CONFIRM_BUSY_MESSAGE])
           \<and> fs_calls s' = fs_calls s \<and> st_claims (fs_store s') = st_claims (fs_store s))"
proof (cases "may_answer rq")
  case False
  then show ?thesis by (simp add: awrap_model_call_def wrap_model_call_def complete_confirmation_def)
next
  case True
  let ?m = "last (mr_messages rq)"
  obtain s1 r1 where p: "from_message (me_flow env) s (me_now env) ?m (mr_ctx rq) False = (s1, r1)" by force
  obtain s2 r2 where q: "from_message (me_flow env) s (me_now env) ?m (mr_ctx rq) True = (s2, r2)" by force
  note pr = probe_then_run [OF assms p]
  show ?thesis
  proof (cases "fr_outcome r1 = WOULD_EXECUTE")
    case False
    then show ?thesis using pr True p q
      by (auto simp: awrap_model_call_def wrap_model_call_def complete_confirmation_def Let_def)
  next
    case w: True
    obtain t' free where t: "slots_take t (user_of_run rq) = (t', free)" by force
    have probe: "complete_confirmation env s rq False = (s1, Would_Run)"
      using True p w by (simp add: complete_confirmation_def)
    have again: "from_message (me_flow env) s1 (me_now env) ?m (mr_ctx rq) True = (s2, r2\<lparr>fr_expired := []\<rparr>)"
      using pr w q by (simp add: with_expired_def)
    have run: "complete_confirmation env s1 rq True = complete_confirmation env s rq True"
      "\<exists>m. complete_confirmation env s rq True = (s2, Reply m)"
      using pr w q again True by (auto simp: complete_confirmation_def with_expired_def Let_def cong: option.case_cong)
    show ?thesis
    proof (cases free)
      case True
      then show ?thesis using probe run t by (auto simp: awrap_model_call_def wrap_model_call_def Let_def)
    next
      case False
      then show ?thesis using probe t pr w by (simp add: awrap_model_call_def)
    qed
  qed
qed

definition probe_env :: model_env where
  "probe_env = \<lparr>me_flow = sample_env, me_now = 1000, me_rules = sample_rules, me_sandbox = None, me_fstr = (\<lambda>_. []), me_clock = (\<lambda>_. []),
     me_said = (\<lambda>_ _ _. ''done''), me_report = (\<lambda>_. ai_text ''report''), me_handler = (\<lambda>_ _. [ai_text ''hello''])\<rparr>"

definition yes_request :: model_request where
  "yes_request = \<lparr>mr_messages = [typed ''yes''], mr_ctx = sample_ctx, mr_tools = []\<rparr>"

theorem awrap_agrees_with_wrap_witness:
  "snd (awrap_model_call probe_env [] sample_flow [] yes_request) = wrap_model_call probe_env sample_flow [] yes_request"
proof -
  have "files_ok (fs_store sample_flow)" using files_ok_sample by (simp add: sample_flow_def)
  moreover have "snd (slots_take [] (user_of_run yes_request))"
    by (simp add: slots_take_def running_def CONFIRM_WORKERS_def CONFIRMS_PER_USER_def)
  ultimately show ?thesis using awrap_agrees_with_wrap [of sample_flow probe_env "[]" "[]" yes_request] by simp
qed

subsection \<open>Slots\<close>

datatype slot_op = Take string | Give_Back string

text \<open>A history of slots, with the users of the calls in flight; only a holder gives back.\<close>

definition slots_step :: "slots \<times> string list \<Rightarrow> slot_op \<Rightarrow> slots \<times> string list" where
  "slots_step s op = (case op of
     Take u \<Rightarrow> (let (t, free) = slots_take (fst s) u in (t, if free then u # snd s else snd s))
   | Give_Back u \<Rightarrow> if u \<in> set (snd s) then (slots_give_back (fst s) u, remove1 u (snd s)) else s)"

definition slots_ok :: "slots \<times> string list \<Rightarrow> bool" where
  "slots_ok s \<longleftrightarrow> distinct (map fst (fst s)) \<and> (\<forall>n \<in> snd ` set (fst s). 0 < n)
     \<and> (\<forall>u. running (fst s) u = int (count_list (snd s) u) \<and> running (fst s) u \<le> CONFIRMS_PER_USER)
     \<and> sum_list (map snd (fst s)) = int (length (snd s)) \<and> int (length (snd s)) \<le> CONFIRM_WORKERS"

lemma running_dset [simp]: "running (dset t u n) v = (if v = u then n else running t v)"
  by (simp add: running_def)

lemma running_ddel [simp]: "running (ddel t u) v = (if v = u then 0 else running t v)"
  by (simp add: running_def)

lemma sum_dset: "sum_list (map snd (dset t u n)) = sum_list (map snd t) - running t u + n"
  by (induction t u n rule: dset.induct) (auto simp: running_def)

lemma sum_ddel: "distinct (map fst t) \<Longrightarrow> sum_list (map snd (ddel t u)) = sum_list (map snd t) - running t u"
proof (induction t)
  case (Cons kn t)
  then show ?case
    by (cases "fst kn = u") (auto simp: ddel_def running_def map_of_eq_None_iff [symmetric] filter_id_conv
        split: option.splits dest: map_of_SomeD)
qed (simp add: ddel_def running_def)

lemma count_remove1: "u \<in> set xs \<Longrightarrow> int (count_list (remove1 u xs) v) = int (count_list xs v) - (if v = u then 1 else 0)"
  by (induction xs) auto

lemma slots_ok_count: "slots_ok s \<Longrightarrow> int (count_list (snd s) v) \<le> CONFIRMS_PER_USER"
  unfolding slots_ok_def by metis

lemma slots_ok_step: "slots_ok s \<Longrightarrow> slots_ok (slots_step s op)"
proof (cases op)
  case (Take u)
  assume ok: "slots_ok s"
  show ?thesis
  proof (cases "snd (slots_take (fst s) u)")
    case False
    then have "slots_step s op = s" by (auto simp: slots_step_def Take slots_take_def split: if_splits)
    then show ?thesis using ok by simp
  next
    case True
    then have st: "slots_step s op = (dset (fst s) u (running (fst s) u + 1), u # snd s)"
      and lim: "sum_list (map snd (fst s)) < CONFIRM_WORKERS" "running (fst s) u < CONFIRMS_PER_USER"
      by (auto simp: slots_step_def Take slots_take_def Let_def split: if_splits)
    have "0 \<le> running (fst s) u" using ok by (simp add: slots_ok_def)
    then have "\<forall>n \<in> snd ` set (dset (fst s) u (running (fst s) u + 1)). 0 < n"
      using ok set_dset [of "fst s" u "running (fst s) u + 1"] unfolding slots_ok_def by fastforce
    then show ?thesis using ok lim slots_ok_count [OF ok] distinct_dset [of "fst s" u] unfolding st slots_ok_def by (auto simp: sum_dset)
  qed
next
  case (Give_Back u)
  assume ok: "slots_ok s"
  show ?thesis
  proof (cases "u \<in> set (snd s)")
    case True
    then have pos: "1 \<le> running (fst s) u" using ok count_list_0_iff [of "snd s" u] by (auto simp: slots_ok_def)
    have len: "int (length (remove1 u (snd s))) = int (length (snd s)) - 1" "1 \<le> length (snd s)"
      using True length_pos_if_in_set [OF True] by (auto simp: length_remove1 Suc_le_eq)
    let ?t = "slots_give_back (fst s) u"
    have r: "running ?t v = running (fst s) v - (if v = u then 1 else 0)" for v
      using pos by (auto simp: slots_give_back_def Let_def)
    have sm: "sum_list (map snd ?t) = sum_list (map snd (fst s)) - 1"
      using ok pos by (auto simp: slots_give_back_def Let_def sum_dset sum_ddel slots_ok_def)
    have d: "distinct (map fst ?t)" using ok distinct_dset distinct_ddel by (auto simp: slots_give_back_def Let_def slots_ok_def)
    have p: "\<forall>n \<in> snd ` set ?t. 0 < n"
      using ok set_dset [of "fst s" u "running (fst s) u - 1"] unfolding slots_ok_def slots_give_back_def Let_def
      by (auto simp: ddel_def)
    have rc: "running ?t v = int (count_list (remove1 u (snd s)) v) \<and> running ?t v \<le> CONFIRMS_PER_USER" for v
      using r [of v] count_remove1 [OF True, of v] slots_ok_count [OF ok, of v] ok unfolding slots_ok_def by auto
    have "slots_step s op = (?t, remove1 u (snd s))" using True by (simp add: slots_step_def Give_Back)
    moreover have "int (length (snd s)) \<le> CONFIRM_WORKERS" "sum_list (map snd (fst s)) = int (length (snd s))"
      using ok by (simp_all add: slots_ok_def)
    then have "slots_ok (?t, remove1 u (snd s))"
      unfolding slots_ok_def prod.sel using rc sm d p len by (intro conjI) (blast | linarith)+
    ultimately show ?thesis by simp
  qed (use ok in \<open>simp add: slots_step_def Give_Back\<close>)
qed

text \<open>
  C39. Admission is bounded and never leaks: however takes and returns of slots interleave, each user's
  count is exactly their calls in flight and never above four, at most eight are in flight in all,
  and once every holder has given its slot back no slot is held. A take is refused exactly when
  one of the two limits is reached.
\<close>

theorem slots_bounded:
  "let (t, held) = foldl slots_step ([], []) ops in
     (\<forall>u. running t u = int (count_list held u) \<and> running t u \<le> 4) \<and> length held \<le> 8 \<and> (held = [] \<longrightarrow> t = [])
     \<and> (\<forall>u. snd (slots_take t u) = (length held < 8 \<and> count_list held u < 4))"
proof -
  have "slots_ok (foldl slots_step s ops)" if "slots_ok s" for s
    using that by (induction ops arbitrary: s) (simp_all add: slots_ok_step)
  moreover have "slots_ok ([], [])" by (simp add: slots_ok_def running_def CONFIRMS_PER_USER_def CONFIRM_WORKERS_def)
  ultimately have ok: "slots_ok (foldl slots_step ([], []) ops)" by blast
  obtain t held where th: "foldl slots_step ([], []) ops = (t, held)" by force
  have "t = []" if "held = []"
  proof (cases t)
    case (Cons un t')
    then have "0 < snd un" and "running t (fst un) = snd un" using ok th by (auto simp: slots_ok_def running_def)
    then show ?thesis using ok th that by (simp add: slots_ok_def)
  qed
  then show ?thesis using ok th slots_ok_count [OF ok] by (auto simp: slots_ok_def slots_take_def CONFIRMS_PER_USER_def CONFIRM_WORKERS_def)
qed

theorem slots_bounded_witness:
  "length (snd (foldl slots_step ([], []) [Take ''u'', Take ''u'', Take ''v'', Give_Back ''u''])) \<le> 8"
  using slots_bounded [of "[Take ''u'', Take ''u'', Take ''v'', Give_Back ''u'']"] by (simp add: case_prod_beta Let_def)

end
