(* ===== verification/Stored_Targets.thy ===== *)
theory Stored_Targets
  imports Plans Confirm_Flow
begin

text \<open>
  The re-check of a confirmed action's targets across the store: what a call acts on is recorded when
  it is stated and resolved again from the arguments read back, whose dictionaries have their keys
  sorted at every level (\<open>json.dump(..., sort_keys=True)\<close>), while \<open>describe_unresolved\<close> sorts the keys
  of the outermost one only.
\<close>

text \<open>\<open>targets_now\<close>, with the resolver the policy is built with; \<open>None\<close>: it raises.\<close>

definition targets_now :: "(rat \<Rightarrow> string) \<Rightarrow> (py \<Rightarrow> string) \<Rightarrow> pending_action \<Rightarrow> string list option" where
  "targets_now fstr shown a = resolve_targets fstr shown (pa_tool_name a) (pa_arguments a)"

lemma item_lists_Cons: "item_lists (kv # d) = (case snd kv of
    PList xs \<Rightarrow> if xs \<noteq> [] \<and> list_all nameable xs then [(fst kv, xs)] else [] | _ \<Rightarrow> []) @ item_lists d"
  by (cases kv; cases "snd kv") (auto simp: item_lists_def)

lemma mset_item_lists: "mset (item_lists d) = (\<Sum>kv \<in># mset d. mset (case snd kv of
    PList xs \<Rightarrow> if xs \<noteq> [] \<and> list_all nameable xs then [(fst kv, xs)] else [] | _ \<Rightarrow> []))"
  by (induction d) (simp_all add: item_lists_Cons item_lists_def [of "[]"])

lemma mset_item_lists_sort: "mset (item_lists (sort_key fst d)) = mset (item_lists d)"
  by (simp add: mset_item_lists)

lemma sort_key_again [simp]: "sort_key f (sort_key f xs) = sort_key f xs"
  by (rule properties_for_sort_key) simp_all

lemma one_item:
  "(case xs of [(k, vs)] \<Rightarrow> Some (map (py_str fstr) vs) | cs \<Rightarrow> Some [describe_unresolved fstr tool d (length cs)])
     = (if length xs = 1 then Some (map (py_str fstr) (snd (hd xs))) else Some [describe_unresolved fstr tool d (length xs)])"
  by (auto split: list.splits prod.splits)

lemma describe_sort_key: "describe_unresolved fstr tool (sort_key fst d) n = describe_unresolved fstr tool d n"
  by (simp add: describe_unresolved_def)

lemma one_item_mset: "mset xs = mset ys \<Longrightarrow> length xs = length ys \<and> (length xs = 1 \<longrightarrow> hd xs = hd ys)"
  by (metis One_nat_def length_0_conv length_Suc_conv list.sel(1) mset_eq_length mset_single_iff mset.simps)

text \<open>The arguments' dictionaries below the outermost one have sorted keys already.\<close>

definition inner_sorted :: "dict \<Rightarrow> bool" where
  "inner_sorted d \<longleftrightarrow> map (map_prod id json_sorted) d = d"

lemma sorted_inner: "inner_sorted d \<Longrightarrow> sorted_dict d = sort_key fst d"
  by (simp add: inner_sorted_def sorted_dict_def)

lemma dget_sort_key: "dget (sort_key fst d) k = dget d k"
  by (simp add: dget_def)

text \<open>
  What is stated is what is checked: when the dictionaries inside a call's arguments have their
  keys in order, resolving its targets again from the stored arguments gives exactly the targets
  it was stated with, in the same order, whatever the order of its own arguments was.
\<close>

theorem stored_targets_same:
  assumes "inner_sorted args"
  shows "resolve_targets fstr shown tool (sorted_dict args) = resolve_targets fstr shown tool args"
proof -
  note items = one_item_mset [OF mset_item_lists_sort [of args]]
  show ?thesis
    unfolding sorted_inner [OF assms] resolve_targets_def Let_def one_item dget_sort_key describe_sort_key
    using items by (auto split: option.splits list.splits)
qed

definition mail_args :: dict where
  "mail_args = [(''to'', PStr ''a''), (''body'', PDict [(''html'', PStr ''b''), (''text'', PStr ''c'')])]"

theorem stored_targets_same_witness:
  "sorted_dict mail_args \<noteq> mail_args
     \<and> resolve_targets (\<lambda>_. []) (\<lambda>_. []) ''send_mail'' (sorted_dict mail_args) = resolve_targets (\<lambda>_. []) (\<lambda>_. []) ''send_mail'' mail_args"
proof -
  have "inner_sorted mail_args" by code_simp
  moreover have "map fst (sorted_dict mail_args) = [''body'', ''to'']" by code_simp
  then have "sorted_dict mail_args \<noteq> mail_args" by (auto simp: mail_args_def)
  ultimately show ?thesis using stored_targets_same by blast
qed

definition query_args :: dict where
  "query_args = [(''filter'', PDict [(''to'', PInt 2), (''by'', PInt 1)])]"

text \<open>
  A call whose argument is a dictionary with keys out of order can never be confirmed: the action
  that is read back resolves to other targets than it was stated with, so the re-check reports
  that the items changed, and the call is not made, however often it is proposed and confirmed.
\<close>

theorem nested_arguments_always_drift:
  assumes "pa_tool_name a = ''search_delete''" "pa_arguments a = query_args"
    "resolve_targets fstr shown (pa_tool_name a) (pa_arguments a) = Some (pa_targets a)" "storable a"
    "\<And>b targets. targets_now fstr shown b = Some targets \<Longrightarrow> fe_targets_now env b = targets"
  shows "\<exists>b s' c. from_dict (sorted_dict (to_dict a)) = Inr b
    \<and> execute_confirmed env s b = (s', c, Inr None) \<and> fs_calls s' = fs_calls s \<and> pa_outcome c = Some Targets_Drifted"
proof -
  let ?b = "key_sorted a"
  have t: "pa_tool_name ?b = ''search_delete''" "pa_arguments ?b = sorted_dict query_args" "pa_targets ?b = pa_targets a"
    using assms(1,2) by (simp_all add: key_sorted_def)
  have was: "pa_targets a = [describe_unresolved fstr ''search_delete'' query_args 0]"
    using assms(1,2,3) by (simp add: resolve_targets_def item_lists_def query_args_def)
  have items: "item_lists (sorted_dict query_args) = []" by code_simp
  have "targets_now fstr shown ?b = Some [describe_unresolved fstr ''search_delete'' (sorted_dict query_args) 0]"
    unfolding targets_now_def t resolve_targets_def items by simp
  then have cur: "fe_targets_now env ?b = [describe_unresolved fstr ''search_delete'' (sorted_dict query_args) 0]"
    by (rule assms(5))
  have s: "sorted_dict query_args = [(''filter'', PDict [(''by'', PInt 1), (''to'', PInt 2)])]" by code_simp
  have "describe_unresolved fstr ''search_delete'' (sorted_dict query_args) 0 \<noteq> describe_unresolved fstr ''search_delete'' query_args 0"
    by code_simp
  then have no: "\<not> targets_still_match ?b (fe_targets_now env ?b)"
    unfolding targets_still_match_def cur t(3) was by simp
  then show ?thesis
    using decode_encode [OF assms(4)] by (auto simp: execute_confirmed_def resolve_in_eq drift_reason_def Let_def)
qed

definition query_action :: pending_action where
  "query_action = dated_action\<lparr>pa_tool_name := ''search_delete'', pa_arguments := query_args,
     pa_targets := [describe_unresolved (\<lambda>_. []) ''search_delete'' query_args 0]\<rparr>"

theorem nested_arguments_always_drift_witness:
  "\<exists>b s' c. from_dict (sorted_dict (to_dict query_action)) = Inr b
     \<and> execute_confirmed (sample_env\<lparr>fe_targets_now := \<lambda>b. the (targets_now (\<lambda>_. []) (\<lambda>_. []) b)\<rparr>) sample_flow b = (s', c, Inr None)
     \<and> fs_calls s' = [] \<and> pa_outcome c = Some Targets_Drifted"
proof -
  have t: "resolve_targets (\<lambda>_. []) (\<lambda>_. []) (pa_tool_name query_action) (pa_arguments query_action) = Some (pa_targets query_action)"
    by (simp add: query_action_def resolve_targets_def item_lists_def query_args_def)
  have st: "storable query_action" using storable_dated by (simp add: storable_def query_action_def)
  show ?thesis
    using nested_arguments_always_drift [OF _ _ t st, of "sample_env\<lparr>fe_targets_now := \<lambda>b. the (targets_now (\<lambda>_. []) (\<lambda>_. []) b)\<rparr>" sample_flow]
    by (simp add: query_action_def sample_flow_def)
qed

end
