(* ===== verification/Trigger_Model.thy ===== *)
theory Trigger_Model
  imports Policy_Config
begin

text \<open>
  The trigger engine's entities and its small durable maps
  (\<open>backend/app/trigger_engine/models.py\<close>, \<open>fingerprint.py\<close>, \<open>_store.py\<close>, \<open>evaluations.py\<close>,
  \<open>scheduler.py\<close>, \<open>presence.py\<close>, \<open>engine.py\<close>).

  One process holds the engine (single-runner election), so a cached \<open>JsonStore\<close> is the map in
  memory, which its file follows. A scheduled instant is keyed by its rule and time, which the
  code writes as one text. The cron library (\<open>croniter\<close>) is the argument \<open>prev\<close> or \<open>nxt\<close>, the
  hash of a fingerprint's canonical JSON the argument \<open>digest\<close>; times are instants in UTC.
\<close>

subsection \<open>Entities\<close>

datatype trigger_type = Cron | Watcher | Completion | Calendar

datatype destination = Remote | Quiet | Auto | Local

datatype firing_outcome = F_Delivered | F_Suppressed | F_Queued | F_Expired | F_Failed

datatype release_reason = Immediate | Quiet_Hours_Ended | Queue_Expired | Exchange_Ended

record trigger_rule =
  tr_id :: string
  tr_type :: trigger_type
  tr_match :: dict
  tr_prompt :: string
  tr_destination :: destination
  tr_urgent :: bool
  tr_enabled :: bool
  tr_name :: string
  tr_agent :: "string option"
  tr_show_on_home :: bool

record trigger_event =
  ev_type :: trigger_type
  ev_id :: string
  ev_at :: instant
  ev_fields :: dict
  ev_inputs :: dict

record firing =
  fi_rule_id :: string
  fi_event :: trigger_event
  fi_prompt :: string
  fi_thread_id :: "string option"
  fi_reply :: "string option"
  fi_outcome :: "firing_outcome option"
  fi_reason :: string
  fi_batch_id :: "string option"
  fi_body :: "string option"
  fi_release_reason :: "release_reason option"

datatype firing_error = Outcome_Needs_Reason firing_outcome

definition resolve_firing :: "firing \<Rightarrow> firing_outcome \<Rightarrow> string \<Rightarrow> firing_error + firing" where
  "resolve_firing f o' reason =
     (if o' \<noteq> F_Delivered \<and> reason = [] then Inl (Outcome_Needs_Reason o')
      else Inr (f\<lparr>fi_outcome := Some o', fi_reason := reason\<rparr>))"

definition type_str :: "trigger_type \<Rightarrow> string" where
  "type_str t = (case t of Cron \<Rightarrow> ''cron'' | Watcher \<Rightarrow> ''watcher'' | Completion \<Rightarrow> ''completion'' | Calendar \<Rightarrow> ''calendar'')"

definition release_str :: "release_reason \<Rightarrow> string" where
  "release_str r = (case r of Immediate \<Rightarrow> ''immediate'' | Quiet_Hours_Ended \<Rightarrow> ''quiet-hours-ended''
     | Queue_Expired \<Rightarrow> ''queue-expired'' | Exchange_Ended \<Rightarrow> ''exchange-ended'')"

subsection \<open>Fingerprints\<close>

definition PERMITTED_INPUTS :: "trigger_type \<Rightarrow> string list" where
  "PERMITTED_INPUTS t = (case t of
     Watcher \<Rightarrow> [''question'', ''state'', ''idle_reason'']
   | Cron \<Rightarrow> [''scheduled_at'']
   | Completion \<Rightarrow> [''task_id'', ''status'']
   | Calendar \<Rightarrow> [''event_id'', ''starts_at''])"

definition FORBIDDEN_INPUTS :: "string list" where
  "FORBIDDEN_INPUTS = [''elapsed'', ''elapsed_seconds'', ''quiet_seconds'', ''last_activity_at'', ''now'',
     ''evaluated_at'', ''duration'', ''age'']"

datatype fingerprint_error = Drifting "string list" | Not_Permitted "string list"

definition compute :: "(dict \<Rightarrow> string) \<Rightarrow> string \<Rightarrow> trigger_event \<Rightarrow> fingerprint_error + string" where
  "compute digest rid ev =
     (let ks = map fst (ev_inputs ev);
          bad = filter (\<lambda>k. k \<in> set FORBIDDEN_INPUTS) ks;
          unknown = filter (\<lambda>k. k \<notin> set (PERMITTED_INPUTS (ev_type ev))) ks in
      if bad \<noteq> [] then Inl (Drifting bad)
      else if unknown \<noteq> [] then Inl (Not_Permitted unknown)
      else Inr (rid @ ''|'' @ ev_id ev @ ''|'' @ digest (ev_inputs ev)))"

record fingerprint_store =
  fp_seen :: "(string \<times> instant) list"
  fp_retention :: int
  fp_last_reset :: "instant option"

definition fp_is_seen :: "fingerprint_store \<Rightarrow> string \<Rightarrow> bool" where
  "fp_is_seen fp k = (map_of (fp_seen fp) k \<noteq> None)"

definition fp_record :: "fingerprint_store \<Rightarrow> string \<Rightarrow> instant \<Rightarrow> fingerprint_store" where
  "fp_record fp k now = fp\<lparr>fp_seen := dset (fp_seen fp) k now\<rparr>"

definition maybe_reset :: "fingerprint_store \<Rightarrow> instant \<Rightarrow> fingerprint_store \<times> nat" where
  "maybe_reset fp now =
     (case fp_last_reset fp of
        None \<Rightarrow> (fp\<lparr>fp_last_reset := Some now\<rparr>, 0)
      | Some since \<Rightarrow>
          if now - since < fp_retention fp then (fp, 0)
          else (fp\<lparr>fp_seen := [], fp_last_reset := Some now\<rparr>, length (fp_seen fp)))"

subsection \<open>Scheduling\<close>

type_synonym fired_instants = "((string \<times> instant) \<times> instant) list"

definition has_fired :: "fired_instants \<Rightarrow> string \<Rightarrow> instant \<Rightarrow> bool" where
  "has_fired fired rid t = (map_of fired (rid, t) \<noteq> None)"

definition mark_fired :: "fired_instants \<Rightarrow> string \<Rightarrow> instant \<Rightarrow> instant \<Rightarrow> fired_instants" where
  "mark_fired fired rid t now = dset fired (rid, t) now"

definition last_fired :: "fired_instants \<Rightarrow> string \<Rightarrow> instant option" where
  "last_fired fired rid =
     (let stamps = map (\<lambda>(k, _). snd k) (filter (\<lambda>(k, _). fst k = rid) fired)
      in if stamps = [] then None else Some (Max (set stamps)))"

text \<open>The look-back loop. \<open>None\<close> is a loop that never ends.\<close>

partial_function (option) catch_loop ::
  "(instant \<Rightarrow> instant) \<Rightarrow> (instant \<Rightarrow> bool) \<Rightarrow> instant \<Rightarrow> instant \<Rightarrow> instant list \<Rightarrow> instant list option" where
  "catch_loop prev fired fl cursor unfired =
     (if cursor > fl
      then catch_loop prev fired fl (prev cursor) (if fired cursor then unfired else unfired @ [cursor])
      else Some unfired)"

definition catch_up ::
  "fired_instants \<Rightarrow> (instant \<Rightarrow> instant) \<Rightarrow> string \<Rightarrow> instant \<Rightarrow> instant option \<Rightarrow> (instant option \<times> nat) option" where
  "catch_up fired prev rid now since =
     (let fl = (case since of None \<Rightarrow> now - day_us | Some s \<Rightarrow> s);
          fl = (case last_fired fired rid of None \<Rightarrow> fl | Some w \<Rightarrow> if w > fl then w else fl)
      in map_option (\<lambda>unfired. if unfired = [] then (None, 0) else (Some (Max (set unfired)), length unfired - 1))
           (catch_loop prev (has_fired fired rid) fl (prev now) []))"

definition scheduler_wakeup :: "(string \<Rightarrow> py \<Rightarrow> instant \<Rightarrow> instant) \<Rightarrow> (string \<times> py \<times> py) list \<Rightarrow> instant \<Rightarrow> instant option" where
  "scheduler_wakeup nxt schedules now =
     (let candidates = concat (map (\<lambda>(rid, expr, tz). case expr of
           PStr e \<Rightarrow> if e \<noteq> [] then [nxt e tz now] else [] | _ \<Rightarrow> []) schedules)
      in if candidates = [] then None else Some (Min (set candidates)))"

definition prune :: "fired_instants \<Rightarrow> instant \<Rightarrow> fired_instants \<times> nat" where
  "prune fired before =
     (filter (\<lambda>(k, _). \<not> snd k < before) fired, length (filter (\<lambda>(k, _). snd k < before) fired))"

text \<open>
  What the cron library promises for an expression whose instants are \<open>S\<close>: going back from a time
  gives the latest instant of the schedule before it.
\<close>

definition prev_of :: "instant set \<Rightarrow> (instant \<Rightarrow> instant) \<Rightarrow> bool" where
  "prev_of S prev \<longleftrightarrow> (\<forall>t. prev t < t \<and> prev t \<in> S \<and> (\<forall>u \<in> S. u < t \<longrightarrow> u \<le> prev t))"

lemma catch_loop_result:
  assumes "prev_of S prev" "cursor \<in> S"
  shows "\<exists>new. catch_loop prev fired fl cursor acc = Some (acc @ new)
    \<and> set new = {u \<in> S. fl < u \<and> u \<le> cursor \<and> \<not> fired u} \<and> distinct new"
  using assms(2)
proof (induction "nat (cursor - fl)" arbitrary: cursor acc rule: less_induct)
  case less
  show ?case
  proof (cases "cursor > fl")
    case False
    then have "catch_loop prev fired fl cursor acc = Some acc" by (subst catch_loop.simps) simp
    moreover have "{u \<in> S. fl < u \<and> u \<le> cursor \<and> \<not> fired u} = {}" using False by auto
    ultimately show ?thesis by (intro exI [of _ "[]"]) simp
  next
    case True
    have p: "prev cursor < cursor" "prev cursor \<in> S" "\<And>u. u \<in> S \<Longrightarrow> u < cursor \<Longrightarrow> u \<le> prev cursor"
      using assms(1) by (auto simp: prev_of_def)
    have "nat (prev cursor - fl) < nat (cursor - fl)" using True p(1) by simp
    from less.hyps [OF this p(2), of "if fired cursor then acc else acc @ [cursor]"]
    obtain new where new: "catch_loop prev fired fl (prev cursor) (if fired cursor then acc else acc @ [cursor])
        = Some ((if fired cursor then acc else acc @ [cursor]) @ new)"
      "set new = {u \<in> S. fl < u \<and> u \<le> prev cursor \<and> \<not> fired u}" "distinct new" by blast
    have split: "u \<le> cursor \<longleftrightarrow> u = cursor \<or> u \<le> prev cursor" if "u \<in> S" for u
      using p that by force
    have "catch_loop prev fired fl cursor acc = Some (acc @ (if fired cursor then new else cursor # new))"
      using True new(1) by (subst catch_loop.simps) simp
    moreover have "set (if fired cursor then new else cursor # new) = {u \<in> S. fl < u \<and> u \<le> cursor \<and> \<not> fired u}"
      using new(2) True less.prems split by auto
    moreover have "distinct (if fired cursor then new else cursor # new)"
      using new(2,3) p(1) by auto
    ultimately show ?thesis by blast
  qed
qed

text \<open>The instants still due: of the schedule, after the floor and the newest fired one, before now.\<close>

definition due_instants :: "instant set \<Rightarrow> fired_instants \<Rightarrow> string \<Rightarrow> instant \<Rightarrow> instant \<Rightarrow> instant set" where
  "due_instants S fired rid lookback now =
     {u \<in> S. lookback < u \<and> u < now \<and> \<not> has_fired fired rid u \<and> (\<forall>t. has_fired fired rid t \<longrightarrow> t < u)}"

lemma last_fired_facts:
  "last_fired fired rid = None \<longleftrightarrow> (\<forall>t. \<not> has_fired fired rid t)"
  "last_fired fired rid = Some w \<Longrightarrow> has_fired fired rid w \<and> (\<forall>t. has_fired fired rid t \<longrightarrow> t \<le> w)"
proof -
  let ?s = "set (map (\<lambda>(k, _). snd k) (filter (\<lambda>(k, _). fst k = rid) fired))"
  have mem: "t \<in> ?s \<longleftrightarrow> has_fired fired rid t" for t
    by (force simp: has_fired_def map_of_eq_None_iff image_iff)
  have ne: "?s = {} \<longleftrightarrow> (\<forall>t. \<not> has_fired fired rid t)"
    by (simp only: mem [symmetric] set_eq_iff empty_iff simp_thms)
  show last_none: "last_fired fired rid = None \<longleftrightarrow> (\<forall>t. \<not> has_fired fired rid t)"
    unfolding ne [symmetric] by (simp only: last_fired_def Let_def set_empty) simp
  assume l: "last_fired fired rid = Some w"
  have ne': "?s \<noteq> {}" using l unfolding ne last_none [symmetric] by simp
  then have "w = Max ?s" using l by (simp only: last_fired_def Let_def set_empty if_False option.inject)
  then have "w \<in> ?s" "\<forall>t \<in> ?s. t \<le> w" using ne' Max_in [of ?s] by auto
  then show "has_fired fired rid w \<and> (\<forall>t. has_fired fired rid t \<longrightarrow> t \<le> w)" using mem by blast
qed

text \<open>
  C35. Catching up fires once, late. For a schedule the cron library walks back correctly, the
  look-back loop ends; it returns the newest instant still due (in the schedule, inside the
  look-back, before now, after everything already fired) and how many older ones are skipped, or
  nothing when none is due.
\<close>

theorem catch_up_newest:
  assumes "prev_of S prev"
  shows "let due = due_instants S fired rid (case since of None \<Rightarrow> now - day_us | Some s \<Rightarrow> s) now in
     catch_up fired prev rid now since = Some (if due = {} then (None, 0) else (Some (Max due), card due - 1))"
proof -
  let ?f0 = "case since of None \<Rightarrow> now - day_us | Some s \<Rightarrow> s"
  let ?fl = "case last_fired fired rid of None \<Rightarrow> ?f0 | Some w \<Rightarrow> if w > ?f0 then w else ?f0"
  let ?due = "due_instants S fired rid ?f0 now"
  have p: "prev now < now" "prev now \<in> S" "\<And>u. u \<in> S \<Longrightarrow> u < now \<Longrightarrow> u \<le> prev now"
    using assms by (auto simp: prev_of_def)
  obtain new where new: "catch_loop prev (has_fired fired rid) ?fl (prev now) [] = Some new"
    "set new = {u \<in> S. ?fl < u \<and> u \<le> prev now \<and> \<not> has_fired fired rid u}" "distinct new"
    using catch_loop_result [OF assms p(2), of "has_fired fired rid" ?fl "[]"] by auto
  have fl: "?fl < u \<longleftrightarrow> ?f0 < u \<and> (\<forall>t. has_fired fired rid t \<longrightarrow> t < u)" for u
  proof (cases "last_fired fired rid")
    case None
    then show ?thesis using last_fired_facts(1) [of fired rid] by simp
  next
    case (Some w)
    then have w: "has_fired fired rid w" "\<And>t. has_fired fired rid t \<Longrightarrow> t \<le> w"
      using last_fired_facts(2) by blast+
    then have "(\<forall>t. has_fired fired rid t \<longrightarrow> t < u) \<longleftrightarrow> w < u" by force
    then show ?thesis using Some by auto
  qed
  have "u \<le> prev now \<longleftrightarrow> u < now" if "u \<in> S" for u using p that by force
  then have "set new = ?due" unfolding new(2) due_instants_def fl by blast
  then show ?thesis
    using new(1,3) by (auto simp: catch_up_def Let_def distinct_card [symmetric])
qed

definition hourly :: "instant \<Rightarrow> instant" where
  "hourly t = ((t - 1) div seconds 3600) * seconds 3600"

lemma hourly_prev: "prev_of {t. seconds 3600 dvd t} hourly"
  unfolding prev_of_def
proof (intro allI conjI ballI impI)
  fix t :: instant
  have pos: "(0 :: int) < seconds 3600" by (simp add: seconds_def)
  have "(t - 1) div seconds 3600 * seconds 3600 + (t - 1) mod seconds 3600 = t - 1" by (rule div_mult_mod_eq)
  moreover have "0 \<le> (t - 1) mod seconds 3600" using pos by simp
  ultimately show "hourly t < t" unfolding hourly_def by linarith
  show "hourly t \<in> {t. seconds 3600 dvd t}" by (simp add: hourly_def)
  fix u assume "u \<in> {t. seconds 3600 dvd t}" "u < t"
  then obtain k where u: "u = k * seconds 3600" by (auto simp: dvd_def mult.commute)
  then have "k * seconds 3600 \<le> t - 1" using \<open>u < t\<close> by simp
  then have "k * seconds 3600 div seconds 3600 \<le> (t - 1) div seconds 3600" using pos by (rule zdiv_mono1)
  then have "k \<le> (t - 1) div seconds 3600" using pos by simp
  then show "u \<le> hourly t" using u pos by (simp add: hourly_def mult_right_mono)
qed

theorem catch_up_newest_witness:
  "catch_up [((''brief'', seconds 3600), seconds 3700)] hourly ''brief'' (seconds 14000) None = Some (Some (seconds 10800), 1)"
proof -
  let ?S = "{t. seconds 3600 dvd t}"
  let ?f = "[((''brief'', seconds 3600), seconds 3700)]"
  have "due_instants ?S ?f ''brief'' (seconds 14000 - day_us) (seconds 14000) = {seconds 7200, seconds 10800}"
    (is "?l = ?r")
  proof
    show "?l \<subseteq> ?r"
    proof
      fix u assume "u \<in> ?l"
      then have "seconds 3600 dvd u" "seconds 3600 < u" "u < seconds 14000"
        by (auto simp: due_instants_def has_fired_def split: if_splits)
      then obtain k where "u = seconds 3600 * k" "1 < k" "k < 4" by (auto elim!: dvdE simp: seconds_def)
      then have "k = 2 \<or> k = 3" by linarith
      then show "u \<in> ?r" using \<open>u = seconds 3600 * k\<close> by (auto simp: seconds_def)
    qed
    show "?r \<subseteq> ?l" by (auto simp: due_instants_def has_fired_def seconds_def day_us_def split: if_splits)
  qed
  then show ?thesis using catch_up_newest [OF hourly_prev, where fired = ?f and rid = "''brief''" and since = None and now = "seconds 14000"]
    by (simp add: seconds_def max_def)
qed

subsection \<open>Supervised evaluation\<close>

record rule_health =
  rh_failures :: nat
  rh_last_error :: string
  rh_muted_until :: "instant option"

definition healthy :: rule_health where
  "healthy = \<lparr>rh_failures = 0, rh_last_error = [], rh_muted_until = None\<rparr>"

definition BACKOFF_AFTER :: nat where "BACKOFF_AFTER = 3"

definition MAX_BACKOFF :: int where "MAX_BACKOFF = seconds 1800"

definition record_success :: "rule_health \<Rightarrow> rule_health" where
  "record_success h = h\<lparr>rh_failures := 0, rh_last_error := [], rh_muted_until := None\<rparr>"

text \<open>\<open>timedelta(seconds=s)\<close> of a positive integer: more than 999999999 days is an \<open>OverflowError\<close>.\<close>

definition timedelta_seconds :: "int \<Rightarrow> int option" where
  "timedelta_seconds s = (if s div 86400 \<le> 999999999 then Some (seconds s) else None)"

text \<open>The new health, and whether the method raised, which it does when the backoff overflows.\<close>

definition record_failure :: "rule_health \<Rightarrow> string \<Rightarrow> instant \<Rightarrow> rule_health \<times> bool" where
  "record_failure h err now =
     (let n = rh_failures h + 1; h = h\<lparr>rh_failures := n, rh_last_error := err\<rparr> in
      if BACKOFF_AFTER \<le> n
      then (case timedelta_seconds (60 * 2 ^ (n - BACKOFF_AFTER)) of
          None \<Rightarrow> (h, True)
        | Some d \<Rightarrow> (h\<lparr>rh_muted_until := Some (now + min MAX_BACKOFF d)\<rparr>, False))
      else (h, False))"

definition is_muted :: "rule_health \<Rightarrow> instant \<Rightarrow> bool" where
  "is_muted h now = (case rh_muted_until h of None \<Rightarrow> False | Some t \<Rightarrow> now < t)"

text \<open>
  What the evaluation of a rule came to; \<open>Raised\<close> holds the exception's type and text. \<open>Unlogged\<close>: the log of evaluations
  could not be written, so \<open>on_evaluated\<close> raised and the rule's function was not called.
\<close>

datatype evaluation = Evaluated | Raised string | Timed_Out | Unlogged string

text \<open>The health of the rules, the log as it is in memory, and the calls of rules' functions.\<close>

record engine_state =
  en_health :: "(string \<times> rule_health) list"
  en_evaluated :: "(string \<times> instant) list"
  en_ran :: "(string \<times> instant) list"

definition health_for :: "engine_state \<Rightarrow> string \<Rightarrow> rule_health" where
  "health_for en rid = (case map_of (en_health en) rid of None \<Rightarrow> healthy | Some h \<Rightarrow> h)"

definition with_health :: "engine_state \<Rightarrow> string \<Rightarrow> rule_health \<Rightarrow> engine_state" where
  "with_health en rid h = en\<lparr>en_health := dset (en_health en) rid h\<rparr>"

definition OVERFLOW_ERROR :: string where "OVERFLOW_ERROR = ''OverflowError''"

text \<open>\<open>evaluate_one\<close>; \<open>Inl\<close> is an exception that escapes it.\<close>

definition evaluate_one :: "engine_state \<Rightarrow> evaluation \<Rightarrow> trigger_rule \<Rightarrow> instant \<Rightarrow> engine_state \<times> (string + bool)" where
  "evaluate_one en result r now =
     (let rid = tr_id r; h = health_for en rid in
      if is_muted h now then (with_health en rid h, Inr False)
      else
        let logged = (with_health en rid h)\<lparr>en_evaluated := dset (en_evaluated en) rid now\<rparr>;
            called = logged\<lparr>en_ran := en_ran en @ [(rid, now)]\<rparr>;
            failed = (\<lambda>err. case record_failure h err now of (h', over) \<Rightarrow>
               (with_health called rid h', if over then Inl OVERFLOW_ERROR else Inr False)) in
        (case result of
           Unlogged err \<Rightarrow> (logged, Inl err)
         | Evaluated \<Rightarrow> (with_health called rid (record_success h), Inr True)
         | Raised err \<Rightarrow> failed err
         | Timed_Out \<Rightarrow> failed ''TimeoutError: exceeded''))"

fun evaluate_active :: "engine_state \<Rightarrow> (trigger_rule \<Rightarrow> evaluation) \<Rightarrow> trigger_rule list \<Rightarrow> instant
    \<Rightarrow> engine_state \<times> (string \<times> (string + bool)) list" where
  "evaluate_active en result [] now = (en, [])"
| "evaluate_active en result (r # rs) now =
     (let (en', res) = evaluate_one en (result r) r now;
          (en'', out) = evaluate_active en' result rs now
      in (en'', (tr_id r, res) # out))"

text \<open>The results one by one: an exception that leaked is recorded as a failure, which may raise in its turn.\<close>

fun settle_results :: "engine_state \<Rightarrow> (string \<times> (string + bool)) list \<Rightarrow> instant \<Rightarrow> engine_state \<times> (string + (string \<times> bool) list)" where
  "settle_results en [] now = (en, Inr [])"
| "settle_results en ((rid, Inr ok) # rest) now =
     (case settle_results en rest now of (en', Inl e) \<Rightarrow> (en', Inl e) | (en', Inr out) \<Rightarrow> (en', Inr ((rid, ok) # out)))"
| "settle_results en ((rid, Inl err) # rest) now =
     (case record_failure (health_for en rid) err now of (h, over) \<Rightarrow>
        if over then (with_health en rid h, Inl OVERFLOW_ERROR)
        else (case settle_results (with_health en rid h) rest now of
            (en', Inl e) \<Rightarrow> (en', Inl e) | (en', Inr out) \<Rightarrow> (en', Inr ((rid, False) # out))))"

definition evaluate_all :: "engine_state \<Rightarrow> (trigger_rule \<Rightarrow> evaluation) \<Rightarrow> trigger_rule list \<Rightarrow> instant
    \<Rightarrow> engine_state \<times> (string + (string \<times> bool) list)" where
  "evaluate_all en result rules now =
     (let (en', results) = evaluate_active en result (filter tr_enabled rules) now in settle_results en' results now)"

definition last_evaluated_at :: "engine_state \<Rightarrow> string \<Rightarrow> instant option" where
  "last_evaluated_at en rid = map_of (en_evaluated en) rid"

text \<open>A muted rule was evaluated, and failed, no longer than the greatest backoff before.\<close>

definition mute_bounded :: "engine_state \<Rightarrow> bool" where
  "mute_bounded en = (\<forall>rid t. rh_muted_until (health_for en rid) = Some t \<longrightarrow>
     (\<exists>since. last_evaluated_at en rid = Some since \<and> t \<le> since + MAX_BACKOFF))"

lemma health_with [simp]: "health_for (with_health en rid h) rid' = (if rid' = rid then h else health_for en rid')"
  by (simp add: health_for_def with_health_def)

lemma with_health_frame [simp]: "en_evaluated (with_health en rid h) = en_evaluated en" "en_ran (with_health en rid h) = en_ran en"
  "last_evaluated_at (with_health en rid h) rid' = last_evaluated_at en rid'"
  "health_for (en\<lparr>en_evaluated := l\<rparr>) rid' = health_for en rid'" "health_for (en\<lparr>en_ran := c\<rparr>) rid' = health_for en rid'"
  "last_evaluated_at (en\<lparr>en_ran := c\<rparr>) rid' = last_evaluated_at en rid'"
  by (simp_all add: with_health_def last_evaluated_at_def health_for_def)

lemma failure_mutes:
  assumes "record_failure h err now = (h', over)" "rh_muted_until h' = Some t"
  shows "rh_muted_until h = Some t \<or> t \<le> now + MAX_BACKOFF"
  using assms by (auto simp: record_failure_def Let_def split: option.splits if_splits)

lemma evaluate_one_others:
  "rid \<noteq> tr_id r \<Longrightarrow> health_for (fst (evaluate_one en result r now)) rid = health_for en rid
     \<and> last_evaluated_at (fst (evaluate_one en result r now)) rid = last_evaluated_at en rid"
  by (auto simp: evaluate_one_def Let_def last_evaluated_at_def split: prod.splits evaluation.splits)

lemma evaluate_one_own:
  assumes "evaluate_one en result r now = (en', res)"
  shows "is_muted (health_for en (tr_id r)) now \<Longrightarrow> health_for en' (tr_id r) = health_for en (tr_id r)
      \<and> last_evaluated_at en' (tr_id r) = last_evaluated_at en (tr_id r) \<and> res = Inr False"
    "\<not> is_muted (health_for en (tr_id r)) now \<Longrightarrow> last_evaluated_at en' (tr_id r) = Some now"
    "\<not> is_muted (health_for en (tr_id r)) now \<Longrightarrow> (\<forall>e. result \<noteq> Unlogged e) \<Longrightarrow> (tr_id r, now) \<in> set (en_ran en')"
    "set (en_ran en) \<subseteq> set (en_ran en')"
    "rh_muted_until (health_for en' (tr_id r)) = Some t \<Longrightarrow> rh_muted_until (health_for en (tr_id r)) = Some t \<or> t \<le> now + MAX_BACKOFF"
  using assms
  by (auto simp: evaluate_one_def Let_def last_evaluated_at_def record_success_def dest: failure_mutes
      split: prod.splits evaluation.splits if_splits)

lemma mute_bounded_one:
  assumes "mute_bounded en" "evaluate_one en result r now = (en', res)"
  shows "mute_bounded en'"
  unfolding mute_bounded_def
proof (intro allI impI)
  fix rid t assume m: "rh_muted_until (health_for en' rid) = Some t"
  note own = evaluate_one_own [OF assms(2)]
  have others: "rid \<noteq> tr_id r \<Longrightarrow> health_for en' rid = health_for en rid \<and> last_evaluated_at en' rid = last_evaluated_at en rid"
    using evaluate_one_others [of rid r en result now] assms(2) by simp
  show "\<exists>since. last_evaluated_at en' rid = Some since \<and> t \<le> since + MAX_BACKOFF"
  proof (cases "rid = tr_id r \<and> \<not> is_muted (health_for en (tr_id r)) now")
    case True
    then have "last_evaluated_at en' rid = Some now" using own(2) by simp
    moreover have "t \<le> now" if "rh_muted_until (health_for en (tr_id r)) = Some t" using that True by (simp add: is_muted_def)
    then have "t \<le> now + MAX_BACKOFF" using own(5) m True by (fastforce simp: MAX_BACKOFF_def seconds_def)
    ultimately show ?thesis by simp
  next
    case False
    then have "health_for en' rid = health_for en rid" "last_evaluated_at en' rid = last_evaluated_at en rid" using own(1) others by auto
    then show ?thesis using assms(1) m by (simp add: mute_bounded_def)
  qed
qed

lemma evaluate_active_facts:
  assumes "mute_bounded en" "evaluate_active en result rs now = (en', out)"
  shows "mute_bounded en' \<and> (\<forall>rid. last_evaluated_at en rid = Some now \<longrightarrow> last_evaluated_at en' rid = Some now)
    \<and> (\<forall>rid e. (rid, Inl e) \<in> set out \<longrightarrow> last_evaluated_at en' rid = Some now)
    \<and> set (en_ran en) \<subseteq> set (en_ran en') \<and> fst ` set out = tr_id ` set rs
    \<and> (\<forall>rid. rid \<notin> tr_id ` set rs \<longrightarrow> health_for en' rid = health_for en rid \<and> last_evaluated_at en' rid = last_evaluated_at en rid)"
  using assms
proof (induction rs arbitrary: en out)
  case (Cons r rs)
  obtain en1 res where one: "evaluate_one en (result r) r now = (en1, res)" by fastforce
  obtain out1 where rest: "evaluate_active en1 result rs now = (en', out1)" "out = (tr_id r, res) # out1"
    using Cons.prems(2) one by (auto simp: Let_def split: prod.splits)
  note ih = Cons.IH [OF mute_bounded_one [OF Cons.prems(1) one] rest(1)]
  note own = evaluate_one_own [OF one]
  have others: "last_evaluated_at en1 rid = last_evaluated_at en rid" "health_for en1 rid = health_for en rid" if "rid \<noteq> tr_id r" for rid
    using evaluate_one_others [OF that, of en "result r" now] one by simp_all
  have kept: "last_evaluated_at en1 rid = Some now" if "last_evaluated_at en rid = Some now" for rid
    using that own(1,2) others(1) [of rid] by (cases "rid = tr_id r") auto
  have leaked: "last_evaluated_at en1 (tr_id r) = Some now" if "res = Inl e" for e using that own(1,2) by auto
  show ?case using ih kept leaked own(4) others rest(2) by auto
qed simp

lemma settle_facts:
  assumes "mute_bounded en" "\<forall>rid e. (rid, Inl e) \<in> set out \<longrightarrow> last_evaluated_at en rid = Some now" "settle_results en out now = (en', res)"
  shows "mute_bounded en' \<and> (\<forall>rid. last_evaluated_at en' rid = last_evaluated_at en rid) \<and> en_ran en' = en_ran en
    \<and> (\<forall>rid. rid \<notin> fst ` set out \<longrightarrow> health_for en' rid = health_for en rid)"
  using assms
proof (induction en out now arbitrary: en' res rule: settle_results.induct)
  case (2 en rid ok rest now)
  then show ?case by (cases "settle_results en rest now") (auto split: sum.splits)
next
  case (3 en rid err rest now)
  obtain h over where h: "record_failure (health_for en rid) err now = (h, over)" by fastforce
  let ?en = "with_health en rid h"
  have now: "last_evaluated_at en rid = Some now" using "3.prems"(2) by simp
  have mb: "mute_bounded ?en"
    unfolding mute_bounded_def
  proof (intro allI impI)
    fix r' t assume m: "rh_muted_until (health_for ?en r') = Some t"
    show "\<exists>since. last_evaluated_at ?en r' = Some since \<and> t \<le> since + MAX_BACKOFF"
    proof (cases "r' = rid \<and> rh_muted_until (health_for en rid) \<noteq> Some t")
      case True
      then show ?thesis using failure_mutes [OF h] m now by auto
    next
      case False
      then have "rh_muted_until (health_for en r') = Some t" using m by (auto split: if_splits)
      then show ?thesis using "3.prems"(1) by (simp add: mute_bounded_def)
    qed
  qed
  show ?case
  proof (cases over)
    case True
    then have "en' = ?en" using "3.prems"(3) h by simp
    then show ?thesis using mb by simp
  next
    case False
    obtain res1 where rest: "settle_results ?en rest now = (en', res1)"
      using "3.prems"(3) h False by (cases "settle_results ?en rest now") (auto split: sum.splits)
    have "\<forall>rid e. (rid, Inl e) \<in> set rest \<longrightarrow> last_evaluated_at ?en rid = Some now" using "3.prems"(2) by simp
    from "3.IH" [OF h [symmetric] False mb this rest] show ?thesis by auto
  qed
qed simp

lemma evaluate_all_facts:
  assumes "mute_bounded en" "evaluate_all en result rules now = (en', res)"
  shows "mute_bounded en' \<and> (\<forall>rid. rid \<notin> tr_id ` set (filter tr_enabled rules) \<longrightarrow> health_for en' rid = health_for en rid)
    \<and> (\<exists>en1 out. evaluate_active en result (filter tr_enabled rules) now = (en1, out) \<and> en_ran en' = en_ran en1
        \<and> (\<forall>rid. last_evaluated_at en' rid = last_evaluated_at en1 rid))"
proof -
  obtain en1 out where a: "evaluate_active en result (filter tr_enabled rules) now = (en1, out)" by fastforce
  then have s: "settle_results en1 out now = (en', res)" using assms(2) by (simp add: evaluate_all_def)
  note act = evaluate_active_facts [OF assms(1) a]
  have "mute_bounded en1" "\<forall>rid e. (rid, Inl e) \<in> set out \<longrightarrow> last_evaluated_at en1 rid = Some now" using act by simp_all
  from settle_facts [OF this s] act a show ?thesis by simp
qed

definition evaluation_run :: "((trigger_rule \<Rightarrow> evaluation) \<times> trigger_rule list \<times> instant) list \<Rightarrow> engine_state" where
  "evaluation_run cycles = foldl (\<lambda>en (result, rules, now). fst (evaluate_all en result rules now))
     \<lparr>en_health = [], en_evaluated = [], en_ran = []\<rparr> cycles"

lemma mute_bounded_run: "mute_bounded (evaluation_run cycles)"
proof -
  have "mute_bounded (foldl (\<lambda>en (result, rules, now). fst (evaluate_all en result rules now)) en cycles)"
    if "mute_bounded en" for en
    using that
  proof (induction cycles arbitrary: en)
    case (Cons c cycles)
    obtain result rules now where c: "c = (result, rules, now)" by (cases c)
    obtain en' res where "evaluate_all en result rules now = (en', res)" by fastforce
    then show ?case using Cons evaluate_all_facts by (simp add: c)
  qed simp
  moreover have "mute_bounded \<lparr>en_health = [], en_evaluated = [], en_ran = []\<rparr>"
    by (simp add: mute_bounded_def health_for_def healthy_def)
  ultimately show ?thesis by (simp add: evaluation_run_def)
qed

lemma active_asked:
  assumes "r \<in> set rs" "distinct (map tr_id rs)" "\<not> is_muted (health_for en (tr_id r)) now" "mute_bounded en"
    and "evaluate_active en result rs now = (en', out)"
  shows "last_evaluated_at en' (tr_id r) = Some now \<and> ((\<forall>e. result r \<noteq> Unlogged e) \<longrightarrow> (tr_id r, now) \<in> set (en_ran en'))"
  using assms
proof (induction rs arbitrary: en out)
  case (Cons q rs)
  obtain en1 res where one: "evaluate_one en (result q) q now = (en1, res)" by fastforce
  obtain out1 where rest: "evaluate_active en1 result rs now = (en', out1)"
    using Cons.prems(5) one by (auto simp: Let_def split: prod.splits)
  have mb: "mute_bounded en1" by (rule mute_bounded_one [OF Cons.prems(4) one])
  note after = evaluate_active_facts [OF mb rest]
  show ?case
  proof (cases "r = q")
    case True
    then show ?thesis using evaluate_one_own(2,3) [OF one] Cons.prems(3) after by blast
  next
    case False
    then have "r \<in> set rs" using Cons.prems(1) by simp
    moreover have "tr_id r \<noteq> tr_id q" using Cons.prems(2) \<open>r \<in> set rs\<close> by (metis distinct.simps(2) image_eqI list.map(2) set_map)
    moreover have "health_for en1 (tr_id r) = health_for en (tr_id r)"
      using evaluate_one_others [OF \<open>tr_id r \<noteq> tr_id q\<close>, of en "result q" now] one by simp
    ultimately show ?thesis using Cons.IH [OF _ _ _ mb rest] Cons.prems(2,3) by simp
  qed
qed simp

text \<open>
  C36. No rule is silenced for good: after any history of cycles with any failures, those included that raise out of
  \<open>evaluate_all\<close>, a rule that was last evaluated at least thirty minutes ago (or never) is evaluated by the next cycle that has
  it enabled: that is recorded, and its function is called unless the log of evaluations cannot be written. This holds whatever
  comes of the other rules, and even if that cycle's \<open>evaluate_all\<close> raises at its end. A cycle changes nothing of the health of
  rules it does not have enabled. The enabled rules have different ids.
\<close>

theorem rule_evaluated_again:
  assumes "r \<in> set rules" "tr_enabled r" "distinct (map tr_id (filter tr_enabled rules))"
    and "case last_evaluated_at (evaluation_run cycles) (tr_id r) of None \<Rightarrow> True | Some since \<Rightarrow> since + MAX_BACKOFF \<le> now"
    and "evaluate_all (evaluation_run cycles) result rules now = (en, res)"
  shows "last_evaluated_at en (tr_id r) = Some now \<and> ((\<forall>e. result r \<noteq> Unlogged e) \<longrightarrow> (tr_id r, now) \<in> set (en_ran en))
    \<and> (\<forall>rid. rid \<notin> tr_id ` set (filter tr_enabled rules) \<longrightarrow> health_for en rid = health_for (evaluation_run cycles) rid)"
proof -
  let ?en = "evaluation_run cycles"
  note mb = mute_bounded_run [of cycles]
  have awake: "\<not> is_muted (health_for ?en (tr_id r)) now"
    using mb assms(4) by (fastforce simp: mute_bounded_def is_muted_def split: option.splits)
  note all = evaluate_all_facts [OF mb assms(5)]
  then obtain en1 out where a: "evaluate_active ?en result (filter tr_enabled rules) now = (en1, out)" "en_ran en = en_ran en1"
    "\<forall>rid. last_evaluated_at en rid = last_evaluated_at en1 rid" by blast
  have "r \<in> set (filter tr_enabled rules)" using assms(1,2) by simp
  from active_asked [OF this assms(3) awake mb a(1)] show ?thesis using all a(2,3) by simp
qed

definition sample_rule :: trigger_rule where
  "sample_rule = \<lparr>tr_id = ''brief'', tr_type = Cron, tr_match = [(''schedule'', PStr ''0 9 * * *'')], tr_prompt = ''hi'',
     tr_destination = Auto, tr_urgent = False, tr_enabled = True, tr_name = [], tr_agent = None, tr_show_on_home = True\<rparr>"

definition failing :: "nat list \<Rightarrow> engine_state" where
  "failing ks = evaluation_run (map (\<lambda>k. (\<lambda>r. Raised ''x'', [sample_rule], seconds (int k))) ks)"

theorem rule_evaluated_again_witness:
  "\<exists>en res. evaluate_all (failing [0, 1, 2, 3]) (\<lambda>r. Evaluated) [sample_rule] (seconds 1802) = (en, res)
     \<and> last_evaluated_at en ''brief'' = Some (seconds 1802) \<and> (''brief'', seconds 1802) \<in> set (en_ran en)"
proof -
  obtain en res where e: "evaluate_all (failing [0, 1, 2, 3]) (\<lambda>r. Evaluated) [sample_rule] (seconds 1802) = (en, res)" by fastforce
  have r: "sample_rule \<in> set [sample_rule]" "tr_enabled sample_rule" "distinct (map tr_id (filter tr_enabled [sample_rule]))"
    by (simp_all add: sample_rule_def)
  have "last_evaluated_at (failing [0, 1, 2, 3]) (tr_id sample_rule) = Some (seconds 2)"
    by code_simp
  then have "case last_evaluated_at (failing [0, 1, 2, 3]) (tr_id sample_rule) of None \<Rightarrow> True | Some since \<Rightarrow> since + MAX_BACKOFF \<le> seconds 1802"
    by (simp add: MAX_BACKOFF_def seconds_def)
  from rule_evaluated_again [OF r this [unfolded failing_def] e [unfolded failing_def]] show ?thesis
    using e by (simp add: sample_rule_def)
qed

text \<open>
  The 44th failure in a row overflows the backoff. The exception escapes \<open>evaluate_one\<close>, is recorded as one more failure, which
  overflows again, and escapes \<open>evaluate_all\<close>, with it what the cycle does after it: deferred and queued firings of all rules
  are no longer released. The rule is not muted, so every later cycle it fails in ends the same way.
\<close>

lemma overflow_escapes:
  assumes "43 \<le> rh_failures h"
  shows "snd (record_failure h err now)" "rh_muted_until (fst (record_failure h err now)) = rh_muted_until h"
proof -
  have "(2::int) ^ 41 \<le> 2 ^ (rh_failures h + 1 - BACKOFF_AFTER)" using assms by (intro power_increasing) (simp_all add: BACKOFF_AFTER_def)
  then have "(60 * 2 ^ 41 :: int) div 86400 \<le> 60 * 2 ^ (rh_failures h + 1 - BACKOFF_AFTER) div 86400" by (intro zdiv_mono1) simp_all
  then have "timedelta_seconds (60 * 2 ^ (rh_failures h + 1 - BACKOFF_AFTER)) = None" by (simp add: timedelta_seconds_def)
  then show "snd (record_failure h err now)" "rh_muted_until (fst (record_failure h err now)) = rh_muted_until h"
    using assms by (simp_all add: record_failure_def BACKOFF_AFTER_def)
qed

lemma no_overflow_before:
  assumes "rh_failures h \<le> 42"
  shows "\<not> snd (record_failure h err now)"
proof -
  have "(2::int) ^ (rh_failures h + 1 - BACKOFF_AFTER) \<le> 2 ^ 40" using assms by (intro power_increasing) (simp_all add: BACKOFF_AFTER_def)
  then have "60 * 2 ^ (rh_failures h + 1 - BACKOFF_AFTER) div 86400 \<le> (60 * 2 ^ 40 :: int) div 86400" by (intro zdiv_mono1) simp_all
  then show ?thesis by (simp add: record_failure_def timedelta_seconds_def Let_def)
qed

lemma failed_rule_ends_the_cycle:
  assumes "43 \<le> rh_failures (health_for en (tr_id r))" "\<not> is_muted (health_for en (tr_id r)) now" "tr_enabled r" "result r = Raised err"
  shows "snd (evaluate_all en result [r] now) = Inl OVERFLOW_ERROR"
    "\<not> is_muted (health_for (fst (evaluate_all en result [r] now)) (tr_id r)) now"
    "43 \<le> rh_failures (health_for (fst (evaluate_all en result [r] now)) (tr_id r))"
proof -
  let ?h = "health_for en (tr_id r)"
  obtain h1 where h1: "record_failure ?h err now = (h1, True)" using overflow_escapes(1) [OF assms(1)] by (metis (full_types) prod.collapse)
  have m1: "rh_muted_until h1 = rh_muted_until ?h" "rh_failures h1 = rh_failures ?h + 1"
    using overflow_escapes(2) [OF assms(1), of err now] h1 by (auto simp: record_failure_def Let_def split: option.splits if_splits)
  then have "43 \<le> rh_failures h1" using assms(1) by simp
  then obtain h2 where h2: "record_failure h1 OVERFLOW_ERROR now = (h2, True)" using overflow_escapes(1) by (metis (full_types) prod.collapse)
  have m2: "rh_muted_until h2 = rh_muted_until ?h" "43 \<le> rh_failures h2"
    using overflow_escapes(2) [OF \<open>43 \<le> rh_failures h1\<close>, of OVERFLOW_ERROR now] h2 m1 assms(1)
    by (auto simp: record_failure_def Let_def split: option.splits if_splits)
  have "evaluate_all en result [r] now = (with_health (with_health (((with_health en (tr_id r) ?h)\<lparr>en_evaluated := dset (en_evaluated en) (tr_id r) now,
      en_ran := en_ran en @ [(tr_id r, now)]\<rparr>)) (tr_id r) h1) (tr_id r) h2, Inl OVERFLOW_ERROR)"
    using assms(2-4) h1 h2 by (simp add: evaluate_all_def evaluate_one_def Let_def)
  then show "snd (evaluate_all en result [r] now) = Inl OVERFLOW_ERROR"
    "\<not> is_muted (health_for (fst (evaluate_all en result [r] now)) (tr_id r)) now"
    "43 \<le> rh_failures (health_for (fst (evaluate_all en result [r] now)) (tr_id r))"
    using assms(2) m2 by (simp_all add: is_muted_def)
qed

end
