(* ===== verification/Trigger_Runner.thy ===== *)
theory Trigger_Runner
  imports Trigger_Model "HOL-Library.Multiset"
begin

text \<open>
  From an event to a delivered message (\<open>backend/app/trigger_engine/runner.py\<close>, \<open>compose.py\<close>, the
  queues and the release path under \<open>politeness/\<close>, \<open>destinations/base.py\<close> and the release half of
  \<open>loop.py\<close>).

  \<open>runner_env\<close> holds what is outside: the sources' events (\<open>None\<close>: unavailable), the digest, the
  rendered prompt, the agent and thread lookups, the injected turn (an exception's text or the
  reply), the run footer, a thread's status, the re-check, the redactor, the destinations (the
  text of a delivery's exception), the zones' offsets, the clock text of an instant, and a fresh
  batch id. The runner's state holds its queues, the fingerprints, the failed attempts, every
  delivered message with where it went, and the audit log; \<open>rn_routed\<close> and \<open>rn_failed\<close> record
  the firings that were routed and the failed attempts, for the statements only. Quiet hours, the
  queues and the thread lookup are present, as the gateway builds the runner. Durations and
  exception class names inside reason texts are left out. A function that
  can raise returns \<open>Inl\<close> with the state it leaves.
\<close>

subsection \<open>Quiet hours\<close>

record quiet_hours =
  qh_start :: string
  qh_end :: string
  qh_enabled :: bool
  qh_timezone :: string

type_synonym zones = "string \<Rightarrow> (instant \<Rightarrow> int) option"

text \<open>\<open>hh, _, mm = value.partition(":")\<close>, then \<open>time(int(hh), int(mm or 0))\<close>, in minutes of the day.\<close>

definition parse_hhmm :: "string \<Rightarrow> int option" where
  "parse_hhmm value =
     (let hh = takeWhile (\<lambda>c. c \<noteq> CHR '':'') value; mm = drop 1 (dropWhile (\<lambda>c. c \<noteq> CHR '':'') value) in
      case (int_of_text hh, (if mm = [] then Some 0 else int_of_text mm)) of
        (Some h, Some m) \<Rightarrow> if 0 \<le> h \<and> h < 24 \<and> 0 \<le> m \<and> m < 60 then Some (h * 60 + m) else None
      | _ \<Rightarrow> None)"

definition local_clock :: "zones \<Rightarrow> string \<Rightarrow> instant \<Rightarrow> int" where
  "local_clock zones tz t = (case zones tz of Some off \<Rightarrow> (t + off t) mod day_us | None \<Rightarrow> t mod day_us)"

definition quiet_contains :: "zones \<Rightarrow> quiet_hours \<Rightarrow> instant \<Rightarrow> bool option" where
  "quiet_contains zones q t =
     (if \<not> qh_enabled q then Some False
      else case (parse_hhmm (qh_start q), parse_hhmm (qh_end q)) of
        (Some s, Some e) \<Rightarrow>
          (let now = local_clock zones (qh_timezone q) t; s = seconds (60 * s); e = seconds (60 * e) in
           if s \<le> e then Some (s \<le> now \<and> now < e) else Some (s \<le> now \<or> now < e))
      | _ \<Rightarrow> None)"

definition should_suppress :: "zones \<Rightarrow> bool \<Rightarrow> quiet_hours \<Rightarrow> instant \<Rightarrow> (bool \<times> string) option" where
  "should_suppress zones urgent q now =
     (case quiet_contains zones q now of
        None \<Rightarrow> None
      | Some False \<Rightarrow> Some (False, [])
      | Some True \<Rightarrow> if urgent then Some (False, []) else Some (True, ''quiet hours '' @ qh_start q @ ''-'' @ qh_end q))"

subsection \<open>Composing a message\<close>

definition ago :: "int \<Rightarrow> string" where
  "ago secs = (let minutes = secs div 60 in
     if minutes < 90 then int_text minutes @ '' min''
     else int_text (minutes div 60) @ '' h '' @ int_text (minutes mod 60) @ '' min'')"

definition LATE_AFTER_SECONDS :: int where "LATE_AFTER_SECONDS = 300"

definition int_field :: "trigger_event \<Rightarrow> string \<Rightarrow> int" where
  "int_field ev k = (case py_int (dget (ev_fields ev) k) of Some n \<Rightarrow> n | None \<Rightarrow> 0)"

definition str_field :: "trigger_event \<Rightarrow> string \<Rightarrow> string" where
  "str_field ev k = (case dget (ev_fields ev) k of PStr s \<Rightarrow> s | _ \<Rightarrow> [])"

definition whole_seconds :: "int \<Rightarrow> int" where
  "whole_seconds d = (if 0 \<le> d then d div 1000000 else - ((- d) div 1000000))"

definition late_note :: "(instant \<Rightarrow> string) \<Rightarrow> trigger_event \<Rightarrow> instant option \<Rightarrow> bool \<Rightarrow> string" where
  "late_note clock ev now held =
     (if ev_type ev \<noteq> Cron then []
      else
        let late = (case now of Some t \<Rightarrow> whole_seconds (t - ev_at ev) | None \<Rightarrow> int_field ev ''late_by_seconds'');
            skipped = int_field ev ''skipped'' in
        if late < LATE_AFTER_SECONDS \<and> skipped = 0 then []
        else py_join '' ''
          ((if LATE_AFTER_SECONDS \<le> late
            then [''Running late: this was scheduled for '' @ clock (ev_at ev) @ '', '' @ ago late @ '' ago, ''
              @ (if held then ''and held while you were mid-conversation'' else ''when I was not running'') @ ''.'']
            else [])
           @ (if skipped \<noteq> 0
              then [int_text skipped @ '' earlier scheduled run'' @ (if skipped \<noteq> 1 then ''s were'' else '' was'')
                @ '' missed while I was not running, and skipped rather than replayed.'']
              else [])))"

definition blank_line :: string where
  "blank_line = [newline, newline]"

definition with_late_note :: "(instant \<Rightarrow> string) \<Rightarrow> trigger_event \<Rightarrow> string \<Rightarrow> instant option \<Rightarrow> bool \<Rightarrow> string" where
  "with_late_note clock ev body now held =
     (let note = late_note clock ev now held in if note \<noteq> [] then note @ blank_line @ body else body)"

definition compose_proactive :: "trigger_rule \<Rightarrow> trigger_event \<Rightarrow> string \<Rightarrow> string" where
  "compose_proactive r ev raw =
     (let reply = py_strip raw; project = py_strip (str_field ev ''project''); state = str_field ev ''state'';
          waiting = '' looks like it'' @ [CHR 0x27] @ ''s waiting on you'' in
      if ev_type ev = Watcher then
        (let head =
           (if state = ''waiting-on-user'' then (if project \<noteq> [] then project else ''A session'') @ waiting
            else if state = ''failed'' then (if project \<noteq> [] then project else ''A session'') @ '' failed''
            else if project \<noteq> [] then project else ''A session'')
         in if reply \<noteq> [] then head @ ''.'' @ blank_line @ reply else head @ ''.'')
      else if reply \<noteq> [] then reply else ''(the assistant returned nothing)'')"

text \<open>\<open>bullet\<close> stands for the character and space the code puts before each of several texts.\<close>

definition bullet :: string where
  "bullet = [char_of (149 :: nat), CHR '' '']"

definition merge :: "firing list \<Rightarrow> string" where
  "merge fs =
     (let texts = concat (map (\<lambda>f. case fi_reply f of None \<Rightarrow> []
           | Some s \<Rightarrow> if py_strip s \<noteq> [] then [py_strip s] else []) fs) in
      case texts of [] \<Rightarrow> [] | [t] \<Rightarrow> t | _ \<Rightarrow> py_join blank_line (map (\<lambda>t. bullet @ t) texts))"

subsection \<open>The runner's state\<close>

datatype thread_status = Free | Busy | Unknown_Status

record runner_env =
  re_poll :: "trigger_rule \<Rightarrow> instant \<Rightarrow> trigger_event list option"
  re_digest :: "dict \<Rightarrow> string"
  re_render :: "trigger_rule \<Rightarrow> trigger_event \<Rightarrow> string"
  re_agent_missing :: "string \<Rightarrow> bool"
  re_thread :: "string \<Rightarrow> string + string"
  re_inject :: "string \<Rightarrow> trigger_rule \<Rightarrow> string \<Rightarrow> string \<Rightarrow> string + string"
  re_footer :: "string \<Rightarrow> string"
  re_status :: "string \<Rightarrow> thread_status"
  re_still_true :: "firing \<Rightarrow> bool"
  re_redact :: "string \<Rightarrow> string \<times> bool"
  re_deliver :: "destination \<Rightarrow> string \<Rightarrow> string option"
  re_zones :: zones
  re_clock :: "instant \<Rightarrow> string"
  re_batch :: string
  re_present :: bool
  re_has_local :: bool

record runner_config =
  rc_quiet :: quiet_hours
  rc_window :: int
  rc_max_wait :: int
  rc_schedule_max_wait :: int

record runner =
  rn_seen :: fingerprint_store
  rn_attempts :: "(string \<times> nat) list"
  rn_deferrals :: "firing list"
  rn_queued :: "(firing \<times> instant) list"
  rn_window :: "firing list"
  rn_opened :: "instant option"
  rn_delivered :: "(destination \<times> string \<times> instant) list"
  rn_audit :: "(firing \<times> instant) list"
  rn_routed :: "(string \<times> trigger_event) list"
  rn_failed :: "(string \<times> trigger_event) list"

definition ident :: "firing \<Rightarrow> string \<times> trigger_event" where
  "ident f = (fi_rule_id f, fi_event f)"

definition settle :: "firing \<Rightarrow> firing_outcome \<Rightarrow> string \<Rightarrow> firing" where
  "settle f o' reason = (case resolve_firing f o' reason of Inr g \<Rightarrow> g | Inl _ \<Rightarrow> f)"

definition audit :: "runner \<Rightarrow> firing \<Rightarrow> instant \<Rightarrow> runner" where
  "audit s f now = s\<lparr>rn_audit := rn_audit s @ [(f, now)]\<rparr>"

definition audits :: "runner \<Rightarrow> firing list \<Rightarrow> instant \<Rightarrow> runner" where
  "audits s fs now = s\<lparr>rn_audit := rn_audit s @ map (\<lambda>f. (f, now)) fs\<rparr>"

text \<open>\<open>DestinationRegistry.resolve\<close>: the destination a declared one comes to.\<close>

definition resolve_destination :: "runner_env \<Rightarrow> destination \<Rightarrow> destination" where
  "resolve_destination env declared =
     (case declared of
        Quiet \<Rightarrow> Quiet
      | Remote \<Rightarrow> Remote
      | Local \<Rightarrow> if re_has_local env then Local else Remote
      | Auto \<Rightarrow> if re_present env \<and> re_has_local env then Local else Remote)"

definition destination_for :: "runner_env \<Rightarrow> trigger_rule \<Rightarrow> destination" where
  "destination_for env r = resolve_destination env (tr_destination r)"

subsection \<open>The one release path\<close>

definition RECHECKABLE :: "trigger_type list" where
  "RECHECKABLE = [Watcher]"

text \<open>What the re-check makes of a firing: kept, or expired with a reason.\<close>

definition recheck :: "runner_env \<Rightarrow> release_reason \<Rightarrow> firing \<Rightarrow> string option" where
  "recheck env reason f =
     (if reason = Immediate then None
      else if ev_type (fi_event f) \<notin> set RECHECKABLE \<and> reason = Exchange_Ended then None
      else if ev_type (fi_event f) \<notin> set RECHECKABLE then
        Some (release_str reason @ '': '' @ type_str (ev_type (fi_event f)) @ '' has no re-checkable condition'')
      else if \<not> re_still_true env f then Some (release_str reason @ '': condition no longer holds'')
      else None)"

definition release_firings :: "runner_env \<Rightarrow> runner \<Rightarrow> firing list \<Rightarrow> release_reason \<Rightarrow> destination \<Rightarrow> instant \<Rightarrow> runner \<times> string option" where
  "release_firings env s fs reason dest now =
     (let expired = concat (map (\<lambda>f. case recheck env reason f of None \<Rightarrow> [] | Some why \<Rightarrow> [settle f F_Expired why]) fs);
          survivors = filter (\<lambda>f. recheck env reason f = None) fs;
          s = audits s expired now in
      if survivors = [] then (s, None)
      else
        let (safe, ok) = re_redact env (merge survivors) in
        if \<not> ok then (audits s (map (\<lambda>f. settle f F_Failed ''redaction failed; delivery suppressed'') survivors) now, None)
        else case re_deliver env dest safe of
          Some exc \<Rightarrow> (audits s (map (\<lambda>f. settle f F_Failed (''delivery failed: '' @ exc)) survivors) now, None)
        | None \<Rightarrow>
            let batch = (if 1 < length survivors then Some (re_batch env) else None) in
            (audits (s\<lparr>rn_delivered := rn_delivered s @ [(dest, safe, now)]\<rparr>)
               (map (\<lambda>f. settle (f\<lparr>fi_batch_id := batch\<rparr>) F_Delivered []) survivors) now, Some safe))"

subsection \<open>The three queues\<close>

definition defer_firing :: "runner \<Rightarrow> firing \<Rightarrow> string \<Rightarrow> runner \<times> firing" where
  "defer_firing s f reason = (let g = settle f F_Suppressed reason in (s\<lparr>rn_deferrals := rn_deferrals s @ [g]\<rparr>, g))"

definition hold :: "runner \<Rightarrow> firing \<Rightarrow> instant \<Rightarrow> string \<Rightarrow> runner \<times> firing" where
  "hold s f now reason = (let g = settle f F_Queued reason in (s\<lparr>rn_queued := rn_queued s @ [(g, now)]\<rparr>, g))"

definition window_add :: "runner \<Rightarrow> firing \<Rightarrow> instant \<Rightarrow> runner \<times> firing" where
  "window_add s f now = (let g = settle f F_Queued ''awaiting the coalescing window'' in
     (s\<lparr>rn_window := rn_window s @ [g], rn_opened := (case rn_opened s of None \<Rightarrow> Some now | o' \<Rightarrow> o')\<rparr>, g))"

definition window_due :: "runner_config \<Rightarrow> runner \<Rightarrow> instant \<Rightarrow> bool" where
  "window_due cfg s now = (case rn_opened s of None \<Rightarrow> False | Some since \<Rightarrow> rc_window cfg \<le> now - since)"

text \<open>What \<open>InterruptQueue.due\<close> does with a held firing.\<close>

datatype held = Ready release_reason | Gone | Held

definition judge_held :: "runner_env \<Rightarrow> runner_config \<Rightarrow> instant \<Rightarrow> firing \<times> instant \<Rightarrow> held" where
  "judge_held env cfg now h = (let (f, queued_at) = h; waited = now - queued_at;
       busy = (case fi_thread_id f of None \<Rightarrow> False | Some t \<Rightarrow> t \<noteq> [] \<and> re_status env t \<noteq> Free);
       again = ev_type (fi_event f) \<in> set RECHECKABLE in
     if \<not> busy then Ready Exchange_Ended
     else if again \<and> rc_max_wait cfg \<le> waited then Ready Queue_Expired
     else if \<not> again \<and> rc_schedule_max_wait cfg \<le> waited then Gone
     else Held)"

definition queue_due :: "runner_env \<Rightarrow> runner_config \<Rightarrow> runner \<Rightarrow> instant \<Rightarrow> runner \<times> firing list" where
  "queue_due env cfg s now =
     (let ready = concat (map (\<lambda>h. case judge_held env cfg now h of
             Ready reason \<Rightarrow> [(fst h)\<lparr>fi_release_reason := Some reason\<rparr>] | _ \<Rightarrow> []) (rn_queued s));
          gone = concat (map (\<lambda>h. case judge_held env cfg now h of
             Gone \<Rightarrow> [settle (fst h) F_Expired ''held behind an exchange that did not end; not delivered''] | _ \<Rightarrow> []) (rn_queued s))
      in (audits (s\<lparr>rn_queued := filter (\<lambda>h. judge_held env cfg now h = Held) (rn_queued s)\<rparr>) gone now, ready))"

subsection \<open>Routing\<close>

definition MAX_ATTEMPTS :: nat where "MAX_ATTEMPTS = 3"

definition hold_reason :: "thread_status \<Rightarrow> string" where
  "hold_reason st = (if st = Unknown_Status
     then ''could not tell whether an exchange is in progress; holding until it can, or for the bound of the queue''
     else ''user is mid-exchange on the target thread'')"

definition thread_status_of :: "runner_env \<Rightarrow> firing \<Rightarrow> thread_status" where
  "thread_status_of env f = (case fi_thread_id f of None \<Rightarrow> Free | Some t \<Rightarrow> if t = [] then Free else re_status env t)"

definition route :: "runner_env \<Rightarrow> runner_config \<Rightarrow> runner \<Rightarrow> trigger_rule \<Rightarrow> firing \<Rightarrow> instant \<Rightarrow> runner option" where
  "route env cfg s r f now =
     (case should_suppress (re_zones env) (tr_urgent r) (rc_quiet cfg) now of
        None \<Rightarrow> None
      | Some (True, reason) \<Rightarrow> (let (s', g) = defer_firing s f reason in Some (audit s' g now))
      | Some (False, _) \<Rightarrow>
          if thread_status_of env f \<noteq> Free
          then (let (s', g) = hold s f now (hold_reason (thread_status_of env f)) in Some (audit s' g now))
          else (let (s', g) = window_add s f now in Some (audit s' g now)))"

definition give_up :: "runner \<Rightarrow> firing \<Rightarrow> string \<Rightarrow> string \<Rightarrow> instant \<Rightarrow> runner \<times> bool" where
  "give_up s f key exc now =
     (let n = (case map_of (rn_attempts s) key of None \<Rightarrow> 0 | Some k \<Rightarrow> k) + 1;
          s = s\<lparr>rn_failed := rn_failed s @ [ident f]\<rparr> in
      if MAX_ATTEMPTS \<le> n then
        (audit (s\<lparr>rn_attempts := ddel (rn_attempts s) key, rn_seen := fp_record (rn_seen s) key now\<rparr>)
           (settle f F_Failed (''gave up after '' @ nat_text n @ '' attempts: '' @ exc)) now, True)
      else
        (audit (s\<lparr>rn_attempts := dset (rn_attempts s) key n\<rparr>)
           (settle f F_Failed (''attempt '' @ nat_text n @ '' of '' @ nat_text MAX_ATTEMPTS @ '': '' @ exc @ ''; retrying on the next cycle'')) now,
         False))"

definition new_firing :: "runner_env \<Rightarrow> trigger_rule \<Rightarrow> trigger_event \<Rightarrow> firing" where
  "new_firing env r ev = \<lparr>fi_rule_id = tr_id r, fi_event = ev, fi_prompt = re_render env r ev, fi_thread_id = None,
     fi_reply = None, fi_outcome = None, fi_reason = [], fi_batch_id = None, fi_body = None, fi_release_reason = None\<rparr>"

text \<open>Resolving the thread, running the turn and composing its message; \<open>Inl\<close> when any of it raises.\<close>

definition run_turn :: "runner_env \<Rightarrow> trigger_rule \<Rightarrow> trigger_event \<Rightarrow> firing \<Rightarrow> string \<Rightarrow> firing \<times> (string + unit)" where
  "run_turn env r ev f key =
     (case re_thread env (tr_id r) of
        Inl exc \<Rightarrow> (f, Inl exc)
      | Inr t \<Rightarrow>
          let f = f\<lparr>fi_thread_id := Some t\<rparr> in
          (case re_inject env t r (fi_prompt f) key of
             Inl exc \<Rightarrow> (f, Inl exc)
           | Inr raw \<Rightarrow>
               if py_strip raw = [] \<and> tr_type r \<noteq> Watcher
               then (f, Inl ''EmptyReply: the run completed with no reply'')
               else
                 let body = compose_proactive r ev raw; footer = re_footer env key;
                     body = (if footer \<noteq> [] then body @ blank_line @ footer else body)
                 in (f\<lparr>fi_body := Some body, fi_reply := Some (with_late_note (re_clock env) ev body None False)\<rparr>, Inr ())))"

definition missing_agent_reason :: "string \<Rightarrow> string" where
  "missing_agent_reason a = ''the agent '' @ a @ '' no longer exists, so this automation did not run; it is never run as the lead agent in its place. Point it at an existing agent or delete it.''"

datatype event_end = Skipped | Settled | Retry | Escaped

definition run_event :: "runner_env \<Rightarrow> runner_config \<Rightarrow> trigger_rule \<Rightarrow> instant \<Rightarrow> runner \<Rightarrow> trigger_event \<Rightarrow> runner \<times> event_end" where
  "run_event env cfg r now s ev =
     (case compute (re_digest env) (tr_id r) ev of
        Inl _ \<Rightarrow> (s, Escaped)
      | Inr key \<Rightarrow>
          if fp_is_seen (rn_seen s) key then (s, Skipped)
          else
            let f = new_firing env r ev in
            if (case tr_agent r of None \<Rightarrow> False | Some a \<Rightarrow> a \<noteq> [] \<and> re_agent_missing env a) then
              (audit (s\<lparr>rn_seen := fp_record (rn_seen s) key now, rn_failed := rn_failed s @ [ident f]\<rparr>)
                 (settle f F_Failed (missing_agent_reason (the (tr_agent r)))) now, Settled)
            else
              (case run_turn env r ev f key of
                 (g, Inl exc) \<Rightarrow> (let (s', settled) = give_up s g key exc now in (s', if settled then Settled else Retry))
               | (g, Inr _) \<Rightarrow>
                   let s = s\<lparr>rn_seen := fp_record (rn_seen s) key now, rn_routed := rn_routed s @ [ident g]\<rparr> in
                   (case route env cfg s r g now of
                      None \<Rightarrow> (s, Escaped)
                    | Some s' \<Rightarrow> (s', Settled))))"

text \<open>An exception that escapes ends the whole call; \<open>Inl\<close> is that.\<close>

fun run_events :: "runner_env \<Rightarrow> runner_config \<Rightarrow> trigger_rule \<Rightarrow> instant \<Rightarrow> runner \<Rightarrow> trigger_event list \<Rightarrow> runner \<times> (unit + trigger_event list)" where
  "run_events env cfg r now s [] = (s, Inr [])"
| "run_events env cfg r now s (ev # evs) =
     (case run_event env cfg r now s ev of
        (s', Escaped) \<Rightarrow> (s', Inl ())
      | (s', Settled) \<Rightarrow>
          (case run_events env cfg r now s' evs of (s'', Inl u) \<Rightarrow> (s'', Inl u) | (s'', Inr fired) \<Rightarrow> (s'', Inr (ev # fired)))
      | (s', _) \<Rightarrow> run_events env cfg r now s' evs)"

definition run_blocking :: "runner_env \<Rightarrow> runner_config \<Rightarrow> trigger_rule \<Rightarrow> instant \<Rightarrow> runner \<Rightarrow> runner \<times> (unit + trigger_event list)" where
  "run_blocking env cfg r now s =
     (case re_poll env r now of None \<Rightarrow> (s, Inr []) | Some evs \<Rightarrow> run_events env cfg r now s evs)"

subsection \<open>Releasing\<close>

definition release_deferred :: "runner_env \<Rightarrow> runner_config \<Rightarrow> runner \<Rightarrow> trigger_rule \<Rightarrow> instant \<Rightarrow> runner \<times> bool" where
  "release_deferred env cfg s r now =
     (if rn_deferrals s = [] then (s, True)
      else case quiet_contains (re_zones env) (rc_quiet cfg) now of
        None \<Rightarrow> (s, False)
      | Some True \<Rightarrow> (s, True)
      | Some False \<Rightarrow>
          (fst (release_firings env (s\<lparr>rn_deferrals := []\<rparr>) (rn_deferrals s) Quiet_Hours_Ended (destination_for env r) now), True))"

definition renote :: "runner_env \<Rightarrow> instant \<Rightarrow> firing \<Rightarrow> firing" where
  "renote env now f = (case fi_body f of
     None \<Rightarrow> f
   | Some body \<Rightarrow> if ev_type (fi_event f) = Watcher then f
       else f\<lparr>fi_reply := Some (with_late_note (re_clock env) (fi_event f) body (Some now) True)\<rparr>)"

definition release_group :: "runner_env \<Rightarrow> trigger_rule \<Rightarrow> instant \<Rightarrow> firing list \<Rightarrow> runner \<Rightarrow> release_reason \<Rightarrow> runner" where
  "release_group env r now ready s reason =
     (let group = filter (\<lambda>f. fi_release_reason f = Some reason) ready in
      if group = [] then s else fst (release_firings env s group reason (destination_for env r) now))"

definition release_queued :: "runner_env \<Rightarrow> runner_config \<Rightarrow> runner \<Rightarrow> trigger_rule \<Rightarrow> instant \<Rightarrow> runner" where
  "release_queued env cfg s r now =
     (let (s, ready) = queue_due env cfg s now; ready = map (renote env now) ready
      in foldl (release_group env r now ready) s [Exchange_Ended, Queue_Expired])"

definition flush_window :: "runner_env \<Rightarrow> runner_config \<Rightarrow> runner \<Rightarrow> trigger_rule \<Rightarrow> instant \<Rightarrow> runner" where
  "flush_window env cfg s r now =
     (if \<not> window_due cfg s now then s
      else let batch = rn_window s; s = s\<lparr>rn_window := [], rn_opened := None\<rparr> in
        if batch = [] then s else fst (release_firings env s batch Immediate (destination_for env r) now))"

text \<open>
  The release half of \<open>TriggerLoop.cycle\<close>: every enabled rule in turn. \<open>False\<close>: it raised, and the
  rules after it were not reached.
\<close>

fun release_all :: "runner_env \<Rightarrow> runner_config \<Rightarrow> runner \<Rightarrow> trigger_rule list \<Rightarrow> instant \<Rightarrow> runner \<times> bool" where
  "release_all env cfg s [] now = (s, True)"
| "release_all env cfg s (r # rules) now =
     (if \<not> tr_enabled r then release_all env cfg s rules now
      else let (s, ok) = release_deferred env cfg s r now in
        if \<not> ok then (s, False)
        else release_all env cfg (flush_window env cfg (release_queued env cfg s r now) r now) rules now)"

subsection \<open>Where every firing is\<close>

definition pending_idents :: "runner \<Rightarrow> (string \<times> trigger_event) multiset" where
  "pending_idents s = mset (map ident (rn_deferrals s @ map fst (rn_queued s) @ rn_window s))"

definition audited :: "firing_outcome set \<Rightarrow> runner \<Rightarrow> (string \<times> trigger_event) multiset" where
  "audited os s = mset (map (ident \<circ> fst) (filter (\<lambda>e. fi_outcome (fst e) \<in> Some ` os) (rn_audit s)))"

definition FINAL :: "firing_outcome set" where
  "FINAL = {F_Delivered, F_Expired, F_Failed}"

definition same_history :: "runner \<Rightarrow> runner \<Rightarrow> bool" where
  "same_history s s' \<longleftrightarrow> rn_seen s' = rn_seen s \<and> rn_routed s' = rn_routed s \<and> rn_failed s' = rn_failed s"

lemma ident_settle [simp]: "ident (settle f o' r) = ident f"
  by (auto simp: settle_def resolve_firing_def ident_def split: sum.splits)

lemma outcome_settle [simp]: "o' = F_Delivered \<or> r \<noteq> [] \<Longrightarrow> fi_outcome (settle f o' r) = Some o'"
  by (auto simp: settle_def resolve_firing_def)

lemma ident_updates [simp]:
  "ident (f\<lparr>fi_batch_id := b\<rparr>) = ident f" "ident (f\<lparr>fi_release_reason := x\<rparr>) = ident f"
  "ident (f\<lparr>fi_reply := y\<rparr>) = ident f" "ident (renote env now f) = ident f"
  by (simp_all add: ident_def renote_def split: option.splits)

lemma audited_audits: "audited os (audits s fs now) =
    audited os s + mset (map ident (filter (\<lambda>f. fi_outcome f \<in> Some ` os) fs))"
  by (simp add: audited_def audits_def filter_map o_def)

lemma audited_audit: "audited os (audit s f now) = audited os s + (if fi_outcome f \<in> Some ` os then {#ident f#} else {#})"
  by (simp add: audited_def audit_def)

lemma frame_audits [simp]:
  "pending_idents (audits s fs now) = pending_idents s" "same_history s0 (audits s fs now) = same_history s0 s"
  "pending_idents (audit s f now) = pending_idents s" "same_history s0 (audit s f now) = same_history s0 s"
  by (simp_all add: pending_idents_def audits_def audit_def same_history_def)

lemma same_history_refl [simp]: "same_history s s" by (simp add: same_history_def)

lemma same_history_trans: "same_history s t \<Longrightarrow> same_history t u \<Longrightarrow> same_history s u" by (simp add: same_history_def)

lemma filter_settled: "o' = F_Delivered \<or> r \<noteq> [] \<Longrightarrow>
    filter (\<lambda>f. fi_outcome f \<in> Some ` os) (map (\<lambda>f. settle (h f) o' r) fs) =
      (if o' \<in> os then map (\<lambda>f. settle (h f) o' r) fs else [])"
  by (induction fs) auto

lemma recheck_reason: "recheck env reason f = Some why \<Longrightarrow> why \<noteq> []"
  by (auto simp: recheck_def split: if_splits)

lemma expired_firings:
  "filter (\<lambda>f. fi_outcome f \<in> Some ` os)
     (concat (map (\<lambda>f. case recheck env reason f of None \<Rightarrow> [] | Some why \<Rightarrow> [settle f F_Expired why]) fs))
   = (if F_Expired \<in> os then concat (map (\<lambda>f. case recheck env reason f of None \<Rightarrow> [] | Some why \<Rightarrow> [settle f F_Expired why]) fs) else [])"
  "mset (map ident (concat (map (\<lambda>f. case recheck env reason f of None \<Rightarrow> [] | Some why \<Rightarrow> [settle f F_Expired why]) fs)))
     + mset (map ident (filter (\<lambda>f. recheck env reason f = None) fs)) = mset (map ident fs)"
  by (induction fs) (auto split: option.splits dest: recheck_reason)

text \<open>Releasing settles every firing it is given, once.\<close>

lemma release_facts:
  assumes "release_firings env s fs reason dest now = (s', out)"
  shows "audited FINAL s' = audited FINAL s + mset (map ident fs)
    \<and> (\<exists>d. d \<subseteq># mset (map ident fs) \<and> audited {F_Delivered} s' = audited {F_Delivered} s + d)
    \<and> pending_idents s' = pending_idents s \<and> same_history s s'"
proof -
  let ?ex = "concat (map (\<lambda>f. case recheck env reason f of None \<Rightarrow> [] | Some why \<Rightarrow> [settle f F_Expired why]) fs)"
  let ?sv = "filter (\<lambda>f. recheck env reason f = None) fs"
  let ?s1 = "audits s ?ex now"
  have ex: "audited FINAL ?s1 = audited FINAL s + mset (map ident ?ex)" "audited {F_Delivered} ?s1 = audited {F_Delivered} s"
    unfolding audited_audits expired_firings(1) by (simp_all add: FINAL_def)
  have sum: "mset (map ident ?ex) + mset (map ident ?sv) = mset (map ident fs)" by (rule expired_firings(2))
  have sub: "mset (map ident ?sv) \<subseteq># mset (map ident fs)" unfolding sum [symmetric] by (rule mset_subset_eq_add_right)
  obtain safe ok where red: "re_redact env (merge ?sv) = (safe, ok)" by force
  consider (empty) "s' = ?s1" "?sv = []"
    | (failed) r where "s' = audits ?s1 (map (\<lambda>f. settle f F_Failed r) ?sv) now" "r \<noteq> []"
    | (delivered) b where "s' = audits (?s1\<lparr>rn_delivered := rn_delivered ?s1 @ [(dest, safe, now)]\<rparr>)
        (map (\<lambda>f. settle (f\<lparr>fi_batch_id := b\<rparr>) F_Delivered []) ?sv) now"
  proof (cases "?sv = []")
    case True
    then show thesis using assms empty by (simp add: release_firings_def Let_def)
  next
    case ne: False
    show thesis
    proof (cases ok)
      case False
      then show thesis using assms red ne failed [of "''redaction failed; delivery suppressed''"] by (simp add: release_firings_def Let_def)
    next
      case True
      show thesis
      proof (cases "re_deliver env dest safe")
        case None
        then show thesis
          using assms red ne True delivered [of "if 1 < length ?sv then Some (re_batch env) else None"] by (simp add: release_firings_def Let_def)
      next
        case (Some exc)
        then show thesis using assms red ne True failed [of "''delivery failed: '' @ exc"] by (simp add: release_firings_def Let_def)
      qed
    qed
  qed
  then show ?thesis
  proof cases
    case empty
    then have "mset (map ident ?ex) = mset (map ident fs)" using sum by simp
    then have "audited FINAL s' = audited FINAL s + mset (map ident fs)" using empty ex by simp
    moreover have "audited {F_Delivered} s' = audited {F_Delivered} s + {#}" using empty ex by simp
    moreover have "pending_idents s' = pending_idents s" "same_history s s'" using empty by simp_all
    ultimately show ?thesis by (metis subset_mset.zero_le)
  next
    case (failed r)
    have "audited FINAL s' = audited FINAL s + mset (map ident fs)"
      using failed ex sum by (simp add: audited_audits filter_settled FINAL_def o_def ac_simps)
    moreover have "audited {F_Delivered} s' = audited {F_Delivered} s + {#}"
      using failed ex by (simp add: audited_audits filter_settled)
    moreover have "pending_idents s' = pending_idents s" "same_history s s'" using failed by simp_all
    ultimately show ?thesis by (metis subset_mset.zero_le)
  next
    case (delivered b)
    let ?s2 = "?s1\<lparr>rn_delivered := rn_delivered ?s1 @ [(dest, safe, now)]\<rparr>"
    have s2: "audited os ?s2 = audited os ?s1" for os by (simp add: audited_def)
    have "audited FINAL s' = audited FINAL s + mset (map ident fs)"
      using delivered ex sum by (simp add: audited_audits filter_settled s2 FINAL_def o_def ac_simps)
    moreover have "audited {F_Delivered} s' = audited {F_Delivered} s + mset (map ident ?sv)"
      using delivered ex by (simp add: audited_audits filter_settled s2 o_def)
    moreover have "pending_idents s' = pending_idents s" "same_history s s'"
      using delivered by (simp_all add: pending_idents_def same_history_def audits_def)
    ultimately show ?thesis using sub by blast
  qed
qed

definition conserved :: "runner \<Rightarrow> bool" where
  "conserved s \<longleftrightarrow> audited FINAL s + pending_idents s = mset (rn_routed s) + mset (rn_failed s)"

definition delivered_routed :: "runner \<Rightarrow> bool" where
  "delivered_routed s \<longleftrightarrow> audited {F_Delivered} s + pending_idents s \<subseteq># mset (rn_routed s)"

definition keeps :: "runner \<Rightarrow> runner \<Rightarrow> bool" where
  "keeps s s' \<longleftrightarrow> (conserved s \<longrightarrow> conserved s') \<and> (delivered_routed s \<longrightarrow> delivered_routed s') \<and> same_history s s'"

lemma keeps_refl [simp]: "keeps s s" by (simp add: keeps_def)

lemma keeps_trans: "keeps s t \<Longrightarrow> keeps t u \<Longrightarrow> keeps s u"
  by (auto simp: keeps_def same_history_def)

text \<open>Taking firings out of a queue and releasing them keeps both.\<close>

lemma release_keeps:
  assumes "release_firings env s1 fs reason dest now = (s', out)"
    and "\<And>os. audited os s1 = audited os s" "same_history s s1"
    and "pending_idents s = pending_idents s1 + mset (map ident fs)"
  shows "keeps s s'"
proof -
  obtain d where rf: "audited FINAL s' = audited FINAL s1 + mset (map ident fs)"
    "d \<subseteq># mset (map ident fs)" "audited {F_Delivered} s' = audited {F_Delivered} s1 + d"
    "pending_idents s' = pending_idents s1" "same_history s1 s'"
    using release_facts [OF assms(1)] by blast
  have h: "same_history s s'" using rf(5) assms(3) same_history_trans by blast
  have "conserved s'" if "conserved s"
    using that rf(1,4) assms(2,4) h by (simp add: conserved_def same_history_def ac_simps)
  moreover have "delivered_routed s'" if "delivered_routed s"
  proof -
    have "audited {F_Delivered} s' + pending_idents s' = (audited {F_Delivered} s + pending_idents s1) + d"
      using rf(3,4) assms(2) by (simp add: ac_simps)
    also have "\<dots> \<subseteq># (audited {F_Delivered} s + pending_idents s1) + mset (map ident fs)"
      using rf(2) by (rule subset_mset.add_left_mono)
    also have "\<dots> = audited {F_Delivered} s + pending_idents s" using assms(4) by (simp add: ac_simps)
    also have "\<dots> \<subseteq># mset (rn_routed s)" using that by (simp add: delivered_routed_def)
    finally show ?thesis using h by (simp add: delivered_routed_def same_history_def)
  qed
  ultimately show ?thesis using h by (simp add: keeps_def)
qed

lemma deferred_keeps: "keeps s (fst (release_deferred env cfg s r now))"
proof -
  let ?s1 = "s\<lparr>rn_deferrals := []\<rparr>"
  obtain s' out where x: "release_firings env ?s1 (rn_deferrals s) Quiet_Hours_Ended (destination_for env r) now = (s', out)"
    by force
  have "keeps s s'"
    by (rule release_keeps [OF x]) (simp_all add: audited_def same_history_def pending_idents_def)
  then show ?thesis using x by (auto simp: release_deferred_def split: option.splits bool.splits)
qed

lemma flush_keeps: "keeps s (flush_window env cfg s r now)"
proof -
  let ?s1 = "s\<lparr>rn_window := [], rn_opened := None\<rparr>"
  obtain s' out where x: "release_firings env ?s1 (rn_window s) Immediate (destination_for env r) now = (s', out)"
    by force
  have "keeps s s'"
    by (rule release_keeps [OF x]) (simp_all add: audited_def same_history_def pending_idents_def)
  moreover have "keeps s ?s1" if "rn_window s = []"
    using that by (simp add: keeps_def conserved_def delivered_routed_def audited_def pending_idents_def same_history_def)
  ultimately show ?thesis using x by (auto simp: flush_window_def Let_def)
qed

lemma group_keeps:
  assumes "\<And>f. f \<in> set ready \<Longrightarrow> fi_release_reason f = Some Exchange_Ended \<or> fi_release_reason f = Some Queue_Expired"
    and "audited FINAL s1 + mset (map ident ready) + pending_idents s1 = audited FINAL s + pending_idents s"
    and "audited {F_Delivered} s1 = audited {F_Delivered} s" "same_history s s1"
    and "mset (map ident ready) + pending_idents s1 \<subseteq># pending_idents s"
  shows "keeps s (foldl (release_group env r now ready) s1 [Exchange_Ended, Queue_Expired])"
proof -
  let ?g = "\<lambda>x. filter (\<lambda>f. fi_release_reason f = Some x) ready"
  have sum: "mset (map ident (?g Exchange_Ended)) + mset (map ident (?g Queue_Expired)) = mset (map ident ready)"
    using assms(1) by (induction ready) auto
  have step: "\<exists>d. audited FINAL (release_group env r now ready t x) = audited FINAL t + mset (map ident (?g x))
      \<and> d \<subseteq># mset (map ident (?g x)) \<and> audited {F_Delivered} (release_group env r now ready t x) = audited {F_Delivered} t + d
      \<and> pending_idents (release_group env r now ready t x) = pending_idents t \<and> same_history t (release_group env r now ready t x)" for t x
  proof (cases "?g x = []")
    case True
    then show ?thesis by (intro exI [of _ "{#}"]) (simp add: release_group_def)
  next
    case False
    obtain s' out where y: "release_firings env t (?g x) x (destination_for env r) now = (s', out)" by force
    then have "release_group env r now ready t x = s'" using False by (simp add: release_group_def)
    then show ?thesis using release_facts [OF y] by auto
  qed
  let ?t = "release_group env r now ready s1 Exchange_Ended"
  let ?u = "release_group env r now ready ?t Queue_Expired"
  obtain d e where d: "audited FINAL ?t = audited FINAL s1 + mset (map ident (?g Exchange_Ended))" "d \<subseteq># mset (map ident (?g Exchange_Ended))"
    "audited {F_Delivered} ?t = audited {F_Delivered} s1 + d" "pending_idents ?t = pending_idents s1" "same_history s1 ?t"
    and e: "audited FINAL ?u = audited FINAL ?t + mset (map ident (?g Queue_Expired))" "e \<subseteq># mset (map ident (?g Queue_Expired))"
    "audited {F_Delivered} ?u = audited {F_Delivered} ?t + e" "pending_idents ?u = pending_idents ?t" "same_history ?t ?u"
    using step [of s1 Exchange_Ended] step [of ?t Queue_Expired] by blast
  have h: "same_history s ?u" using assms(4) d(5) e(5) same_history_trans by blast
  have de: "d + e \<subseteq># mset (map ident ready)" unfolding sum [symmetric] using d(2) e(2) by (rule subset_mset.add_mono)
  have "audited FINAL ?u + pending_idents ?u = audited FINAL s1 + mset (map ident ready) + pending_idents s1"
    unfolding e(1) d(1) e(4) d(4) sum [symmetric] by (simp add: ac_simps)
  then have "conserved ?u" if "conserved s"
    using that h assms(2) by (simp add: conserved_def same_history_def)
  moreover have "delivered_routed ?u" if "delivered_routed s"
  proof -
    have "audited {F_Delivered} ?u + pending_idents ?u = audited {F_Delivered} s + ((d + e) + pending_idents s1)"
      unfolding e(3) d(3) e(4) d(4) assms(3) by (simp add: ac_simps)
    also have "\<dots> \<subseteq># audited {F_Delivered} s + (mset (map ident ready) + pending_idents s1)"
      using de by (intro subset_mset.add_left_mono subset_mset.add_right_mono)
    also have "\<dots> \<subseteq># audited {F_Delivered} s + pending_idents s" using assms(5) by (rule subset_mset.add_left_mono)
    also have "\<dots> \<subseteq># mset (rn_routed s)" using that by (simp add: delivered_routed_def)
    finally show ?thesis using h by (simp add: delivered_routed_def same_history_def)
  qed
  ultimately show ?thesis using h by (simp add: keeps_def)
qed

end
