(* ===== verification/Trigger_History.thy ===== *)
theory Trigger_History
  imports Trigger_Runner
begin

text \<open>
  What the trigger engine promises over any history of runs and releases
  (\<open>backend/app/trigger_engine/runner.py\<close>, \<open>loop.py\<close>): no firing is lost, none is delivered twice,
  and what unreadable quiet hours, several rules and a held exchange do to that.
  A history is a list of steps, each with its own environment, configuration and time, between
  two resets of the fingerprints.
\<close>

subsection \<open>The interrupt queue\<close>

lemma queue_due_parts:
  "mset (map ident (concat (map (\<lambda>h. case judge_held env cfg now h of
       Ready reason \<Rightarrow> [(fst h)\<lparr>fi_release_reason := Some reason\<rparr>] | _ \<Rightarrow> []) q)))
   + mset (map ident (concat (map (\<lambda>h. case judge_held env cfg now h of
       Gone \<Rightarrow> [settle (fst h) F_Expired ''held behind an exchange that did not end; not delivered''] | _ \<Rightarrow> []) q)))
   + mset (map (ident \<circ> fst) (filter (\<lambda>h. judge_held env cfg now h = Held) q))
   = mset (map (ident \<circ> fst) q)"
  by (induction q) (auto split: held.splits)

lemma gone_outcomes:
  "filter (\<lambda>f. fi_outcome f \<in> Some ` os) (concat (map (\<lambda>h. case judge_held env cfg now h of
       Gone \<Rightarrow> [settle (fst h) F_Expired ''held behind an exchange that did not end; not delivered''] | _ \<Rightarrow> []) q))
   = (if F_Expired \<in> os then concat (map (\<lambda>h. case judge_held env cfg now h of
       Gone \<Rightarrow> [settle (fst h) F_Expired ''held behind an exchange that did not end; not delivered''] | _ \<Rightarrow> []) q) else [])"
  by (induction q) (auto split: held.splits)

lemma judged_ready: "judge_held env cfg now h = Ready x \<Longrightarrow> x = Exchange_Ended \<or> x = Queue_Expired"
  by (auto simp: judge_held_def Let_def split: prod.splits if_splits)

lemma ready_reasons:
  "f \<in> set (concat (map (\<lambda>h. case judge_held env cfg now h of
       Ready reason \<Rightarrow> [(fst h)\<lparr>fi_release_reason := Some reason\<rparr>] | _ \<Rightarrow> []) q)) \<Longrightarrow>
   fi_release_reason f = Some Exchange_Ended \<or> fi_release_reason f = Some Queue_Expired"
  by (auto dest: judged_ready [OF sym] split: held.splits)

lemma renote_reason [simp]: "fi_release_reason (renote env now f) = fi_release_reason f"
  by (simp add: renote_def split: option.splits)

lemma queue_due_facts:
  assumes "queue_due env cfg s now = (s1, ready)"
  shows "audited FINAL s1 + mset (map ident ready) + pending_idents s1 = audited FINAL s + pending_idents s"
    and "audited {F_Delivered} s1 = audited {F_Delivered} s" "same_history s s1"
    and "mset (map ident ready) + pending_idents s1 \<subseteq># pending_idents s"
    and "\<forall>f \<in> set ready. fi_release_reason f = Some Exchange_Ended \<or> fi_release_reason f = Some Queue_Expired"
proof -
  let ?ready = "concat (map (\<lambda>h. case judge_held env cfg now h of
       Ready reason \<Rightarrow> [(fst h)\<lparr>fi_release_reason := Some reason\<rparr>] | _ \<Rightarrow> []) (rn_queued s))"
  let ?gone = "concat (map (\<lambda>h. case judge_held env cfg now h of
       Gone \<Rightarrow> [settle (fst h) F_Expired ''held behind an exchange that did not end; not delivered''] | _ \<Rightarrow> []) (rn_queued s))"
  let ?held = "filter (\<lambda>h. judge_held env cfg now h = Held) (rn_queued s)"
  have e: "s1 = audits (s\<lparr>rn_queued := ?held\<rparr>) ?gone now" "ready = ?ready"
    using assms by (simp_all add: queue_due_def Let_def)
  have p: "pending_idents s1 = mset (map ident (rn_deferrals s)) + mset (map (ident \<circ> fst) ?held) + mset (map ident (rn_window s))"
    "pending_idents s = mset (map ident (rn_deferrals s)) + mset (map (ident \<circ> fst) (rn_queued s)) + mset (map ident (rn_window s))"
    unfolding e by (simp_all add: pending_idents_def audits_def o_def)
  note parts = queue_due_parts [of env cfg now "rn_queued s", symmetric]
  have q: "audited os (s\<lparr>rn_queued := x\<rparr>) = audited os s" for os x by (simp add: audited_def)
  have a: "audited os s1 = audited os s + (if F_Expired \<in> os then mset (map ident ?gone) else {#})" for os
    unfolding e audited_audits gone_outcomes q by simp
  show "audited FINAL s1 + mset (map ident ready) + pending_idents s1 = audited FINAL s + pending_idents s"
    unfolding a p e(2) parts by (simp add: FINAL_def ac_simps)
  show "audited {F_Delivered} s1 = audited {F_Delivered} s" unfolding a by simp
  show "same_history s s1" unfolding e by (simp add: same_history_def audits_def)
  have "pending_idents s = mset (map ident ready) + pending_idents s1 + mset (map ident ?gone)"
    unfolding p parts e(2) by (simp only: ac_simps)
  then show "mset (map ident ready) + pending_idents s1 \<subseteq># pending_idents s" by simp
  show "\<forall>f \<in> set ready. fi_release_reason f = Some Exchange_Ended \<or> fi_release_reason f = Some Queue_Expired"
    unfolding e(2) using ready_reasons by blast
qed

lemma queued_keeps: "keeps s (release_queued env cfg s r now)"
proof -
  obtain s1 ready where q: "queue_due env cfg s now = (s1, ready)" by force
  note f = queue_due_facts [OF q]
  have "keeps s (foldl (release_group env r now (map (renote env now) ready)) s1 [Exchange_Ended, Queue_Expired])"
  proof (rule group_keeps)
    show "\<And>f. f \<in> set (map (renote env now) ready) \<Longrightarrow> fi_release_reason f = Some Exchange_Ended \<or> fi_release_reason f = Some Queue_Expired"
      using f(5) by auto
  qed (use f in \<open>simp_all add: o_def\<close>)
  then show ?thesis using q by (simp add: release_queued_def Let_def)
qed

lemma release_all_keeps: "keeps s (fst (release_all env cfg s rules now))"
proof (induction rules arbitrary: s)
  case (Cons r rules)
  obtain t ok where t: "release_deferred env cfg s r now = (t, ok)" by force
  then have "keeps s t" using deferred_keeps [of s env cfg r now] by simp
  moreover have "keeps t (flush_window env cfg (release_queued env cfg t r now) r now)"
    using keeps_trans [OF queued_keeps flush_keeps] by blast
  ultimately show ?case using Cons.IH t by (auto intro: keeps_trans)
qed simp

subsection \<open>Running a rule\<close>

definition event_key :: "(dict \<Rightarrow> string) \<Rightarrow> string \<times> trigger_event \<Rightarrow> fingerprint_error + string" where
  "event_key digest i = compute digest (fst i) (snd i)"

definition recorded :: "(dict \<Rightarrow> string) \<Rightarrow> runner \<Rightarrow> string \<times> trigger_event \<Rightarrow> bool" where
  "recorded digest s i \<longleftrightarrow> (\<exists>k. event_key digest i = Inr k \<and> fp_is_seen (rn_seen s) k)"

definition routed_once :: "(dict \<Rightarrow> string) \<Rightarrow> runner \<Rightarrow> bool" where
  "routed_once digest s \<longleftrightarrow> (\<forall>i \<in> set (rn_routed s). recorded digest s i) \<and> distinct (map (event_key digest) (rn_routed s))"

text \<open>Every fingerprint recorded since \<open>fp\<close> belongs to a firing that was routed or given up on.\<close>

definition accounted :: "(dict \<Rightarrow> string) \<Rightarrow> fingerprint_store \<Rightarrow> runner \<Rightarrow> bool" where
  "accounted digest fp s \<longleftrightarrow> (\<forall>k. fp_is_seen (rn_seen s) k \<longrightarrow> fp_is_seen fp k \<or>
     (\<exists>i \<in> set (rn_routed s) \<union> set (rn_failed s). event_key digest i = Inr k))"

definition quiet_readable :: "quiet_hours \<Rightarrow> bool" where
  "quiet_readable q = (qh_enabled q \<longrightarrow> parse_hhmm (qh_start q) \<noteq> None \<and> parse_hhmm (qh_end q) \<noteq> None)"

lemma fp_is_seen_record [simp]: "fp_is_seen (fp_record fp k now) k' \<longleftrightarrow> k' = k \<or> fp_is_seen fp k'"
  by (auto simp: fp_is_seen_def fp_record_def)

lemma quiet_readable_suppress: "quiet_readable q \<Longrightarrow> should_suppress zones u q now \<noteq> None"
  by (auto simp: quiet_readable_def should_suppress_def quiet_contains_def Let_def split: option.splits bool.splits)

text \<open>Routing puts the firing into exactly one queue and settles nothing.\<close>

lemma suppress_reason: "should_suppress zones u q now = Some (True, reason) \<Longrightarrow> reason \<noteq> []"
  by (auto simp: should_suppress_def split: option.splits bool.splits if_splits)

lemma route_facts:
  assumes "route env cfg s r f now = Some s'"
  shows "pending_idents s' = add_mset (ident f) (pending_idents s)" "audited FINAL s' = audited FINAL s"
    and "audited {F_Delivered} s' = audited {F_Delivered} s" "same_history s s'" "rn_delivered s' = rn_delivered s"
proof -
  consider (deferred) reason where "reason \<noteq> []" "s' = audit (fst (defer_firing s f reason)) (snd (defer_firing s f reason)) now"
    | (held) reason where "reason \<noteq> []" "s' = audit (fst (hold s f now reason)) (snd (hold s f now reason)) now"
    | (window) "s' = audit (fst (window_add s f now)) (snd (window_add s f now)) now"
  proof -
    have hr: "hold_reason st \<noteq> []" for st by (simp add: hold_reason_def)
    obtain b reason where sup: "should_suppress (re_zones env) (tr_urgent r) (rc_quiet cfg) now = Some (b, reason)"
      using assms by (auto simp: route_def split: option.splits)
    show thesis
    proof (cases b)
      case True
      then show thesis using assms sup that(1) [of reason] suppress_reason by (simp add: route_def case_prod_unfold Let_def)
    next
      case False
      then show thesis
        using assms sup that(2) [of "hold_reason (thread_status_of env f)"] that(3) hr
        by (simp add: route_def case_prod_unfold Let_def split: if_splits)
    qed
  qed
  note cases = this
  have "pending_idents s' = add_mset (ident f) (pending_idents s) \<and> audited FINAL s' = audited FINAL s
    \<and> audited {F_Delivered} s' = audited {F_Delivered} s \<and> same_history s s' \<and> rn_delivered s' = rn_delivered s"
    by (rule cases)
      (auto simp: defer_firing_def hold_def window_add_def Let_def audited_def audit_def pending_idents_def same_history_def FINAL_def)
  then show "pending_idents s' = add_mset (ident f) (pending_idents s)" "audited FINAL s' = audited FINAL s"
    "audited {F_Delivered} s' = audited {F_Delivered} s" "same_history s s'" "rn_delivered s' = rn_delivered s" by blast+
qed

lemma ident_run_turn: "run_turn env r ev f key = (g, x) \<Longrightarrow> ident g = ident f"
  by (auto simp: run_turn_def ident_def Let_def split: sum.splits if_splits)

lemma ident_new_firing [simp]: "ident (new_firing env r ev) = (tr_id r, ev)"
  by (simp add: new_firing_def ident_def)

text \<open>What one event does to the runner, over all branches.\<close>

lemma run_event_cases:
  assumes "run_event env cfg r now s ev = (s', e)"
  obtains (unchanged) "s' = s" "e = Skipped \<or> e = Escaped"
  | (failed) key where "compute (re_digest env) (tr_id r) ev = Inr key" "\<not> fp_is_seen (rn_seen s) key"
      "audited FINAL s' = add_mset (tr_id r, ev) (audited FINAL s)" "audited {F_Delivered} s' = audited {F_Delivered} s"
      "pending_idents s' = pending_idents s" "rn_routed s' = rn_routed s" "rn_failed s' = rn_failed s @ [(tr_id r, ev)]"
      "rn_seen s' = rn_seen s \<or> rn_seen s' = fp_record (rn_seen s) key now" "rn_delivered s' = rn_delivered s"
      "e = Settled \<longleftrightarrow> rn_seen s' = fp_record (rn_seen s) key now" "e = Settled \<or> e = Retry"
  | (routed) key where "compute (re_digest env) (tr_id r) ev = Inr key" "\<not> fp_is_seen (rn_seen s) key" "e = Settled"
      "audited FINAL s' = audited FINAL s" "audited {F_Delivered} s' = audited {F_Delivered} s"
      "pending_idents s' = add_mset (tr_id r, ev) (pending_idents s)" "rn_routed s' = rn_routed s @ [(tr_id r, ev)]"
      "rn_failed s' = rn_failed s" "rn_seen s' = fp_record (rn_seen s) key now" "rn_delivered s' = rn_delivered s"
  | (lost) key where "compute (re_digest env) (tr_id r) ev = Inr key" "\<not> fp_is_seen (rn_seen s) key" "e = Escaped"
      "should_suppress (re_zones env) (tr_urgent r) (rc_quiet cfg) now = None"
      "s' = s\<lparr>rn_seen := fp_record (rn_seen s) key now, rn_routed := rn_routed s @ [(tr_id r, ev)]\<rparr>"
proof (cases "compute (re_digest env) (tr_id r) ev")
  case (Inl err)
  then show thesis using assms unchanged by (simp add: run_event_def)
next
  case (Inr key)
  show thesis
  proof (cases "fp_is_seen (rn_seen s) key")
    case True
    then show thesis using assms Inr unchanged by (simp add: run_event_def)
  next
    case new: False
    let ?f = "new_firing env r ev"
    let ?gone = "case tr_agent r of None \<Rightarrow> False | Some a \<Rightarrow> a \<noteq> [] \<and> re_agent_missing env a"
    have ne: "fp_record (rn_seen s) key now \<noteq> rn_seen s"
      using new fp_is_seen_record [of "rn_seen s" key now key] by metis
    show thesis
    proof (cases ?gone)
      case True
      have "s' = audit (s\<lparr>rn_seen := fp_record (rn_seen s) key now, rn_failed := rn_failed s @ [ident ?f]\<rparr>)
          (settle ?f F_Failed (missing_agent_reason (the (tr_agent r)))) now" "e = Settled"
        using assms Inr new True by (simp_all add: run_event_def Let_def)
      moreover have "missing_agent_reason a \<noteq> []" for a by (simp add: missing_agent_reason_def)
      ultimately show thesis
        using Inr new by (intro failed [of key]) (simp_all add: audited_def audit_def pending_idents_def FINAL_def)
    next
      case agent: False
      obtain g x where t: "run_turn env r ev ?f key = (g, x)" by force
      have ig: "ident g = (tr_id r, ev)" using ident_run_turn [OF t] by simp
      show thesis
      proof (cases x)
        case (Inl exc)
        obtain settled where gu: "give_up s g key exc now = (s', settled)" "e = (if settled then Settled else Retry)"
          using assms Inr new agent t Inl by (auto simp: run_event_def Let_def split: prod.splits)
        show thesis
        proof (rule failed [of key])
          show "e = Settled \<longleftrightarrow> rn_seen s' = fp_record (rn_seen s) key now"
            using gu ne by (auto simp: give_up_def Let_def audit_def split: if_splits)
        qed (use gu ig Inr new in \<open>auto simp: give_up_def Let_def audited_def audit_def pending_idents_def FINAL_def split: if_splits\<close>)
      next
        case (Inr u)
        let ?s1 = "s\<lparr>rn_seen := fp_record (rn_seen s) key now, rn_routed := rn_routed s @ [ident g]\<rparr>"
        have fr: "audited os ?s1 = audited os s" "pending_idents ?s1 = pending_idents s" for os
          by (simp_all add: audited_def pending_idents_def)
        show thesis
        proof (cases "route env cfg ?s1 r g now")
          case None
          then have "should_suppress (re_zones env) (tr_urgent r) (rc_quiet cfg) now = None"
            by (auto simp: route_def Let_def split: option.splits bool.splits prod.splits if_splits)
          then show thesis using assms \<open>compute _ _ _ = Inr key\<close> new agent t Inr None ig
            by (intro lost [of key]) (auto simp: run_event_def Let_def split: prod.splits option.splits)
        next
          case (Some s2)
          then have "s' = s2" "e = Settled"
            using assms \<open>compute _ _ _ = Inr key\<close> new agent t Inr by (auto simp: run_event_def Let_def split: prod.splits option.splits)
          then show thesis using route_facts [OF Some] fr ig \<open>compute _ _ _ = Inr key\<close> new
            by (intro routed [of key]) (auto simp: same_history_def)
        qed
      qed
    qed
  qed
qed

definition runner_ok :: "(dict \<Rightarrow> string) \<Rightarrow> fingerprint_store \<Rightarrow> runner \<Rightarrow> bool" where
  "runner_ok digest fp s \<longleftrightarrow> routed_once digest s \<and> accounted digest fp s \<and> delivered_routed s"

lemma recorded_mono: "recorded digest s i \<Longrightarrow> \<forall>k. fp_is_seen (rn_seen s) k \<longrightarrow> fp_is_seen (rn_seen s') k \<Longrightarrow> recorded digest s' i"
  by (auto simp: recorded_def)

lemma runner_ok_grow:
  assumes "runner_ok digest fp s" "compute digest (tr_id r) ev = Inr key" "\<not> fp_is_seen (rn_seen s) key"
    and "rn_routed s' = rn_routed s @ [(tr_id r, ev)]" "rn_failed s' = rn_failed s" "rn_seen s' = fp_record (rn_seen s) key now"
    and "audited {F_Delivered} s' + pending_idents s' \<subseteq># add_mset (tr_id r, ev) (audited {F_Delivered} s + pending_idents s)"
  shows "runner_ok digest fp s'"
proof -
  have k: "event_key digest (tr_id r, ev) = Inr key" using assms(2) by (simp add: event_key_def)
  have "event_key digest (tr_id r, ev) \<notin> set (map (event_key digest) (rn_routed s))"
    using assms(1,3) k by (auto simp: runner_ok_def routed_once_def recorded_def)
  moreover have "recorded digest s' i" if "recorded digest s i" for i using that assms(6) by (auto simp: recorded_def)
  moreover have "recorded digest s' (tr_id r, ev)" using k assms(6) by (auto simp: recorded_def)
  ultimately have "routed_once digest s'" using assms(1,4) by (auto simp: runner_ok_def routed_once_def)
  moreover have "accounted digest fp s'" using assms(1,4-6) k by (fastforce simp: runner_ok_def accounted_def)
  moreover have "audited {F_Delivered} s + pending_idents s \<subseteq># mset (rn_routed s)"
    using assms(1) by (simp add: runner_ok_def delivered_routed_def)
  then have "add_mset (tr_id r, ev) (audited {F_Delivered} s + pending_idents s) \<subseteq># mset (rn_routed s')"
    unfolding assms(4) by simp
  then have "delivered_routed s'" unfolding delivered_routed_def using assms(7) by (rule subset_mset.order_trans [rotated])
  ultimately show ?thesis by (simp add: runner_ok_def)
qed

lemma run_event_ok:
  assumes "run_event env cfg r now s ev = (s', e)" "runner_ok (re_digest env) fp s"
  shows "runner_ok (re_digest env) fp s' \<and> (quiet_readable (rc_quiet cfg) \<longrightarrow> conserved s \<longrightarrow> conserved s')"
  using assms(1)
proof (cases rule: run_event_cases)
  case unchanged
  then show ?thesis using assms(2) by simp
next
  case (failed key)
  have "routed_once (re_digest env) s'" "accounted (re_digest env) fp s'" "delivered_routed s'"
    using assms(2) failed
    by (auto simp: runner_ok_def routed_once_def recorded_def accounted_def delivered_routed_def event_key_def)
  then show ?thesis using failed by (simp add: runner_ok_def conserved_def)
next
  case (routed key)
  have "runner_ok (re_digest env) fp s'"
    by (rule runner_ok_grow [OF assms(2) routed(1,2,7,8,9)]) (simp add: routed)
  then show ?thesis using routed by (simp add: conserved_def)
next
  case (lost key)
  have f: "audited os s' = audited os s" "pending_idents s' = pending_idents s" for os
    using lost by (simp_all add: audited_def pending_idents_def)
  have "runner_ok (re_digest env) fp s'"
    by (rule runner_ok_grow [OF assms(2) lost(1,2)]) (use f lost in simp_all)
  then show ?thesis using lost quiet_readable_suppress by blast
qed

lemma run_events_ok:
  assumes "run_events env cfg r now s evs = (s', out)" "runner_ok (re_digest env) fp s"
  shows "runner_ok (re_digest env) fp s' \<and> (quiet_readable (rc_quiet cfg) \<longrightarrow> conserved s \<longrightarrow> conserved s')"
  using assms
proof (induction evs arbitrary: s out)
  case (Cons ev evs)
  obtain t e where t: "run_event env cfg r now s ev = (t, e)" by force
  have ok: "runner_ok (re_digest env) fp t" "quiet_readable (rc_quiet cfg) \<Longrightarrow> conserved s \<Longrightarrow> conserved t"
    using run_event_ok [OF t Cons.prems(2)] by blast+
  show ?case
  proof (cases "e = Escaped")
    case True
    then show ?thesis using Cons.prems t ok by simp
  next
    case False
    then obtain out' where "run_events env cfg r now t evs = (s', out')"
      using Cons.prems(1) t by (auto split: event_end.splits prod.splits sum.splits)
    from Cons.IH [OF this ok(1)] show ?thesis using ok(2) by blast
  qed
qed simp

lemma run_blocking_ok:
  assumes "run_blocking env cfg r now s = (s', out)" "runner_ok (re_digest env) fp s"
  shows "runner_ok (re_digest env) fp s' \<and> (quiet_readable (rc_quiet cfg) \<longrightarrow> conserved s \<longrightarrow> conserved s')"
  using assms run_events_ok by (auto simp: run_blocking_def split: option.splits)

lemma keeps_runner_ok: "keeps s s' \<Longrightarrow> runner_ok digest fp s \<Longrightarrow> runner_ok digest fp s'"
  by (simp add: keeps_def same_history_def runner_ok_def routed_once_def recorded_def accounted_def)

subsection \<open>Histories\<close>

datatype runner_step = Run trigger_rule | Release "trigger_rule list"

type_synonym runner_history = "(runner_env \<times> runner_config \<times> instant \<times> runner_step) list"

definition take_step :: "runner \<Rightarrow> runner_env \<times> runner_config \<times> instant \<times> runner_step \<Rightarrow> runner" where
  "take_step s x = (case x of (env, cfg, now, st) \<Rightarrow>
     (case st of Run r \<Rightarrow> fst (run_blocking env cfg r now s) | Release rules \<Rightarrow> fst (release_all env cfg s rules now)))"

definition fresh_runner :: "fingerprint_store \<Rightarrow> runner" where
  "fresh_runner fp = \<lparr>rn_seen = fp, rn_attempts = [], rn_deferrals = [], rn_queued = [], rn_window = [], rn_opened = None,
     rn_delivered = [], rn_audit = [], rn_routed = [], rn_failed = []\<rparr>"

definition runner_run :: "fingerprint_store \<Rightarrow> runner_history \<Rightarrow> runner" where
  "runner_run fp hist = foldl take_step (fresh_runner fp) hist"

lemma take_step_ok:
  assumes "runner_ok digest fp s" "re_digest (fst x) = digest"
  shows "runner_ok digest fp (take_step s x)" "quiet_readable (rc_quiet (fst (snd x))) \<Longrightarrow> conserved s \<Longrightarrow> conserved (take_step s x)"
proof -
  obtain env cfg now st where x: "x = (env, cfg, now, st)" by (cases x)
  have "runner_ok digest fp (take_step s x) \<and> (quiet_readable (rc_quiet cfg) \<longrightarrow> conserved s \<longrightarrow> conserved (take_step s x))"
  proof (cases st)
    case (Run r)
    obtain s' out where "run_blocking env cfg r now s = (s', out)" by force
    then show ?thesis using run_blocking_ok [of env cfg r now s s' out fp] assms x Run by (simp add: take_step_def)
  next
    case (Release rules)
    then show ?thesis using release_all_keeps [of s env cfg rules now] keeps_runner_ok assms(1) x
      by (auto simp: take_step_def keeps_def)
  qed
  then show "runner_ok digest fp (take_step s x)" "quiet_readable (rc_quiet (fst (snd x))) \<Longrightarrow> conserved s \<Longrightarrow> conserved (take_step s x)"
    using x by simp_all
qed

lemma fresh_runner_ok: "runner_ok digest fp (fresh_runner fp)" "conserved (fresh_runner fp)"
  by (simp_all add: fresh_runner_def runner_ok_def routed_once_def accounted_def delivered_routed_def conserved_def
      audited_def pending_idents_def)

lemma runner_run_ok:
  assumes "\<forall>x \<in> set hist. re_digest (fst x) = digest"
  shows "runner_ok digest fp (runner_run fp hist)
    \<and> ((\<forall>x \<in> set hist. quiet_readable (rc_quiet (fst (snd x)))) \<longrightarrow> conserved (runner_run fp hist))"
proof -
  have "runner_ok digest fp (foldl take_step s hist)
      \<and> ((\<forall>x \<in> set hist. quiet_readable (rc_quiet (fst (snd x)))) \<longrightarrow> conserved s \<longrightarrow> conserved (foldl take_step s hist))"
    if "runner_ok digest fp s" for s
    using that assms
  proof (induction hist arbitrary: s)
    case (Cons x hist)
    then show ?case using take_step_ok [of digest fp s x] by auto
  qed simp
  then show ?thesis using fresh_runner_ok by (simp add: runner_run_def)
qed

definition delivered_count :: "(dict \<Rightarrow> string) \<Rightarrow> runner \<Rightarrow> string \<Rightarrow> nat" where
  "delivered_count digest s k =
     length (filter (\<lambda>e. fi_outcome (fst e) = Some F_Delivered \<and> event_key digest (ident (fst e)) = Inr k) (rn_audit s))"

lemma count_filtered: "count (mset (map h (filter P xs))) k = length (filter (\<lambda>e. P e \<and> h e = k) xs)"
  by (induction xs) auto

lemma delivered_count_le:
  assumes "runner_ok digest fp s"
  shows "delivered_count digest s k \<le> 1"
proof -
  have "delivered_count digest s k = count (image_mset (event_key digest) (audited {F_Delivered} s)) (Inr k)"
    unfolding delivered_count_def count_filtered [symmetric] by (simp add: audited_def o_def image_mset.compositionality)
  also have "\<dots> \<le> count (image_mset (event_key digest) (mset (rn_routed s))) (Inr k)"
  proof -
    have "audited {F_Delivered} s \<subseteq># mset (rn_routed s)"
      using assms subset_mset.order_trans [of "audited {F_Delivered} s" "audited {F_Delivered} s + pending_idents s"]
      by (simp add: runner_ok_def delivered_routed_def)
    then show ?thesis by (intro mset_subset_eq_count image_mset_subseteq_mono)
  qed
  also have "\<dots> \<le> 1"
    using assms by (simp add: runner_ok_def routed_once_def distinct_count_atmost_1 flip: mset_map)
  finally show ?thesis .
qed

text \<open>
  C6. Nothing is delivered twice. Over any history of runs and releases, starting from any recorded
  fingerprints, with any failures of sources, turns, redaction and delivery, even with unreadable
  quiet hours: the audit log holds at most one delivery per fingerprint, and none of an event whose
  fingerprint was recorded before the history began.
\<close>

theorem delivered_at_most_once:
  assumes "\<forall>x \<in> set hist. re_digest (fst x) = digest"
  shows "delivered_count digest (runner_run fp hist) k \<le> 1"
  using runner_run_ok [OF assms] delivered_count_le by blast

text \<open>
  C8. No firing is lost. Over any history of runs and releases whose quiet hours can be read, with
  any failures: every event whose fingerprint was recorded during the history is waiting in one of
  the three queues or has a final line in the audit log (delivered, expired or failed), and the
  final lines and the waiting firings together are exactly the routed firings and the failed attempts.
\<close>

theorem no_firing_lost:
  assumes "\<forall>x \<in> set hist. re_digest (fst x) = digest \<and> quiet_readable (rc_quiet (fst (snd x)))"
  shows "let s = runner_run fp hist in
     audited FINAL s + pending_idents s = mset (rn_routed s) + mset (rn_failed s)
     \<and> (\<forall>k. fp_is_seen (rn_seen s) k \<longrightarrow> fp_is_seen fp k \<or>
          (\<exists>i \<in># audited FINAL s + pending_idents s. event_key digest i = Inr k))"
proof -
  let ?s = "runner_run fp hist"
  have ok: "runner_ok digest fp ?s" "conserved ?s" using runner_run_ok [of hist digest fp] assms by auto
  have eq: "audited FINAL ?s + pending_idents ?s = mset (rn_routed ?s) + mset (rn_failed ?s)"
    using ok(2) by (simp add: conserved_def)
  have "\<forall>k. fp_is_seen (rn_seen ?s) k \<longrightarrow> fp_is_seen fp k \<or>
      (\<exists>i \<in># mset (rn_routed ?s) + mset (rn_failed ?s). event_key digest i = Inr k)"
    using ok(1) by (simp add: runner_ok_def accounted_def)
  then show ?thesis using eq by (simp only: Let_def)
qed

subsection \<open>A sample engine\<close>

definition sample_event :: trigger_event where
  "sample_event = \<lparr>ev_type = Cron, ev_id = ''brief@9'', ev_at = 0, ev_fields = [], ev_inputs = [(''scheduled_at'', PStr ''9'')]\<rparr>"

definition engine_env :: runner_env where
  "engine_env = \<lparr>re_poll = \<lambda>r t. Some [sample_event], re_digest = \<lambda>d. ''h'', re_render = \<lambda>r e. tr_prompt r,
     re_agent_missing = \<lambda>a. False, re_thread = \<lambda>r. Inr ''t1'', re_inject = \<lambda>t r p k. Inr ''Good morning.'',
     re_footer = \<lambda>k. [], re_status = \<lambda>t. Free, re_still_true = \<lambda>f. True, re_redact = \<lambda>m. (m, True),
     re_deliver = \<lambda>d m. None, re_zones = \<lambda>z. None, re_clock = \<lambda>t. ''09:00'', re_batch = ''b'', re_present = False, re_has_local = True\<rparr>"

definition quiet_at_night :: quiet_hours where
  "quiet_at_night = \<lparr>qh_start = ''22:30'', qh_end = ''07:00'', qh_enabled = True, qh_timezone = ''UTC''\<rparr>"

definition engine_config :: runner_config where
  "engine_config = \<lparr>rc_quiet = quiet_at_night, rc_window = seconds 60, rc_max_wait = seconds 1800, rc_schedule_max_wait = seconds 43200\<rparr>"

definition no_fingerprints :: fingerprint_store where
  "no_fingerprints = \<lparr>fp_seen = [], fp_retention = 30 * day_us, fp_last_reset = None\<rparr>"

definition nine :: instant where "nine = seconds (9 * 3600)"

definition morning :: runner_history where
  "morning = [(engine_env, engine_config, nine, Run sample_rule), (engine_env, engine_config, nine, Run sample_rule),
     (engine_env, engine_config, nine + seconds 61, Release [sample_rule]),
     (engine_env, engine_config, nine + seconds 120, Run sample_rule), (engine_env, engine_config, nine + seconds 200, Release [sample_rule])]"

lemma morning_delivers:
  "rn_delivered (runner_run no_fingerprints morning) = [(Remote, ''Good morning.'', nine + seconds 61)]"
  "fp_is_seen (rn_seen (runner_run no_fingerprints morning)) ''brief|brief@9|h''"
  by code_simp+

lemma morning_digest: "\<forall>x \<in> set morning. re_digest (fst x) = (\<lambda>d. ''h'')"
  by (simp add: morning_def engine_env_def)

lemma night_readable: "quiet_readable quiet_at_night"
  by code_simp

theorem delivered_at_most_once_witness:
  "delivered_count (\<lambda>d. ''h'') (runner_run no_fingerprints morning) ''brief|brief@9|h'' \<le> 1
   \<and> rn_delivered (runner_run no_fingerprints morning) = [(Remote, ''Good morning.'', nine + seconds 61)]"
  using delivered_at_most_once [OF morning_digest] morning_delivers by simp

theorem no_firing_lost_witness:
  "\<exists>i. i \<in># audited FINAL (runner_run no_fingerprints morning) + pending_idents (runner_run no_fingerprints morning)
     \<and> event_key (\<lambda>d. ''h'') i = Inr ''brief|brief@9|h''"
proof -
  have "\<forall>x \<in> set morning. re_digest (fst x) = (\<lambda>d. ''h'') \<and> quiet_readable (rc_quiet (fst (snd x)))"
    using morning_digest night_readable by (simp add: morning_def engine_config_def)
  from no_firing_lost [OF this, of no_fingerprints, unfolded Let_def, THEN conjunct2, rule_format, OF morning_delivers(2)]
  show ?thesis by (simp add: no_fingerprints_def fp_is_seen_def Bex_def)
qed

subsection \<open>What goes wrong\<close>

text \<open>
  Quiet hours that cannot be read lose firings. With quiet hours enabled and an unreadable start
  or end, an event that is new, whose agent exists and whose turn succeeds raises after its
  fingerprint was recorded: nothing is delivered, queued or audited, and the event is skipped by
  every later cycle under any configuration.
\<close>

theorem unreadable_quiet_hours_lose_firing:
  assumes "qh_enabled (rc_quiet cfg)" "parse_hhmm (qh_start (rc_quiet cfg)) = None \<or> parse_hhmm (qh_end (rc_quiet cfg)) = None"
    and "compute (re_digest env) (tr_id r) ev = Inr key" "\<not> fp_is_seen (rn_seen s) key"
    and "case tr_agent r of None \<Rightarrow> True | Some a \<Rightarrow> a = [] \<or> \<not> re_agent_missing env a"
    and "snd (run_turn env r ev (new_firing env r ev) key) = Inr ()"
  shows "\<exists>s'. run_event env cfg r now s ev = (s', Escaped) \<and> fp_is_seen (rn_seen s') key \<and> rn_audit s' = rn_audit s
    \<and> pending_idents s' = pending_idents s \<and> rn_delivered s' = rn_delivered s
    \<and> (\<forall>env' cfg' now'. re_digest env' = re_digest env \<longrightarrow> run_event env' cfg' r now' s' ev = (s', Skipped))"
proof -
  obtain g where g: "run_turn env r ev (new_firing env r ev) key = (g, Inr ())" using assms(6) by (metis prod.collapse)
  let ?s = "s\<lparr>rn_seen := fp_record (rn_seen s) key now, rn_routed := rn_routed s @ [ident g]\<rparr>"
  have "should_suppress (re_zones env) (tr_urgent r) (rc_quiet cfg) now = None"
    using assms(1,2) by (auto simp: should_suppress_def quiet_contains_def split: option.splits)
  then have "run_event env cfg r now s ev = (?s, Escaped)"
    using assms(3-5) g by (auto simp: run_event_def route_def Let_def split: option.splits)
  then show ?thesis using assms(3) by (intro exI [of _ ?s]) (simp add: pending_idents_def run_event_def)
qed

definition unreadable_config :: runner_config where
  "unreadable_config = engine_config\<lparr>rc_quiet := quiet_at_night\<lparr>qh_start := ''10pm''\<rparr>\<rparr>"

theorem unreadable_quiet_hours_lose_firing_witness:
  "\<exists>s'. run_event engine_env unreadable_config sample_rule nine (fresh_runner no_fingerprints) sample_event = (s', Escaped)
    \<and> fp_is_seen (rn_seen s') ''brief|brief@9|h'' \<and> rn_audit s' = [] \<and> pending_idents s' = {#} \<and> rn_delivered s' = []
    \<and> run_event engine_env engine_config sample_rule (nine + 1) s' sample_event = (s', Skipped)"
proof -
  have h: "qh_enabled (rc_quiet unreadable_config)" "parse_hhmm (qh_start (rc_quiet unreadable_config)) = None"
    "compute (re_digest engine_env) (tr_id sample_rule) sample_event = Inr ''brief|brief@9|h''"
    "\<not> fp_is_seen (rn_seen (fresh_runner no_fingerprints)) ''brief|brief@9|h''"
    "case tr_agent sample_rule of None \<Rightarrow> True | Some a \<Rightarrow> a = [] \<or> \<not> re_agent_missing engine_env a"
    "snd (run_turn engine_env sample_rule sample_event (new_firing engine_env sample_rule sample_event) ''brief|brief@9|h'') = Inr ()"
    by code_simp+
  from unreadable_quiet_hours_lose_firing [OF h(1) disjI1 [OF h(2)] h(3-6), of nine]
  obtain s' where s': "run_event engine_env unreadable_config sample_rule nine (fresh_runner no_fingerprints) sample_event = (s', Escaped)"
    "fp_is_seen (rn_seen s') ''brief|brief@9|h''" "rn_audit s' = rn_audit (fresh_runner no_fingerprints)"
    "pending_idents s' = pending_idents (fresh_runner no_fingerprints)" "rn_delivered s' = rn_delivered (fresh_runner no_fingerprints)"
    "run_event engine_env engine_config sample_rule (nine + 1) s' sample_event = (s', Skipped)" by blast
  show ?thesis by (rule exI [of _ s']) (use s' in \<open>simp add: fresh_runner_def pending_idents_def\<close>)
qed

text \<open>
  Held messages go where the first enabled rule's messages go. When quiet hours are over and the
  surviving deferrals are redacted and delivered, they leave as one message to the destination of
  the first enabled rule, whichever rules they came from and whatever destinations those declare.
\<close>

theorem deferred_follow_first_rule:
  assumes "tr_enabled r" "quiet_contains (re_zones env) (rc_quiet cfg) now = Some False"
    and "filter (\<lambda>f. recheck env Quiet_Hours_Ended f = None) (rn_deferrals s) = f # fs"
    and "re_redact env (merge (f # fs)) = (safe, True)" "re_deliver env (destination_for env r) safe = None"
  shows "rn_delivered (fst (release_deferred env cfg s r now)) = rn_delivered s @ [(destination_for env r, safe, now)]
    \<and> rn_deferrals (fst (release_deferred env cfg s r now)) = []"
proof -
  have "rn_deferrals s \<noteq> []" using assms(3) by auto
  then show ?thesis using assms by (simp add: release_deferred_def release_firings_def audits_def Let_def)
qed

definition silent_watcher :: trigger_rule where
  "silent_watcher = sample_rule\<lparr>tr_id := ''watch'', tr_type := Watcher, tr_destination := Quiet\<rparr>"

definition watcher_event :: trigger_event where
  "watcher_event = \<lparr>ev_type = Watcher, ev_id = ''s1'', ev_at = 0, ev_fields = [(''project'', PStr ''omni''), (''state'', PStr ''failed'')],
     ev_inputs = [(''state'', PStr ''failed'')]\<rparr>"

definition night_run :: runner where
  "night_run = runner_run no_fingerprints
     [(engine_env\<lparr>re_poll := \<lambda>r t. Some [watcher_event]\<rparr>, engine_config, seconds (23 * 3600), Run silent_watcher)]"

theorem deferred_follow_first_rule_witness:
  "rn_delivered (fst (release_deferred engine_env engine_config night_run sample_rule (day_us + nine)))
     = [(Remote, ''omni failed.'' @ blank_line @ ''Good morning.'', day_us + nine)]
   \<and> destination_for engine_env silent_watcher = Quiet"
proof -
  obtain f where f: "filter (\<lambda>f. recheck engine_env Quiet_Hours_Ended f = None) (rn_deferrals night_run) = [f]"
    "merge [f] = ''omni failed.'' @ blank_line @ ''Good morning.''" "rn_delivered night_run = []"
  proof -
    let ?fs = "filter (\<lambda>f. recheck engine_env Quiet_Hours_Ended f = None) (rn_deferrals night_run)"
    have "length ?fs = 1" "merge ?fs = ''omni failed.'' @ blank_line @ ''Good morning.''" "rn_delivered night_run = []"
      by code_simp+
    then show thesis using that by (auto simp: length_Suc_conv)
  qed
  have "tr_enabled sample_rule" "quiet_contains (re_zones engine_env) (rc_quiet engine_config) (day_us + nine) = Some False"
    "re_redact engine_env (merge [f]) = (''omni failed.'' @ blank_line @ ''Good morning.'', True)"
    "re_deliver engine_env (destination_for engine_env sample_rule) (''omni failed.'' @ blank_line @ ''Good morning.'') = None"
    unfolding f(2) by code_simp+
  from deferred_follow_first_rule [OF this(1,2) f(1) this(3,4)]
  show ?thesis using f(3) by (auto simp: destination_for_def resolve_destination_def engine_env_def silent_watcher_def sample_rule_def)
qed

text \<open>
  A firing held behind an exchange ignores quiet hours. Releasing the interrupt queue and the
  coalescing window does not depend on the quiet hours at all, so a message of a rule that is not
  urgent, held at ten in the evening, is delivered at eleven, inside the quiet hours.
\<close>

definition late_evening :: runner_history where
  "late_evening = [(engine_env\<lparr>re_status := \<lambda>t. Busy\<rparr>, engine_config, seconds (22 * 3600), Run sample_rule),
     (engine_env, engine_config, seconds (23 * 3600), Release [sample_rule])]"

theorem held_firing_delivered_in_quiet_hours:
  "release_queued env (cfg\<lparr>rc_quiet := q\<rparr>) s r now = release_queued env cfg s r now
   \<and> flush_window env (cfg\<lparr>rc_quiet := q\<rparr>) s r now = flush_window env cfg s r now
   \<and> \<not> tr_urgent sample_rule
   \<and> quiet_contains (re_zones engine_env) (rc_quiet engine_config) (seconds (23 * 3600)) = Some True
   \<and> map (\<lambda>(d, m, t). (d, t)) (rn_delivered (runner_run no_fingerprints late_evening)) = [(Remote, seconds (23 * 3600))]"
proof -
  have j: "judge_held env (cfg\<lparr>rc_quiet := q\<rparr>) now = judge_held env cfg now"
    by (rule ext) (simp add: judge_held_def Let_def split: prod.splits)
  have "release_queued env (cfg\<lparr>rc_quiet := q\<rparr>) s r now = release_queued env cfg s r now"
    by (simp add: release_queued_def queue_due_def j)
  moreover have "flush_window env (cfg\<lparr>rc_quiet := q\<rparr>) s r now = flush_window env cfg s r now"
    by (simp add: flush_window_def window_due_def Let_def split: option.splits)
  moreover have "\<not> tr_urgent sample_rule" by (simp add: sample_rule_def)
  moreover have "quiet_contains (re_zones engine_env) (rc_quiet engine_config) (seconds (23 * 3600)) = Some True"
    "map (\<lambda>(d, m, t). (d, t)) (rn_delivered (runner_run no_fingerprints late_evening)) = [(Remote, seconds (23 * 3600))]"
    by code_simp+
  ultimately show ?thesis by blast
qed

end
