(* ===== verification/Ledger_Rows.thy ===== *)
theory Ledger_Rows
  imports Py_Text Stores
begin

text \<open>
  The Project Ledger's repository (\<open>omniharness/persistence/ledger\<close>: \<open>model.py\<close>, \<open>sql.py\<close>): projects,
  goals, tasks, notes and links, and the log of who changed what.

  A row is the dictionary \<open>to_dict\<close> gives of it, so times are ISO texts; the tables are one
  association list from entity and id to rows, in the order of insertion (ISO texts of UTC times are
  ordered as the times are, so times are compared as texts). An operation that raises
  gives the error and no ledger, and \<open>transaction\<close> then keeps the old one. Ids (\<open>uuid4\<close>) and the clock
  are arguments read at a counter that every creation and change advances; \<open>le_fk\<close> says whether the
  database enforces foreign keys (SQLite does so only when asked, which this engine does not do), and
  \<open>le_lower\<close> is the database's \<open>lower\<close>. Column lengths, which SQLite does not check either, are left out.
\<close>

datatype entity = Project | Goal | Task | Note | Link

fun entity_name :: "entity \<Rightarrow> string" where
  "entity_name Project = ''project''"
| "entity_name Goal = ''goal''"
| "entity_name Task = ''task''"
| "entity_name Note = ''note''"
| "entity_name Link = ''link''"

record change =
  lc_at :: string
  lc_owner :: string
  lc_entity :: entity
  lc_id :: string
  lc_actor :: string
  lc_cause :: "string option"
  lc_before :: "dict option"
  lc_after :: "dict option"

record ledger =
  lg_rows :: "((entity \<times> string) \<times> dict) list"
  lg_log :: "change list"
  lg_ticks :: nat

record ledger_env =
  le_id :: "nat \<Rightarrow> string"
  le_clock :: "nat \<Rightarrow> string"
  le_fk :: bool
  le_lower :: "string \<Rightarrow> string"
  le_fstr :: "rat \<Rightarrow> string"

datatype ledger_error =
    Ledger_Error string
  | Lookup_Error string
  | Stale_Write dict
  | Integrity_Error
  | Batch_Error nat string
  | Runtime_Error string
  | Value_Error

text \<open>Who writes, and what caused the write.\<close>

record stamp =
  sp_owner :: string
  sp_actor :: string
  sp_cause :: "string option"

subsection \<open>Rows\<close>

definition row :: "ledger \<Rightarrow> entity \<Rightarrow> string \<Rightarrow> dict option" where
  "row st e i = map_of (lg_rows st) (e, i)"

definition rows_of :: "ledger \<Rightarrow> entity \<Rightarrow> dict list" where
  "rows_of st e = map snd (filter (\<lambda>((e', i), r). e' = e) (lg_rows st))"

definition row_id :: "dict \<Rightarrow> string" where
  "row_id r = (case dget r ''id'' of PStr s \<Rightarrow> s | _ \<Rightarrow> [])"

definition time_value :: "ledger_env \<Rightarrow> ledger \<Rightarrow> py" where
  "time_value env st = PStr (le_clock env (lg_ticks st))"

definition stamped :: "ledger_env \<Rightarrow> ledger \<Rightarrow> string \<Rightarrow> dict" where
  "stamped env st i =
     [(''id'', PStr i), (''created_at'', time_value env st), (''updated_at'', time_value env st), (''version'', PInt 1)]"

fun columns :: "entity \<Rightarrow> dict" where
  "columns Project = [(''owner_id'', PNone), (''name'', PNone), (''why'', PNone), (''status'', PStr ''active''),
     (''context'', PNone), (''next_task'', PInt 1)]"
| "columns Goal = [(''project_id'', PNone), (''title'', PNone), (''definition_of_done'', PNone), (''target_date'', PNone)]"
| "columns Task = [(''project_id'', PNone), (''short_id'', PNone), (''title'', PNone), (''status'', PStr ''todo''), (''owner'', PNone),
     (''due_date'', PNone), (''goal_id'', PNone), (''parent_task_id'', PNone), (''declared_files'', PList []), (''done_at'', PNone)]"
| "columns Note = [(''project_id'', PNone), (''decided'', PNone), (''why'', PNone), (''thread_id'', PNone)]"
| "columns Link = [(''from_kind'', PNone), (''from_id'', PNone), (''to_kind'', PNone), (''to_ref'', PNone), (''label'', PNone),
     (''todo_ref'', PNone)]"

text \<open>\<open>setattr\<close> for each field.\<close>

definition set_fields :: "dict \<Rightarrow> dict \<Rightarrow> dict" where
  "set_fields r vals = foldl (\<lambda>r (k, v). dset r k v) r vals"

definition put_row :: "ledger \<Rightarrow> entity \<Rightarrow> string \<Rightarrow> dict \<Rightarrow> ledger" where
  "put_row st e i r = st\<lparr>lg_rows := dset (lg_rows st) (e, i) r\<rparr>"

definition tick :: "ledger \<Rightarrow> ledger" where
  "tick st = st\<lparr>lg_ticks := Suc (lg_ticks st)\<rparr>"

definition record_change :: "ledger_env \<Rightarrow> ledger \<Rightarrow> stamp \<Rightarrow> entity \<Rightarrow> string \<Rightarrow> dict option \<Rightarrow> dict option \<Rightarrow> ledger" where
  "record_change env st sp e i old new =
     tick (st\<lparr>lg_log := lg_log st @ [\<lparr>lc_at = le_clock env (lg_ticks st), lc_owner = sp_owner sp, lc_entity = e, lc_id = i,
       lc_actor = sp_actor sp, lc_cause = sp_cause sp, lc_before = old, lc_after = new\<rparr>]\<rparr>)"

subsection \<open>Constraints\<close>

fun foreign_keys :: "entity \<Rightarrow> (string \<times> entity) list" where
  "foreign_keys Project = []"
| "foreign_keys Goal = [(''project_id'', Project)]"
| "foreign_keys Task = [(''project_id'', Project), (''goal_id'', Goal), (''parent_task_id'', Task)]"
| "foreign_keys Note = [(''project_id'', Project)]"
| "foreign_keys Link = []"

fun unique_columns :: "entity \<Rightarrow> string list" where
  "unique_columns Task = [''project_id'', ''short_id'']"
| "unique_columns Link = [''from_kind'', ''from_id'', ''to_kind'', ''to_ref'']"
| "unique_columns _ = [''id'']"

text \<open>
  The columns declared not to be \<open>NULL\<close>. \<open>declared_files\<close> is one too, but a JSON column keeps \<open>None\<close> as
  the JSON value \<open>null\<close>, which the constraint accepts.
\<close>

fun not_null :: "entity \<Rightarrow> string list" where
  "not_null Project = [''id'', ''created_at'', ''updated_at'', ''version'', ''name'', ''status'', ''next_task'']"
| "not_null Goal = [''id'', ''created_at'', ''updated_at'', ''version'', ''project_id'', ''title'', ''definition_of_done'']"
| "not_null Task = [''id'', ''created_at'', ''updated_at'', ''version'', ''project_id'', ''short_id'', ''title'', ''status'']"
| "not_null Note = [''id'', ''created_at'', ''updated_at'', ''version'', ''project_id'', ''decided'']"
| "not_null Link = [''id'', ''created_at'', ''updated_at'', ''version'', ''from_kind'', ''from_id'', ''to_kind'', ''to_ref'']"

definition lacks_value :: "entity \<Rightarrow> dict \<Rightarrow> bool" where
  "lacks_value e r = list_ex (\<lambda>k. dget r k = PNone) (not_null e)"

definition refers :: "dict \<Rightarrow> (string \<times> entity) \<Rightarrow> entity \<Rightarrow> string \<Rightarrow> bool" where
  "refers r fk e i = (snd fk = e \<and> dget r (fst fk) = PStr i)"

definition dangling :: "ledger \<Rightarrow> entity \<Rightarrow> dict \<Rightarrow> bool" where
  "dangling st e r = list_ex (\<lambda>(k, e'). case dget r k of PStr i \<Rightarrow> row st e' i = None | _ \<Rightarrow> False) (foreign_keys e)"

definition referenced :: "ledger \<Rightarrow> entity \<Rightarrow> string \<Rightarrow> bool" where
  "referenced st e i = list_ex (\<lambda>((e', j), r). list_ex (\<lambda>fk. refers r fk e i) (foreign_keys e')) (lg_rows st)"

definition same_on :: "string list \<Rightarrow> dict \<Rightarrow> dict \<Rightarrow> bool" where
  "same_on ks r r' = list_all (\<lambda>k. dget r k = dget r' k) ks"

definition violates :: "ledger_env \<Rightarrow> ledger \<Rightarrow> entity \<Rightarrow> string \<Rightarrow> dict \<Rightarrow> bool" where
  "violates env st e i r =
     (lacks_value e r
      \<or> list_ex (\<lambda>((e', j), r'). e' = e \<and> j \<noteq> i \<and> same_on (unique_columns e) r r') (lg_rows st)
      \<or> le_fk env \<and> dangling st e r)"

subsection \<open>Writes\<close>

text \<open>A task takes its project's next number.\<close>

definition next_task :: "dict \<Rightarrow> int" where
  "next_task p = (case dget p ''next_task'' of PInt n \<Rightarrow> n | _ \<Rightarrow> 0)"

definition short_id :: "int \<Rightarrow> string" where
  "short_id n = ''T-'' @ int_text n"

definition numbered :: "ledger_env \<Rightarrow> ledger \<Rightarrow> dict \<Rightarrow> dict" where
  "numbered env st project =
     set_fields project [(''next_task'', PInt (next_task project + 1)), (''updated_at'', time_value env st)]"

definition number_task :: "ledger_env \<Rightarrow> ledger \<Rightarrow> dict \<Rightarrow> ledger_error + ledger \<times> dict" where
  "number_task env st vals =
     (case dget vals ''project_id'' of
        PStr p \<Rightarrow>
          (case row st Project p of
             None \<Rightarrow> Inl (Lookup_Error (''no project '' @ p))
           | Some project \<Rightarrow>
               Inr (put_row st Project p (numbered env st project),
                    dset vals ''short_id'' (PStr (short_id (next_task project)))))
      | _ \<Rightarrow> Inl (Lookup_Error ''no project''))"

definition create :: "ledger_env \<Rightarrow> ledger \<Rightarrow> entity \<Rightarrow> stamp \<Rightarrow> dict \<Rightarrow> ledger_error + ledger \<times> dict" where
  "create env st e sp vals =
     bind_res (if e = Task then number_task env st vals else Inr (st, vals)) (\<lambda>(st, vals).
       let i = le_id env (lg_ticks st);
           given = (if e = Project then dset vals ''owner_id'' (PStr (sp_owner sp)) else vals);
           r = set_fields (stamped env st i @ columns e) given in
       if row st e i \<noteq> None \<or> violates env st e i r then Inl Integrity_Error
       else Inr (record_change env (put_row st e i r) sp e i None (Some r), r))"

text \<open>\<open>version\<close> is \<open>PNone\<close> for an update that overwrites whatever is there.\<close>

definition stale :: "dict \<Rightarrow> py \<Rightarrow> bool" where
  "stale r version = (version \<noteq> PNone \<and> \<not> py_eq (dget r ''version'') version)"

definition version_of :: "dict \<Rightarrow> int" where
  "version_of r = (case dget r ''version'' of PInt n \<Rightarrow> n | _ \<Rightarrow> 0)"

definition updated_row :: "ledger_env \<Rightarrow> ledger \<Rightarrow> entity \<Rightarrow> dict \<Rightarrow> dict \<Rightarrow> dict" where
  "updated_row env st e r vals =
     (let r' = set_fields r vals;
          r' = (if e = Task \<and> map_of vals ''status'' \<noteq> None
                then dset r' ''done_at'' (if dget vals ''status'' = PStr ''done'' then time_value env st else PNone) else r')
      in set_fields r' [(''version'', PInt (version_of r + 1)), (''updated_at'', time_value env st)])"

definition update :: "ledger_env \<Rightarrow> ledger \<Rightarrow> entity \<Rightarrow> string \<Rightarrow> stamp \<Rightarrow> py \<Rightarrow> dict \<Rightarrow> ledger_error + ledger \<times> dict option" where
  "update env st e i sp version vals =
     (case row st e i of
        None \<Rightarrow> Inr (st, None)
      | Some old \<Rightarrow>
          if stale old version then Inl (Stale_Write old)
          else let r = updated_row env st e old vals in
               if violates env st e i r then Inl Integrity_Error
               else Inr (record_change env (put_row st e i r) sp e i (Some old) (Some r), Some r))"

definition LINK_KEY :: "string list" where
  "LINK_KEY = [''from_kind'', ''from_id'', ''to_kind'', ''to_ref'']"

definition link :: "ledger_env \<Rightarrow> ledger \<Rightarrow> stamp \<Rightarrow> dict \<Rightarrow> ledger_error + ledger \<times> dict" where
  "link env st sp vals =
     (case find (same_on LINK_KEY vals) (rows_of st Link) of
        Some existing \<Rightarrow> Inr (st, existing)
      | None \<Rightarrow> create env st Link sp vals)"

definition drop_row :: "ledger \<Rightarrow> entity \<Rightarrow> string \<Rightarrow> ledger" where
  "drop_row st e i = st\<lparr>lg_rows := ddel (lg_rows st) (e, i)\<rparr>"

definition unlink :: "ledger_env \<Rightarrow> ledger \<Rightarrow> string \<Rightarrow> stamp \<Rightarrow> ledger \<times> bool" where
  "unlink env st i sp =
     (case row st Link i of
        None \<Rightarrow> (st, False)
      | Some r \<Rightarrow> (record_change env (drop_row st Link i) (sp\<lparr>sp_cause := None\<rparr>) Link i (Some r) None, True))"

definition remove :: "ledger_env \<Rightarrow> ledger \<Rightarrow> entity \<Rightarrow> string \<Rightarrow> stamp \<Rightarrow> py \<Rightarrow> ledger_error + ledger \<times> bool" where
  "remove env st e i sp version =
     (case row st e i of
        None \<Rightarrow> Inr (st, False)
      | Some old \<Rightarrow>
          if stale old version then Inl (Stale_Write old)
          else if le_fk env \<and> referenced (drop_row st e i) e i then Inl Integrity_Error
          else Inr (record_change env (drop_row st e i) sp e i (Some old) None, True))"

definition transaction :: "ledger \<Rightarrow> (ledger \<Rightarrow> 'e + ledger \<times> 'a) \<Rightarrow> ledger \<times> ('e + 'a)" where
  "transaction st work = (case work st of Inl e \<Rightarrow> (st, Inl e) | Inr (st', a) \<Rightarrow> (st', Inr a))"

subsection \<open>Reads\<close>

definition changes_caused_by :: "ledger \<Rightarrow> string \<Rightarrow> string \<Rightarrow> change list" where
  "changes_caused_by st owner cause = filter (\<lambda>c. lc_owner c = owner \<and> lc_cause c = Some cause) (lg_log st)"

definition changes_of :: "ledger \<Rightarrow> string \<Rightarrow> change list" where
  "changes_of st i = filter (\<lambda>c. lc_id c = i) (lg_log st)"

definition changes_since :: "ledger \<Rightarrow> string \<Rightarrow> string \<Rightarrow> change list" where
  "changes_since st owner since = filter (\<lambda>c. lc_owner c = owner \<and> since \<le> lc_at c) (lg_log st)"

definition owned :: "ledger \<Rightarrow> string \<Rightarrow> dict list" where
  "owned st user = filter (\<lambda>r. dget r ''owner_id'' = PStr user) (rows_of st Project)"

definition own_project :: "ledger \<Rightarrow> string \<Rightarrow> string \<Rightarrow> dict option" where
  "own_project st i user = (case row st Project i of
     Some r \<Rightarrow> if dget r ''owner_id'' = PStr user then Some r else None | None \<Rightarrow> None)"

text \<open>The order of a column of times.\<close>

definition time_of :: "string \<Rightarrow> dict \<Rightarrow> string" where
  "time_of k r = (case dget r k of PStr s \<Rightarrow> s | _ \<Rightarrow> [])"

definition projects :: "ledger \<Rightarrow> string \<Rightarrow> dict list" where
  "projects st user = rev (sort_key (time_of ''updated_at'') (rev (owned st user)))"

definition children :: "ledger \<Rightarrow> entity \<Rightarrow> string \<Rightarrow> dict list" where
  "children st e p = sort_key (time_of ''created_at'') (filter (\<lambda>r. dget r ''project_id'' = PStr p) (rows_of st e))"

definition links_from :: "ledger \<Rightarrow> string \<Rightarrow> string \<Rightarrow> dict list" where
  "links_from st kind i =
     sort_key (time_of ''created_at'') (filter (\<lambda>r. dget r ''from_kind'' = PStr kind \<and> dget r ''from_id'' = PStr i) (rows_of st Link))"

definition links_to :: "ledger \<Rightarrow> string \<Rightarrow> string \<Rightarrow> dict list" where
  "links_to st kind ref = filter (\<lambda>r. dget r ''to_kind'' = PStr kind \<and> dget r ''to_ref'' = PStr ref) (rows_of st Link)"

end
