(* ===== verification/Ledger_Names.thy ===== *)
theory Ledger_Names
  imports Ledger_Rows Plans
begin

text \<open>
  How a ledger change names things, and the checks of its fields (\<open>backend/app/ledger/service.py\<close>):
  titles as matched, short ids in any spelling, dates, texts, owners, and the shape of a plan. A
  \<open>LedgerError\<close> carries its message; the dash and quotation marks of messages are those of \<open>Plans\<close>.
  \<open>date.fromisoformat\<close> is given for calendar and week dates with and without separators.
\<close>

definition PROJECT_STATUSES :: "string list" where
  "PROJECT_STATUSES = [''active'', ''paused'', ''done'', ''archived'']"

definition TASK_STATUSES :: "string list" where
  "TASK_STATUSES = [''todo'', ''doing'', ''blocked'', ''done'', ''dropped'']"

definition OWNER_KINDS :: "(string \<times> string) list" where
  "OWNER_KINDS = [(''me'', ''user''), (''user'', ''user''), (''agent'', ''agent''), (''session'', ''session''), (''workflow'', ''workflow'')]"

definition OPS :: "string list" where
  "OPS = [''create_project'', ''create_goal'', ''create_task'', ''update_task'', ''add_note'', ''link_thread'']"

subsection \<open>Titles\<close>

definition blank :: "py \<Rightarrow> bool" where
  "blank v = (v = PNone \<or> v = PStr [])"

definition or_empty :: "py \<Rightarrow> py" where
  "or_empty v = (if truthy v then v else PStr [])"

definition norm_char :: "char \<Rightarrow> char" where
  "norm_char c = (if py_isword c \<or> py_isspace c then c else CHR '' '')"

definition norm :: "string \<Rightarrow> string" where
  "norm s = py_join '' '' (py_split (map norm_char (py_lower s)))"

text \<open>\<open>s.rpartition(" ")\<close>: what precedes the last space (nothing when there is none), and the rest.\<close>

definition rpartition_space :: "string \<Rightarrow> string \<times> string" where
  "rpartition_space s =
     (let tail = takeWhile (\<lambda>c. c \<noteq> CHR '' '') (rev s) in (rev (drop (Suc (length tail)) (rev s)), rev tail))"

definition without_project_word :: "string \<Rightarrow> string" where
  "without_project_word s = (let (head, last) = rpartition_space s in if last = ''project'' \<and> head \<noteq> [] then head else [])"

definition CLOSE_MIN :: nat where "CLOSE_MIN = 3"

definition close_title :: "string \<Rightarrow> string \<Rightarrow> bool" where
  "close_title key title =
     (CLOSE_MIN \<le> length (filter (\<lambda>c. c \<noteq> CHR '' '') key) \<and> set (py_split key) \<subseteq> set (py_split title))"

subsection \<open>Short ids\<close>

text \<open>A short id in any spelling, by its digits.\<close>

definition short_id_digits :: "string \<Rightarrow> string option" where
  "short_id_digits ref =
     (case py_strip ref of
        [] \<Rightarrow> None
      | c # cs \<Rightarrow>
          let digits = dropWhile py_isspace (removeprefix (dropWhile py_isspace cs) ''-'') in
          if (c = CHR ''T'' \<or> c = CHR ''t'') \<and> parse_num digits \<noteq> None then Some digits else None)"

definition short_id_of :: "string \<Rightarrow> string option" where
  "short_id_of ref = (case short_id_digits ref of
     None \<Rightarrow> None | Some digits \<Rightarrow> map_option (\<lambda>n. short_id (int n)) (parse_num digits))"

text \<open>\<open>int()\<close> refuses texts of more digits than this.\<close>

definition INT_DIGITS :: nat where "INT_DIGITS = 4300"

definition overlong :: "string \<Rightarrow> bool" where
  "overlong ref = (case short_id_digits ref of None \<Rightarrow> False | Some digits \<Rightarrow> INT_DIGITS < length digits)"

subsection \<open>Dates\<close>

definition calendar_date :: "int \<Rightarrow> nat \<Rightarrow> nat \<Rightarrow> (int \<times> nat \<times> int) option" where
  "calendar_date y m d =
     (if 1 \<le> y \<and> 1 \<le> m \<and> m \<le> 12 \<and> 1 \<le> d \<and> int d \<le> month_lengths (is_leap y) ! (m - 1) then Some (y, m, int d) else None)"

text \<open>The day of an ISO week: weeks start on Mondays, and week 1 holds the year's first Thursday.\<close>

definition week_date :: "int \<Rightarrow> nat \<Rightarrow> nat \<Rightarrow> (int \<times> nat \<times> int) option" where
  "week_date y w d =
     (let first = ymd2ord y 1 1; monday = first - (first + 6) mod 7; monday = (if 3 < (first + 6) mod 7 then monday + 7 else monday);
          long = (first mod 7 = 4 \<or> first mod 7 = 3 \<and> is_leap y);
          (y', m', d') = ord2ymd (monday + (int w - 1) * 7 + int d - 1)
      in if 1 \<le> y \<and> 1 \<le> w \<and> (w \<le> 52 \<or> w = 53 \<and> long) \<and> 1 \<le> d \<and> d \<le> 7 \<and> 1 \<le> y' \<and> y' \<le> 9999
         then Some (y', m', d') else None)"

definition both :: "nat option \<Rightarrow> nat option \<Rightarrow> (nat \<Rightarrow> nat \<Rightarrow> 'a option) \<Rightarrow> 'a option" where
  "both a b f = (case (a, b) of (Some x, Some y) \<Rightarrow> f x y | _ \<Rightarrow> None)"

definition date_fromisoformat :: "string \<Rightarrow> (int \<times> nat \<times> int) option" where
  "date_fromisoformat s =
     (case parse_num (take 4 s) of
        None \<Rightarrow> None
      | Some y \<Rightarrow>
          let sep = (take 1 (drop 4 s) = ''-''); rest = (if sep then drop 5 s else drop 4 s) in
          if length s \<notin> {7, 8, 10} then None
          else if take 1 rest = ''W'' then
            (let week = parse_num (take 2 (drop 1 rest)); day = drop 3 rest in
             if day = [] then (if length rest = 3 then both week (Some 1) (week_date (int y)) else None)
             else if sep then (if take 1 day = ''-'' \<and> length day = 2 then both week (parse_num (drop 1 day)) (week_date (int y)) else None)
             else if length day = 1 then both week (parse_num day) (week_date (int y)) else None)
          else if sep then
            (if length s = 10 \<and> take 1 (drop 2 rest) = ''-''
             then both (parse_num (take 2 rest)) (parse_num (drop 3 rest)) (calendar_date (int y)) else None)
          else (if length s = 8 then both (parse_num (take 2 rest)) (parse_num (drop 2 rest)) (calendar_date (int y)) else None))"

definition date_isoformat :: "int \<times> nat \<times> int \<Rightarrow> string" where
  "date_isoformat date = (let (y, m, d) = date in pad_num 4 (nat y) @ ''-'' @ pad_num 2 m @ ''-'' @ pad_num 2 (nat d))"

subsection \<open>Fields of a change\<close>

definition ledger_date :: "(rat \<Rightarrow> string) \<Rightarrow> py \<Rightarrow> string \<Rightarrow> ledger_error + py" where
  "ledger_date fstr v field =
     (if blank v then Inr PNone
      else case date_fromisoformat (py_str fstr v) of
        Some d \<Rightarrow> Inr (PStr (date_isoformat d))
      | None \<Rightarrow> Inl (Ledger_Error (field @ '' '' @ py_repr fstr v @ '' is not a date (YYYY-MM-DD)'')))"

definition ledger_text :: "(rat \<Rightarrow> string) \<Rightarrow> dict \<Rightarrow> string \<Rightarrow> nat \<Rightarrow> bool \<Rightarrow> ledger_error + py" where
  "ledger_text fstr c field limit required =
     (let v = dget c field; op = py_str fstr (dget c ''op''); s = py_strip (py_str fstr v) in
      if blank v then (if required then Inl (Ledger_Error (op @ '': '' @ field @ '' is required'')) else Inr PNone)
      else if limit < length s then Inl (Ledger_Error (op @ '': '' @ field @ '' is longer than '' @ int_text (int limit) @ '' characters''))
      else Inr (PStr s))"

definition ledger_owner :: "(rat \<Rightarrow> string) \<Rightarrow> py \<Rightarrow> ledger_error + py" where
  "ledger_owner fstr v =
     (if blank v then Inr PNone
      else case v of
        PDict d \<Rightarrow> Inr (case map_of OWNER_KINDS (py_str fstr (dget_or d ''kind'' (PStr []))) of
            Some kind \<Rightarrow> PDict [(''kind'', PStr kind), (''ref'', dget d ''ref'')] | None \<Rightarrow> PNone)
      | _ \<Rightarrow>
          (case map_of OWNER_KINDS (py_lower (py_str fstr v)) of
             Some kind \<Rightarrow> Inr (PDict [(''kind'', PStr kind), (''ref'', PNone)])
           | None \<Rightarrow> Inl (Ledger_Error (''owner '' @ py_repr fstr v @ '' is not one of me, agent, session, workflow''))))"

definition one_of :: "string list \<Rightarrow> py \<Rightarrow> bool" where
  "one_of names v = (\<exists>s \<in> set names. v = PStr s)"

definition ledger_status :: "(rat \<Rightarrow> string) \<Rightarrow> string \<Rightarrow> string list \<Rightarrow> py \<Rightarrow> ledger_error + py" where
  "ledger_status fstr what names v =
     (if one_of names v then Inr v
      else Inl (Ledger_Error (what @ '' status '' @ py_repr fstr v @ '' is not one of '' @ py_join '', '' names)))"

text \<open>The shape of a plan: the changes as dictionaries.\<close>

fun changes_ok :: "(rat \<Rightarrow> string) \<Rightarrow> py list \<Rightarrow> ledger_error + dict list" where
  "changes_ok fstr [] = Inr []"
| "changes_ok fstr (c # cs) =
     (case c of
        PDict d \<Rightarrow>
          if one_of OPS (dget d ''op'') then bind_res (changes_ok fstr cs) (\<lambda>ds. Inr (d # ds))
          else Inl (Ledger_Error (''unknown change '' @ py_repr fstr c @ ''; ops are '' @ py_join '', '' OPS))
      | _ \<Rightarrow> Inl (Ledger_Error (''unknown change '' @ py_repr fstr c @ ''; ops are '' @ py_join '', '' OPS)))"

definition shapes_ok :: "(rat \<Rightarrow> string) \<Rightarrow> py \<Rightarrow> ledger_error + dict list" where
  "shapes_ok fstr changes =
     (case changes of
        PStr _ \<Rightarrow> Inl (Ledger_Error ''`changes` must be a list of change objects, not text'')
      | PList (c # cs) \<Rightarrow> changes_ok fstr (c # cs)
      | _ \<Rightarrow> Inl (Ledger_Error ''there are no changes to apply''))"

end
