(* ===== verification/Ledger_Apply.thy ===== *)
theory Ledger_Apply
  imports Ledger_Names
begin

text \<open>
  Applying a plan to the ledger (\<open>LedgerService\<close>, \<open>backend/app/ledger/service.py\<close>): finding what a
  change names, \<open>_apply_in\<close> with everything it keeps along a plan, and its three callers: \<open>apply\<close>,
  \<open>validate\<close> (the same run, rolled back) and \<open>apply_batch\<close>. Queries without an order take the order of
  insertion.
\<close>

subsection \<open>What a change names\<close>

definition as_named :: "(rat \<Rightarrow> string) \<Rightarrow> py \<Rightarrow> (string \<times> string) list \<Rightarrow> string" where
  "as_named fstr ref names = (let key = py_str fstr ref in case map_of names key of Some n \<Rightarrow> n | None \<Rightarrow> key)"

definition named_projects :: "ledger_env \<Rightarrow> ledger \<Rightarrow> string \<Rightarrow> string \<Rightarrow> dict list" where
  "named_projects env st user key =
     (let own = owned st user; title = (\<lambda>r. py_str (le_fstr env) (dget r ''name''));
          exact = filter (\<lambda>r. le_lower env (title r) = py_lower key) own;
          wanted = norm key; bare = without_project_word wanted;
          same = filter (\<lambda>r. wanted \<noteq> [] \<and> norm (title r) = wanted) own
      in if exact \<noteq> [] then exact
         else if same \<noteq> [] then same
         else if bare \<noteq> [] then filter (\<lambda>r. norm (title r) = bare) own else [])"

definition find_project :: "ledger_env \<Rightarrow> ledger \<Rightarrow> string \<Rightarrow> py \<Rightarrow> (string \<times> string) list \<Rightarrow> ledger_error + dict" where
  "find_project env st user ref refs =
     (if blank ref then Inl (Ledger_Error ''a change names no project'')
      else
        let key = py_str (le_fstr env) ref; i = (case map_of refs key of Some j \<Rightarrow> j | None \<Rightarrow> key) in
        case own_project st i user of
          Some r \<Rightarrow> Inr r
        | None \<Rightarrow>
            (case named_projects env st user key of
               [r] \<Rightarrow> Inr r
             | [] \<Rightarrow> Inl (Ledger_Error (''there is no project '' @ str_repr key))
             | _ \<Rightarrow> Inl (Ledger_Error (''more than one project is called '' @ str_repr key @ ''; name it by id''))))"

definition find_goal :: "ledger_env \<Rightarrow> ledger \<Rightarrow> string \<Rightarrow> py \<Rightarrow> (string \<times> string) list \<Rightarrow> string \<Rightarrow> ledger_error + string" where
  "find_goal env st project ref goal_refs named =
     (let key = py_str (le_fstr env) ref; none = Inl (Ledger_Error (named @ '' has no goal '' @ str_repr key));
          by_title = (case filter (\<lambda>r. dget r ''project_id'' = PStr project
              \<and> le_lower env (py_str (le_fstr env) (dget r ''title'')) = py_lower key) (rows_of st Goal) of
            [r] \<Rightarrow> Inr (row_id r) | _ \<Rightarrow> none) in
      case map_of goal_refs key of
        Some i \<Rightarrow> Inr i
      | None \<Rightarrow>
          (case row st Goal key of
             Some r \<Rightarrow> if dget r ''project_id'' = PStr project then Inr key else by_title
           | None \<Rightarrow> by_title))"

text \<open>A short id is ASCII, so only the ASCII letters of \<open>key.upper()\<close> matter.\<close>

definition py_upper_ascii :: "char \<Rightarrow> char" where
  "py_upper_ascii c = (let n = code_of c in if 97 \<le> n \<and> n \<le> 122 then char_of (n - 32) else c)"

definition the_one :: "ledger_error \<Rightarrow> ledger_error \<Rightarrow> dict list \<Rightarrow> dict list \<Rightarrow> ledger_error + dict" where
  "the_one none many first second =
     (case first of
        [r] \<Rightarrow> Inr r
      | _ # _ \<Rightarrow> Inl many
      | [] \<Rightarrow> (case second of [r] \<Rightarrow> Inr r | _ # _ \<Rightarrow> Inl many | [] \<Rightarrow> Inl none))"

definition task_title :: "ledger_env \<Rightarrow> dict \<Rightarrow> string" where
  "task_title env r = py_str (le_fstr env) (dget r ''title'')"

definition find_task :: "ledger_env \<Rightarrow> ledger \<Rightarrow> string \<Rightarrow> py \<Rightarrow> string \<Rightarrow> ledger_error + dict" where
  "find_task env st project ref named =
     (let key = py_strip (py_str (le_fstr env) (or_empty ref)); tasks = children st Task project;
          none = Ledger_Error (named @ '' has no task '' @ str_repr key);
          by_id = find (\<lambda>r. dget r ''short_id'' = PStr (case short_id_of key of Some s \<Rightarrow> s | None \<Rightarrow> map py_upper_ascii key) \<or> row_id r = key)
            (filter (\<lambda>r. dget r ''project_id'' = PStr project) (rows_of st Task));
          wanted = norm key;
          same = filter (\<lambda>r. wanted \<noteq> [] \<and> norm (task_title env r) = wanted) tasks;
          close = filter (\<lambda>r. close_title wanted (norm (task_title env r))) tasks;
          matched = (if same \<noteq> [] then same else close);
          many = Ledger_Error (''the task '' @ str_repr key @ '' matches more than one task in '' @ named @ '' (''
            @ py_join '', '' (map (\<lambda>r. py_str (le_fstr env) (dget r ''short_id'')) (take 10 matched))
            @ ''); name it by its short id, or ask the user which one'')
      in if key = [] then Inl (Ledger_Error ''update_task: name the task (its title or short id)'')
         else if overlong key then Inl Value_Error
         else case by_id of
           Some r \<Rightarrow> Inr r
         | None \<Rightarrow> if short_id_of key \<noteq> None then Inl none else the_one none many same close)"

definition pinned_project :: "ledger_env \<Rightarrow> ledger \<Rightarrow> string \<Rightarrow> py \<Rightarrow> ledger_error + dict" where
  "pinned_project env st user i =
     (case own_project st (py_str (le_fstr env) i) user of
        Some r \<Rightarrow> Inr r
      | None \<Rightarrow> Inl (Ledger_Error ''the project this was proposed for no longer exists''))"

definition project_of :: "dict \<Rightarrow> string" where
  "project_of r = (case dget r ''project_id'' of PStr p \<Rightarrow> p | _ \<Rightarrow> [])"

definition own_task :: "ledger \<Rightarrow> string \<Rightarrow> dict \<Rightarrow> bool" where
  "own_task st user r = (own_project st (project_of r) user \<noteq> None)"

definition pinned_task :: "ledger_env \<Rightarrow> ledger \<Rightarrow> string \<Rightarrow> dict \<Rightarrow> ledger_error + dict" where
  "pinned_task env st user pin =
     (let gone = Inl (Ledger_Error (''the task this was proposed for (''
            @ py_str (le_fstr env) (first_truthy [dget pin ''short_id''] (PStr ''a task'')) @ '') no longer exists'')) in
      case row st Task (py_str (le_fstr env) (dget pin ''task_id'')) of
        None \<Rightarrow> gone
      | Some r \<Rightarrow>
          if \<not> own_task st user r \<or> truthy (dget pin ''project_id'') \<and> dget r ''project_id'' \<noteq> dget pin ''project_id'' then gone
          else Inr r)"

definition task_anywhere :: "ledger_env \<Rightarrow> ledger \<Rightarrow> string \<Rightarrow> py \<Rightarrow> ledger_error + dict" where
  "task_anywhere env st user ref =
     (let key = py_strip (py_str (le_fstr env) (or_empty ref));
          mine = filter (own_task st user) (rows_of st Task); wanted = norm key in
      if key = [] then Inl (Ledger_Error ''update_task: name the task (its title or short id) and its project'')
      else case find (\<lambda>r. row_id r = key) mine of
        Some r \<Rightarrow> Inr r
      | None \<Rightarrow>
          the_one (Ledger_Error (''no task is called '' @ str_repr key @ ''; name its project too (a close title is matched within a named project)''))
            (Ledger_Error (''more than one task is called '' @ str_repr key @ '' across projects; name the project too, or ask the user which one''))
            (filter (\<lambda>r. wanted \<noteq> [] \<and> norm (task_title env r) = wanted) mine) [])"

subsection \<open>One run of a plan\<close>

record plan_call =
  pc_user :: string
  pc_thread :: "string option"
  pc_actor :: string
  pc_cause :: "string option"

text \<open>What \<open>_apply_in\<close> keeps: the session, the lines, the names of the plan, what it created, and the resolutions.\<close>

record plan_run =
  pr_ledger :: ledger
  pr_done :: "string list"
  pr_refs :: "(string \<times> string) list"
  pr_goal_refs :: "(string \<times> string) list"
  pr_names :: "(string \<times> string) list"
  pr_created :: "string list"
  pr_resolved :: "dict list"

definition start_run :: "ledger \<Rightarrow> plan_run" where
  "start_run st = \<lparr>pr_ledger = st, pr_done = [], pr_refs = [], pr_goal_refs = [], pr_names = [], pr_created = [], pr_resolved = []\<rparr>"

definition stamp_of :: "plan_call \<Rightarrow> stamp" where
  "stamp_of call = \<lparr>sp_owner = pc_user call, sp_actor = pc_actor call, sp_cause = pc_cause call\<rparr>"

text \<open>A link is written without the cause of the plan.\<close>

definition link_stamp :: "plan_call \<Rightarrow> stamp" where
  "link_stamp call = \<lparr>sp_owner = pc_user call, sp_actor = pc_actor call, sp_cause = None\<rparr>"

definition thread_of :: "plan_call \<Rightarrow> string" where
  "thread_of call = (case pc_thread call of Some t \<Rightarrow> t | None \<Rightarrow> [])"

definition thread_link :: "string \<Rightarrow> string \<Rightarrow> string \<Rightarrow> dict" where
  "thread_link kind i thread =
     [(''from_kind'', PStr kind), (''from_id'', PStr i), (''to_kind'', PStr ''thread''), (''to_ref'', PStr thread)]"

definition pin_of :: "dict \<Rightarrow> dict" where
  "pin_of c = (case dget c PIN_KEY of PDict d \<Rightarrow> d | _ \<Rightarrow> [])"

definition said :: "plan_run \<Rightarrow> ledger \<Rightarrow> string \<Rightarrow> plan_run" where
  "said run st line = run\<lparr>pr_ledger := st, pr_done := pr_done run @ [line]\<rparr>"

definition text_of :: "ledger_env \<Rightarrow> dict \<Rightarrow> string \<Rightarrow> string" where
  "text_of env r k = py_str (le_fstr env) (dget r k)"

definition apply_create_project :: "ledger_env \<Rightarrow> plan_call \<Rightarrow> dict \<Rightarrow> plan_run \<Rightarrow> ledger_error + plan_run" where
  "apply_create_project env call c run =
     (let fstr = le_fstr env in
      bind_res (ledger_status fstr ''project'' PROJECT_STATUSES (first_truthy [dget c ''status''] (PStr ''active''))) (\<lambda>status.
      bind_res (ledger_text fstr c ''name'' 120 True) (\<lambda>name.
      bind_res (ledger_text fstr c ''why'' 2000 False) (\<lambda>why.
      bind_res (ledger_text fstr c ''context'' 8000 False) (\<lambda>ctx.
      bind_res (create env (pr_ledger run) Project (stamp_of call)
          [(''name'', name), (''why'', why), (''context'', ctx), (''status'', status)]) (\<lambda>(st, r).
      bind_res (if thread_of call = [] then Inr (st, [])
          else link env st (link_stamp call)
            (thread_link ''project'' (row_id r) (thread_of call) @ [(''label'', PStr ''The chat it was captured in'')])) (\<lambda>(st, l).
        let i = row_id r; ref = py_str fstr (dget c ''ref''); title = text_of env r ''name'';
            run = (if truthy (dget c ''ref'')
                   then run\<lparr>pr_refs := dset (pr_refs run) ref i, pr_names := dset (pr_names run) ref title\<rparr> else run)
        in Inr (said (run\<lparr>pr_created := pr_created run @ [i]\<rparr>) st (''Created project '' @ quoted title @ ''.'')))))))))"

text \<open>The task (when the change fixes one), the project, and what the line calls it.\<close>

definition resolve_change :: "ledger_env \<Rightarrow> plan_call \<Rightarrow> dict \<Rightarrow> plan_run \<Rightarrow> ledger_error + dict option \<times> dict \<times> string" where
  "resolve_change env call c run =
     (let st = pr_ledger run; user = pc_user call; pin = pin_of c; updating = (dget c ''op'' = PStr ''update_task'');
          named = as_named (le_fstr env) (dget c ''project'') (pr_names run);
          of_task = (\<lambda>task name. bind_res (pinned_project env st user (dget task ''project_id'')) (\<lambda>project.
            Inr (Some task, project, if name then named else ''project '' @ row_id project))) in
      if truthy (dget pin ''task_id'') \<and> updating then
        bind_res (pinned_task env st user pin) (\<lambda>task. of_task task (\<not> blank (dget c ''project'')))
      else if truthy (dget pin ''project_id'') then
        bind_res (pinned_project env st user (dget pin ''project_id'')) (\<lambda>project. Inr (None, project, named))
      else if updating \<and> blank (dget c ''project'') then
        bind_res (task_anywhere env st user (dget c ''task'')) (\<lambda>task. of_task task False)
      else bind_res (find_project env st user (dget c ''project'') (pr_refs run)) (\<lambda>project. Inr (None, project, named)))"

definition project_resolution :: "ledger_env \<Rightarrow> plan_run \<Rightarrow> dict \<Rightarrow> dict \<Rightarrow> dict" where
  "project_resolution env run c project =
     (if row_id project \<notin> set (pr_created run)
      then [(''project_id'', PStr (row_id project)), (''project_name'', dget project ''name'')]
      else if map_of (pr_refs run) (py_str (le_fstr env) (dget c ''project'')) = None then [(''in_plan_project'', PBool True)]
      else [])"

definition apply_create_goal :: "ledger_env \<Rightarrow> plan_call \<Rightarrow> dict \<Rightarrow> dict \<Rightarrow> string \<Rightarrow> plan_run \<Rightarrow> ledger_error + plan_run" where
  "apply_create_goal env call c project named run =
     (let fstr = le_fstr env in
      bind_res (ledger_text fstr c ''title'' 200 True) (\<lambda>title.
      bind_res (ledger_text fstr c ''definition_of_done'' 4000 True) (\<lambda>finished.
      bind_res (ledger_date fstr (dget c ''target_date'') ''target_date'') (\<lambda>target.
      bind_res (create env (pr_ledger run) Goal (stamp_of call)
          [(''project_id'', PStr (row_id project)), (''title'', title), (''definition_of_done'', finished), (''target_date'', target)]) (\<lambda>(st, r).
        let run = (if truthy (dget c ''ref'') then run\<lparr>pr_goal_refs := dset (pr_goal_refs run) (py_str fstr (dget c ''ref'')) (row_id r)\<rparr> else run)
        in Inr (said run st (''Added goal '' @ quoted (text_of env r ''title'') @ '' to '' @ named @ ''.'')))))))"

definition apply_create_task :: "ledger_env \<Rightarrow> plan_call \<Rightarrow> dict \<Rightarrow> dict \<Rightarrow> string \<Rightarrow> plan_run \<Rightarrow> ledger_error + plan_run" where
  "apply_create_task env call c project named run =
     (let fstr = le_fstr env; st = pr_ledger run in
      bind_res (ledger_status fstr ''task'' TASK_STATUSES (first_truthy [dget c ''status''] (PStr ''todo''))) (\<lambda>status.
      bind_res (ledger_text fstr c ''title'' 300 True) (\<lambda>title.
      bind_res (ledger_date fstr (dget c ''due_date'') ''due_date'') (\<lambda>due.
      bind_res (ledger_owner fstr (dget c ''owner'')) (\<lambda>owner.
      bind_res (if truthy (dget c ''goal'')
          then bind_res (find_goal env st (row_id project) (dget c ''goal'') (pr_goal_refs run) named) (\<lambda>g. Inr (PStr g)) else Inr PNone) (\<lambda>goal.
      bind_res (create env st Task (stamp_of call)
          [(''project_id'', PStr (row_id project)), (''title'', title), (''status'', status), (''due_date'', due), (''owner'', owner),
           (''goal_id'', goal), (''declared_files'', PList [])]) (\<lambda>(st, r).
      bind_res (if thread_of call = [] \<or> \<not> truthy (dget c ''todo_ref'') then Inr (st, [])
          else link env st (link_stamp call)
            (thread_link ''task'' (row_id r) (thread_of call) @ [(''todo_ref'', PStr (take 300 (py_str fstr (dget c ''todo_ref''))))])) (\<lambda>(st, l).
        Inr (said (run\<lparr>pr_created := pr_created run @ [row_id r]\<rparr>) st
          (''Added '' @ text_of env r ''short_id'' @ '' '' @ quoted (text_of env r ''title'') @ '' to '' @ named @ ''.''))))))))))"

text \<open>The fields an update sets; each only when the change has it.\<close>

definition when_given :: "dict \<Rightarrow> string \<Rightarrow> (ledger_error + py) \<Rightarrow> ledger_error + dict" where
  "when_given c k v = (if map_of c k = None then Inr [] else bind_res v (\<lambda>x. Inr [(k, x)]))"

definition update_values :: "(rat \<Rightarrow> string) \<Rightarrow> dict \<Rightarrow> ledger_error + dict" where
  "update_values fstr c =
     bind_res (when_given c ''title'' (ledger_text fstr c ''title'' 300 True)) (\<lambda>title.
     bind_res (when_given c ''status'' (ledger_status fstr ''task'' TASK_STATUSES (dget c ''status''))) (\<lambda>status.
     bind_res (when_given c ''due_date'' (ledger_date fstr (dget c ''due_date'') ''due_date'')) (\<lambda>due.
     bind_res (when_given c ''owner'' (ledger_owner fstr (dget c ''owner''))) (\<lambda>owner.
       Inr (title @ status @ due @ owner)))))"

definition task_resolution :: "plan_run \<Rightarrow> dict \<Rightarrow> dict" where
  "task_resolution run task =
     (if row_id task \<notin> set (pr_created run)
      then [(''task_id'', PStr (row_id task)), (''short_id'', dget task ''short_id''), (''title'', dget task ''title'')]
      else [(''in_plan_task'', PBool True)])"

definition note_resolution :: "dict \<Rightarrow> plan_run \<Rightarrow> plan_run" where
  "note_resolution r run = run\<lparr>pr_resolved := pr_resolved run @ [r]\<rparr>"

definition apply_update_task :: "ledger_env \<Rightarrow> plan_call \<Rightarrow> dict \<Rightarrow> dict \<Rightarrow> dict \<Rightarrow> string \<Rightarrow> plan_run \<Rightarrow> ledger_error + plan_run" where
  "apply_update_task env call c pin task named run =
     (if truthy (dget pin ''in_plan_task'') \<and> row_id task \<notin> set (pr_created run)
      then Inl (Ledger_Error (''the plan changed since it was proposed: task '' @ py_repr (le_fstr env) (dget c ''task'')
        @ '' is no longer the one it creates; nothing was changed''))
      else
        bind_res (update_values (le_fstr env) c) (\<lambda>vals.
        bind_res (update env (pr_ledger run) Task (row_id task) (stamp_of call) PNone vals) (\<lambda>(st, r).
          Inr (said run st (''Updated '' @ text_of env task ''short_id'' @ '' in '' @ named @ ''.'')))))"

definition apply_add_note :: "ledger_env \<Rightarrow> plan_call \<Rightarrow> dict \<Rightarrow> dict \<Rightarrow> string \<Rightarrow> plan_run \<Rightarrow> ledger_error + plan_run" where
  "apply_add_note env call c project named run =
     bind_res (ledger_text (le_fstr env) c ''decided'' 4000 True) (\<lambda>decided.
     bind_res (ledger_text (le_fstr env) c ''why'' 4000 False) (\<lambda>why.
     bind_res (create env (pr_ledger run) Note (stamp_of call)
         [(''project_id'', PStr (row_id project)), (''decided'', decided), (''why'', why),
          (''thread_id'', case pc_thread call of Some t \<Rightarrow> PStr t | None \<Rightarrow> PNone)]) (\<lambda>(st, r).
       Inr (said run st (''Recorded a decision in '' @ named @ ''.'')))))"

definition apply_link_thread :: "ledger_env \<Rightarrow> plan_call \<Rightarrow> dict \<Rightarrow> dict \<Rightarrow> string \<Rightarrow> plan_run \<Rightarrow> ledger_error + plan_run" where
  "apply_link_thread env call c project named run =
     (if thread_of call = [] then Inl (Ledger_Error ''link_thread: this conversation's id is not known here'')
      else
        bind_res (ledger_text (le_fstr env) c ''label'' 300 False) (\<lambda>label.
        bind_res (link env (pr_ledger run) (link_stamp call)
            (thread_link ''project'' (row_id project) (thread_of call) @ [(''label'', label)])) (\<lambda>(st, l).
          Inr (said run st (''Attached this conversation to '' @ named @ ''.'')))))"

definition apply_change :: "ledger_env \<Rightarrow> plan_call \<Rightarrow> dict \<Rightarrow> plan_run \<Rightarrow> ledger_error + plan_run" where
  "apply_change env call c run =
     (let op = dget c ''op''; pin = pin_of c in
      if op = PStr ''create_project'' then bind_res (apply_create_project env call c run) (\<lambda>run. Inr (note_resolution [] run))
      else
        bind_res (resolve_change env call c run) (\<lambda>(task, project, named).
        let resolved = project_resolution env run c project in
        if truthy (dget pin ''in_plan_project'') \<and> row_id project \<notin> set (pr_created run)
        then Inl (Ledger_Error ''the plan changed since it was proposed: a project it names is no longer the one it creates; nothing was changed'')
        else if op = PStr ''create_goal'' then bind_res (apply_create_goal env call c project named run) (\<lambda>run. Inr (note_resolution resolved run))
        else if op = PStr ''create_task'' then bind_res (apply_create_task env call c project named run) (\<lambda>run. Inr (note_resolution resolved run))
        else if op = PStr ''update_task'' then
          bind_res (case task of Some t \<Rightarrow> Inr t | None \<Rightarrow> find_task env (pr_ledger run) (row_id project) (dget c ''task'') named) (\<lambda>task.
          bind_res (apply_update_task env call c pin task named run) (\<lambda>run'.
            Inr (note_resolution (resolved @ task_resolution run task) run')))
        else if op = PStr ''add_note'' then bind_res (apply_add_note env call c project named run) (\<lambda>run. Inr (note_resolution resolved run))
        else bind_res (apply_link_thread env call c project named run) (\<lambda>run. Inr (note_resolution resolved run))))"

fun apply_changes :: "ledger_env \<Rightarrow> plan_call \<Rightarrow> dict list \<Rightarrow> plan_run \<Rightarrow> ledger_error + plan_run" where
  "apply_changes env call [] run = Inr run"
| "apply_changes env call (c # cs) run = bind_res (apply_change env call c run) (apply_changes env call cs)"

definition apply_in :: "ledger_env \<Rightarrow> plan_call \<Rightarrow> py \<Rightarrow> ledger \<Rightarrow> ledger_error + plan_run" where
  "apply_in env call changes st =
     bind_res (shapes_ok (le_fstr env) changes) (\<lambda>cs. apply_changes env call cs (start_run st))"

subsection \<open>The callers\<close>

definition apply_plan :: "ledger_env \<Rightarrow> plan_call \<Rightarrow> py \<Rightarrow> ledger \<Rightarrow> ledger \<times> (ledger_error + string list)" where
  "apply_plan env call changes st =
     transaction st (\<lambda>st. bind_res (apply_in env call changes st) (\<lambda>run. Inr (pr_ledger run, pr_done run)))"

text \<open>The run raises \<open>_DryRun\<close> at its end, so the ledger is always the old one.\<close>

definition validate_plan :: "ledger_env \<Rightarrow> string \<Rightarrow> py \<Rightarrow> string option \<Rightarrow> ledger \<Rightarrow> ledger_error + dict list" where
  "validate_plan env user changes thread st =
     bind_res (apply_in env \<lparr>pc_user = user, pc_thread = thread, pc_actor = ''assistant_confirmed'', pc_cause = None\<rparr> changes st)
       (\<lambda>run. Inr (pr_resolved run))"

fun apply_cards :: "ledger_env \<Rightarrow> plan_call \<Rightarrow> nat \<Rightarrow> (py \<times> string option) list \<Rightarrow> ledger \<Rightarrow> ledger_error + ledger \<times> string list list" where
  "apply_cards env call n [] st = Inr (st, [])"
| "apply_cards env call n ((changes, thread) # cards) st =
     (case apply_in env (call\<lparr>pc_thread := thread\<rparr>) changes st of
        Inl (Ledger_Error s) \<Rightarrow> Inl (Batch_Error n s)
      | Inl e \<Rightarrow> Inl e
      | Inr run \<Rightarrow> bind_res (apply_cards env call (Suc n) cards (pr_ledger run)) (\<lambda>(st', out). Inr (st', pr_done run # out)))"

definition apply_batch :: "ledger_env \<Rightarrow> plan_call \<Rightarrow> (py \<times> string option) list \<Rightarrow> ledger \<Rightarrow> ledger \<times> (ledger_error + string list list)" where
  "apply_batch env call cards st = transaction st (apply_cards env call 0 cards)"

subsection \<open>The controller\<close>

text \<open>\<open>check_plan\<close>: why a plan could not be applied, or what it resolves to. Other errors propagate.\<close>

definition check_plan :: "ledger_env \<Rightarrow> ledger \<Rightarrow> string \<Rightarrow> py \<Rightarrow> string option \<Rightarrow> string + string option \<times> py list" where
  "check_plan env st user changes thread =
     (case validate_plan env user changes thread st of
        Inr resolutions \<Rightarrow> Inr (None, map PDict resolutions)
      | Inl (Ledger_Error s) \<Rightarrow> Inr (Some s, [])
      | Inl (Batch_Error i s) \<Rightarrow> Inr (Some s, [])
      | Inl Value_Error \<Rightarrow> Inl ''ValueError''
      | Inl (Runtime_Error s) \<Rightarrow> Inl s
      | Inl (Lookup_Error s) \<Rightarrow> Inl s
      | Inl (Stale_Write d) \<Rightarrow> Inl ''StaleWrite''
      | Inl Integrity_Error \<Rightarrow> Inl ''IntegrityError'')"

definition project_id :: "ledger_env \<Rightarrow> ledger \<Rightarrow> string \<Rightarrow> string \<Rightarrow> string option" where
  "project_id env st user name =
     (case find_project env st user (PStr name) [] of Inr r \<Rightarrow> Some (row_id r) | Inl e \<Rightarrow> None)"

definition task_ref :: "ledger_env \<Rightarrow> ledger \<Rightarrow> string \<Rightarrow> string option \<Rightarrow> string \<Rightarrow> dict option" where
  "task_ref env st user project task =
     (let found = (case project of
            Some (c # cs) \<Rightarrow> bind_res (find_project env st user (PStr (c # cs)) []) (\<lambda>r. find_task env st (row_id r) (PStr task) (c # cs))
          | _ \<Rightarrow> task_anywhere env st user (PStr task))
      in case found of
           Inl e \<Rightarrow> None
         | Inr r \<Rightarrow> Some (map (\<lambda>k. (k, dget r k)) [''id'', ''title'', ''status'', ''due_date'', ''owner'']))"

datatype execution = Confirmed | Disclosed | Granted

definition actor_of :: "execution \<Rightarrow> string" where
  "actor_of how = (case how of Confirmed \<Rightarrow> ''assistant_confirmed'' | Granted \<Rightarrow> ''assistant_granted'' | Disclosed \<Rightarrow> ''assistant_disclosed'')"

text \<open>The tool's call: \<open>Inl\<close> when it raises, else its result; \<open>model_line\<close> makes a text one clean line.\<close>

definition controller_apply ::
  "ledger_env \<Rightarrow> (string \<Rightarrow> string) \<Rightarrow> execution \<Rightarrow> string option \<Rightarrow> string \<Rightarrow> string option \<Rightarrow> py \<Rightarrow> ledger \<Rightarrow> ledger \<times> (ledger_error + string)" where
  "controller_apply env model_line how write_id user thread changes st =
     (case apply_plan env \<lparr>pc_user = user, pc_thread = thread, pc_actor = actor_of how, pc_cause = write_id\<rparr> changes st of
        (st', Inr done_lines) \<Rightarrow>
          let t = py_join '' '' (map model_line done_lines) in
          (st', Inr (case write_id of Some (w # ws) \<Rightarrow> t @ '' [undo '' @ w # ws @ '']'' | _ \<Rightarrow> t))
      | (st', Inl (Ledger_Error s)) \<Rightarrow>
          (st', if how = Confirmed then Inl (Runtime_Error (''Nothing was changed: '' @ s @ ''.'')) else Inr (''Nothing was changed: '' @ s @ ''.''))
      | (st', Inl e) \<Rightarrow> (st', Inl e))"

end
