(* ===== verification/Ledger_Facts.thy ===== *)
theory Ledger_Facts
  imports Ledger_Apply
begin

text \<open>
  What one write does to the tables and the log, and the invariant every ledger satisfies: rows are
  filed under their ids, ids are fresh, and the short ids of a project's tasks are pairwise different
  and below its counter.
\<close>

subsection \<open>Tables\<close>

lemma row_put [simp]: "row (put_row st e i r) e' j = (if (e', j) = (e, i) then Some r else row st e' j)"
  by (auto simp: row_def put_row_def)

lemma row_drop [simp]: "row (drop_row st e i) e' j = (if (e', j) = (e, i) then None else row st e' j)"
  by (auto simp: row_def drop_row_def)

lemma row_record [simp]: "row (record_change env st sp e i b a) e' j = row st e' j"
  by (simp add: row_def record_change_def tick_def)

lemma ticks_simps [simp]:
  "lg_ticks (put_row st e i r) = lg_ticks st"
  "lg_ticks (drop_row st e i) = lg_ticks st"
  "lg_ticks (record_change env st sp e i b a) = Suc (lg_ticks st)"
  "lg_log (put_row st e i r) = lg_log st"
  "lg_log (drop_row st e i) = lg_log st"
  by (simp_all add: put_row_def drop_row_def record_change_def tick_def)

lemma time_put [simp]: "time_value env (put_row st e i r) = time_value env st"
  by (simp add: time_value_def)

definition filed :: "ledger \<Rightarrow> bool" where
  "filed st = (distinct (map fst (lg_rows st)) \<and> (\<forall>e i r. row st e i = Some r \<longrightarrow> dget r ''id'' = PStr i))"

lemma in_rows: "filed st \<Longrightarrow> ((e, i), r) \<in> set (lg_rows st) \<longleftrightarrow> row st e i = Some r"
  by (simp add: filed_def row_def)

lemma rows_of_iff: "filed st \<Longrightarrow> r \<in> set (rows_of st e) \<longleftrightarrow> (\<exists>i. row st e i = Some r)"
  by (force simp: rows_of_def in_rows [symmetric])

lemma filed_id: "filed st \<Longrightarrow> row st e i = Some r \<Longrightarrow> row_id r = i"
  by (simp add: filed_def row_id_def)

lemma rows_of_row: "filed st \<Longrightarrow> r \<in> set (rows_of st e) \<Longrightarrow> row st e (row_id r) = Some r"
  by (auto simp: rows_of_iff filed_id)

lemma filed_put: "filed st \<Longrightarrow> dget r ''id'' = PStr i \<Longrightarrow> filed (put_row st e i r)"
  by (simp add: filed_def) (simp add: put_row_def distinct_dset)

lemma filed_drop: "filed st \<Longrightarrow> filed (drop_row st e i)"
  by (simp add: filed_def) (simp add: drop_row_def distinct_ddel)

lemma filed_record [simp]: "filed (record_change env st sp e i b a) = filed st"
  by (simp add: filed_def) (simp add: record_change_def tick_def)

subsection \<open>Fields\<close>

lemma set_fields_Nil [simp]: "set_fields r [] = r"
  by (simp add: set_fields_def)

lemma set_fields_Cons [simp]: "set_fields r ((k, v) # vs) = set_fields (dset r k v) vs"
  by (simp add: set_fields_def)

lemma map_of_set_fields_other: "k \<notin> fst ` set vs \<Longrightarrow> map_of (set_fields r vs) k = map_of r k"
  by (induction vs arbitrary: r) auto

lemma dget_set_fields_other: "k \<notin> fst ` set vs \<Longrightarrow> dget (set_fields r vs) k = dget r k"
  by (simp add: dget_def map_of_set_fields_other)

lemma dget_dset_if: "dget (dset r k v) j = (if j = k then v else dget r j)"
  by (simp add: dget_def)

lemma dget_set_fields:
  assumes "distinct (map fst vs)"
  shows "dget (set_fields r vs) k = (case map_of vs k of Some v \<Rightarrow> v | None \<Rightarrow> dget r k)"
  using assms
proof (induction vs arbitrary: r)
  case (Cons kv vs)
  obtain k' v where kv: "kv = (k', v)" by fastforce
  with Cons.prems have fresh: "k' \<notin> fst ` set vs" by simp
  then have none: "map_of vs k' = None" by (simp add: map_of_eq_None_iff)
  show ?case using Cons none kv by (cases "k = k'") (auto simp: dget_dset_if split: option.splits)
qed simp

lemma dget_numbered [simp]:
  "dget (numbered env st r) k = (if k = ''next_task'' then PInt (next_task r + 1)
     else if k = ''updated_at'' then time_value env st else dget r k)"
  by (simp add: numbered_def dget_dset_if)

lemma next_task_numbered [simp]: "next_task (numbered env st r) = next_task r + 1"
  by (simp add: next_task_def)

lemma dget_updated_row:
  "dget (updated_row env st e r vals) k =
     (if k = ''updated_at'' then time_value env st
      else if k = ''version'' then PInt (version_of r + 1)
      else if k = ''done_at'' \<and> e = Task \<and> map_of vals ''status'' \<noteq> None
        then (if dget vals ''status'' = PStr ''done'' then time_value env st else PNone)
      else dget (set_fields r vals) k)"
  by (auto simp: updated_row_def Let_def dget_dset_if)

subsection \<open>One write\<close>

lemma number_taskE:
  assumes "number_task env st vals = Inr (st', vals')"
  obtains p project where "dget vals ''project_id'' = PStr p" "row st Project p = Some project"
    "st' = put_row st Project p (numbered env st project)" "vals' = dset vals ''short_id'' (PStr (short_id (next_task project)))"
  using assms unfolding number_task_def by (auto split: py.splits option.splits)

definition new_row :: "ledger_env \<Rightarrow> ledger \<Rightarrow> entity \<Rightarrow> dict \<Rightarrow> dict" where
  "new_row env st e vals = set_fields (stamped env st (le_id env (lg_ticks st)) @ columns e) vals"

lemma new_row_put [simp]: "new_row env (put_row st e' i r) e vals = new_row env st e vals"
  by (simp add: new_row_def stamped_def)

lemma create_plainE:
  assumes "create env st e sp vals = Inr (st', r)" "e \<noteq> Task"
  obtains "r = new_row env st e (if e = Project then dset vals ''owner_id'' (PStr (sp_owner sp)) else vals)"
    "st' = record_change env (put_row st e (le_id env (lg_ticks st)) r) sp e (le_id env (lg_ticks st)) None (Some r)"
    "row st e (le_id env (lg_ticks st)) = None" "\<not> violates env st e (le_id env (lg_ticks st)) r"
  using assms unfolding create_def by (auto simp: Let_def new_row_def split: if_splits)

lemma create_taskE:
  assumes "create env st Task sp vals = Inr (st', r)"
  obtains p project where "dget vals ''project_id'' = PStr p" "row st Project p = Some project"
    "r = new_row env st Task (dset vals ''short_id'' (PStr (short_id (next_task project))))"
    "st' = record_change env (put_row (put_row st Project p (numbered env st project)) Task (le_id env (lg_ticks st)) r)
        sp Task (le_id env (lg_ticks st)) None (Some r)"
    "row st Task (le_id env (lg_ticks st)) = None"
    "\<not> violates env (put_row st Project p (numbered env st project)) Task (le_id env (lg_ticks st)) r"
proof -
  obtain x where x: "number_task env st vals = Inr x"
    using assms by (cases "number_task env st vals") (simp_all add: create_def)
  obtain st1 vals1 where n: "number_task env st vals = Inr (st1, vals1)" using x by (cases x) simp
  have c: "(let i = le_id env (lg_ticks st1); r = new_row env st1 Task vals1 in
       if row st1 Task i \<noteq> None \<or> violates env st1 Task i r then Inl Integrity_Error
       else Inr (record_change env (put_row st1 Task i r) sp Task i None (Some r), r)) = Inr (st', r)"
    using assms by (simp add: create_def n new_row_def Let_def)
  from n show thesis
  proof (rule number_taskE)
    fix p project
    assume "dget vals ''project_id'' = PStr p" "row st Project p = Some project"
      and st1: "st1 = put_row st Project p (numbered env st project)"
      and "vals1 = dset vals ''short_id'' (PStr (short_id (next_task project)))"
    with c show thesis by (intro that [of p project]) (auto simp: Let_def split: if_splits)
  qed
qed

lemma updateE:
  assumes "update env st e i sp version vals = Inr (st', a)"
  obtains "row st e i = None" "st' = st" "a = None"
  | before where "row st e i = Some before" "\<not> stale before version"
      "st' = record_change env (put_row st e i (updated_row env st e before vals)) sp e i (Some before) (Some (updated_row env st e before vals))"
      "a = Some (updated_row env st e before vals)" "\<not> violates env st e i (updated_row env st e before vals)"
proof (cases "row st e i")
  case None
  then have "update env st e i sp version vals = Inr (st, None)" by (simp add: update_def)
  with assms have "st' = st" "a = None" by simp_all
  with None show thesis by (rule that(1))
next
  case (Some before)
  let ?r = "updated_row env st e before vals"
  have u: "(if stale before version then Inl (Stale_Write before)
      else if violates env st e i ?r then Inl Integrity_Error
      else Inr (record_change env (put_row st e i ?r) sp e i (Some before) (Some ?r), Some ?r)) = Inr (st', a)"
    using assms unfolding update_def Some option.case Let_def .
  then have "\<not> stale before version" "\<not> violates env st e i ?r" by (auto split: if_splits)
  moreover with u have e: "(record_change env (put_row st e i ?r) sp e i (Some before) (Some ?r), Some ?r) = (st', a)"
    by (simp only: if_False sum.inject)
  then have "st' = record_change env (put_row st e i ?r) sp e i (Some before) (Some ?r)" by (elim Pair_inject) (rule sym)
  moreover from e have "a = Some ?r" by (elim Pair_inject) (rule sym)
  ultimately show thesis by (intro that(2) [OF Some])
qed

lemma linkE:
  assumes "link env st sp vals = Inr (st', r)"
  obtains "st' = st" "r \<in> set (rows_of st Link)" "same_on LINK_KEY vals r"
  | "create env st Link sp vals = Inr (st', r)" "find (same_on LINK_KEY vals) (rows_of st Link) = None"
  using assms unfolding link_def by (auto simp: find_Some_iff split: option.splits)

lemma removeE:
  assumes "remove env st e i sp version = Inr (st', a)"
  obtains "row st e i = None" "st' = st" "\<not> a"
  | before where "row st e i = Some before" "\<not> stale before version" "a"
      "st' = record_change env (drop_row st e i) sp e i (Some before) None"
  using assms unfolding remove_def by (auto split: option.splits if_splits)

end
