(* ===== verification/Ledger_Dates.thy ===== *)
theory Ledger_Dates
  imports Ledger_Names
begin

text \<open>Dates of the ledger are stored as \<open>YYYY-MM-DD\<close>, and reading a stored date gives it back.\<close>

fun valid_date :: "int \<times> nat \<times> int \<Rightarrow> bool" where
  "valid_date (y, m, d) = (1 \<le> y \<and> y \<le> 9999 \<and> 1 \<le> m \<and> m \<le> 12 \<and> 1 \<le> d \<and> d \<le> month_lengths (is_leap y) ! (m - 1))"

lemma parse_num_bound:
  assumes "parse_num s = Some n" "length s \<le> k"
  shows "n < 10 ^ k"
proof -
  have "list_all py_isdigit09 s \<Longrightarrow> foldl (\<lambda>acc c. acc * 10 + (code_of c - 48)) a s < (a + 1) * 10 ^ length s" for a :: nat
  proof (induction s arbitrary: a)
    case (Cons c s)
    then have "code_of c - 48 \<le> 9" by (auto simp: py_isdigit09_def Let_def)
    then have "(a * 10 + (code_of c - 48) + 1) * 10 ^ length s \<le> (a + 1) * 10 * 10 ^ length s" by (intro mult_right_mono) auto
    moreover have "foldl (\<lambda>acc c. acc * 10 + (code_of c - 48)) (a * 10 + (code_of c - 48)) s < (a * 10 + (code_of c - 48) + 1) * 10 ^ length s"
      using Cons by simp
    ultimately show ?case by (simp add: algebra_simps)
  qed simp
  from this [of 0] assms have "n < 10 ^ length s" by (auto simp: parse_num_def split: if_splits)
  also have "\<dots> \<le> 10 ^ k" using assms(2) by (intro power_increasing) auto
  finally show ?thesis .
qed

lemma calendar_date_valid: "calendar_date (int y) m d = Some x \<Longrightarrow> y < 10000 \<Longrightarrow> valid_date x"
  by (auto simp: calendar_date_def split: if_splits)

lemma week_date_valid:
  assumes "week_date y w d = Some x"
  shows "valid_date x"
proof -
  define first where "first = ymd2ord y 1 1"
  define monday where "monday = (if 3 < (first + 6) mod 7 then first - (first + 6) mod 7 + 7 else first - (first + 6) mod 7)"
  obtain y' m' d' where o: "ord2ymd (monday + (int w - 1) * 7 + int d - 1) = (y', m', d')" by (cases "ord2ymd (monday + (int w - 1) * 7 + int d - 1)")
  have "x = (y', m', d') \<and> 1 \<le> y' \<and> y' \<le> 9999"
    using assms unfolding week_date_def Let_def first_def [symmetric] monday_def [symmetric] o by (simp split: if_splits)
  then show ?thesis using ymd2ord_ord2ymd [OF o] by simp
qed

lemma parsed_date_valid:
  assumes "date_fromisoformat s = Some x"
  shows "valid_date x"
proof -
  obtain y where y: "parse_num (take 4 s) = Some y" using assms by (auto simp: date_fromisoformat_def split: option.splits)
  have "y < 10 ^ 4" by (rule parse_num_bound [OF y]) simp
  then show ?thesis
    using assms y calendar_date_valid week_date_valid
    by (auto simp: date_fromisoformat_def both_def Let_def split: if_splits option.splits)
qed

lemma date_roundtrip:
  assumes "valid_date x"
  shows "date_fromisoformat (date_isoformat x) = Some x"
proof -
  obtain y m d where x: "x = (y, m, d)" by (cases x)
  have b: "1 \<le> y" "y \<le> 9999" "1 \<le> m" "m \<le> 12" "1 \<le> d" "d \<le> month_lengths (is_leap y) ! (m - 1)" using assms x by simp_all
  then have d31: "d \<le> 31" using month_lengths_le [of "m - 1" "is_leap y"] by fastforce
  let ?Y = "pad_num 4 (nat y)" and ?M = "pad_num 2 m" and ?D = "pad_num 2 (nat d)"
  have nums: "parse_num ?Y = Some (nat y)" "parse_num ?M = Some m" "parse_num ?D = Some (nat d)"
    using b d31 by (simp_all add: parse_pad_num)
  have dig: "list_all py_isdigit09 ?M" by (rule list_all_pad_num)
  have "take 1 (?M @ ''-'' @ ?D) \<noteq> ''W''"
    using dig length_pad_num [of 2 m] by (cases ?M) (auto simp: py_isdigit09_def code_of_def simp del: length_pad_num)
  then show ?thesis
    using b nums by (simp add: x date_isoformat_def date_fromisoformat_def both_def calendar_date_def Let_def)
qed

text \<open>A stored date: nothing, or a text that reading and writing gives back.\<close>

definition due_ok :: "py \<Rightarrow> bool" where
  "due_ok v = (v = PNone \<or> (\<exists>x. valid_date x \<and> v = PStr (date_isoformat x)))"

lemma ledger_date_ok:
  assumes "ledger_date fstr v field = Inr w"
  shows "due_ok w"
proof (cases "blank v")
  case True
  with assms show ?thesis by (simp add: ledger_date_def due_ok_def)
next
  case False
  then obtain x where "date_fromisoformat (py_str fstr v) = Some x" "w = PStr (date_isoformat x)"
    using assms by (auto simp: ledger_date_def split: option.splits)
  then show ?thesis unfolding due_ok_def by (blast dest: parsed_date_valid)
qed

lemma due_ok_roundtrip: "due_ok (PStr s) \<Longrightarrow> map_option date_isoformat (date_fromisoformat s) = Some s"
  by (auto simp: due_ok_def date_roundtrip simp del: valid_date.simps)

end
