(* ===== verification/Ledger_Invariant.thy ===== *)
theory Ledger_Invariant
  imports Ledger_Facts Ledger_Dates
begin

text \<open>
  The invariant of the ledger: rows are filed under their own ids and well typed, unused ids are
  fresh, and the short ids of a project's tasks are pairwise different and below its counter, so the
  database's unique constraint never fires. The locale \<open>plan_invariant\<close> states what a property of
  ledgers needs to survive one creation and one update; inside it, every operation that applies a
  plan preserves the property. It is interpreted on this invariant here, and again on others.
\<close>

subsection \<open>Short ids\<close>

lemma parse_nat_text: "parse_num (nat_text n) = Some n"
proof (induction n rule: nat_text.induct)
  case (1 n)
  show ?case
  proof (cases "n < 10")
    case True
    then show ?thesis by (simp add: nat_text.simps [of n] parse_num_def py_isdigit09_def code_of_digit)
  next
    case False
    with 1 have "parse_num (nat_text (n div 10)) = Some (n div 10)" by simp
    then have "list_all py_isdigit09 (nat_text (n div 10))"
      and "foldl (\<lambda>acc c. acc * 10 + (code_of c - 48)) 0 (nat_text (n div 10)) = n div 10"
      by (auto simp: parse_num_def split: if_splits)
    with False show ?thesis
      by (simp add: nat_text.simps [of n] parse_num_def py_isdigit09_def code_of_digit)
  qed
qed

lemma nat_text_inj: "nat_text m = nat_text n \<Longrightarrow> m = n"
  by (metis parse_nat_text option.inject)

lemma short_id_inj: "0 \<le> m \<Longrightarrow> 0 \<le> n \<Longrightarrow> short_id m = short_id n \<longleftrightarrow> m = n"
  by (auto simp: short_id_def int_text_def dest: nat_text_inj)

subsection \<open>Well-formed rows\<close>

definition int_above :: "py \<Rightarrow> bool" where
  "int_above v = (case v of PInt n \<Rightarrow> 1 \<le> n | _ \<Rightarrow> False)"

definition is_text :: "py \<Rightarrow> bool" where
  "is_text v = (case v of PStr s \<Rightarrow> True | _ \<Rightarrow> False)"

lemma int_above_PInt [simp]: "int_above (PInt n) = (1 \<le> n)"
  by (simp add: int_above_def)

lemma is_text_PStr [simp]: "is_text (PStr s)"
  by (simp add: is_text_def)

lemma next_task_above: "int_above (dget r ''next_task'') \<Longrightarrow> 1 \<le> next_task r \<and> dget r ''next_task'' = PInt (next_task r)"
  by (auto simp: int_above_def next_task_def split: py.splits)

definition numbered_id :: "py \<Rightarrow> int \<Rightarrow> bool" where
  "numbered_id v n = (v = PStr (short_id n) \<and> 1 \<le> n)"

definition column_names :: "entity \<Rightarrow> string list" where
  "column_names e = [''id'', ''created_at'', ''updated_at'', ''version''] @ map fst (columns e)"

definition has_columns :: "entity \<Rightarrow> dict \<Rightarrow> bool" where
  "has_columns e r = (distinct (map fst r) \<and> set (map fst r) = set (column_names e))"

text \<open>What each column may hold; columns of the same name are of the same type in every table but for the statuses.\<close>

definition text_or_none :: "py \<Rightarrow> bool" where
  "text_or_none v = (v = PNone \<or> is_text v)"

definition owner_ok :: "py \<Rightarrow> bool" where
  "owner_ok v = (case v of PNone \<Rightarrow> True | PDict d \<Rightarrow> True | _ \<Rightarrow> False)"

definition is_list :: "py \<Rightarrow> bool" where
  "is_list v = (case v of PList vs \<Rightarrow> True | _ \<Rightarrow> False)"

definition NULLABLE_TEXTS :: "string list" where
  "NULLABLE_TEXTS = [''why'', ''context'', ''goal_id'', ''parent_task_id'', ''done_at'', ''thread_id'', ''label'', ''todo_ref'']"

definition column_ok :: "entity \<Rightarrow> string \<Rightarrow> py \<Rightarrow> bool" where
  "column_ok e k v =
     (if k \<in> {''version'', ''next_task''} then int_above v
      else if k = ''status'' then one_of (if e = Project then PROJECT_STATUSES else TASK_STATUSES) v
      else if k = ''short_id'' then \<exists>n. numbered_id v n
      else if k \<in> {''due_date'', ''target_date''} then due_ok v
      else if k = ''owner'' then owner_ok v
      else if k = ''declared_files'' then is_list v
      else if k \<in> set NULLABLE_TEXTS then text_or_none v
      else is_text v)"

definition row_ok :: "entity \<Rightarrow> dict \<Rightarrow> bool" where
  "row_ok e r = (has_columns e r \<and> (\<forall>k \<in> set (column_names e). column_ok e k (dget r k)))"

definition typed :: "entity \<Rightarrow> dict \<Rightarrow> bool" where
  "typed e vals = list_all (\<lambda>(k, v). column_ok e k v) vals"

text \<open>Columns only the repository writes.\<close>

definition FIXED :: "string list" where
  "FIXED = [''id'', ''version'', ''created_at'', ''updated_at'', ''owner_id'', ''project_id'', ''short_id'', ''next_task'', ''from_kind'', ''from_id'', ''to_kind'', ''to_ref'']"

definition due_given :: "dict \<Rightarrow> bool" where
  "due_given vals = (case map_of vals ''due_date'' of None \<Rightarrow> True | Some v \<Rightarrow> due_ok v)"

definition settable :: "entity \<Rightarrow> dict \<Rightarrow> bool" where
  "settable e vals = (distinct (map fst vals) \<and> set (map fst vals) \<subseteq> set (column_names e) \<and> set (map fst vals) \<inter> set FIXED = {} \<and> typed e vals)"

text \<open>The columns without a default of their type: those whoever creates a row gives, and those the repository adds.\<close>

fun added :: "entity \<Rightarrow> string list" where
  "added Project = [''owner_id'']"
| "added Task = [''short_id'']"
| "added _ = []"

fun required :: "entity \<Rightarrow> string list" where
  "required Project = [''name'']"
| "required Goal = [''project_id'', ''title'', ''definition_of_done'']"
| "required Task = [''project_id'', ''title'']"
| "required Note = [''project_id'', ''decided'']"
| "required Link = [''from_kind'', ''from_id'', ''to_kind'', ''to_ref'']"

text \<open>What a creation may be given: every required column, none the repository writes, and a child names a project that is there.\<close>

definition creatable :: "ledger \<Rightarrow> entity \<Rightarrow> dict \<Rightarrow> bool" where
  "creatable st e vals =
     (distinct (map fst vals) \<and> set (map fst vals) \<subseteq> set (map fst (columns e)) \<and> typed e vals
      \<and> set (map fst vals) \<inter> {''id'', ''version'', ''created_at'', ''updated_at'', ''owner_id'', ''short_id'', ''next_task''} = {}
      \<and> set (required e) \<subseteq> set (map fst vals)
      \<and> (e \<in> {Goal, Task, Note} \<longrightarrow> (\<exists>p. dget vals ''project_id'' = PStr p \<and> row st Project p \<noteq> None)))"

definition ids_fresh :: "ledger_env \<Rightarrow> nat \<Rightarrow> ledger \<Rightarrow> bool" where
  "ids_fresh env k st = (inj (le_id env) \<and>
     (\<forall>n \<ge> k. (\<forall>e. row st e (le_id env n) = None)
       \<and> (\<forall>i r. row st Task i = Some r \<longrightarrow> dget r ''project_id'' \<noteq> PStr (le_id env n))))"

definition tasks_numbered :: "ledger \<Rightarrow> bool" where
  "tasks_numbered st = (\<forall>i r p pr n. row st Task i = Some r \<longrightarrow> dget r ''project_id'' = PStr p \<longrightarrow> row st Project p = Some pr
     \<longrightarrow> numbered_id (dget r ''short_id'') n \<longrightarrow> n < next_task pr)"

definition keys_unique :: "ledger \<Rightarrow> bool" where
  "keys_unique st = (\<forall>e i j r r'. row st e i = Some r \<longrightarrow> row st e j = Some r' \<longrightarrow> same_on (unique_columns e) r r' \<longrightarrow> i = j)"

text \<open>Well formed, with the ids from the \<open>k\<close>-th on unused.\<close>

definition ledger_wf :: "ledger_env \<Rightarrow> nat \<Rightarrow> ledger \<Rightarrow> bool" where
  "ledger_wf env k st = (filed st \<and> (\<forall>e i r. row st e i = Some r \<longrightarrow> row_ok e r) \<and> ids_fresh env k st \<and> tasks_numbered st \<and> keys_unique st)"

definition ledger_ok :: "ledger_env \<Rightarrow> ledger \<Rightarrow> bool" where
  "ledger_ok env st = ledger_wf env (lg_ticks st) st"

lemma ledger_ok_filed: "ledger_ok env st \<Longrightarrow> filed st"
  by (simp add: ledger_ok_def ledger_wf_def)

lemma ledger_ok_row: "ledger_ok env st \<Longrightarrow> row st e i = Some r \<Longrightarrow> row_ok e r"
  by (simp add: ledger_ok_def ledger_wf_def)

lemma row_ok_column: "row_ok e r \<Longrightarrow> k \<in> set (column_names e) \<Longrightarrow> column_ok e k (dget r k)"
  by (simp add: row_ok_def)

lemma row_ok_columns: "row_ok e r \<Longrightarrow> has_columns e r"
  by (simp add: row_ok_def)

text \<open>The columns the proofs ask for most.\<close>

lemma row_ok_version: "row_ok e r \<Longrightarrow> int_above (dget r ''version'')"
  using row_ok_column [of e r "''version''"] by (simp add: column_names_def column_ok_def)

lemma row_ok_Project: "row_ok Project r \<Longrightarrow> int_above (dget r ''next_task'')"
  using row_ok_column [of Project r "''next_task''"] by (simp add: column_names_def column_ok_def)

lemma row_ok_Task:
  assumes "row_ok Task r"
  shows "\<exists>n. numbered_id (dget r ''short_id'') n" "is_text (dget r ''project_id'')"
  using row_ok_column [OF assms, of "''short_id''"] row_ok_column [OF assms, of "''project_id''"]
  by (simp_all add: column_names_def column_ok_def NULLABLE_TEXTS_def)

text \<open>So no column that may not be \<open>NULL\<close> is.\<close>

lemma column_ok_not_null:
  assumes "k \<in> set (not_null e)" "column_ok e k v"
  shows "v \<noteq> PNone"
  using assms by (cases e; auto simp: column_ok_def NULLABLE_TEXTS_def column_names_def is_text_def int_above_def numbered_id_def one_of_def)

lemma not_null_columns: "k \<in> set (not_null e) \<Longrightarrow> k \<in> set (column_names e)"
  by (cases e) (auto simp: column_names_def)

lemma row_ok_complete: "row_ok e r \<Longrightarrow> \<not> lacks_value e r"
  using row_ok_column not_null_columns column_ok_not_null by (fastforce simp: lacks_value_def list_ex_iff)

lemma typed_value: "typed e vals \<Longrightarrow> map_of vals k = Some v \<Longrightarrow> column_ok e k v"
  by (auto simp: typed_def list_all_iff dest: map_of_SomeD)

lemma typed_due: "typed e vals \<Longrightarrow> due_given vals"
  using typed_value [of e vals "''due_date''"] by (auto simp: due_given_def column_ok_def split: option.splits)

lemma typed_simps [simp]:
  "typed e []"
  "typed e ((k, v) # vals) = (column_ok e k v \<and> typed e vals)"
  "typed e (vals @ vals') = (typed e vals \<and> typed e vals')"
  by (simp_all add: typed_def)

lemma dset_in: "x \<in> set (dset d k v) \<Longrightarrow> x = (k, v) \<or> x \<in> set d"
  by (induction d k v rule: dset.induct) (auto split: if_splits)

lemma typed_dset: "typed e vals \<Longrightarrow> column_ok e k v \<Longrightarrow> typed e (dset vals k v)"
  by (auto simp: typed_def list_all_iff dest!: dset_in)

subsection \<open>Rows that are written\<close>

lemma one_of_cases: "one_of xs v \<Longrightarrow> (\<exists>s \<in> set xs. v = PStr s)"
  by (simp add: one_of_def)

lemma dget_new_row:
  assumes "distinct (map fst vals)"
  shows "dget (new_row env st e vals) k =
    (case map_of vals k of Some v \<Rightarrow> v | None \<Rightarrow> dget (stamped env st (le_id env (lg_ticks st)) @ columns e) k)"
  by (simp add: new_row_def dget_set_fields assms)

lemma map_of_None_iff: "map_of vals k = None \<longleftrightarrow> k \<notin> set (map fst vals)"
  by (simp add: map_of_eq_None_iff)

lemma new_row_default:
  assumes "distinct (map fst vals)" "k \<notin> set (map fst vals)"
  shows "dget (new_row env st e vals) k = dget (stamped env st (le_id env (lg_ticks st)) @ columns e) k"
proof -
  have "map_of vals k = None" using assms by (simp add: map_of_eq_None_iff)
  then show ?thesis using assms(1) by (simp add: dget_new_row)
qed

lemma new_row_given:
  assumes "distinct (map fst vals)" "k \<in> set (map fst vals)"
  shows "dget (new_row env st e vals) k = dget vals k"
proof -
  obtain v where "map_of vals k = Some v" using assms(2) by (cases "map_of vals k") (auto simp: map_of_eq_None_iff)
  then show ?thesis using assms(1) by (simp add: dget_new_row) (simp add: dget_def)
qed

lemma keys_dset_map: "set (map fst (dset d k v)) = insert k (set (map fst d))"
  using keys_dset [of d k v] by simp

lemma default_id [simp]: "dget (stamped env st i @ cs) ''id'' = PStr i"
  by (simp add: stamped_def dget_def)

lemmas default_simps = column_names_def stamped_def time_value_def dget_def column_ok_def NULLABLE_TEXTS_def text_or_none_def one_of_def
  PROJECT_STATUSES_def TASK_STATUSES_def due_ok_def owner_ok_def is_list_def

lemma defaults_ok: "list_all (\<lambda>k. k \<in> set (added e @ required e) \<or> column_ok e k (dget (stamped env st i @ columns e) k)) (column_names e)"
proof (cases e)
  case Project then show ?thesis by (simp add: default_simps)
next
  case Goal then show ?thesis by (simp add: default_simps)
next
  case Task then show ?thesis by (simp add: default_simps)
next
  case Note then show ?thesis by (simp add: default_simps)
next
  case Link then show ?thesis by (simp add: default_simps)
qed

lemma default_ok:
  "k \<in> set (column_names e) \<Longrightarrow> k \<notin> set (added e @ required e) \<Longrightarrow> column_ok e k (dget (stamped env st i @ columns e) k)"
  using defaults_ok [of e env st i] unfolding list_all_iff by blast

lemma column_simps: "set (map fst (columns Project)) = {''owner_id'', ''name'', ''why'', ''status'', ''context'', ''next_task''}"
  "set (map fst (columns Goal)) = {''project_id'', ''title'', ''definition_of_done'', ''target_date''}"
  "set (map fst (columns Task)) = {''project_id'', ''short_id'', ''title'', ''status'', ''owner'', ''due_date'', ''goal_id'',
     ''parent_task_id'', ''declared_files'', ''done_at''}"
  "set (map fst (columns Note)) = {''project_id'', ''decided'', ''why'', ''thread_id''}"
  "set (map fst (columns Link)) = {''from_kind'', ''from_id'', ''to_kind'', ''to_ref'', ''label'', ''todo_ref''}"
  by auto

lemma server_columns: "''owner_id'' \<in> set (map fst (columns Project))" "''short_id'' \<in> set (map fst (columns Task))"
  unfolding column_simps by simp_all

lemma default_columns: "has_columns e (stamped env st i @ columns e)"
  by (cases e) (simp_all add: has_columns_def column_names_def stamped_def)

declare columns.simps [simp del]

lemma has_columns_dset: "has_columns e r \<Longrightarrow> k \<in> set (column_names e) \<Longrightarrow> has_columns e (dset r k v)"
  unfolding has_columns_def keys_dset_map using distinct_dset by auto

lemma has_columns_set_fields: "has_columns e r \<Longrightarrow> set (map fst vals) \<subseteq> set (column_names e) \<Longrightarrow> has_columns e (set_fields r vals)"
proof (induction vals arbitrary: r)
  case (Cons kv vals)
  obtain k v where kv: "kv = (k, v)" by fastforce
  then show ?case using Cons has_columns_dset [of e r k v] by simp
qed simp

lemma numbered_columns: "has_columns Project r \<Longrightarrow> has_columns Project (numbered env st r)"
  unfolding numbered_def by (rule has_columns_set_fields) (simp_all add: column_names_def column_simps del: set_map)

lemma updated_columns:
  assumes "has_columns e r" "set (map fst vals) \<subseteq> set (column_names e)"
  shows "has_columns e (updated_row env st e r vals)"
proof -
  have t: "''version'' \<in> set (column_names e)" "''updated_at'' \<in> set (column_names e)" by (simp_all add: column_names_def)
  have d: "e = Task \<Longrightarrow> ''done_at'' \<in> set (column_names e)" by (simp add: column_names_def column_simps del: set_map)
  have s: "has_columns e (set_fields r vals)" by (rule has_columns_set_fields [OF assms])
  have "has_columns e (if e = Task \<and> map_of vals ''status'' \<noteq> None then dset (set_fields r vals) ''done_at'' v else set_fields r vals)" for v
    using has_columns_dset [OF s d] s by simp
  then show ?thesis unfolding updated_row_def Let_def by (rule has_columns_set_fields) (use t in simp)
qed

lemma new_row_columns: "set (map fst vals) \<subseteq> set (map fst (columns e)) \<Longrightarrow> has_columns e (new_row env st e vals)"
  unfolding new_row_def by (rule has_columns_set_fields [OF default_columns]) (auto simp: column_names_def)

subsection \<open>One row put in its place\<close>

lemma same_on_sym: "same_on ks r r' = same_on ks r' r"
  by (auto simp: same_on_def list_all_iff)

lemma not_violating:
  assumes "filed st" "\<not> violates env st e i r" "row st e j = Some r'" "j \<noteq> i"
  shows "\<not> same_on (unique_columns e) r r'"
  using assms in_rows [of st e j r'] by (auto simp: violates_def list_ex_iff)

lemma wf_mono: "ledger_wf env k st \<Longrightarrow> k \<le> k' \<Longrightarrow> ledger_wf env k' st"
  by (auto simp: ledger_wf_def ids_fresh_def)

lemma wf_record [simp]: "ledger_wf env k (record_change env' st sp e i b a) = ledger_wf env k st"
  by (simp add: ledger_wf_def ids_fresh_def tasks_numbered_def keys_unique_def)

lemma wf_put:
  assumes wf: "ledger_wf env k st"
    and own: "dget r ''id'' = PStr i" "row_ok e r" "\<And>n. k \<le> n \<Longrightarrow> i \<noteq> le_id env n"
    and task: "e = Task \<Longrightarrow> (\<forall>n \<ge> k. dget r ''project_id'' \<noteq> PStr (le_id env n))
      \<and> (\<forall>p pr n. dget r ''project_id'' = PStr p \<longrightarrow> row st Project p = Some pr \<longrightarrow> numbered_id (dget r ''short_id'') n \<longrightarrow> n < next_task pr)"
    and project: "\<And>j t n. e = Project \<Longrightarrow> row st Task j = Some t \<Longrightarrow> dget t ''project_id'' = PStr i
      \<Longrightarrow> numbered_id (dget t ''short_id'') n \<Longrightarrow> n < next_task r"
    and unique: "\<And>j r'. row st e j = Some r' \<Longrightarrow> j \<noteq> i \<Longrightarrow> \<not> same_on (unique_columns e) r r'"
  shows "ledger_wf env k (put_row st e i r)"
proof -
  have "filed (put_row st e i r)" using wf own by (simp add: ledger_wf_def filed_put)
  moreover have "ids_fresh env k (put_row st e i r)"
    using wf task unfolding ledger_wf_def ids_fresh_def by (auto dest: own(3))
  moreover have "tasks_numbered (put_row st e i r)"
    unfolding tasks_numbered_def
  proof (intro allI impI)
    fix j t p pr n
    assume h: "row (put_row st e i r) Task j = Some t" "dget t ''project_id'' = PStr p" "row (put_row st e i r) Project p = Some pr"
      "numbered_id (dget t ''short_id'') n"
    have num: "tasks_numbered st" using wf by (simp add: ledger_wf_def)
    show "n < next_task pr"
    proof (cases "e = Task \<and> j = i")
      case True
      then show ?thesis using h task by auto
    next
      case False
      with h(1) have t: "row st Task j = Some t" by (auto split: if_splits)
      show ?thesis
      proof (cases "e = Project \<and> p = i")
        case True
        then show ?thesis using h t project [of j t n] by auto
      next
        case False
        with h(3) have "row st Project p = Some pr" by (auto split: if_splits)
        then show ?thesis using h t num by (auto simp: tasks_numbered_def)
      qed
    qed
  qed
  moreover have "keys_unique (put_row st e i r)"
    using wf unique unfolding keys_unique_def ledger_wf_def by (auto simp: same_on_sym [of _ _ r] split: if_splits)
  ultimately show ?thesis using wf own by (auto simp: ledger_wf_def)
qed

subsection \<open>Each write keeps the invariant\<close>

lemma given_in: "dget vals k \<noteq> PNone \<Longrightarrow> k \<in> set (map fst vals)"
  by (auto simp: dget_def split: option.splits dest: map_of_SomeD) (force dest: map_of_SomeD)

lemma new_row_ok:
  assumes d: "distinct (map fst vals)" and t: "typed e vals" and cols: "set (map fst vals) \<subseteq> set (map fst (columns e))"
    and id: "''id'' \<notin> set (map fst vals)" and req: "set (added e @ required e) \<subseteq> set (map fst vals)"
  shows "row_ok e (new_row env st e vals)" "dget (new_row env st e vals) ''id'' = PStr (le_id env (lg_ticks st))"
proof -
  have "column_ok e k (dget (new_row env st e vals) k)" if k: "k \<in> set (column_names e)" for k
  proof (cases "map_of vals k")
    case None
    then have "k \<notin> set (added e @ required e)" using req unfolding map_of_eq_None_iff by auto
    with None show ?thesis using default_ok [OF k] by (simp add: dget_new_row [OF d])
  next
    case (Some v)
    with typed_value [OF t Some] show ?thesis by (simp add: dget_new_row [OF d] del: map_of_eq_Some_iff)
  qed
  then show "row_ok e (new_row env st e vals)" using new_row_columns [OF cols] by (simp add: row_ok_def)
  show "dget (new_row env st e vals) ''id'' = PStr (le_id env (lg_ticks st))" using new_row_default [OF d id] by (simp add: default_id)
qed

lemma numbered_row_ok:
  assumes "row_ok Project r"
  shows "row_ok Project (numbered env st r)"
proof -
  have "column_ok Project k (dget (numbered env st r) k)" if "k \<in> set (column_names Project)" for k
  proof -
    have "column_ok Project ''updated_at'' (time_value env st)" "column_ok Project ''next_task'' (PInt (next_task r + 1))"
      using next_task_above [OF row_ok_Project [OF assms]] by (simp_all add: column_ok_def NULLABLE_TEXTS_def time_value_def)
    then show ?thesis using row_ok_column [OF assms that] by simp
  qed
  then show ?thesis using numbered_columns [OF row_ok_columns [OF assms]] by (simp add: row_ok_def)
qed

lemma fresh_ne: "ledger_ok env st \<Longrightarrow> Suc (lg_ticks st) \<le> n \<Longrightarrow> le_id env (lg_ticks st) \<noteq> le_id env n"
  by (auto simp: ledger_ok_def ledger_wf_def ids_fresh_def dest: injD)

lemma fresh_row: "ledger_ok env st \<Longrightarrow> lg_ticks st \<le> n \<Longrightarrow> row st e (le_id env n) = None"
  by (auto simp: ledger_ok_def ledger_wf_def ids_fresh_def)

lemma wf_ok: "ledger_wf env (Suc (lg_ticks st)) st \<Longrightarrow> ledger_ok env (record_change env' st sp e i b a)"
  by (simp add: ledger_ok_def)

lemma creatable_distinct: "creatable st e vals \<Longrightarrow> distinct (map fst vals)"
  by (simp only: creatable_def)

text \<open>The row a creation writes, with the column the repository adds.\<close>

lemma creatableD:
  assumes "creatable st e vals"
  shows "set (map fst vals) \<subseteq> set (map fst (columns e))" "typed e vals"
    and "set (map fst vals) \<inter> {''id'', ''version'', ''created_at'', ''updated_at'', ''owner_id'', ''short_id'', ''next_task''} = {}"
    and "set (required e) \<subseteq> set (map fst vals)"
  using assms by (simp_all only: creatable_def)

lemma creatableI:
  assumes "distinct (map fst vals)" "set (map fst vals) \<subseteq> set (map fst (columns e))" "typed e vals"
    and "set (map fst vals) \<inter> {''id'', ''version'', ''created_at'', ''updated_at'', ''owner_id'', ''short_id'', ''next_task''} = {}"
    and "set (required e) \<subseteq> set (map fst vals)"
    and "e \<in> {Goal, Task, Note} \<Longrightarrow> \<exists>p. dget vals ''project_id'' = PStr p \<and> row st Project p \<noteq> None"
  shows "creatable st e vals"
  unfolding creatable_def by (intro conjI impI assms)

lemma creatable_id: "creatable st e vals \<Longrightarrow> ''id'' \<notin> set (map fst vals)"
  using creatableD(3) by blast

lemma created_plain_ok:
  assumes can: "creatable st e vals" and e: "e \<notin> {Project, Task}"
  shows "row_ok e (new_row env st' e vals) \<and> dget (new_row env st' e vals) ''id'' = PStr (le_id env (lg_ticks st'))"
proof -
  have "added e = []" using e by (cases e) simp_all
  then have "set (added e @ required e) \<subseteq> set (map fst vals)" using creatableD(4) [OF can] by simp
  then show ?thesis
    using new_row_ok [OF creatable_distinct [OF can] creatableD(2,1) [OF can] creatable_id [OF can]] by (simp only: conj_assoc)
qed

lemma created_server_ok:
  assumes can: "creatable st e vals" and k: "k \<in> set (map fst (columns e))" "added e = [k]" "k \<noteq> ''id''"
    and v: "column_ok e k v"
  shows "row_ok e (new_row env st' e (dset vals k v)) \<and> dget (new_row env st' e (dset vals k v)) ''id'' = PStr (le_id env (lg_ticks st'))"
proof -
  let ?vals = "dset vals k v"
  have t: "typed e ?vals" by (rule typed_dset [OF creatableD(2) [OF can] v])
  have d: "distinct (map fst ?vals)" using creatable_distinct [OF can] by (rule distinct_dset)
  have c: "set (map fst ?vals) \<subseteq> set (map fst (columns e))" using creatableD(1) [OF can] k(1) unfolding keys_dset_map by blast
  have i: "''id'' \<notin> set (map fst ?vals)" using creatable_id [OF can] k(3) unfolding keys_dset_map by blast
  have r: "set (added e @ required e) \<subseteq> set (map fst ?vals)" using creatableD(4) [OF can] k(2) unfolding keys_dset_map by auto
  show ?thesis using new_row_ok [OF d t c i r] by (simp only: conj_assoc)
qed

lemma created_row_ok:
  assumes can: "creatable st e vals" and e: "e \<noteq> Task"
  shows "row_ok e (new_row env st' e (if e = Project then dset vals ''owner_id'' (PStr u) else vals))
    \<and> dget (new_row env st' e (if e = Project then dset vals ''owner_id'' (PStr u) else vals)) ''id'' = PStr (le_id env (lg_ticks st'))"
proof (cases "e = Project")
  case True
  have "column_ok Project ''owner_id'' (PStr u)" by (simp add: column_ok_def NULLABLE_TEXTS_def)
  with can show ?thesis unfolding True by (simp only: if_True refl, intro created_server_ok) (use server_columns in simp_all)
next
  case False
  then show ?thesis using created_plain_ok [OF can] e by simp
qed

lemma created_task_ok:
  assumes can: "creatable st Task vals" and n: "1 \<le> n"
  shows "row_ok Task (new_row env st' Task (dset vals ''short_id'' (PStr (short_id n))))
    \<and> dget (new_row env st' Task (dset vals ''short_id'' (PStr (short_id n)))) ''id'' = PStr (le_id env (lg_ticks st'))"
  by (rule created_server_ok [OF can]) (use n server_columns in \<open>auto simp: column_ok_def numbered_id_def simp del: set_map\<close>)

lemma create_ok:
  assumes ok: "ledger_ok env st" and can: "creatable st e vals" and c: "create env st e sp vals = Inr (st', r)"
  shows "ledger_ok env st'"
proof (cases "e = Task")
  case False
  let ?i = "le_id env (lg_ticks st)" and ?vals = "if e = Project then dset vals ''owner_id'' (PStr (sp_owner sp)) else vals"
  from c False show ?thesis
  proof (rule create_plainE)
    assume r: "r = new_row env st e ?vals" and st': "st' = record_change env (put_row st e ?i r) sp e ?i None (Some r)"
      and nv: "\<not> violates env st e ?i r"
    have d: "distinct (map fst ?vals)" using creatable_distinct [OF can] by (simp add: distinct_dset)
    have r_ok: "row_ok e r" "dget r ''id'' = PStr ?i"
      unfolding r using created_row_ok [OF can False, of env st "sp_owner sp"] by (simp_all only:)
    have tasks: "row st Task j = Some t \<Longrightarrow> dget t ''project_id'' \<noteq> PStr ?i" for j t
      using ok by (auto simp: ledger_ok_def ledger_wf_def ids_fresh_def)
    have "ledger_wf env (Suc (lg_ticks st)) (put_row st e ?i r)"
    proof (rule wf_put)
      show "ledger_wf env (Suc (lg_ticks st)) st" using ok by (auto simp: ledger_ok_def intro: wf_mono)
    qed (use r_ok False tasks fresh_ne [OF ok] not_violating [OF ledger_ok_filed [OF ok] nv] in auto)
    then show ?thesis unfolding st' by (simp add: ledger_ok_def)
  qed
next
  case True
  let ?i = "le_id env (lg_ticks st)"
  from c [unfolded True] show ?thesis
  proof (rule create_taskE)
    fix p project
    let ?n = "next_task project" and ?st = "put_row st Project p (numbered env st project)"
    let ?vals = "dset vals ''short_id'' (PStr (short_id ?n))"
    assume p: "dget vals ''project_id'' = PStr p" "row st Project p = Some project"
      and r: "r = new_row env st Task ?vals" and nv: "\<not> violates env ?st Task ?i r"
      and st': "st' = record_change env (put_row ?st Task ?i r) sp Task ?i None (Some r)"
    have pr: "row_ok Project project" using ok p(2) by (rule ledger_ok_row)
    then have n: "1 \<le> ?n" using next_task_above row_ok_Project by blast
    have d: "distinct (map fst ?vals)" using creatable_distinct [OF can] by (simp add: distinct_dset)
    have r_ok: "row_ok Task r" "dget r ''id'' = PStr ?i"
      unfolding r using created_task_ok [OF can [unfolded True] n, of env st] by (simp_all only:)
    have r_cols: "dget r ''project_id'' = PStr p" "dget r ''short_id'' = PStr (short_id ?n)"
      unfolding r using p(1) by (simp_all add: new_row_given [OF d] keys_dset_map given_in dget_dset_if del: set_map)
    have p_old: "lg_ticks st \<le> m \<Longrightarrow> p \<noteq> le_id env m" for m using fresh_row [OF ok, of m Project] p(2) by auto
    have wf: "ledger_wf env (lg_ticks st) st" using ok by (simp add: ledger_ok_def)
    then have num: "tasks_numbered st" by (simp add: ledger_wf_def)
    have st1: "ledger_wf env (lg_ticks st) ?st"
    proof (rule wf_put [OF wf])
      show "dget (numbered env st project) ''id'' = PStr p" using ledger_ok_filed [OF ok] p(2) by (simp add: filed_def)
      show "row_ok Project (numbered env st project)" by (rule numbered_row_ok [OF pr])
      show "m < next_task (numbered env st project)"
        if "row st Task j = Some t" "dget t ''project_id'' = PStr p" "numbered_id (dget t ''short_id'') m" for j t m
        using num that p(2) by (fastforce simp: tasks_numbered_def)
      show "\<not> same_on (unique_columns Project) (numbered env st project) r'" if "row st Project j = Some r'" "j \<noteq> p" for j r'
        using ledger_ok_filed [OF ok] that p(2) by (simp add: same_on_def filed_def)
    qed (use p_old in auto)
    have "ledger_wf env (Suc (lg_ticks st)) (put_row ?st Task ?i r)"
    proof (rule wf_put [OF wf_mono [OF st1]])
      show "(\<forall>n \<ge> Suc (lg_ticks st). dget r ''project_id'' \<noteq> PStr (le_id env n))
        \<and> (\<forall>q pr m. dget r ''project_id'' = PStr q \<longrightarrow> row ?st Project q = Some pr \<longrightarrow> numbered_id (dget r ''short_id'') m \<longrightarrow> m < next_task pr)"
        using r_cols p_old n by (auto simp: numbered_id_def short_id_inj)
      show "\<not> same_on (unique_columns Task) r r'" if "row ?st Task j = Some r'" "j \<noteq> ?i" for j r'
        by (rule not_violating [OF _ nv that]) (use st1 in \<open>simp add: ledger_wf_def\<close>)
    qed (use r_ok fresh_ne [OF ok] in auto)
    then show ?thesis unfolding st' by (simp add: ledger_ok_def)
  qed
qed

lemma updated_fixed:
  assumes "settable e vals" "k \<in> set FIXED" "k \<notin> {''version'', ''updated_at''}"
  shows "dget (updated_row env st e r vals) k = dget r k"
proof -
  have "k \<notin> fst ` set vals" using assms(1,2) by (auto simp: settable_def)
  moreover have "k \<noteq> ''done_at''" using assms(2) by (auto simp: FIXED_def)
  ultimately show ?thesis using assms(3) by (simp add: dget_updated_row dget_set_fields_other)
qed

lemmas updated_cols = updated_fixed [of _ _ "''id''"] updated_fixed [of _ _ "''next_task''"] updated_fixed [of _ _ "''owner_id''"]
  updated_fixed [of _ _ "''project_id''"] updated_fixed [of _ _ "''short_id''"] updated_fixed [of _ _ "''from_kind''"]
  updated_fixed [of _ _ "''from_id''"] updated_fixed [of _ _ "''to_kind''"] updated_fixed [of _ _ "''to_ref''"]

lemma version_above: "int_above (dget r ''version'') \<Longrightarrow> 1 \<le> version_of r \<and> dget r ''version'' = PInt (version_of r)"
  by (auto simp: int_above_def version_of_def split: py.splits)

lemma updated_row_ok:
  assumes set: "settable e vals" and ok: "row_ok e r"
  shows "row_ok e (updated_row env st e r vals)"
proof -
  have d: "distinct (map fst vals)" and t: "typed e vals" and sub: "set (map fst vals) \<subseteq> set (column_names e)"
    using set unfolding settable_def by blast+
  have v: "1 \<le> version_of r" using version_above [OF row_ok_version [OF ok]] by simp
  have "column_ok e k (dget (updated_row env st e r vals) k)" if k: "k \<in> set (column_names e)" for k
  proof -
    have "column_ok e k (dget (set_fields r vals) k)"
      using typed_value [OF t, of k] row_ok_column [OF ok k]
      by (cases "map_of vals k") (simp_all add: dget_set_fields [OF d] del: map_of_eq_Some_iff)
    moreover have "column_ok e ''updated_at'' (time_value env st)" "column_ok e ''version'' (PInt (version_of r + 1))"
      "column_ok e ''done_at'' (time_value env st)" "column_ok e ''done_at'' PNone"
      using v by (simp_all add: column_ok_def NULLABLE_TEXTS_def time_value_def text_or_none_def)
    ultimately show ?thesis unfolding dget_updated_row by (auto simp del: not_None_eq)
  qed
  then show ?thesis using updated_columns [OF row_ok_columns [OF ok] sub] by (simp add: row_ok_def)
qed

lemma same_on_cong: "(\<And>k. k \<in> set ks \<Longrightarrow> dget r k = dget r' k) \<Longrightarrow> same_on ks r s = same_on ks r' s"
  by (simp add: same_on_def list_all_iff)

lemma update_ok:
  assumes ok: "ledger_ok env st" and set: "settable e vals" and u: "update env st e i sp version vals = Inr (st', a)"
  shows "ledger_ok env st'"
  using u
proof (rule updateE)
  fix before
  let ?r = "updated_row env st e before vals"
  assume r: "row st e i = Some before" and st': "st' = record_change env (put_row st e i ?r) sp e i (Some before) (Some ?r)"
    and nv: "\<not> violates env st e i ?r"
  have wf: "ledger_wf env (lg_ticks st) st" using ok by (simp add: ledger_ok_def)
  then have num: "tasks_numbered st" and fresh: "ids_fresh env (lg_ticks st) st" by (simp_all add: ledger_wf_def)
  have cols: "dget ?r k = dget before k" if "k \<in> {''id'', ''next_task'', ''project_id'', ''short_id''}" for k
    using updated_cols [OF set, of env st before] that by (auto simp: FIXED_def)
  have "ledger_wf env (lg_ticks st) (put_row st e i ?r)"
  proof (rule wf_put [OF wf])
    show "dget ?r ''id'' = PStr i" using cols ledger_ok_filed [OF ok] r by (simp add: filed_def)
    show "row_ok e ?r" by (rule updated_row_ok [OF set ledger_ok_row [OF ok r]])
    show "i \<noteq> le_id env n" if "lg_ticks st \<le> n" for n using fresh_row [OF ok that, of e] r by auto
    show "(\<forall>n \<ge> lg_ticks st. dget ?r ''project_id'' \<noteq> PStr (le_id env n))
        \<and> (\<forall>p pr n. dget ?r ''project_id'' = PStr p \<longrightarrow> row st Project p = Some pr \<longrightarrow> numbered_id (dget ?r ''short_id'') n \<longrightarrow> n < next_task pr)"
      if "e = Task" using that r cols num fresh by (auto simp: ids_fresh_def tasks_numbered_def)
    show "n < next_task ?r" if "e = Project" "row st Task j = Some t" "dget t ''project_id'' = PStr i" "numbered_id (dget t ''short_id'') n" for j t n
      using that r num cols by (fastforce simp: tasks_numbered_def next_task_def)
  qed (use not_violating [OF ledger_ok_filed [OF ok] nv] in auto)
  then show ?thesis unfolding st' by (simp add: ledger_ok_def wf_mono)
qed (use ok in simp)

lemma link_ok:
  assumes "ledger_ok env st" "creatable st Link vals" "link env st sp vals = Inr (st', r)"
  shows "ledger_ok env st'"
  using assms(3) by (rule linkE) (use assms create_ok in auto)

lemma wf_drop: "ledger_wf env k st \<Longrightarrow> ledger_wf env k (drop_row st e i)"
  unfolding ledger_wf_def ids_fresh_def tasks_numbered_def keys_unique_def by (simp add: filed_drop split: if_splits)

lemma remove_ok:
  assumes ok: "ledger_ok env st" and u: "remove env st e i sp version = Inr (st', a)"
  shows "ledger_ok env st'"
  using u
proof (rule removeE)
  fix before assume st': "st' = record_change env (drop_row st e i) sp e i (Some before) None"
  have "ledger_wf env (Suc (lg_ticks st)) (drop_row st e i)" using ok by (auto simp: ledger_ok_def intro: wf_drop wf_mono)
  then show ?thesis unfolding st' by (simp add: ledger_ok_def)
qed (use ok in simp)

lemma unlink_ok: "ledger_ok env st \<Longrightarrow> ledger_ok env (fst (unlink env st i sp))"
  by (auto simp: unlink_def ledger_ok_def intro: wf_drop wf_mono split: option.splits)

subsection \<open>What a change resolves to\<close>

lemma own_project_row: "own_project st i user = Some r \<Longrightarrow> row st Project i = Some r \<and> dget r ''owner_id'' = PStr user"
  by (auto simp: own_project_def split: option.splits if_splits)

definition resolves :: "ledger \<Rightarrow> string \<Rightarrow> dict \<Rightarrow> bool" where
  "resolves st user project = (own_project st (row_id project) user = Some project)"

definition resolves_task :: "ledger \<Rightarrow> string \<Rightarrow> dict \<Rightarrow> bool" where
  "resolves_task st user task = (row st Task (row_id task) = Some task \<and> own_task st user task)"

lemma own_resolves: "filed st \<Longrightarrow> own_project st i user = Some r \<Longrightarrow> resolves st user r"
  using own_project_row filed_id by (fastforce simp: resolves_def)

lemma owned_resolves:
  assumes "filed st" "r \<in> set (owned st user)"
  shows "resolves st user r"
proof -
  have "row st Project (row_id r) = Some r" using assms rows_of_row by (auto simp: owned_def)
  then show ?thesis using assms(2) by (simp add: resolves_def own_project_def owned_def)
qed

lemma named_owned: "set (named_projects env st user key) \<subseteq> set (owned st user)"
  by (auto simp: named_projects_def Let_def)

lemma find_project_resolves:
  assumes "filed st" "find_project env st user ref refs = Inr r"
  shows "resolves st user r"
proof -
  let ?key = "py_str (le_fstr env) ref"
  consider i where "own_project st i user = Some r" | "named_projects env st user ?key = [r]"
    using assms(2) by (auto simp: find_project_def Let_def split: if_splits option.splits list.splits)
  then show ?thesis
  proof cases
    case 2
    then have "r \<in> set (owned st user)" using named_owned [of env st user ?key] by simp
    then show ?thesis by (rule owned_resolves [OF assms(1)])
  qed (use assms(1) own_resolves in auto)
qed

lemma pinned_project_resolves: "filed st \<Longrightarrow> pinned_project env st user i = Inr r \<Longrightarrow> resolves st user r"
  by (auto simp: pinned_project_def intro: own_resolves split: option.splits)

lemma the_one_in: "the_one none many xs ys = Inr r \<Longrightarrow> r \<in> set xs \<union> set ys"
  by (auto simp: the_one_def split: list.splits)

lemma found_in: "find P xs = Some x \<Longrightarrow> x \<in> set xs \<and> P x"
  by (auto simp: find_Some_iff)

lemma find_task_in:
  assumes "find_task env st project ref named = Inr r"
  shows "r \<in> set (rows_of st Task)" "dget r ''project_id'' = PStr project"
  using assms by (auto simp: find_task_def Let_def children_def dest!: the_one_in found_in split: if_splits option.splits)

lemma own_task_of: "dget r ''project_id'' = PStr p \<Longrightarrow> own_task st user r = (own_project st p user \<noteq> None)"
  by (simp add: own_task_def project_of_def)

lemma find_task_resolves:
  assumes "filed st" "find_task env st (row_id project) ref named = Inr r" "resolves st user project"
  shows "resolves_task st user r"
  using rows_of_row [OF assms(1) find_task_in(1) [OF assms(2)]] assms(3) own_task_of [OF find_task_in(2) [OF assms(2)]]
  by (simp add: resolves_task_def resolves_def)

lemma pinned_task_resolves: "filed st \<Longrightarrow> pinned_task env st user pin = Inr r \<Longrightarrow> resolves_task st user r"
  by (auto simp: pinned_task_def Let_def resolves_task_def filed_id split: option.splits if_splits)

lemma task_anywhere_resolves:
  assumes "filed st" "task_anywhere env st user ref = Inr r"
  shows "resolves_task st user r"
proof -
  have "r \<in> set (filter (own_task st user) (rows_of st Task))"
    using assms(2) by (auto simp: task_anywhere_def Let_def dest!: the_one_in found_in split: if_splits option.splits)
  then show ?thesis using rows_of_row [OF assms(1)] by (auto simp: resolves_task_def)
qed

lemma resolve_change_resolves:
  assumes "filed (pr_ledger run)" "resolve_change env call c run = Inr (task, project, named)"
  shows "resolves (pr_ledger run) (pc_user call) project"
    and "task = Some t \<Longrightarrow> resolves_task (pr_ledger run) (pc_user call) t"
  using assms find_project_resolves pinned_project_resolves pinned_task_resolves task_anywhere_resolves
  by (auto simp: resolve_change_def Let_def bind_res_Inr split: if_splits)

end
