(* ===== verification/Plan_Invariant.thy ===== *)
theory Plan_Invariant
  imports Ledger_Invariant
begin

text \<open>
  Properties of ledgers that every plan keeps. The locale \<open>plan_invariant\<close> asks two things of a
  property: that it survives a creation and an update as a plan makes them (a child only under the
  user's own project, an update only of a task under one, with settable fields, and with the plan's
  own stamp). Inside it the property is carried through every operation of a plan, the loop over its
  changes and the batch of cards. The first interpretation is the invariant of \<open>Ledger_Invariant\<close>.
\<close>

subsection \<open>What a plan may write\<close>

definition may_link :: "ledger \<Rightarrow> string \<Rightarrow> dict \<Rightarrow> bool" where
  "may_link st user vals =
     ((\<exists>i. dget vals ''from_kind'' = PStr ''project'' \<and> dget vals ''from_id'' = PStr i \<and> own_project st i user \<noteq> None)
      \<or> (\<exists>i t. dget vals ''from_kind'' = PStr ''task'' \<and> dget vals ''from_id'' = PStr i \<and> row st Task i = Some t \<and> own_task st user t))"

definition may_create :: "ledger \<Rightarrow> string \<Rightarrow> entity \<Rightarrow> dict \<Rightarrow> bool" where
  "may_create st user e vals =
     (creatable st e vals
      \<and> (e \<in> {Goal, Task, Note} \<longrightarrow> (\<exists>p. dget vals ''project_id'' = PStr p \<and> own_project st p user \<noteq> None))
      \<and> (e = Link \<longrightarrow> may_link st user vals))"

definition plan_stamp :: "plan_call \<Rightarrow> stamp \<Rightarrow> bool" where
  "plan_stamp call sp = (sp = stamp_of call \<or> sp = link_stamp call)"

lemma plan_stamps [simp]: "plan_stamp call (stamp_of call)" "plan_stamp call (link_stamp call)"
  by (simp_all add: plan_stamp_def)

subsection \<open>The rows a creation leaves\<close>

lemma created_row:
  assumes "create env st e sp vals = Inr (st', r)" "creatable st e vals"
  shows "row st' e (row_id r) = Some r" "row_id r = le_id env (lg_ticks st)"
    and "e = Project \<Longrightarrow> dget r ''owner_id'' = PStr (sp_owner sp)"
    and "e = Task \<Longrightarrow> dget r ''project_id'' = dget vals ''project_id''"
proof -
  have d: "distinct (map fst (dset vals k v))" for k v
    using creatable_distinct [OF assms(2)] by (rule distinct_dset)
  have keys: "''id'' \<notin> set (map fst vals)" using assms(2) by (auto simp: creatable_def)
  have goal: "row st' e (row_id r) = Some r \<and> row_id r = le_id env (lg_ticks st)
      \<and> (e = Project \<longrightarrow> dget r ''owner_id'' = PStr (sp_owner sp)) \<and> (e = Task \<longrightarrow> dget r ''project_id'' = dget vals ''project_id'')"
  proof (cases "e = Task")
    case True
    from assms(1) [unfolded True] show ?thesis
    proof (rule create_taskE)
      fix p project assume p: "dget vals ''project_id'' = PStr p"
        and r: "r = new_row env st Task (dset vals ''short_id'' (PStr (short_id (next_task project))))"
        and st': "st' = record_change env (put_row (put_row st Project p (numbered env st project)) Task (le_id env (lg_ticks st)) r)
          sp Task (le_id env (lg_ticks st)) None (Some r)"
      have "dget r ''id'' = PStr (le_id env (lg_ticks st))" unfolding r using keys by (subst new_row_default [OF d]; simp add: keys_dset_map del: set_map)
      moreover have "dget r ''project_id'' = dget vals ''project_id''"
        unfolding r using p by (subst new_row_given [OF d]) (simp_all add: keys_dset_map given_in dget_dset_if del: set_map)
      ultimately show ?thesis using True st' by (simp add: row_id_def)
    qed
  next
    case False
    from assms(1) False show ?thesis
    proof (rule create_plainE)
      assume r: "r = new_row env st e (if e = Project then dset vals ''owner_id'' (PStr (sp_owner sp)) else vals)"
        and st': "st' = record_change env (put_row st e (le_id env (lg_ticks st)) r) sp e (le_id env (lg_ticks st)) None (Some r)"
      have d': "distinct (map fst vals)" using assms(2) by (simp add: creatable_def)
      have "dget r ''id'' = PStr (le_id env (lg_ticks st))"
        unfolding r using keys by (cases "e = Project"; simp del: set_map; subst new_row_default; simp add: d d' keys_dset_map del: set_map)
      moreover have "dget r ''owner_id'' = PStr (sp_owner sp)" if "e = Project"
        unfolding r using that by simp (subst new_row_given [OF d]; simp add: keys_dset_map dget_dset_if del: set_map)
      ultimately show ?thesis using False st' by (simp add: row_id_def)
    qed
  qed
  then show "row st' e (row_id r) = Some r" "row_id r = le_id env (lg_ticks st)"
    and "e = Project \<Longrightarrow> dget r ''owner_id'' = PStr (sp_owner sp)"
    and "e = Task \<Longrightarrow> dget r ''project_id'' = dget vals ''project_id''" by auto
qed

lemma create_keeps_project:
  assumes "create env st e sp vals = Inr (st', r)" "own_project st p user \<noteq> None"
  shows "own_project st' p user \<noteq> None"
proof (cases "e = Task")
  case True
  from assms(1) [unfolded True] show ?thesis
    by (rule create_taskE) (use assms(2) in \<open>auto simp: own_project_def split: option.splits if_splits\<close>)
next
  case False
  from assms(1) False show ?thesis
    by (rule create_plainE) (use assms(2) in \<open>auto simp: own_project_def split: option.splits if_splits\<close>)
qed

lemma link_keeps_row: "link env st sp vals = Inr (st', l) \<Longrightarrow> row st' Project i = row st Project i"
  by (erule linkE) (auto elim!: create_plainE)

subsection \<open>The operations of a plan, when they succeed\<close>

lemma bind_prod_Inr: "bind_res r (\<lambda>(a, b). f a b) = Inr c \<longleftrightarrow> (\<exists>a b. r = Inr (a, b) \<and> f a b = Inr c)"
  by (cases r) (auto split: prod.splits)

lemma ledger_status_one: "ledger_status fstr what names v = Inr x \<longleftrightarrow> one_of names v \<and> x = v"
  by (auto simp: ledger_status_def)

text \<open>The type of what each reader of a field returns.\<close>

lemma field_types:
  "ledger_text fstr c k n True = Inr x \<Longrightarrow> is_text x"
  "ledger_text fstr c k n False = Inr x \<Longrightarrow> text_or_none x"
  "ledger_owner fstr v = Inr x \<Longrightarrow> owner_ok x"
  by (auto simp: ledger_text_def ledger_owner_def text_or_none_def owner_ok_def Let_def split: if_splits py.splits option.splits)

lemma text_or_none_simps [simp]: "text_or_none PNone" "text_or_none (PStr s)"
  by (simp_all add: text_or_none_def)

definition project_values :: "py \<Rightarrow> py \<Rightarrow> py \<Rightarrow> py \<Rightarrow> dict" where
  "project_values name why ctx status = [(''name'', name), (''why'', why), (''context'', ctx), (''status'', status)]"

definition goal_values :: "dict \<Rightarrow> py \<Rightarrow> py \<Rightarrow> py \<Rightarrow> dict" where
  "goal_values project title finished target =
     [(''project_id'', PStr (row_id project)), (''title'', title), (''definition_of_done'', finished), (''target_date'', target)]"

definition task_values :: "dict \<Rightarrow> py \<Rightarrow> py \<Rightarrow> py \<Rightarrow> py \<Rightarrow> py \<Rightarrow> dict" where
  "task_values project title status due owner goal =
     [(''project_id'', PStr (row_id project)), (''title'', title), (''status'', status), (''due_date'', due), (''owner'', owner),
      (''goal_id'', goal), (''declared_files'', PList [])]"

definition note_values :: "dict \<Rightarrow> py \<Rightarrow> py \<Rightarrow> py \<Rightarrow> dict" where
  "note_values project decided why thread =
     [(''project_id'', PStr (row_id project)), (''decided'', decided), (''why'', why), (''thread_id'', thread)]"

lemma typed_plan:
  "typed Project (project_values name why ctx status) = (is_text name \<and> text_or_none why \<and> text_or_none ctx \<and> one_of PROJECT_STATUSES status)"
  "typed Goal (goal_values project title finished target) = (is_text title \<and> is_text finished \<and> due_ok target)"
  "typed Task (task_values project title status' due owner goal) =
     (is_text title \<and> one_of TASK_STATUSES status' \<and> due_ok due \<and> owner_ok owner \<and> text_or_none goal)"
  "typed Note (note_values project decided why' thread) = (is_text decided \<and> text_or_none why' \<and> text_or_none thread)"
  by (simp_all add: project_values_def goal_values_def task_values_def note_values_def column_ok_def NULLABLE_TEXTS_def is_list_def)

lemma thread_value_ok [simp]: "text_or_none (case pc_thread call of Some t \<Rightarrow> PStr t | None \<Rightarrow> PNone)"
  by (cases "pc_thread call") simp_all

lemma optional_text: "(if b then bind_res r (\<lambda>g. Inr (PStr g)) else Inr PNone) = Inr x \<Longrightarrow> text_or_none x"
  by (auto simp: bind_res_Inr split: if_splits)

lemma optional_link:
  "(if b then Inr (st, []) else link env st sp (thread_link kind i thread @ [(k, PStr s)])) = Inr (st', l)
    \<Longrightarrow> st = st' \<or> (\<exists>v l. text_or_none v \<and> link env st sp (thread_link kind i thread @ [(k, v)]) = Inr (st', l))"
  by (cases b) (auto intro!: exI [of _ "PStr s"])

lemma run_ifs:
  "pr_created (if b then run\<lparr>pr_refs := x, pr_names := y\<rparr> else run) = pr_created run"
  "pr_resolved (if b then run\<lparr>pr_refs := x, pr_names := y\<rparr> else run) = pr_resolved run"
  by simp_all

lemma create_projectE:
  assumes "apply_create_project env call c run = Inr run'"
  obtains name why ctx status st r where "typed Project (project_values name why ctx status)"
    "create env (pr_ledger run) Project (stamp_of call) (project_values name why ctx status) = Inr (st, r)"
    "st = pr_ledger run' \<or> (\<exists>v l. text_or_none v \<and> link env st (link_stamp call) (thread_link ''project'' (row_id r) (thread_of call) @ [(''label'', v)]) = Inr (pr_ledger run', l))"
    "pr_created run' = pr_created run @ [row_id r]" "pr_resolved run' = pr_resolved run"
  using assms unfolding apply_create_project_def Let_def bind_prod_Inr project_values_def [symmetric]
  by (auto simp: bind_res_Inr ledger_status_one said_def typed_plan run_ifs split del: if_split intro: that dest!: field_types optional_link)

lemma create_goalE:
  assumes "apply_create_goal env call c project named run = Inr run'"
  obtains title finished target r where "typed Goal (goal_values project title finished target)"
    "create env (pr_ledger run) Goal (stamp_of call) (goal_values project title finished target) = Inr (pr_ledger run', r)"
    "pr_created run' = pr_created run" "pr_resolved run' = pr_resolved run"
  using assms unfolding apply_create_goal_def Let_def bind_prod_Inr goal_values_def [symmetric]
  by (auto simp: bind_res_Inr said_def typed_plan dest!: field_types ledger_date_ok)

lemma add_noteE:
  assumes "apply_add_note env call c project named run = Inr run'"
  obtains decided why thread r where "typed Note (note_values project decided why thread)"
    "create env (pr_ledger run) Note (stamp_of call) (note_values project decided why thread) = Inr (pr_ledger run', r)"
    "pr_created run' = pr_created run" "pr_resolved run' = pr_resolved run"
proof -
  let ?thread = "case pc_thread call of Some t \<Rightarrow> PStr t | None \<Rightarrow> PNone"
  obtain decided why r where "is_text decided" "text_or_none why"
    "create env (pr_ledger run) Note (stamp_of call) (note_values project decided why ?thread) = Inr (pr_ledger run', r)"
    "pr_created run' = pr_created run" "pr_resolved run' = pr_resolved run"
    using assms unfolding apply_add_note_def Let_def bind_prod_Inr note_values_def [symmetric]
    by (auto simp: bind_res_Inr said_def dest!: field_types)
  then show thesis by (intro that [of decided why ?thread r]) (simp_all add: typed_plan)
qed

lemma link_threadE:
  assumes "apply_link_thread env call c project named run = Inr run'"
  obtains label l where "text_or_none label"
    "link env (pr_ledger run) (link_stamp call) (thread_link ''project'' (row_id project) (thread_of call) @ [(''label'', label)]) = Inr (pr_ledger run', l)"
    "pr_created run' = pr_created run" "pr_resolved run' = pr_resolved run"
  using assms unfolding apply_link_thread_def Let_def bind_prod_Inr
  by (auto simp: bind_res_Inr said_def split: if_splits dest!: field_types)

lemma add_taskE:
  assumes "apply_create_task env call c project named run = Inr run'"
  obtains title status due owner goal st r where "typed Task (task_values project title status due owner goal)"
    "create env (pr_ledger run) Task (stamp_of call) (task_values project title status due owner goal) = Inr (st, r)"
    "st = pr_ledger run' \<or> (\<exists>v l. text_or_none v \<and> link env st (link_stamp call) (thread_link ''task'' (row_id r) (thread_of call) @ [(''todo_ref'', v)]) = Inr (pr_ledger run', l))"
    "pr_created run' = pr_created run @ [row_id r]" "pr_resolved run' = pr_resolved run"
  using assms unfolding apply_create_task_def Let_def bind_prod_Inr task_values_def [symmetric]
  by (auto simp: bind_res_Inr ledger_status_one said_def typed_plan split del: if_split intro: that dest!: ledger_date_ok field_types optional_text optional_link)

lemma change_taskE:
  assumes "apply_update_task env call c pin task named run = Inr run'"
  obtains vals a where "update_values (le_fstr env) c = Inr vals"
    "update env (pr_ledger run) Task (row_id task) (stamp_of call) PNone vals = Inr (pr_ledger run', a)"
    "pr_created run' = pr_created run" "pr_resolved run' = pr_resolved run"
  using assms unfolding apply_update_task_def bind_prod_Inr
  by (auto simp: bind_res_Inr said_def split: if_splits)

subsection \<open>The values a plan writes\<close>

lemma when_given_cases:
  "when_given c k v = Inr vs \<Longrightarrow> vs = [] \<or> (\<exists>x. v = Inr x \<and> vs = [(k, x)])"
  by (auto simp: when_given_def bind_res_Inr split: if_splits)

lemma update_values_settable:
  assumes "update_values fstr c = Inr vals"
  shows "settable Task vals"
proof -
  obtain a b d e where v: "vals = a @ b @ d @ e"
    and a: "when_given c ''title'' (ledger_text fstr c ''title'' 300 True) = Inr a"
    and b: "when_given c ''status'' (ledger_status fstr ''task'' TASK_STATUSES (dget c ''status'')) = Inr b"
    and d: "when_given c ''due_date'' (ledger_date fstr (dget c ''due_date'') ''due_date'') = Inr d"
    and e: "when_given c ''owner'' (ledger_owner fstr (dget c ''owner'')) = Inr e"
    using assms by (auto simp: update_values_def bind_res_Inr)
  have "a = [] \<or> (\<exists>x. is_text x \<and> a = [(''title'', x)])" "d = [] \<or> (\<exists>x. due_ok x \<and> d = [(''due_date'', x)])"
    "e = [] \<or> (\<exists>x. owner_ok x \<and> e = [(''owner'', x)])"
    using when_given_cases [OF a] when_given_cases [OF d] when_given_cases [OF e] ledger_date_ok field_types by blast+
  moreover have "b = [] \<or> (\<exists>x. one_of TASK_STATUSES x \<and> b = [(''status'', x)])"
    using when_given_cases [OF b] ledger_status_one by blast
  ultimately show ?thesis unfolding v by (elim disjE exE conjE) (simp_all add: settable_def column_ok_def NULLABLE_TEXTS_def FIXED_def column_names_def column_simps del: set_map)
qed

lemma creatable_thread_link:
  "k \<in> {''label'', ''todo_ref''} \<Longrightarrow> text_or_none v \<Longrightarrow> creatable st Link (thread_link kind i thread @ [(k, v)])"
  by (elim insertE) (simp_all add: creatable_def thread_link_def column_ok_def NULLABLE_TEXTS_def column_simps del: set_map)

lemma dget_thread_link [simp]:
  "dget (thread_link kind i thread @ vs) ''from_kind'' = PStr kind"
  "dget (thread_link kind i thread @ vs) ''from_id'' = PStr i"
  by (simp_all add: thread_link_def dget_def)

lemma creatable_plan:
  "typed Project (project_values name why ctx status) \<Longrightarrow> creatable st Project (project_values name why ctx status)"
  "resolves st user project \<Longrightarrow> typed Goal (goal_values project title finished target) \<Longrightarrow> creatable st Goal (goal_values project title finished target)"
  "resolves st user project \<Longrightarrow> typed Task (task_values project title status' due owner goal)
    \<Longrightarrow> creatable st Task (task_values project title status' due owner goal)"
  "resolves st user project \<Longrightarrow> typed Note (note_values project decided why thread) \<Longrightarrow> creatable st Note (note_values project decided why thread)"
  using own_project_row [of st "row_id project" user project]
  by (auto simp: creatable_def typed_plan resolves_def column_simps simp del: set_map typed_simps)
    (auto simp: project_values_def goal_values_def task_values_def note_values_def dget_def)

lemma plan_project_id [simp]:
  "dget (goal_values project title finished target) ''project_id'' = PStr (row_id project)"
  "dget (task_values project title status due owner goal) ''project_id'' = PStr (row_id project)"
  "dget (note_values project decided why thread) ''project_id'' = PStr (row_id project)"
  by (simp_all add: goal_values_def task_values_def note_values_def dget_def)

lemma resolves_row: "resolves st user project \<Longrightarrow> row st Project (row_id project) \<noteq> None \<and> own_project st (row_id project) user \<noteq> None"
  using own_project_row by (fastforce simp: resolves_def)

subsection \<open>Interface\<close>

locale plan_invariant =
  fixes env :: ledger_env and call :: plan_call and Q :: "ledger \<Rightarrow> bool"
  assumes Q_ok: "Q st \<Longrightarrow> ledger_ok env st"
    and Q_create: "Q st \<Longrightarrow> may_create st (pc_user call) e vals \<Longrightarrow> plan_stamp call sp
      \<Longrightarrow> create env st e sp vals = Inr (st', r) \<Longrightarrow> Q st'"
    and Q_update: "Q st \<Longrightarrow> settable Task vals \<Longrightarrow> row st Task i = Some t \<Longrightarrow> own_task st (pc_user call) t
      \<Longrightarrow> update env st Task i (stamp_of call) PNone vals = Inr (st', a) \<Longrightarrow> Q st'"
begin

lemma Q_filed: "Q st \<Longrightarrow> filed st"
  using Q_ok ledger_ok_filed by blast

lemma Q_link:
  assumes "Q st" "creatable st Link vals" "may_link st (pc_user call) vals" "link env st sp vals = Inr (st', l)" "plan_stamp call sp"
  shows "Q st'"
  using assms(4)
proof (rule linkE)
  assume "create env st Link sp vals = Inr (st', l)"
  then show ?thesis using assms Q_create [of st Link vals sp st' l] by (simp add: may_create_def)
qed (use assms in simp)

lemma Q_thread_link:
  assumes "Q st" "k \<in> {''label'', ''todo_ref''}" "text_or_none v" "may_link st (pc_user call) (thread_link kind i thread @ [(k, v)])"
    and "link env st (link_stamp call) (thread_link kind i thread @ [(k, v)]) = Inr (st', l)"
  shows "Q st'"
  by (rule Q_link [OF assms(1) creatable_thread_link [OF assms(2,3)] assms(4,5)]) simp

lemma may_create_plan:
  "typed Project (project_values name why ctx status) \<Longrightarrow> may_create st user Project (project_values name why ctx status)"
  "resolves st user project \<Longrightarrow> typed Goal (goal_values project title finished target)
    \<Longrightarrow> may_create st user Goal (goal_values project title finished target)"
  "resolves st user project \<Longrightarrow> typed Task (task_values project title status' due owner goal)
    \<Longrightarrow> may_create st user Task (task_values project title status' due owner goal)"
  "resolves st user project \<Longrightarrow> typed Note (note_values project decided why thread)
    \<Longrightarrow> may_create st user Note (note_values project decided why thread)"
  using creatable_plan resolves_row [of st user project] by (simp_all add: may_create_def)

lemma create_project_keeps:
  assumes q: "Q (pr_ledger run)" and a: "apply_create_project env call c run = Inr run'"
  shows "Q (pr_ledger run')"
  using a
proof (rule create_projectE)
  fix name why ctx status st r
  assume s: "typed Project (project_values name why ctx status)"
    and c: "create env (pr_ledger run) Project (stamp_of call) (project_values name why ctx status) = Inr (st, r)"
    and l: "st = pr_ledger run' \<or> (\<exists>v l. text_or_none v \<and> link env st (link_stamp call) (thread_link ''project'' (row_id r) (thread_of call) @ [(''label'', v)]) = Inr (pr_ledger run', l))"
  have qs: "Q st" by (rule Q_create [OF q may_create_plan(1) [OF s] _ c]) simp
  have "own_project st (row_id r) (pc_user call) = Some r"
    using created_row [OF c creatable_plan(1) [OF s]] by (simp add: own_project_def stamp_of_def)
  then have m: "may_link st (pc_user call) (thread_link ''project'' (row_id r) (thread_of call) @ vs)" for vs by (simp add: may_link_def)
  from l show ?thesis by (elim disjE exE conjE) (use qs in simp, rule Q_thread_link [OF qs, where k = "''label''", OF _ _ m], simp)
qed

lemma create_goal_keeps:
  assumes "Q (pr_ledger run)" "resolves (pr_ledger run) (pc_user call) project" "apply_create_goal env call c project named run = Inr run'"
  shows "Q (pr_ledger run')"
  using assms(3) by (rule create_goalE) (rule Q_create [OF assms(1) may_create_plan(2) [OF assms(2)]]; simp)

lemma add_note_keeps:
  assumes "Q (pr_ledger run)" "resolves (pr_ledger run) (pc_user call) project" "apply_add_note env call c project named run = Inr run'"
  shows "Q (pr_ledger run')"
  using assms(3) by (rule add_noteE) (rule Q_create [OF assms(1) may_create_plan(4) [OF assms(2)]]; simp)

lemma link_thread_keeps:
  assumes "Q (pr_ledger run)" "resolves (pr_ledger run) (pc_user call) project" "apply_link_thread env call c project named run = Inr run'"
  shows "Q (pr_ledger run')"
proof -
  have m: "may_link (pr_ledger run) (pc_user call) (thread_link ''project'' (row_id project) (thread_of call) @ vs)" for vs
    using resolves_row [OF assms(2)] by (simp add: may_link_def)
  from assms(3) show ?thesis by (rule link_threadE) (rule Q_thread_link [OF assms(1), where k = "''label''", OF _ _ m], simp)
qed

lemma create_task_keeps:
  assumes q: "Q (pr_ledger run)" and p: "resolves (pr_ledger run) (pc_user call) project"
    and a: "apply_create_task env call c project named run = Inr run'"
  shows "Q (pr_ledger run')"
  using a
proof (rule add_taskE)
  fix title status due owner goal st r
  assume s: "typed Task (task_values project title status due owner goal)"
    and c: "create env (pr_ledger run) Task (stamp_of call) (task_values project title status due owner goal) = Inr (st, r)"
    and l: "st = pr_ledger run' \<or> (\<exists>v l. text_or_none v \<and> link env st (link_stamp call) (thread_link ''task'' (row_id r) (thread_of call) @ [(''todo_ref'', v)]) = Inr (pr_ledger run', l))"
  have qs: "Q st" by (rule Q_create [OF q may_create_plan(3) [OF p s] _ c]) simp
  have "own_project st (row_id project) (pc_user call) \<noteq> None" using create_keeps_project [OF c] resolves_row [OF p] by blast
  moreover have "dget r ''project_id'' = PStr (row_id project)" using created_row(4) [OF c creatable_plan(3) [OF p s]] by simp
  ultimately have "own_task st (pc_user call) r" by (simp add: own_task_of)
  then have m: "may_link st (pc_user call) (thread_link ''task'' (row_id r) (thread_of call) @ vs)" for vs
    using created_row(1) [OF c creatable_plan(3) [OF p s]] by (simp add: may_link_def)
  from l show ?thesis by (elim disjE exE conjE) (use qs in simp, rule Q_thread_link [OF qs, where k = "''todo_ref''", OF _ _ m], simp)
qed

lemma update_task_keeps:
  assumes "Q (pr_ledger run)" "resolves_task (pr_ledger run) (pc_user call) task" "apply_update_task env call c pin task named run = Inr run'"
  shows "Q (pr_ledger run')"
  using assms(3) by (rule change_taskE)
    (rule Q_update [OF assms(1) update_values_settable _ _, where t = task]; use assms(2) in \<open>simp add: resolves_task_def\<close>)

lemma change_keeps:
  assumes q: "Q (pr_ledger run)" and a: "apply_change env call c run = Inr run'"
  shows "Q (pr_ledger run')"
proof (cases "dget c ''op'' = PStr ''create_project''")
  case True
  then show ?thesis using a create_project_keeps [OF q] by (auto simp: apply_change_def Let_def bind_res_Inr note_resolution_def)
next
  case False
  obtain task project named where r: "resolve_change env call c run = Inr (task, project, named)"
    using a False by (cases "resolve_change env call c run") (auto simp: apply_change_def Let_def)
  note res = resolve_change_resolves [OF Q_filed [OF q] r]
  show ?thesis
  proof (cases "dget c ''op'' = PStr ''update_task''")
    case True
    obtain t run0 where t: "(case task of Some t \<Rightarrow> Inr t | None \<Rightarrow> find_task env (pr_ledger run) (row_id project) (dget c ''task'') named) = Inr t"
      and u: "apply_update_task env call c (pin_of c) t named run = Inr run0" "pr_ledger run' = pr_ledger run0"
      using a True r by (auto simp: apply_change_def Let_def bind_res_Inr note_resolution_def split: if_splits)
    have "resolves_task (pr_ledger run) (pc_user call) t"
      using t res(2) find_task_resolves [OF Q_filed [OF q] _ res(1)] by (cases task) auto
    then show ?thesis using update_task_keeps [OF q _ u(1)] u(2) by simp
  next
    case other: False
    show ?thesis
      using a False other r create_goal_keeps [OF q res(1)] create_task_keeps [OF q res(1)] add_note_keeps [OF q res(1)] link_thread_keeps [OF q res(1)]
      by (auto simp: apply_change_def Let_def bind_res_Inr note_resolution_def split: if_splits)
  qed
qed

lemma changes_keep: "Q (pr_ledger run) \<Longrightarrow> apply_changes env call cs run = Inr run' \<Longrightarrow> Q (pr_ledger run')"
  by (induction cs arbitrary: run) (auto simp: bind_res_Inr dest: change_keeps)

lemma apply_in_keeps: "Q st \<Longrightarrow> apply_in env call changes st = Inr run \<Longrightarrow> Q (pr_ledger run)"
  by (auto simp: apply_in_def bind_res_Inr start_run_def intro: changes_keep [rotated])

lemma apply_plan_keeps: "Q st \<Longrightarrow> Q (fst (apply_plan env call changes st))"
  by (auto simp: apply_plan_def transaction_def bind_res_Inr split: sum.splits dest: apply_in_keeps)

end

interpretation well_formed: plan_invariant env call "ledger_ok env" for env call
proof
  show "create env st e sp vals = Inr (st', r) \<Longrightarrow> ledger_ok env st'"
    if "ledger_ok env st" "may_create st (pc_user call) e vals" for st e vals sp st' r
    using that create_ok by (auto simp: may_create_def)
  show "update env st Task i (stamp_of call) PNone vals = Inr (st', a) \<Longrightarrow> ledger_ok env st'"
    if "ledger_ok env st" "settable Task vals" for st vals i st' a
    using that update_ok by blast
qed

end
