(* ===== verification/Ledger_Edits.thy ===== *)
theory Ledger_Edits
  imports Ledger_Apply
begin

text \<open>
  The other writers of the ledger: undoing a write (\<open>undo_writes\<close>, \<open>_undo_in\<close>), a person's own edits
  (\<open>gateway/routers/ledger.py\<close>) and promoting todos (\<open>promote\<close>); and what is read of it (\<open>view\<close>,
  \<open>summaries\<close>). A route's body is validated by pydantic before it runs; its fields arrive here checked.
\<close>

subsection \<open>Undo\<close>

definition UNDOABLE_ACTORS :: "string list" where
  "UNDOABLE_ACTORS = [''assistant_disclosed'', ''assistant_granted'', ''assistant_confirmed'']"

text \<open>Per row a write touched: what it was before its first change, and what its last change left.\<close>

definition touched :: "change list \<Rightarrow> ((entity \<times> string) \<times> (dict option \<times> dict option)) list" where
  "touched changes = foldl (\<lambda>m c. let k = (lc_entity c, lc_id c) in
     dset m k (case map_of m k of Some (old, after) \<Rightarrow> (old, lc_after c) | None \<Rightarrow> (lc_before c, lc_after c))) [] changes"

definition KEPT :: "string list" where
  "KEPT = [''version'', ''updated_at'', ''created_at'', ''done_at'']"

definition undo_values :: "dict \<Rightarrow> dict \<Rightarrow> dict" where
  "undo_values old after =
     map (\<lambda>k. (k, dget old k))
       (filter (\<lambda>k. map_of old k \<noteq> None \<and> \<not> py_eq (dget old k) (dget after k) \<and> k \<notin> set KEPT) (map fst after))"

text \<open>\<open>date.fromisoformat\<close> of a stored date, and its text again.\<close>

definition with_date :: "dict \<Rightarrow> ledger_error + dict" where
  "with_date vals = (case map_of vals ''due_date'' of
     Some (PStr s) \<Rightarrow> (case date_fromisoformat s of
         Some x \<Rightarrow> Inr (dset vals ''due_date'' (PStr (date_isoformat x))) | None \<Rightarrow> Inl Value_Error)
   | _ \<Rightarrow> Inr vals)"

definition undo_stamp :: "string \<Rightarrow> string \<Rightarrow> stamp" where
  "undo_stamp user write_id = \<lparr>sp_owner = user, sp_actor = ''user'', sp_cause = Some (''undo:'' @ write_id)\<rparr>"

definition row_label :: "ledger_env \<Rightarrow> entity \<Rightarrow> dict \<Rightarrow> string" where
  "row_label env e r = py_str (le_fstr env) (first_truthy [dget r ''title'', dget r ''decided'', dget r ''name''] (PStr (entity_name e)))"

definition undo_row ::
  "ledger_env \<Rightarrow> stamp \<Rightarrow> (entity \<times> string) \<times> (dict option \<times> dict option) \<Rightarrow> ledger \<times> string list \<Rightarrow> ledger_error + ledger \<times> string list" where
  "undo_row env sp slot acc =
     (case (slot, acc) of (((e, i), (old, after)), (st, done_lines)) \<Rightarrow>
       (case after of
          None \<Rightarrow> Inl (Ledger_Error (''the '' @ entity_name e @ '' it touched is gone''))
        | Some a \<Rightarrow>
            (case old of
               None \<Rightarrow> bind_res (remove env st e i sp (dget a ''version'')) (\<lambda>(st, removed).
                 if removed then Inr (st, done_lines @ [''Removed the '' @ entity_name e @ '' '' @ quoted (row_label env e a) @ ''.''])
                 else Inl (Ledger_Error (''the '' @ entity_name e @ '' it created is already gone'')))
             | Some b \<Rightarrow> bind_res (with_date (undo_values b a)) (\<lambda>vals.
                 bind_res (update env st e i sp (dget a ''version'') vals) (\<lambda>(st, r).
                   if r = None then Inl (Ledger_Error (''the '' @ entity_name e @ '' it changed is gone''))
                   else Inr (st, done_lines @ [''Put back '' @ py_str (le_fstr env) (first_truthy [dget a ''short_id''] (PStr (entity_name e))) @ '' as it was.'']))))))"

fun undo_rows ::
  "ledger_env \<Rightarrow> stamp \<Rightarrow> ((entity \<times> string) \<times> (dict option \<times> dict option)) list \<Rightarrow> ledger \<times> string list \<Rightarrow> ledger_error + ledger \<times> string list" where
  "undo_rows env sp [] acc = Inr acc"
| "undo_rows env sp (s # slots) acc = bind_res (undo_row env sp s acc) (undo_rows env sp slots)"

definition undo_in :: "ledger_env \<Rightarrow> string \<Rightarrow> string \<Rightarrow> change list \<Rightarrow> ledger \<times> string list \<Rightarrow> ledger_error + ledger \<times> string list" where
  "undo_in env user write_id changes acc = undo_rows env (undo_stamp user write_id) (rev (touched changes)) acc"

definition undo_one :: "ledger_env \<Rightarrow> string \<Rightarrow> string \<Rightarrow> ledger \<times> string list \<Rightarrow> ledger_error + ledger \<times> string list" where
  "undo_one env user write_id acc =
     (let changes = changes_caused_by (fst acc) user write_id; missing = Inl (Lookup_Error (''no write '' @ str_repr write_id)) in
      if \<not> starts_with write_id ''w-'' then missing
      else if changes = [] \<or> list_ex (\<lambda>c. lc_actor c \<notin> set UNDOABLE_ACTORS) changes then missing
      else if changes_caused_by (fst acc) user (''undo:'' @ write_id) \<noteq> [] then Inl (Ledger_Error ''this was already undone'')
      else case undo_in env user write_id changes acc of
        Inl (Stale_Write r) \<Rightarrow> Inl (Ledger_Error ''something it changed has been edited since, so it was not undone; change it back by hand'')
      | res \<Rightarrow> res)"

fun undo_each :: "ledger_env \<Rightarrow> string \<Rightarrow> string list \<Rightarrow> ledger \<times> string list \<Rightarrow> ledger_error + ledger \<times> string list" where
  "undo_each env user [] acc = Inr acc"
| "undo_each env user (w # ws) acc = bind_res (undo_one env user w acc) (undo_each env user ws)"

text \<open>Newest first, each once.\<close>

definition undo_writes :: "ledger_env \<Rightarrow> string \<Rightarrow> string list \<Rightarrow> ledger \<Rightarrow> ledger \<times> (ledger_error + string list)" where
  "undo_writes env user write_ids st = transaction st (\<lambda>st. undo_each env user (remdups (rev write_ids)) (st, []))"

definition write_undone :: "ledger \<Rightarrow> string \<Rightarrow> string \<Rightarrow> bool" where
  "write_undone st user write_id = (changes_caused_by st user (''undo:'' @ write_id) \<noteq> [])"

subsection \<open>A person's own edits\<close>

definition user_stamp :: "string \<Rightarrow> stamp" where
  "user_stamp user = \<lparr>sp_owner = user, sp_actor = ''user'', sp_cause = None\<rparr>"

text \<open>A route's answer: 404, 409 with the row as it is, 422, another error, or the value.\<close>

datatype 'a answer = Not_Found | Conflict dict | Unprocessable string | Server_Error ledger_error | Answer 'a

definition answer :: "ledger \<times> (ledger_error + 'a) \<Rightarrow> ledger \<times> 'a answer" where
  "answer r = (case r of (st, Inr a) \<Rightarrow> (st, Answer a) | (st, Inl (Stale_Write d)) \<Rightarrow> (st, Conflict d)
     | (st, Inl (Ledger_Error s)) \<Rightarrow> (st, Unprocessable s) | (st, Inl (Batch_Error n s)) \<Rightarrow> (st, Unprocessable s)
     | (st, Inl e) \<Rightarrow> (st, Server_Error e))"

definition route_create_project :: "ledger_env \<Rightarrow> string \<Rightarrow> dict \<Rightarrow> ledger \<Rightarrow> ledger \<times> dict answer" where
  "route_create_project env user body st = answer (transaction st (\<lambda>st. create env st Project (user_stamp user) body))"

definition route_create_child :: "ledger_env \<Rightarrow> entity \<Rightarrow> string \<Rightarrow> string \<Rightarrow> dict \<Rightarrow> ledger \<Rightarrow> ledger \<times> dict answer" where
  "route_create_child env e user project body st =
     (if own_project st project user = None then (st, Not_Found)
      else answer (transaction st (\<lambda>st. create env st e (user_stamp user) ((''project_id'', PStr project) # body))))"

text \<open>\<open>create_task\<close>: the body's title, due date, owner and goal, and what the route sets.\<close>

definition route_create_task :: "ledger_env \<Rightarrow> string \<Rightarrow> string \<Rightarrow> dict \<Rightarrow> ledger \<Rightarrow> ledger \<times> dict answer" where
  "route_create_task env user project body st =
     (if own_project st project user = None then (st, Not_Found)
      else answer (transaction st (\<lambda>st. bind_res (ledger_owner (le_fstr env) (dget body ''owner'')) (\<lambda>owner.
        create env st Task (user_stamp user)
          [(''project_id'', PStr project), (''title'', dget body ''title''), (''status'', PStr ''todo''), (''due_date'', dget body ''due_date''),
           (''owner'', owner), (''goal_id'', dget body ''goal_id''), (''declared_files'', PList [])]))))"

definition route_patch_project :: "ledger_env \<Rightarrow> string \<Rightarrow> string \<Rightarrow> int \<Rightarrow> dict \<Rightarrow> ledger \<Rightarrow> ledger \<times> dict option answer" where
  "route_patch_project env user i version vals st =
     (if own_project st i user = None then (st, Not_Found)
      else answer (transaction st (\<lambda>st. update env st Project i (user_stamp user) (PInt version) vals)))"

text \<open>\<open>patch_goal\<close> and \<open>patch_task\<close>; for a task the owner is checked and explicit clears come last.\<close>

definition route_patch_goal :: "ledger_env \<Rightarrow> string \<Rightarrow> string \<Rightarrow> int \<Rightarrow> dict \<Rightarrow> ledger \<Rightarrow> ledger \<times> dict option answer" where
  "route_patch_goal env user i version vals st =
     (case row st Goal i of
        None \<Rightarrow> (st, Not_Found)
      | Some r \<Rightarrow>
          if \<not> own_task st user r then (st, Not_Found)
          else answer (transaction st (\<lambda>st. update env st Goal i (user_stamp user) (PInt version) vals)))"

definition patched_task :: "(rat \<Rightarrow> string) \<Rightarrow> dict \<Rightarrow> string list \<Rightarrow> ledger_error + dict" where
  "patched_task fstr vals clear =
     bind_res (case map_of vals ''owner'' of None \<Rightarrow> Inr vals
         | Some v \<Rightarrow> bind_res (ledger_owner fstr v) (\<lambda>owner. Inr (dset vals ''owner'' owner)))
       (\<lambda>vals. Inr (foldl (\<lambda>vals k. dset vals k PNone) vals clear))"

text \<open>The owner is checked outside the route's \<open>_write\<close>, so its error is not mapped to 422.\<close>

definition route_patch_task :: "ledger_env \<Rightarrow> string \<Rightarrow> string \<Rightarrow> int \<Rightarrow> dict \<Rightarrow> string list \<Rightarrow> ledger \<Rightarrow> ledger \<times> dict option answer" where
  "route_patch_task env user i version vals clear st =
     (case row st Task i of
        None \<Rightarrow> (st, Not_Found)
      | Some r \<Rightarrow>
          if \<not> own_task st user r then (st, Not_Found)
          else case patched_task (le_fstr env) vals clear of
            Inl e \<Rightarrow> (st, Server_Error e)
          | Inr vals \<Rightarrow> answer (transaction st (\<lambda>st. update env st Task i (user_stamp user) (PInt version) vals)))"

definition route_create_link :: "ledger_env \<Rightarrow> string \<Rightarrow> string \<Rightarrow> string \<Rightarrow> string \<Rightarrow> py \<Rightarrow> ledger \<Rightarrow> ledger \<times> dict answer" where
  "route_create_link env user project to_kind to_ref label st =
     (if own_project st project user = None then (st, Not_Found)
      else answer (transaction st (\<lambda>st. link env st (user_stamp user)
        [(''from_kind'', PStr ''project''), (''from_id'', PStr project), (''to_kind'', PStr to_kind), (''to_ref'', PStr to_ref), (''label'', label)])))"

definition link_project :: "ledger \<Rightarrow> dict \<Rightarrow> string" where
  "link_project st l =
     (case dget l ''from_id'' of
        PStr i \<Rightarrow> if dget l ''from_kind'' = PStr ''project'' then i else (case row st Task i of Some t \<Rightarrow> project_of t | None \<Rightarrow> [])
      | _ \<Rightarrow> [])"

definition route_delete_link :: "ledger_env \<Rightarrow> string \<Rightarrow> string \<Rightarrow> ledger \<Rightarrow> ledger \<times> bool answer" where
  "route_delete_link env user i st =
     (case row st Link i of
        None \<Rightarrow> (st, Not_Found)
      | Some l \<Rightarrow>
          if own_project st (link_project st l) user = None then (st, Not_Found)
          else (case unlink env st i (user_stamp user) of (st', b) \<Rightarrow> (st', Answer b)))"

text \<open>\<open>undo_write\<close>: 404 for no such write, 409 for a refusal.\<close>

definition route_undo :: "ledger_env \<Rightarrow> string \<Rightarrow> string \<Rightarrow> ledger \<Rightarrow> ledger \<times> string list answer" where
  "route_undo env user write_id st =
     (case undo_writes env user [write_id] st of
        (st', Inl (Lookup_Error s)) \<Rightarrow> (st', Not_Found)
      | (st', Inl (Ledger_Error s)) \<Rightarrow> (st', Conflict [(''detail'', PStr s)])
      | (st', Inl e) \<Rightarrow> (st', Server_Error e)
      | (st', Inr ls) \<Rightarrow> (st', Answer ls))"

subsection \<open>Promoting todos\<close>

definition promote_one :: "ledger_env \<Rightarrow> string \<Rightarrow> string \<Rightarrow> string \<Rightarrow> string \<Rightarrow> ledger \<Rightarrow> ledger_error + ledger \<times> dict" where
  "promote_one env user project thread title st =
     bind_res (create env st Task (user_stamp user)
         [(''project_id'', PStr project), (''title'', PStr (take 300 title)), (''status'', PStr ''todo''), (''declared_files'', PList [])]) (\<lambda>(st, r).
     bind_res (link env st (user_stamp user) (thread_link ''task'' (row_id r) thread @ [(''todo_ref'', PStr (take 300 title))])) (\<lambda>(st, l).
       Inr (st, r)))"

fun promote_each :: "ledger_env \<Rightarrow> string \<Rightarrow> string \<Rightarrow> string \<Rightarrow> string list \<Rightarrow> ledger \<Rightarrow> ledger_error + ledger \<times> dict list" where
  "promote_each env user project thread [] st = Inr (st, [])"
| "promote_each env user project thread (t # ts) st =
     bind_res (promote_one env user project thread t st) (\<lambda>(st, r).
     bind_res (promote_each env user project thread ts st) (\<lambda>(st, rs). Inr (st, r # rs)))"

definition promote :: "ledger_env \<Rightarrow> string \<Rightarrow> string \<Rightarrow> string \<Rightarrow> string list \<Rightarrow> ledger \<Rightarrow> ledger \<times> (ledger_error + dict list)" where
  "promote env user project thread titles st =
     (let clean = map py_strip (filter (\<lambda>t. py_strip t \<noteq> []) titles) in
      if clean = [] then (st, Inl (Ledger_Error ''no todo items were chosen''))
      else if own_project st project user = None then (st, Inl (Ledger_Error ''there is no such project''))
      else transaction st (\<lambda>st. bind_res (promote_each env user project thread clean st) (\<lambda>(st, rs).
        bind_res (link env st (user_stamp user) (thread_link ''project'' project thread)) (\<lambda>(st, l). Inr (st, rs)))))"

subsection \<open>Reading\<close>

definition count_done :: "dict list \<Rightarrow> int" where
  "count_done tasks = int (length (filter (\<lambda>t. dget t ''status'' = PStr ''done'') tasks))"

definition goal_progress :: "dict list \<Rightarrow> dict \<Rightarrow> dict" where
  "goal_progress tasks goal =
     (let mine = filter (\<lambda>t. dget t ''goal_id'' = dget goal ''id'' \<and> dget t ''status'' \<noteq> PStr ''dropped'') tasks in
      dset goal ''progress'' (PDict [(''done'', PInt (count_done mine)), (''total'', PInt (int (length mine)))]))"

record ledger_view =
  lv_project :: dict
  lv_goals :: "dict list"
  lv_tasks :: "dict list"
  lv_notes :: "dict list"
  lv_links :: "dict list"

definition view :: "ledger \<Rightarrow> string \<Rightarrow> string \<Rightarrow> ledger_view option" where
  "view st user project =
     (case own_project st project user of
        None \<Rightarrow> None
      | Some p \<Rightarrow>
          Some \<lparr>lv_project = p, lv_goals = map (goal_progress (children st Task project)) (children st Goal project),
            lv_tasks = children st Task project, lv_notes = children st Note project, lv_links = links_from st ''project'' project\<rparr>)"

definition open_task :: "dict \<Rightarrow> bool" where
  "open_task t = (dget t ''status'' \<noteq> PStr ''done'' \<and> dget t ''status'' \<noteq> PStr ''dropped'')"

definition due_text :: "dict \<Rightarrow> string list" where
  "due_text t = (case dget t ''due_date'' of PStr s \<Rightarrow> if s = [] then [] else [s] | _ \<Rightarrow> [])"

text \<open>Stored dates are compared as dates by the code and as texts here, which is the same order for them.\<close>

definition summary :: "ledger \<Rightarrow> string \<Rightarrow> dict \<Rightarrow> dict" where
  "summary st today p =
     (let tasks = children st Task (row_id p); opened = filter open_task tasks; dues = sort (concat (map due_text opened)) in
      p @ [(''open_tasks'', PInt (int (length opened))),
           (''overdue'', PInt (int (length (filter (\<lambda>t. \<exists>s \<in> set (due_text t). s < today) opened)))),
           (''done_tasks'', PInt (count_done tasks)),
           (''next_due'', case dues of [] \<Rightarrow> PNone | d # ds \<Rightarrow> PStr d)])"

definition summaries :: "ledger \<Rightarrow> string \<Rightarrow> string \<Rightarrow> dict list" where
  "summaries st user today = map (summary st today) (projects st user)"

text \<open>\<open>read_text\<close>: the ledger as the model reads it. A project is named by its id, its name in any case, or as \<open>_norm\<close> has it.\<close>

definition lines_text :: "string list \<Rightarrow> string" where
  "lines_text ls = py_join [CHR 0x0A] ls"

definition read_match :: "(rat \<Rightarrow> string) \<Rightarrow> dict list \<Rightarrow> string \<Rightarrow> dict list" where
  "read_match fstr ps project =
     (let title = (\<lambda>p. py_str fstr (dget p ''name'')); wanted = norm project; bare = without_project_word wanted in
      case find (\<lambda>p. row_id p = project \<or> py_lower (title p) = py_lower project) ps of
        Some p \<Rightarrow> [p]
      | None \<Rightarrow>
          (let same = filter (\<lambda>p. wanted \<noteq> [] \<and> norm (title p) = wanted) ps in
           if same \<noteq> [] then same else filter (\<lambda>p. bare \<noteq> [] \<and> norm (title p) = bare) ps))"

definition project_line :: "(rat \<Rightarrow> string) \<Rightarrow> dict \<Rightarrow> string" where
  "project_line fstr p = (let got = (\<lambda>k. py_str fstr (dget p k)) in
     ''- '' @ got ''name'' @ '' ('' @ got ''status'' @ '', id '' @ got ''id'' @ ''): '' @ got ''open_tasks'' @ '' open task(s), '' @ got ''overdue'' @ '' overdue'')"

definition goal_line :: "(rat \<Rightarrow> string) \<Rightarrow> dict \<Rightarrow> string" where
  "goal_line fstr g =
     (let progress = (case dget g ''progress'' of PDict d \<Rightarrow> d | _ \<Rightarrow> []) in
      ''Goal: '' @ py_str fstr (dget g ''title'') @ '' ('' @ py_str fstr (dget progress ''done'') @ ''/'' @ py_str fstr (dget progress ''total'') @ '' done)''
        @ (if truthy (dget g ''target_date'') then '', target '' @ py_str fstr (dget g ''target_date'') else []))"

definition task_line :: "(rat \<Rightarrow> string) \<Rightarrow> dict \<Rightarrow> string" where
  "task_line fstr t =
     (let got = (\<lambda>k. py_str fstr (dget t k)) in
      got ''short_id'' @ '' ['' @ got ''status'' @ ''] '' @ got ''title''
        @ (if truthy (dget t ''due_date'') then '', due '' @ got ''due_date'' else [])
        @ (case dget t ''owner'' of PDict d \<Rightarrow> if d = [] then [] else '', owner '' @ py_str fstr (dget d ''kind'') | _ \<Rightarrow> []))"

definition note_line :: "(rat \<Rightarrow> string) \<Rightarrow> dict \<Rightarrow> string" where
  "note_line fstr n = ''Decision: '' @ py_str fstr (dget n ''decided'')
     @ (if truthy (dget n ''why'') then '' (why: '' @ py_str fstr (dget n ''why'') @ '')'' else [])"

definition project_lines :: "(rat \<Rightarrow> string) \<Rightarrow> dict \<Rightarrow> ledger_view option \<Rightarrow> string list" where
  "project_lines fstr p v =
     [py_str fstr (dget p ''name'') @ '' ('' @ py_str fstr (dget p ''status'') @ '')''
        @ (if truthy (dget p ''why'') then '': '' @ py_str fstr (dget p ''why'') else [])]
     @ (if truthy (dget p ''context'') then [''Context: '' @ py_str fstr (dget p ''context'')] else [])
     @ (case v of None \<Rightarrow> [] | Some v \<Rightarrow>
          map (goal_line fstr) (lv_goals v) @ map (task_line fstr) (lv_tasks v) @ map (note_line fstr) (lv_notes v))"

definition read_text :: "ledger_env \<Rightarrow> ledger \<Rightarrow> string \<Rightarrow> string option \<Rightarrow> string \<Rightarrow> string" where
  "read_text env st user project today =
     (let fstr = le_fstr env; ps = projects st user in
      if ps = [] then ''The ledger has no projects yet.''
      else case project of
        None \<Rightarrow> lines_text (''Projects:'' # map (project_line fstr) (summaries st user today))
      | Some key \<Rightarrow>
          (case read_match fstr ps key of
             [] \<Rightarrow> ''There is no project '' @ str_repr key @ ''.''
           | [p] \<Rightarrow> lines_text (project_lines fstr p (view st user (row_id p)))
           | _ \<Rightarrow> ''More than one project is called '' @ str_repr key @ ''; name it by id.''))"

definition thread_projects :: "ledger \<Rightarrow> string \<Rightarrow> string \<Rightarrow> (string \<times> dict) list" where
  "thread_projects st user thread =
     concat (map (\<lambda>l. if dget l ''from_kind'' = PStr ''project''
       then (case dget l ''from_id'' of PStr i \<Rightarrow> (case own_project st i user of Some p \<Rightarrow> [(row_id l, p)] | None \<Rightarrow> []) | _ \<Rightarrow> []) else [])
       (links_to st ''thread'' thread))"

end
