(* ===== verification/Ledger_History.thy ===== *)
theory Ledger_History
  imports Plan_Invariant Ledger_Edits
begin

text \<open>
  The log of changes against the tables, over every writer of the ledger. \<open>replay\<close> reads the log as
  states of rows; \<open>log_ok\<close> says that it explains the tables, that each entry starts where the one before
  it on the same row ended, and that what may be undone changed only tasks. A step of the ledger is a
  plan, a batch, an undo, an edit or a promotion; the invariant holds in every reachable ledger.
\<close>

subsection \<open>The log\<close>

definition replay :: "change list \<Rightarrow> entity \<times> string \<Rightarrow> dict option" where
  "replay cs = foldl (\<lambda>m c. m((lc_entity c, lc_id c) := lc_after c)) (\<lambda>k. None) cs"

lemma replay_snoc [simp]: "replay (cs @ [c]) = (replay cs)((lc_entity c, lc_id c) := lc_after c)"
  by (simp add: replay_def)

text \<open>A project's counter moves without an entry, when a task takes a number.\<close>

definition same_row :: "entity \<Rightarrow> dict \<Rightarrow> dict \<Rightarrow> bool" where
  "same_row e r r' = (if e = Project then \<forall>k. k \<notin> {''next_task'', ''updated_at''} \<longrightarrow> dget r k = dget r' k else r = r')"

lemma same_row_refl [simp]: "same_row e r r"
  by (simp add: same_row_def)

lemma same_row_sym: "same_row e r r' \<Longrightarrow> same_row e r' r"
  by (auto simp: same_row_def split: if_splits)

lemma same_row_trans: "same_row e r s \<Longrightarrow> same_row e s t \<Longrightarrow> same_row e r t"
  by (auto simp: same_row_def split: if_splits)

lemma same_row_numbered [simp]: "same_row Project r (numbered env st r)"
  by (simp add: same_row_def)

definition explained :: "ledger \<Rightarrow> bool" where
  "explained st = (\<forall>e i. rel_option (same_row e) (replay (lg_log st) (e, i)) (row st e i))"

definition starts_where_ended :: "change list \<Rightarrow> change \<Rightarrow> bool" where
  "starts_where_ended pre c = rel_option (same_row (lc_entity c)) (replay pre (lc_entity c, lc_id c)) (lc_before c)"

definition chained :: "ledger \<Rightarrow> bool" where
  "chained st = (\<forall>n < length (lg_log st). starts_where_ended (take n (lg_log st)) (lg_log st ! n))"

definition IMMUTABLE :: "string list" where
  "IMMUTABLE = [''id'', ''owner_id'', ''project_id'', ''short_id'', ''from_kind'', ''from_id'', ''to_kind'', ''to_ref'']"

definition recorded :: "change \<Rightarrow> dict \<Rightarrow> bool" where
  "recorded c r = (lc_before c = Some r \<or> lc_after c = Some r)"

definition same_key :: "change \<Rightarrow> change \<Rightarrow> bool" where
  "same_key c c' = (lc_entity c = lc_entity c' \<and> lc_id c = lc_id c')"

definition entries_ok :: "ledger_env \<Rightarrow> ledger \<Rightarrow> bool" where
  "entries_ok env st =
     ((\<forall>c \<in> set (lg_log st). \<forall>r. recorded c r \<longrightarrow> row_ok (lc_entity c) r \<and> dget r ''id'' = PStr (lc_id c))
      \<and> (\<forall>c \<in> set (lg_log st). \<forall>c' \<in> set (lg_log st). \<forall>r r'. same_key c c' \<longrightarrow> recorded c r \<longrightarrow> recorded c' r' \<longrightarrow> same_on IMMUTABLE r r')
      \<and> (\<forall>c \<in> set (lg_log st). lc_actor c \<noteq> ''user'' \<longrightarrow> lc_after c \<noteq> None \<and> (lc_before c \<noteq> None \<longrightarrow> lc_entity c = Task))
      \<and> (\<forall>c \<in> set (lg_log st). \<forall>n \<ge> lg_ticks st. lc_id c \<noteq> le_id env n))"

definition log_ok :: "ledger_env \<Rightarrow> ledger \<Rightarrow> bool" where
  "log_ok env st = (explained st \<and> chained st \<and> entries_ok env st)"

definition ledger_inv :: "ledger_env \<Rightarrow> ledger \<Rightarrow> bool" where
  "ledger_inv env st = (ledger_ok env st \<and> log_ok env st)"

text \<open>One entry more, for one row changed; the other rows keep what the log says of them.\<close>

lemma chained_snoc:
  "(\<forall>n < length (cs @ [c]). starts_where_ended (take n (cs @ [c])) ((cs @ [c]) ! n))
    \<longleftrightarrow> (\<forall>n < length cs. starts_where_ended (take n cs) (cs ! n)) \<and> starts_where_ended cs c"
  by (auto simp: nth_append less_Suc_eq)

lemma same_on_trans: "same_on ks r s \<Longrightarrow> same_on ks s t \<Longrightarrow> same_on ks r t"
  by (auto simp: same_on_def list_all_iff)

lemma same_row_get: "same_row e r r' \<Longrightarrow> k \<notin> {''next_task'', ''updated_at''} \<Longrightarrow> dget r k = dget r' k"
  unfolding same_row_def by presburger

lemma same_row_on:
  assumes "same_row e r r'" "set ks \<inter> {''next_task'', ''updated_at''} = {}"
  shows "same_on ks r r'"
  unfolding same_on_def list_all_iff
proof
  fix k assume "k \<in> set ks"
  with assms(2) have "k \<notin> {''next_task'', ''updated_at''}" by blast
  with assms(1) show "dget r k = dget r' k" by (rule same_row_get)
qed

lemma immutable_counter: "set IMMUTABLE \<inter> {''next_task'', ''updated_at''} = {}"
  by (simp add: IMMUTABLE_def)

lemma same_on_refl [simp]: "same_on ks r r"
  by (simp add: same_on_def list_all_iff)

text \<open>Whatever the log holds of a row agrees with the row in the columns that never change.\<close>

lemma recorded_current:
  assumes "log_ok env st" "c \<in> set (lg_log st)" "lc_entity c = e" "lc_id c = i" "recorded c r" "row st e i = Some cur"
  shows "same_on IMMUTABLE r cur"
proof -
  have "rel_option (same_row e) (replay (lg_log st) (e, i)) (Some cur)"
    using assms(1,6) unfolding log_ok_def explained_def by metis
  then obtain s where s: "replay (lg_log st) (e, i) = Some s" "same_row e s cur" by (cases "replay (lg_log st) (e, i)") auto
  have "\<exists>c' \<in> set cs. lc_entity c' = e \<and> lc_id c' = i \<and> lc_after c' = Some s" if "replay cs (e, i) = Some s" for cs
    using that by (induction cs rule: rev_induct) (auto simp: replay_def split: if_splits)
  then obtain c' where "c' \<in> set (lg_log st)" "lc_entity c' = e" "lc_id c' = i" "recorded c' s"
    using s(1) by (fastforce simp: recorded_def)
  then have "same_on IMMUTABLE r s" using assms unfolding log_ok_def entries_ok_def same_key_def by blast
  then show ?thesis using same_row_on [OF s(2) immutable_counter] same_on_trans by blast
qed

subsection \<open>One more entry\<close>

lemma rel_option_trans:
  assumes "rel_option (same_row e) a b" "rel_option (same_row e) b c"
  shows "rel_option (same_row e) a c"
  using assms same_row_trans by (cases a; cases b; cases c) auto

lemma rel_option_refl [simp]: "rel_option (same_row e) a a"
  by (cases a) auto

lemma log_ok_record:
  assumes ok: "log_ok env st"
    and x: "lg_log x = lg_log st" "lg_ticks x = lg_ticks st" "row x e i = a"
    and others: "\<And>e' j. (e', j) \<noteq> (e, i) \<Longrightarrow> rel_option (same_row e') (row st e' j) (row x e' j)"
    and b: "row st e i = b"
    and rows: "\<And>r. b = Some r \<or> a = Some r \<Longrightarrow> row_ok e r \<and> dget r ''id'' = PStr i"
    and fixed: "\<And>r r'. b = Some r \<Longrightarrow> a = Some r' \<Longrightarrow> same_on IMMUTABLE r r'"
    and new: "b = None \<Longrightarrow> i = le_id env (lg_ticks st)"
    and who: "sp_actor sp \<noteq> ''user'' \<Longrightarrow> a \<noteq> None \<and> (b \<noteq> None \<longrightarrow> e = Task)"
    and old: "\<And>n. Suc (lg_ticks st) \<le> n \<Longrightarrow> i \<noteq> le_id env n"
  shows "log_ok env (record_change env x sp e i b a)"
proof -
  let ?st' = "record_change env x sp e i b a"
  obtain c where log: "lg_log ?st' = lg_log st @ [c]" and c: "lc_entity c = e" "lc_id c = i" "lc_before c = b" "lc_after c = a" "lc_actor c = sp_actor sp"
    by (simp add: record_change_def tick_def x)
  have exp: "rel_option (same_row e') (replay (lg_log st) (e', j)) (row st e' j)" for e' j
    using ok by (simp add: log_ok_def explained_def)
  have "explained ?st'"
    unfolding explained_def log
  proof (intro allI)
    fix e' j
    show "rel_option (same_row e') (replay (lg_log st @ [c]) (e', j)) (row ?st' e' j)"
    proof (cases "(e', j) = (e, i)")
      case True
      then show ?thesis using c x by simp
    next
      case False
      then show ?thesis using c rel_option_trans [OF exp others [OF False]] by auto
    qed
  qed
  moreover have "chained ?st'"
  proof -
    have "starts_where_ended (lg_log st) c" using exp [of e i] b c by (simp add: starts_where_ended_def)
    then show ?thesis unfolding chained_def log chained_snoc using ok by (simp add: log_ok_def chained_def)
  qed
  moreover have "entries_ok env ?st'"
  proof -
    have pre: "entries_ok env st" using ok by (simp add: log_ok_def)
    have mix: "same_on IMMUTABLE r r'" if d: "d \<in> set (lg_log st)" "same_key d c" "recorded d r" "recorded c r'" for d r r'
    proof (cases b)
      case None
      then have "lc_id d \<noteq> i" using pre d(1) new unfolding entries_ok_def by auto
      with d(2) c show ?thesis by (simp add: same_key_def)
    next
      case (Some cur)
      have "same_on IMMUTABLE r cur" using recorded_current [OF ok d(1) _ _ d(3)] d(2) c b Some by (simp add: same_key_def)
      moreover have "same_on IMMUTABLE cur r'" using d(4) c Some fixed by (auto simp: recorded_def)
      ultimately show ?thesis by (rule same_on_trans)
    qed
    have self: "same_on IMMUTABLE r r'" if "recorded c r" "recorded c r'" for r r'
    proof -
      have "same_on IMMUTABLE r r' \<or> same_on IMMUTABLE r' r" using that c fixed by (auto simp: recorded_def)
      then show ?thesis using same_on_sym by blast
    qed
    have 1: "\<forall>d \<in> set (lg_log ?st'). \<forall>r. recorded d r \<longrightarrow> row_ok (lc_entity d) r \<and> dget r ''id'' = PStr (lc_id d)"
      unfolding log using pre rows c by (auto simp: entries_ok_def recorded_def)
    have 2: "\<forall>d \<in> set (lg_log ?st'). \<forall>d' \<in> set (lg_log ?st'). \<forall>r r'. same_key d d' \<longrightarrow> recorded d r \<longrightarrow> recorded d' r' \<longrightarrow> same_on IMMUTABLE r r'"
    proof (intro ballI allI impI)
      fix d d' r r' assume h: "d \<in> set (lg_log ?st')" "d' \<in> set (lg_log ?st')" "same_key d d'" "recorded d r" "recorded d' r'"
      consider "d \<in> set (lg_log st)" "d' \<in> set (lg_log st)" | "d \<in> set (lg_log st)" "d' = c" | "d = c" "d' \<in> set (lg_log st)" | "d = c" "d' = c"
        using h(1,2) unfolding log by auto
      then show "same_on IMMUTABLE r r'"
      proof cases
        case 1 then show ?thesis using pre h unfolding entries_ok_def by blast
      next
        case 2 then show ?thesis using mix h by simp
      next
        case 3 then show ?thesis using mix [of d' r' r] h by (simp add: same_key_def same_on_sym [of _ r r'])
      next
        case 4 then show ?thesis using self h by simp
      qed
    qed
    have 3: "\<forall>d \<in> set (lg_log ?st'). lc_actor d \<noteq> ''user'' \<longrightarrow> lc_after d \<noteq> None \<and> (lc_before d \<noteq> None \<longrightarrow> lc_entity d = Task)"
      unfolding log using pre c who by (auto simp: entries_ok_def)
    have 4: "\<forall>d \<in> set (lg_log ?st'). \<forall>n \<ge> lg_ticks ?st'. lc_id d \<noteq> le_id env n"
      unfolding log using pre c old x(2) by (auto simp: entries_ok_def)
    show ?thesis unfolding entries_ok_def using 1 2 3 4 by blast
  qed
  ultimately show ?thesis by (simp add: log_ok_def)
qed

lemma same_on_self: "\<And>r r'. None = Some r \<Longrightarrow> a = Some r' \<Longrightarrow> same_on IMMUTABLE r r'"
  by simp

lemma create_log:
  assumes inv: "ledger_inv env st" and can: "creatable st e vals" and c: "create env st e sp vals = Inr (st', r)"
  shows "ledger_inv env st'"
proof -
  have ok: "ledger_ok env st" and log: "log_ok env st" using inv by (simp_all add: ledger_inv_def)
  have ok': "ledger_ok env st'" by (rule create_ok [OF ok can c])
  let ?i = "le_id env (lg_ticks st)"
  note cr = created_row [OF c can]
  have r_ok: "row_ok e r \<and> dget r ''id'' = PStr ?i"
    using ledger_ok_row [OF ok' cr(1)] ledger_ok_filed [OF ok'] cr(1,2) by (simp add: filed_def)
  have "log_ok env st'"
  proof (cases "e = Task")
    case False
    from c False show ?thesis
    proof (rule create_plainE)
      assume st': "st' = record_change env (put_row st e ?i r) sp e ?i None (Some r)" and n: "row st e ?i = None"
      show ?thesis unfolding st'
        by (rule log_ok_record [OF log]) (use n r_ok fresh_ne [OF ok] in \<open>auto simp: put_row_def [symmetric]\<close>)
    qed
  next
    case True
    from c [unfolded True] show ?thesis
    proof (rule create_taskE)
      fix p project
      assume p: "row st Project p = Some project" and n: "row st Task ?i = None"
        and st': "st' = record_change env (put_row (put_row st Project p (numbered env st project)) Task ?i r) sp Task ?i None (Some r)"
      show ?thesis unfolding st'
        by (rule log_ok_record [OF log]) (use n p r_ok True fresh_ne [OF ok] in auto)
    qed
  qed
  then show ?thesis using ok' by (simp add: ledger_inv_def)
qed

lemma immutable_fixed: "k \<in> set IMMUTABLE \<Longrightarrow> k \<in> set FIXED \<and> k \<notin> {''version'', ''updated_at''}"
  by (auto simp: IMMUTABLE_def FIXED_def)

lemma update_log:
  assumes inv: "ledger_inv env st" and set: "settable e vals" and who: "sp_actor sp \<noteq> ''user'' \<Longrightarrow> e = Task"
    and u: "update env st e i sp version vals = Inr (st', a)"
  shows "ledger_inv env st'"
proof -
  have ok: "ledger_ok env st" and log: "log_ok env st" using inv by (simp_all add: ledger_inv_def)
  have ok': "ledger_ok env st'" by (rule update_ok [OF ok set u])
  from u have "log_ok env st'"
  proof (rule updateE)
    fix before
    let ?r = "updated_row env st e before vals"
    assume r: "row st e i = Some before" and st': "st' = record_change env (put_row st e i ?r) sp e i (Some before) (Some ?r)"
    have "dget ?r ''id'' = dget before ''id''" by (rule updated_fixed [OF set]) (simp_all add: FIXED_def)
    then have new: "row_ok e ?r \<and> dget ?r ''id'' = PStr i"
      using ledger_ok_row [OF ok', of e i ?r] ledger_ok_filed [OF ok] r st' by (simp add: filed_def)
    have before: "row_ok e before \<and> dget before ''id'' = PStr i"
      using ledger_ok_row [OF ok r] ledger_ok_filed [OF ok] r by (simp add: filed_def)
    have "same_on IMMUTABLE before ?r"
      using updated_fixed [OF set] immutable_fixed by (simp add: same_on_def list_all_iff)
    moreover have "i \<noteq> le_id env n" if "Suc (lg_ticks st) \<le> n" for n using fresh_row [OF ok, of n e] r that by auto
    ultimately show ?thesis unfolding st'
      by (intro log_ok_record [OF log]) (use r new before who in auto)
  qed (use log in simp)
  then show ?thesis using ok' by (simp add: ledger_inv_def)
qed

lemma drop_log:
  assumes inv: "ledger_inv env st" and r: "row st e i = Some before" and who: "sp_actor sp = ''user''"
  shows "ledger_inv env (record_change env (drop_row st e i) sp e i (Some before) None)"
proof -
  have ok: "ledger_ok env st" and log: "log_ok env st" using inv by (simp_all add: ledger_inv_def)
  have "ledger_wf env (Suc (lg_ticks st)) (drop_row st e i)" using ok by (auto simp: ledger_ok_def intro: wf_drop wf_mono)
  then have "ledger_ok env (record_change env (drop_row st e i) sp e i (Some before) None)" by (simp add: ledger_ok_def)
  moreover have "row_ok e before \<and> dget before ''id'' = PStr i"
    using ledger_ok_row [OF ok r] ledger_ok_filed [OF ok] r by (simp add: filed_def)
  moreover have "i \<noteq> le_id env n" if "Suc (lg_ticks st) \<le> n" for n using fresh_row [OF ok, of n e] r that by auto
  ultimately show ?thesis unfolding ledger_inv_def
    by (intro conjI log_ok_record [OF log]) (use r who in auto)
qed

lemma remove_log:
  assumes "ledger_inv env st" "sp_actor sp = ''user''" "remove env st e i sp version = Inr (st', a)"
  shows "ledger_inv env st'"
  using assms(3) by (rule removeE) (use assms drop_log in auto)

lemma link_log:
  assumes "ledger_inv env st" "creatable st Link vals" "link env st sp vals = Inr (st', r)"
  shows "ledger_inv env st'"
  using assms(3) by (rule linkE) (use assms create_log in auto)

interpretation audited: plan_invariant env call "ledger_inv env" for env call
proof
  show "ledger_ok env st" if "ledger_inv env st" for st using that by (simp add: ledger_inv_def)
  show "ledger_inv env st'" if "ledger_inv env st" "may_create st (pc_user call) e vals" "create env st e sp vals = Inr (st', r)" for st e vals sp st' r
    using that create_log by (auto simp: may_create_def)
  show "ledger_inv env st'" if "ledger_inv env st" "settable Task vals" "update env st Task i (stamp_of call) PNone vals = Inr (st', a)" for st vals i st' a
    using that update_log by blast
qed

subsection \<open>Undo keeps the invariant\<close>

type_synonym slot = "(entity \<times> string) \<times> (dict option \<times> dict option)"

text \<open>A slot spans from one entry of its row to another.\<close>

definition spans :: "change list \<Rightarrow> slot \<Rightarrow> bool" where
  "spans cs s = (\<exists>c \<in> set cs. \<exists>c' \<in> set cs. s = ((lc_entity c, lc_id c), (lc_before c, lc_after c')) \<and> same_key c c')"

lemma touched_snoc: "touched (cs @ [c]) = dset (touched cs) (lc_entity c, lc_id c)
    (case map_of (touched cs) (lc_entity c, lc_id c) of Some (before, after) \<Rightarrow> (before, lc_after c) | None \<Rightarrow> (lc_before c, lc_after c))"
  by (simp add: touched_def Let_def)

lemma set_keys_dset: "x \<in> set (dset d k v) \<Longrightarrow> x = (k, v) \<or> (x \<in> set d \<and> (distinct (map fst d) \<longrightarrow> fst x \<noteq> k))"
  by (induction d k v rule: dset.induct) (auto split: if_splits)

lemma distinct_touched: "distinct (map fst (touched cs))"
  by (induction cs rule: rev_induct) (simp_all add: touched_snoc distinct_dset, simp add: touched_def)

lemma touched_spans: "s \<in> set (touched cs) \<Longrightarrow> spans cs s"
proof (induction cs arbitrary: s rule: rev_induct)
  case Nil
  then show ?case by (simp add: touched_def)
next
  case (snoc c cs)
  let ?k = "(lc_entity c, lc_id c)"
  consider "s \<in> set (touched cs)" | "s = (?k, (lc_before c, lc_after c))"
    | b a where "(?k, (b, a)) \<in> set (touched cs)" "s = (?k, (b, lc_after c))"
    using set_keys_dset [OF snoc.prems [unfolded touched_snoc]] map_of_SomeD [of "touched cs" ?k]
    by (auto split: option.splits)
  then show ?case
  proof cases
    case 1
    then show ?thesis using snoc.IH by (fastforce simp: spans_def)
  next
    case 2
    then show ?thesis by (auto simp: spans_def same_key_def)
  next
    case 3
    from snoc.IH [OF 3(1)] obtain d where "d \<in> set cs" "lc_entity d = lc_entity c" "lc_id d = lc_id c" "lc_before d = b"
      by (auto simp: spans_def same_key_def)
    then show ?thesis unfolding spans_def 3(2) same_key_def by (intro bexI [of _ d] bexI [of _ c]) auto
  qed
qed

definition slot_ok :: "slot \<Rightarrow> bool" where
  "slot_ok s = (case s of ((e, i), (b, a)) \<Rightarrow> a \<noteq> None \<and> (b \<noteq> None \<longrightarrow> e = Task)
     \<and> (\<forall>r. b = Some r \<or> a = Some r \<longrightarrow> row_ok e r \<and> dget r ''id'' = PStr i)
     \<and> (\<forall>r r'. b = Some r \<longrightarrow> a = Some r' \<longrightarrow> same_on IMMUTABLE r r'))"

lemma touched_slot_ok:
  assumes "log_ok env st" "set cs \<subseteq> set (lg_log st)" "\<forall>c \<in> set cs. lc_actor c \<noteq> ''user''" "s \<in> set (touched cs)"
  shows "slot_ok s"
proof -
  obtain c c' where c: "c \<in> set cs" "c' \<in> set cs" "same_key c c'" and s: "s = ((lc_entity c, lc_id c), (lc_before c, lc_after c'))"
    using touched_spans [OF assms(4)] by (auto simp: spans_def)
  have e: "entries_ok env st" using assms(1) by (simp add: log_ok_def)
  have l: "c \<in> set (lg_log st)" "c' \<in> set (lg_log st)" "lc_actor c \<noteq> ''user''" "lc_actor c' \<noteq> ''user''" using c assms(2,3) by auto
  have "lc_after c' \<noteq> None" "lc_before c \<noteq> None \<longrightarrow> lc_entity c = Task" using e l unfolding entries_ok_def by blast+
  moreover have "row_ok (lc_entity c) r \<and> dget r ''id'' = PStr (lc_id c)" if "lc_before c = Some r \<or> lc_after c' = Some r" for r
    using e l c(3) that unfolding entries_ok_def recorded_def same_key_def by metis
  moreover have "same_on IMMUTABLE r r'" if "lc_before c = Some r" "lc_after c' = Some r'" for r r'
    using e l c(3) that unfolding entries_ok_def recorded_def by blast
  ultimately show ?thesis unfolding slot_ok_def s by auto
qed

lemma py_eq_text [simp]: "py_eq (PStr s) (PStr s)"
  by simp

lemma undo_values_keys: "set (map fst (undo_values b a)) = {k \<in> set (map fst a). map_of b k \<noteq> None \<and> \<not> py_eq (dget b k) (dget a k) \<and> k \<notin> set KEPT}"
  by (auto simp: undo_values_def)

lemma map_of_undo_values:
  "distinct (map fst a) \<Longrightarrow> map_of (undo_values b a) k = (if k \<in> set (map fst (undo_values b a)) then Some (dget b k) else None)"
  by (auto simp: undo_values_def map_of_map_restrict restrict_map_def)

lemma is_text_iff: "is_text v \<longleftrightarrow> (\<exists>s. v = PStr s)"
  by (cases v) (simp_all add: is_text_def)

lemma undo_values_settable:
  assumes "slot_ok ((Task, i), (Some b, Some a))"
  shows "settable Task (undo_values b a)"
proof -
  have b: "row_ok Task b" and a: "row_ok Task a" and same: "same_on IMMUTABLE b a" using assms by (auto simp: slot_ok_def)
  have bi: "dget b ''id'' = PStr i" using assms by (simp add: slot_ok_def)
  have cols: "set (map fst a) = set (column_names Task)" and dist: "distinct (map fst a)"
    using row_ok_columns [OF a] by (simp_all add: has_columns_def)
  have eq: "py_eq (dget b k) (dget a k)" if "k \<in> {''id'', ''project_id'', ''short_id''}" for k
  proof -
    have "dget b k = dget a k" using same that by (auto simp: same_on_def IMMUTABLE_def)
    moreover have "\<exists>s. dget b k = PStr s" using row_ok_Task [OF b] that bi by (auto simp: is_text_iff numbered_id_def)
    ultimately show ?thesis by auto
  qed
  have fixed: "set (map fst (undo_values b a)) \<inter> set FIXED = {}"
    unfolding undo_values_keys cols using eq
    by (auto simp: FIXED_def KEPT_def column_names_def column_simps simp del: set_map)
  have "typed Task (undo_values b a)"
    unfolding typed_def list_all_iff undo_values_def using row_ok_column [OF b] cols by auto
  moreover have "distinct (map fst (undo_values b a))"
    using dist by (simp add: undo_values_def comp_def)
  moreover have "set (map fst (undo_values b a)) \<subseteq> set (column_names Task)" unfolding undo_values_keys cols by blast
  ultimately show ?thesis using fixed by (simp add: settable_def)
qed

lemma dset_same: "map_of d k = Some v \<Longrightarrow> dset d k v = d"
  by (induction d k v rule: dset.induct) (auto split: if_splits)

lemma with_date_same:
  assumes "due_given vals" "with_date vals = Inr vals'"
  shows "vals' = vals"
proof -
  have "dset vals ''due_date'' (PStr (date_isoformat x)) = vals"
    if "map_of vals ''due_date'' = Some (PStr s)" "date_fromisoformat s = Some x" for s x
    using that assms(1) due_ok_roundtrip [of s] by (intro dset_same) (simp add: due_given_def)
  then show ?thesis using assms(2) by (auto simp: with_date_def split: option.splits py.splits)
qed

lemma with_date_ok: "due_given vals \<Longrightarrow> with_date vals = Inr vals"
  using due_ok_roundtrip dset_same [of vals "''due_date''"]
  by (fastforce simp: with_date_def due_given_def split: option.splits py.splits)

text \<open>What undoing a row does, by whether the write created it.\<close>

lemma undo_createdE:
  assumes "undo_row env sp ((e, i), (None, Some a)) (st, ls) = Inr acc'"
  obtains "remove env st e i sp (dget a ''version'') = Inr (fst acc', True)"
proof -
  obtain x where x: "remove env st e i sp (dget a ''version'') = Inr x"
    using assms by (cases "remove env st e i sp (dget a ''version'')") (simp_all add: undo_row_def)
  obtain st' ok where "x = (st', ok)" by (cases x)
  with x assms that show thesis by (cases ok) (auto simp: undo_row_def)
qed

lemma undo_changedE:
  assumes "undo_row env sp ((e, i), (Some b, Some a)) (st, ls) = Inr acc'" "due_given (undo_values b a)"
  obtains r where "update env st e i sp (dget a ''version'') (undo_values b a) = Inr (fst acc', Some r)"
proof -
  let ?u = "update env st e i sp (dget a ''version'') (undo_values b a)"
  note d = with_date_ok [OF assms(2)]
  obtain x where x: "?u = Inr x" using assms(1) by (cases ?u) (simp_all add: undo_row_def d)
  obtain st' r where "x = (st', r)" by (cases x)
  with x assms(1) that show thesis by (cases r) (auto simp: undo_row_def d)
qed

lemma undo_row_keeps:
  assumes "slot_ok s" "ledger_inv env (fst acc)" "sp_actor sp = ''user''" "undo_row env sp s acc = Inr acc'"
  shows "ledger_inv env (fst acc')"
proof -
  obtain e i b a where s: "s = ((e, i), (b, Some a))" using assms(1) by (cases s) (auto simp: slot_ok_def)
  obtain st ls where acc: "acc = (st, ls)" by (cases acc)
  have inv: "ledger_inv env st" using assms(2) acc by simp
  show ?thesis
  proof (cases b)
    case None
    show ?thesis
      by (rule undo_createdE [OF assms(4) [unfolded s acc None]]) (rule remove_log [OF inv assms(3)])
  next
    case (Some r)
    have t: "e = Task" using assms(1) s Some by (simp add: slot_ok_def)
    have set: "settable Task (undo_values r a)" using undo_values_settable assms(1) s Some t by blast
    then have due: "due_given (undo_values r a)" unfolding settable_def by (blast intro: typed_due)
    show ?thesis
      by (rule undo_changedE [OF assms(4) [unfolded s acc Some t] due]) (rule update_log [OF inv set], rule refl)
  qed
qed

lemma undo_rows_keep:
  "\<forall>s \<in> set slots. slot_ok s \<Longrightarrow> ledger_inv env (fst acc) \<Longrightarrow> sp_actor sp = ''user'' \<Longrightarrow> undo_rows env sp slots acc = Inr acc'
    \<Longrightarrow> ledger_inv env (fst acc')"
proof (induction slots arbitrary: acc)
  case (Cons s slots)
  then show ?case using undo_row_keeps [of s env acc sp] by (auto simp: bind_res_Inr)
qed simp

lemma undo_one_keeps:
  assumes inv: "ledger_inv env (fst acc)" and u: "undo_one env user w acc = Inr acc'"
  shows "ledger_inv env (fst acc')"
proof -
  let ?cs = "changes_caused_by (fst acc) user w"
  have actors: "\<forall>c \<in> set ?cs. lc_actor c \<noteq> ''user''" and res: "undo_in env user w ?cs acc = Inr acc'"
    using u by (auto simp: undo_one_def Let_def list_ex_iff UNDOABLE_ACTORS_def split: if_splits sum.splits ledger_error.splits)
  have "set ?cs \<subseteq> set (lg_log (fst acc))" by (auto simp: changes_caused_by_def)
  then have "\<forall>s \<in> set (rev (touched ?cs)). slot_ok s"
    using touched_slot_ok [OF _ _ actors] inv by (auto simp: ledger_inv_def)
  then show ?thesis by (rule undo_rows_keep [OF _ inv _ res [unfolded undo_in_def]]) (simp add: undo_stamp_def)
qed

lemma undo_each_keeps: "ledger_inv env (fst acc) \<Longrightarrow> undo_each env user ws acc = Inr acc' \<Longrightarrow> ledger_inv env (fst acc')"
  by (induction ws arbitrary: acc) (auto simp: bind_res_Inr dest: undo_one_keeps)

lemma transaction_keeps:
  assumes "Q st" "\<And>st' a. work st = Inr (st', a) \<Longrightarrow> Q st'"
  shows "Q (fst (transaction st work))"
  using assms by (auto simp: transaction_def split: sum.splits)

lemma undo_writes_keeps: "ledger_inv env st \<Longrightarrow> ledger_inv env (fst (undo_writes env user ws st))"
  unfolding undo_writes_def by (rule transaction_keeps) (auto dest: undo_each_keeps [rotated])

end
