(* ===== verification/Ledger_System.thy ===== *)
theory Ledger_System
  imports Ledger_History
begin

text \<open>
  The ledger as a whole: a step is a plan, a batch, an undo, one of a person's edits or a promotion,
  and the invariant holds in every ledger reached from the empty one. A person's body arrives with the
  keys and types its pydantic model allows (\<open>checked_body\<close>).
\<close>

subsection \<open>Steps\<close>

definition body_value :: "entity \<Rightarrow> string \<Rightarrow> py \<Rightarrow> bool" where
  "body_value e k v = (if k = ''owner'' then is_text v else column_ok e k v)"

definition checked_body :: "string list \<Rightarrow> entity \<Rightarrow> dict \<Rightarrow> bool" where
  "checked_body ks e vals =
     (distinct (map fst vals) \<and> set (map fst vals) \<subseteq> set ks \<and> list_all (\<lambda>(k, v). body_value e k v) vals)"

text \<open>A body that creates a row has its required fields.\<close>

definition new_body :: "string list \<Rightarrow> entity \<Rightarrow> dict \<Rightarrow> bool" where
  "new_body ks e vals = (checked_body ks e vals \<and> set (required e) \<inter> set ks \<subseteq> set (map fst vals))"

definition task_body :: "dict \<Rightarrow> bool" where
  "task_body body = (is_text (dget body ''title'') \<and> due_ok (dget body ''due_date'') \<and> text_or_none (dget body ''goal_id''))"

definition PROJECT_FIELDS :: "string list" where "PROJECT_FIELDS = [''name'', ''why'', ''context'']"
definition GOAL_FIELDS :: "string list" where "GOAL_FIELDS = [''title'', ''definition_of_done'', ''target_date'']"
definition NOTE_FIELDS :: "string list" where "NOTE_FIELDS = [''decided'', ''why'']"
definition TASK_FIELDS :: "string list" where "TASK_FIELDS = [''title'', ''status'', ''due_date'', ''owner'', ''goal_id'']"
definition CLEARABLE :: "string list" where "CLEARABLE = [''due_date'', ''owner'', ''goal_id'']"

inductive ledger_step :: "ledger_env \<Rightarrow> ledger \<Rightarrow> ledger \<Rightarrow> bool" for env where
  plan: "ledger_step env st (fst (apply_plan env call changes st))"
| batch: "ledger_step env st (fst (apply_batch env call cards st))"
| undo: "ledger_step env st (fst (undo_writes env user ws st))"
| new_project: "new_body PROJECT_FIELDS Project body \<Longrightarrow> ledger_step env st (fst (route_create_project env user body st))"
| new_goal: "new_body GOAL_FIELDS Goal body \<Longrightarrow> ledger_step env st (fst (route_create_child env Goal user project body st))"
| new_note: "new_body NOTE_FIELDS Note body \<Longrightarrow> ledger_step env st (fst (route_create_child env Note user project body st))"
| new_task: "task_body body \<Longrightarrow> ledger_step env st (fst (route_create_task env user project body st))"
| edit_project: "checked_body (''status'' # PROJECT_FIELDS) Project vals \<Longrightarrow> ledger_step env st (fst (route_patch_project env user i version vals st))"
| edit_goal: "checked_body GOAL_FIELDS Goal vals \<Longrightarrow> ledger_step env st (fst (route_patch_goal env user i version vals st))"
| edit_task: "checked_body TASK_FIELDS Task vals \<Longrightarrow> set clear \<subseteq> set CLEARABLE
    \<Longrightarrow> ledger_step env st (fst (route_patch_task env user i version vals clear st))"
| new_link: "text_or_none label \<Longrightarrow> ledger_step env st (fst (route_create_link env user project kind ref label st))"
| delete_link: "ledger_step env st (fst (route_delete_link env user i st))"
| promoted: "ledger_step env st (fst (promote env user project thread titles st))"

definition empty_ledger :: ledger where
  "empty_ledger = \<lparr>lg_rows = [], lg_log = [], lg_ticks = 0\<rparr>"

inductive ledger_reachable :: "ledger_env \<Rightarrow> ledger \<Rightarrow> bool" for env where
  start: "ledger_reachable env empty_ledger"
| step: "ledger_reachable env st \<Longrightarrow> ledger_step env st st' \<Longrightarrow> ledger_reachable env st'"

subsection \<open>The edits keep the invariant\<close>

lemma cards_keep: "ledger_inv env st \<Longrightarrow> apply_cards env call n cards st = Inr (st', out) \<Longrightarrow> ledger_inv env st'"
proof (induction env call n cards st arbitrary: out rule: apply_cards.induct)
  case (2 env call n changes thread cards st)
  obtain run where run: "apply_in env (call\<lparr>pc_thread := thread\<rparr>) changes st = Inr run"
    using 2(3) by (auto split: sum.splits ledger_error.splits)
  then have "ledger_inv env (pr_ledger run)" using audited.apply_in_keeps 2(2) by blast
  then show ?case using 2(1,3) run by (auto simp: bind_res_Inr)
qed simp

lemma answer_fst [simp]: "fst (answer r) = fst r"
  by (auto simp: answer_def split: prod.splits sum.splits ledger_error.splits)

lemma own_row: "own_project st p user \<noteq> None \<Longrightarrow> row st Project p \<noteq> None"
  using own_project_row by fastforce

lemma checked_typed: "checked_body ks e vals \<Longrightarrow> ''owner'' \<notin> set (map fst vals) \<Longrightarrow> typed e vals"
proof -
  assume b: "checked_body ks e vals" and o: "''owner'' \<notin> set (map fst vals)"
  have "column_ok e k v" if kv: "(k, v) \<in> set vals" for k v
  proof -
    have "k \<noteq> ''owner''" using kv o by force
    moreover have "body_value e k v" using b kv by (auto simp: checked_body_def list_all_iff)
    ultimately show ?thesis by (simp add: body_value_def)
  qed
  then show "typed e vals" by (auto simp: typed_def list_all_iff)
qed

lemma checked_settable:
  assumes "checked_body ks e vals" "''owner'' \<notin> set (map fst vals)" "set ks \<subseteq> set (column_names e) - set FIXED"
  shows "settable e vals"
proof -
  have "distinct (map fst vals)" "set (map fst vals) \<subseteq> set ks" using assms(1) by (simp_all only: checked_body_def)
  then show ?thesis using checked_typed [OF assms(1,2)] assms(3) unfolding settable_def by blast
qed

lemma field_columns:
  "set (''status'' # PROJECT_FIELDS) \<subseteq> set (column_names Project) - set FIXED"
  "set GOAL_FIELDS \<subseteq> set (column_names Goal) - set FIXED"
  "set NOTE_FIELDS \<subseteq> set (column_names Note) - set FIXED"
  "set TASK_FIELDS \<subseteq> set (column_names Task) - set FIXED"
  by (simp_all add: PROJECT_FIELDS_def GOAL_FIELDS_def NOTE_FIELDS_def TASK_FIELDS_def column_names_def column_simps FIXED_def del: set_map)

lemma no_owner:
  "checked_body (''status'' # PROJECT_FIELDS) Project vals \<Longrightarrow> ''owner'' \<notin> set (map fst vals)"
  "checked_body GOAL_FIELDS Goal vals \<Longrightarrow> ''owner'' \<notin> set (map fst vals)"
  using subsetD [of "set (map fst vals)" _ "''owner''"]
  by (auto simp: checked_body_def PROJECT_FIELDS_def GOAL_FIELDS_def simp del: set_map)

lemma settable_dset:
  assumes s: "settable Task vals" and k: "k \<in> set (column_names Task) - set FIXED" "column_ok Task k v"
  shows "settable Task (dset vals k v)"
proof -
  have "set (map fst (dset vals k v)) \<subseteq> set (column_names Task) \<and> set (map fst (dset vals k v)) \<inter> set FIXED = {}"
    using s k(1) unfolding settable_def keys_dset_map by blast
  moreover have "distinct (map fst (dset vals k v))" using s unfolding settable_def by (simp only: distinct_dset)
  moreover have "typed Task (dset vals k v)"
    using s k(2) typed_dset unfolding settable_def by blast
  ultimately show ?thesis by (simp only: settable_def)
qed

lemma clearable_columns: "set CLEARABLE \<subseteq> set (column_names Task) - set FIXED"
  by (simp add: CLEARABLE_def column_names_def column_simps FIXED_def del: set_map)

lemma clearable_null: "k \<in> set CLEARABLE \<Longrightarrow> column_ok Task k PNone"
proof -
  have "list_all (\<lambda>k. column_ok Task k PNone) CLEARABLE"
    by (simp add: CLEARABLE_def column_ok_def NULLABLE_TEXTS_def due_ok_def owner_ok_def)
  then show "k \<in> set CLEARABLE \<Longrightarrow> column_ok Task k PNone" by (simp add: list_all_iff)
qed

lemma clear_settable:
  "settable Task vals \<Longrightarrow> set clear \<subseteq> set CLEARABLE \<Longrightarrow> settable Task (foldl (\<lambda>vals k. dset vals k PNone) vals clear)"
proof (induction clear arbitrary: vals)
  case (Cons k clear)
  have "k \<in> set (column_names Task) - set FIXED" using Cons.prems(2) clearable_columns by auto
  moreover have "column_ok Task k PNone" using Cons.prems(2) by (intro clearable_null) simp
  ultimately have "settable Task (dset vals k PNone)" by (intro settable_dset [OF Cons.prems(1)])
  then show ?case using Cons by simp
qed simp

text \<open>A task's patch with its owner checked: what is left of the body is typed already.\<close>

lemma owner_settable:
  assumes b: "checked_body TASK_FIELDS Task vals" and o: "owner_ok owner"
  shows "settable Task (dset vals ''owner'' owner)"
proof -
  have d: "distinct (map fst (dset vals ''owner'' owner))" using b unfolding checked_body_def by (simp only: distinct_dset)
  have ks: "set (map fst (dset vals ''owner'' owner)) \<subseteq> set TASK_FIELDS"
    using b unfolding checked_body_def keys_dset_map by (auto simp: TASK_FIELDS_def)
  have "column_ok Task k v" if kv: "(k, v) \<in> set (dset vals ''owner'' owner)" for k v
  proof (cases "k = ''owner''")
    case True
    then have "v = owner" using kv set_keys_dset [OF kv] b by (auto simp: checked_body_def)
    with True o show ?thesis by (simp add: column_ok_def)
  next
    case False
    then have "(k, v) \<in> set vals" using dset_in [OF kv] by simp
    with False b show ?thesis by (force simp: checked_body_def list_all_iff body_value_def)
  qed
  then have "typed Task (dset vals ''owner'' owner)" by (auto simp: typed_def list_all_iff)
  then show ?thesis unfolding settable_def using d ks field_columns(4) by blast
qed

lemma patched_settable:
  assumes "checked_body TASK_FIELDS Task vals" "set clear \<subseteq> set CLEARABLE" "patched_task fstr vals clear = Inr vals'"
  shows "settable Task vals'"
proof (cases "map_of vals ''owner''")
  case None
  then have "''owner'' \<notin> set (map fst vals)" by (simp add: map_of_eq_None_iff)
  note s = checked_settable [OF assms(1) this field_columns(4)]
  show ?thesis using clear_settable [OF s assms(2)] assms(3) None by (simp add: patched_task_def)
next
  case (Some v)
  then obtain owner where "ledger_owner fstr v = Inr owner" "vals' = foldl (\<lambda>vals k. dset vals k PNone) (dset vals ''owner'' owner) clear"
    using assms(3) by (auto simp: patched_task_def bind_res_Inr simp del: map_of_eq_Some_iff)
  then show ?thesis using clear_settable [OF owner_settable [OF assms(1) field_types(3)] assms(2)] by blast
qed

lemmas transaction_inv = transaction_keeps [where Q = "ledger_inv env" for env]

lemma new_bodyD:
  assumes "new_body ks e body" "''owner'' \<notin> set ks"
  shows "distinct (map fst body)" "set (map fst body) \<subseteq> set ks" "typed e body" "set (required e) \<inter> set ks \<subseteq> set (map fst body)"
proof -
  have b: "checked_body ks e body" using assms(1) by (simp only: new_body_def)
  show "distinct (map fst body)" "set (map fst body) \<subseteq> set ks" using b by (simp_all only: checked_body_def)
  then show "typed e body" using checked_typed [OF b] assms(2) by blast
  show "set (required e) \<inter> set ks \<subseteq> set (map fst body)" using assms(1) by (simp only: new_body_def)
qed

lemma disjoint_sub: "A \<subseteq> B \<Longrightarrow> B \<inter> C = {} \<Longrightarrow> A \<inter> C = {}"
  by blast

lemma project_body_creatable:
  assumes b: "new_body PROJECT_FIELDS Project body"
  shows "creatable st Project body"
proof -
  have own: "''owner'' \<notin> set PROJECT_FIELDS" and req: "set (required Project) \<inter> set PROJECT_FIELDS = set (required Project)"
    by (simp_all add: PROJECT_FIELDS_def)
  have sub: "set PROJECT_FIELDS \<subseteq> set (map fst (columns Project))" unfolding column_simps by (simp add: PROJECT_FIELDS_def)
  have dis: "set PROJECT_FIELDS \<inter> {''id'', ''version'', ''created_at'', ''updated_at'', ''owner_id'', ''short_id'', ''next_task''} = {}"
    by (simp add: PROJECT_FIELDS_def)
  note nb = new_bodyD [OF b own]
  show ?thesis
    by (rule creatableI [OF nb(1) subset_trans [OF nb(2) sub] nb(3) disjoint_sub [OF nb(2) dis] nb(4) [unfolded req]]) simp
qed

lemma child_creatable:
  assumes b: "new_body ks e body" and own: "own_project st p user \<noteq> None"
    and k: "e \<in> {Goal, Note}" "set ks \<subseteq> set (map fst (columns e)) - {''project_id''}" "set (required e) \<subseteq> insert ''project_id'' (set ks)" "''owner'' \<notin> set ks"
  shows "creatable st e ((''project_id'', PStr p) # body)"
proof -
  let ?vals = "(''project_id'', PStr p) # body"
  note nb = new_bodyD [OF b k(4)]
  have keys: "set (map fst ?vals) = insert ''project_id'' (set (map fst body))" by simp
  have cols: "''project_id'' \<in> set (map fst (columns e))" using k(1) by (auto simp: column_simps simp del: set_map)
  have dis: "set (map fst (columns e)) \<inter> {''id'', ''version'', ''created_at'', ''updated_at'', ''owner_id'', ''short_id'', ''next_task''} = {}"
    using k(1) by (elim insertE emptyE) (simp_all add: column_simps del: set_map)
  have fresh: "''project_id'' \<notin> set (map fst body)" using nb(2) k(2) by (meson DiffD2 insertI1 subsetD)
  have sub: "set (map fst ?vals) \<subseteq> set (map fst (columns e))" unfolding keys using nb(2) k(2) cols by (simp only: insert_subset) (meson Diff_subset subset_trans)
  have "distinct (map fst ?vals)" using nb(1) fresh by simp
  moreover have "typed e ?vals" using nb(3) by (simp add: column_ok_def NULLABLE_TEXTS_def)
  moreover have "set (required e) \<subseteq> set (map fst ?vals)"
  proof
    fix x assume "x \<in> set (required e)"
    then show "x \<in> set (map fst ?vals)" using nb(4) k(3) unfolding keys by (cases "x = ''project_id''") (simp, meson Int_iff insertE insertI2 subsetD)
  qed
  moreover have "dget ?vals ''project_id'' = PStr p" by (simp add: dget_def)
  ultimately show ?thesis using own_row [OF own] by (intro creatableI [OF _ sub _ disjoint_sub [OF sub dis]]) simp_all
qed

lemma child_fields:
  "set GOAL_FIELDS \<subseteq> set (map fst (columns Goal)) - {''project_id''}" "set (required Goal) \<subseteq> insert ''project_id'' (set GOAL_FIELDS)"
  "''owner'' \<notin> set GOAL_FIELDS"
  "set NOTE_FIELDS \<subseteq> set (map fst (columns Note)) - {''project_id''}" "set (required Note) \<subseteq> insert ''project_id'' (set NOTE_FIELDS)"
  "''owner'' \<notin> set NOTE_FIELDS"
  unfolding column_simps by (simp_all add: GOAL_FIELDS_def NOTE_FIELDS_def)

lemmas row_types = column_ok_def NULLABLE_TEXTS_def is_list_def one_of_def TASK_STATUSES_def

lemma task_body_creatable:
  assumes "own_project st p user \<noteq> None" "is_text title" "due_ok due" "owner_ok owner" "text_or_none goal"
  shows "creatable st Task [(''project_id'', PStr p), (''title'', title), (''status'', PStr ''todo''), (''due_date'', due),
           (''owner'', owner), (''goal_id'', goal), (''declared_files'', PList [])]"
  using assms own_row [OF assms(1)] by (simp add: creatable_def column_simps row_types dget_def del: set_map)

lemma promoted_creatable:
  assumes "own_project st p user \<noteq> None"
  shows "creatable st Task [(''project_id'', PStr p), (''title'', PStr title), (''status'', PStr ''todo''), (''declared_files'', PList [])]"
  using own_row [OF assms] by (simp add: creatable_def column_simps row_types dget_def del: set_map)

lemma link_body_creatable:
  "text_or_none label \<Longrightarrow> creatable st Link [(''from_kind'', PStr kind), (''from_id'', PStr i), (''to_kind'', PStr kind'), (''to_ref'', PStr ref), (''label'', label)]"
  by (simp add: creatable_def column_simps row_types del: set_map)

lemma bare_link_creatable: "creatable st Link (thread_link kind i thread)"
  by (simp add: creatable_def thread_link_def column_simps row_types del: set_map)

lemma link_keeps_project: "link env st sp vals = Inr (st', l) \<Longrightarrow> own_project st p user \<noteq> None \<Longrightarrow> own_project st' p user \<noteq> None"
  by (simp add: own_project_def link_keeps_row)

lemma promote_one_keeps:
  assumes inv: "ledger_inv env st" and own: "own_project st project user \<noteq> None"
    and p: "promote_one env user project thread title st = Inr (st', r)"
  shows "ledger_inv env st' \<and> own_project st' project user \<noteq> None"
proof -
  obtain st1 r1 l where c: "create env st Task (user_stamp user)
         [(''project_id'', PStr project), (''title'', PStr (take 300 title)), (''status'', PStr ''todo''), (''declared_files'', PList [])] = Inr (st1, r1)"
    and l: "link env st1 (user_stamp user) (thread_link ''task'' (row_id r1) thread @ [(''todo_ref'', PStr (take 300 title))]) = Inr (st', l)"
    using p unfolding promote_one_def bind_prod_Inr by auto
  have 1: "ledger_inv env st1" by (rule create_log [OF inv promoted_creatable [OF own] c])
  have "ledger_inv env st'" by (rule link_log [OF 1 creatable_thread_link l]) simp_all
  moreover have "own_project st' project user \<noteq> None"
    by (rule link_keeps_project [OF l create_keeps_project [OF c own]])
  ultimately show ?thesis by simp
qed

lemma promote_each_keeps:
  "ledger_inv env st \<Longrightarrow> own_project st project user \<noteq> None \<Longrightarrow> promote_each env user project thread titles st = Inr (st', rs)
    \<Longrightarrow> ledger_inv env st'"
proof (induction titles arbitrary: st rs)
  case (Cons t ts)
  from Cons.prems(3) obtain st1 r rs' where p: "promote_one env user project thread t st = Inr (st1, r)"
    and ps: "promote_each env user project thread ts st1 = Inr (st', rs')" by (auto simp: bind_prod_Inr)
  show ?case using promote_one_keeps [OF Cons.prems(1,2) p] Cons.IH [OF _ _ ps] by blast
qed simp

lemma promote_keeps: "ledger_inv env st \<Longrightarrow> ledger_inv env (fst (promote env user project thread titles st))"
  unfolding promote_def Let_def
proof (split if_splits, intro conjI impI; (simp; fail)?)
  assume inv: "ledger_inv env st"
  show "ledger_inv env (fst (if own_project st project user = None then (st, Inl (Ledger_Error ''there is no such project''))
      else transaction st (\<lambda>st. bind_res (promote_each env user project thread (map py_strip (filter (\<lambda>t. py_strip t \<noteq> []) titles)) st) (\<lambda>(st, rs).
        bind_res (link env st (user_stamp user) (thread_link ''project'' project thread)) (\<lambda>(st, l). Inr (st, rs))))))"
  proof (cases "own_project st project user = None")
    case False
    show ?thesis unfolding if_not_P [OF False]
    proof (rule transaction_inv [OF inv])
      fix st' a
      assume "bind_res (promote_each env user project thread (map py_strip (filter (\<lambda>t. py_strip t \<noteq> []) titles)) st) (\<lambda>(st, rs).
        bind_res (link env st (user_stamp user) (thread_link ''project'' project thread)) (\<lambda>(st, l). Inr (st, rs))) = Inr (st', a)"
      then show "ledger_inv env st'"
        unfolding bind_prod_Inr using promote_each_keeps [OF inv False] link_log bare_link_creatable by fastforce
    qed
  qed (use inv in simp)
qed

lemma route_task_keeps:
  assumes inv: "ledger_inv env st" and b: "task_body body"
  shows "ledger_inv env (fst (route_create_task env user project body st))"
proof (cases "own_project st project user = None")
  case False
  have can: "owner_ok owner \<Longrightarrow> creatable st Task [(''project_id'', PStr project), (''title'', dget body ''title''), (''status'', PStr ''todo''),
      (''due_date'', dget body ''due_date''), (''owner'', owner), (''goal_id'', dget body ''goal_id''), (''declared_files'', PList [])]" for owner
    by (rule task_body_creatable [OF False]) (use b in \<open>simp_all add: task_body_def\<close>)
  show ?thesis unfolding route_create_task_def if_not_P [OF False] answer_fst
    by (rule transaction_inv [OF inv]) (auto simp: bind_res_Inr dest!: field_types(3) intro: create_log [OF inv can])
qed (use inv in \<open>simp add: route_create_task_def\<close>)

lemma route_child_keeps:
  assumes inv: "ledger_inv env st" and b: "new_body ks e body" "e \<in> {Goal, Note}" "set ks \<subseteq> set (map fst (columns e)) - {''project_id''}"
    "set (required e) \<subseteq> insert ''project_id'' (set ks)" "''owner'' \<notin> set ks"
  shows "ledger_inv env (fst (route_create_child env e user project body st))"
proof (cases "own_project st project user = None")
  case False
  show ?thesis unfolding route_create_child_def if_not_P [OF False] answer_fst
    by (rule transaction_inv [OF inv]) (rule create_log [OF inv child_creatable [OF b(1) False b(2-5)]])
qed (use inv in \<open>simp add: route_create_child_def\<close>)

lemma user_update_keeps:
  assumes "ledger_inv env st" "settable e vals"
  shows "ledger_inv env (fst (answer (transaction st (\<lambda>st. update env st e i (user_stamp user) version vals))))"
  unfolding answer_fst by (rule transaction_inv [OF assms(1)]) (rule update_log [OF assms]; simp add: user_stamp_def)

lemma route_link_keeps:
  assumes inv: "ledger_inv env st" and label: "text_or_none label"
  shows "ledger_inv env (fst (route_create_link env user project kind ref label st))"
proof (cases "own_project st project user = None")
  case False
  show ?thesis unfolding route_create_link_def if_not_P [OF False] answer_fst
    by (rule transaction_inv [OF inv]) (rule link_log [OF inv link_body_creatable [OF label]])
qed (use inv in \<open>simp add: route_create_link_def\<close>)

theorem step_keeps:
  assumes "ledger_step env st st'" and inv: "ledger_inv env st"
  shows "ledger_inv env st'"
  using assms(1)
proof cases
  case (plan call changes)
  then show ?thesis using audited.apply_plan_keeps [OF inv] by simp
next
  case (batch call cards)
  then show ?thesis unfolding apply_batch_def by (simp only:) (rule transaction_inv [OF inv], rule cards_keep [OF inv])
next
  case (undo user ws)
  then show ?thesis using undo_writes_keeps [OF inv] by simp
next
  case (new_project body user)
  then show ?thesis unfolding route_create_project_def
    by (simp only: answer_fst) (rule transaction_inv [OF inv], rule create_log [OF inv project_body_creatable])
next
  case (new_goal body user project)
  then show ?thesis using route_child_keeps [OF inv _ _ child_fields(1-3)] by simp
next
  case (new_note body user project)
  then show ?thesis using route_child_keeps [OF inv _ _ child_fields(4-6)] by simp
next
  case (new_task body user project)
  then show ?thesis using route_task_keeps [OF inv] by simp
next
  case (edit_project vals user i version)
  then show ?thesis using user_update_keeps [OF inv checked_settable [OF edit_project(2) no_owner(1) [OF edit_project(2)] field_columns(1)]] inv
    by (simp add: route_patch_project_def)
next
  case (edit_goal vals user i version)
  then show ?thesis using user_update_keeps [OF inv checked_settable [OF edit_goal(2) no_owner(2) [OF edit_goal(2)] field_columns(2)]] inv
    by (simp add: route_patch_goal_def split: option.splits)
next
  case (edit_task vals clear user i version)
  then show ?thesis using user_update_keeps [OF inv patched_settable] inv
    by (simp add: route_patch_task_def split: option.splits sum.splits)
next
  case (new_link user project kind ref label)
  then show ?thesis using route_link_keeps [OF inv] by simp
next
  case (delete_link user i)
  then show ?thesis using drop_log [OF inv, of Link i _ "user_stamp user\<lparr>sp_cause := None\<rparr>"] inv
    by (simp add: route_delete_link_def unlink_def user_stamp_def split: option.splits)
next
  case (promoted user project thread titles)
  then show ?thesis using promote_keeps [OF inv] by simp
qed

lemma empty_inv: "inj (le_id env) \<Longrightarrow> ledger_inv env empty_ledger"
  by (simp add: ledger_inv_def ledger_ok_def ledger_wf_def filed_def ids_fresh_def tasks_numbered_def keys_unique_def log_ok_def
      explained_def chained_def entries_ok_def replay_def empty_ledger_def row_def)

lemma reachable_inv:
  assumes "ledger_reachable env st" "inj (le_id env)"
  shows "ledger_inv env st"
  using assms(1) by induction (use assms(2) empty_inv step_keeps in blast)+

subsection \<open>A plan meets no error but its own\<close>

text \<open>What a plan may fail with: a message, or the conversion of an overlong short id.\<close>

definition own_error :: "ledger_error \<Rightarrow> bool" where
  "own_error e = (e = Value_Error \<or> (\<exists>m. e = Ledger_Error m))"

lemma own_error_simps [simp]: "own_error (Ledger_Error m)" "own_error Value_Error"
  by (simp_all add: own_error_def)

lemma bind_res_Inl: "bind_res r f = Inl e \<longleftrightarrow> r = Inl e \<or> (\<exists>a. r = Inr a \<and> f a = Inl e)"
  by (cases r) auto

lemma bind_prod_Inl: "bind_res r (\<lambda>(a, b). f a b) = Inl e \<longleftrightarrow> r = Inl e \<or> (\<exists>a b. r = Inr (a, b) \<and> f a b = Inl e)"
  by (cases r) (auto split: prod.splits)

lemma field_errors:
  "ledger_text fstr c f n b = Inl e \<Longrightarrow> own_error e"
  "ledger_status fstr what names v = Inl e \<Longrightarrow> own_error e"
  "ledger_date fstr v f = Inl e \<Longrightarrow> own_error e"
  "ledger_owner fstr v = Inl e \<Longrightarrow> own_error e"
  by (auto simp: ledger_text_def ledger_status_def ledger_date_def ledger_owner_def Let_def split: if_splits option.splits py.splits)

lemma the_one_error: "the_one a b xs ys = Inl e \<Longrightarrow> e = a \<or> e = b"
  by (auto simp: the_one_def split: list.splits)

lemma find_errors:
  "find_project env st user ref refs = Inl e \<Longrightarrow> own_error e"
  "find_goal env st p ref refs named = Inl e \<Longrightarrow> own_error e"
  "find_task env st p ref named = Inl e \<Longrightarrow> own_error e"
  "pinned_project env st user i = Inl e \<Longrightarrow> own_error e"
  "pinned_task env st user pin = Inl e \<Longrightarrow> own_error e"
  "task_anywhere env st user ref = Inl e \<Longrightarrow> own_error e"
  by (auto simp: find_project_def find_goal_def find_task_def pinned_project_def pinned_task_def task_anywhere_def Let_def
      dest!: the_one_error split: if_splits option.splits list.splits)

lemma update_values_error: "update_values fstr c = Inl e \<Longrightarrow> own_error e"
  using field_errors by (auto simp: update_values_def bind_res_Inl when_given_def split: if_splits)

lemma resolve_error: "resolve_change env call c run = Inl e \<Longrightarrow> own_error e"
  using find_errors by (auto simp: resolve_change_def Let_def bind_res_Inl split: if_splits)

lemma create_succeeds:
  assumes ok: "ledger_ok env st" and can: "creatable st e vals" and fk: "\<not> le_fk env"
    and link: "e = Link \<Longrightarrow> find (same_on LINK_KEY vals) (rows_of st Link) = None"
  shows "create env st e sp vals \<noteq> Inl err"
proof -
  let ?i = "le_id env (lg_ticks st)"
  have new: "row st e' ?i = None" for e' using fresh_row [OF ok] by simp
  have fi: "filed st" using ok by (rule ledger_ok_filed)
  have d: "distinct (map fst vals)" by (rule creatable_distinct [OF can])
  have noviol: "\<not> violates env x e i r"
    if "\<And>j r'. row x e j = Some r' \<Longrightarrow> j \<noteq> i \<Longrightarrow> \<not> same_on (unique_columns e) r r'" "filed x" "row_ok e r" for x e i r
    using that fk row_ok_complete [OF that(3)] by (auto simp: violates_def list_ex_iff in_rows)
  show ?thesis
  proof (cases "e = Task")
    case True
    obtain p project where p: "dget vals ''project_id'' = PStr p" "row st Project p = Some project"
      using can True by (auto simp: creatable_def)
    have n: "1 \<le> next_task project" using row_ok_Project [OF ledger_ok_row [OF ok p(2)]] next_task_above by blast
    let ?x = "put_row st Project p (numbered env st project)" and ?vals = "dset vals ''short_id'' (PStr (short_id (next_task project)))"
    let ?r = "new_row env st Task ?vals"
    have d': "distinct (map fst ?vals)" by (rule distinct_dset [OF d])
    have cols: "dget ?r ''project_id'' = PStr p" "dget ?r ''short_id'' = PStr (short_id (next_task project))"
      using p(1) by (simp_all add: new_row_given [OF d'] keys_dset_map given_in dget_dset_if del: set_map)
    have fx: "filed ?x" using fi p(2) by (intro filed_put) (simp_all add: filed_def)
    have "\<not> violates env ?x Task ?i ?r"
    proof (rule noviol [OF _ fx conjunct1 [OF created_task_ok [OF can [unfolded True] n]]])
      fix j t assume "row ?x Task j = Some t"
      then have t: "row st Task j = Some t" by simp
      obtain m where m: "numbered_id (dget t ''short_id'') m" using row_ok_Task(1) [OF ledger_ok_row [OF ok t]] by blast
      have "m < next_task project" if "dget t ''project_id'' = PStr p"
        using ok t that p(2) m by (auto simp: ledger_ok_def ledger_wf_def tasks_numbered_def)
      then show "\<not> same_on (unique_columns Task) ?r t" using cols m n by (auto simp: same_on_def numbered_id_def short_id_inj)
    qed
    then show ?thesis using True p new by (simp add: create_def number_task_def new_row_def [symmetric] Let_def) (simp add: new_row_def stamped_def)
  next
    case False
    let ?vals = "if e = Project then dset vals ''owner_id'' (PStr (sp_owner sp)) else vals"
    let ?r = "new_row env st e ?vals"
    have d': "distinct (map fst ?vals)" using d by (simp add: distinct_dset)
    have id: "dget ?r ''id'' = PStr ?i"
      using created_row_ok [OF can False, of env st "sp_owner sp"] by (simp only:)
    have "\<not> violates env st e ?i ?r"
    proof (rule noviol [OF _ fi conjunct1 [OF created_row_ok [OF can False]]])
      fix j r' assume r': "row st e j = Some r'" "j \<noteq> ?i"
      show "\<not> same_on (unique_columns e) ?r r'"
      proof (cases "e = Link")
        case True
        have k: "\<not> same_on LINK_KEY vals r'" using link [OF True] rows_of_iff [OF fi] r'(1) True by (auto simp: find_None_iff)
        have "dget ?r k = dget vals k" if "k \<in> set LINK_KEY" for k
        proof -
          have "k \<in> set (map fst vals)" using creatableD(4) [OF can] True that by (auto simp: LINK_KEY_def simp del: set_map)
          then show ?thesis using new_row_given [OF d] True by simp
        qed
        then have "same_on LINK_KEY ?r r' = same_on LINK_KEY vals r'" by (rule same_on_cong)
        then show ?thesis using k True by (simp add: LINK_KEY_def)
      next
        case notlink: False
        then show ?thesis using id fi r' False by (cases e) (auto simp: same_on_def filed_def)
      qed
    qed
    then show ?thesis using False new by (simp add: create_def new_row_def Let_def)
  qed
qed

lemma unique_fixed: "k \<in> set (unique_columns e) \<Longrightarrow> k \<in> set FIXED \<and> k \<notin> {''version'', ''updated_at''}"
  by (cases e) (auto simp: FIXED_def)

lemma update_not_violating:
  assumes ok: "ledger_ok env st" and set: "settable e vals" and fk: "\<not> le_fk env" and r: "row st e i = Some old"
  shows "\<not> violates env st e i (updated_row env st' e old vals)"
proof -
  have "\<not> same_on (unique_columns e) (updated_row env st' e old vals) r'" if "row st e j = Some r'" "j \<noteq> i" for j r'
  proof -
    have "same_on (unique_columns e) (updated_row env st' e old vals) r' = same_on (unique_columns e) old r'"
      using updated_fixed [OF set] unique_fixed by (intro same_on_cong) blast
    moreover have "keys_unique st" using ok by (simp add: ledger_ok_def ledger_wf_def)
    ultimately show ?thesis using r that unfolding keys_unique_def by blast
  qed
  then show ?thesis
    using fk ledger_ok_filed [OF ok] row_ok_complete [OF updated_row_ok [OF set ledger_ok_row [OF ok r]]]
    by (auto simp: violates_def list_ex_iff in_rows)
qed

lemma update_succeeds:
  assumes "ledger_ok env st" "settable e vals" "\<not> le_fk env"
  shows "update env st e i sp PNone vals \<noteq> Inl err"
  using update_not_violating [OF assms] by (auto simp: update_def stale_def Let_def split: option.splits)

lemma link_succeeds: "ledger_ok env st \<Longrightarrow> creatable st Link vals \<Longrightarrow> \<not> le_fk env \<Longrightarrow> link env st sp vals \<noteq> Inl err"
  using create_succeeds [of env st Link vals sp err] by (auto simp: link_def split: option.splits)

lemma thread_link_succeeds:
  "ledger_ok env st \<Longrightarrow> \<not> le_fk env \<Longrightarrow> text_or_none v \<Longrightarrow> link env st sp (thread_link kind i thread @ [(''label'', v)]) \<noteq> Inl err"
  "ledger_ok env st \<Longrightarrow> \<not> le_fk env \<Longrightarrow> text_or_none v \<Longrightarrow> link env st sp (thread_link kind i thread @ [(''todo_ref'', v)]) \<noteq> Inl err"
  by (rule link_succeeds [OF _ creatable_thread_link]; simp)+

text \<open>The rows a plan makes are complete and of the right types, whatever the change said.\<close>

lemma plan_rows:
  "is_text name \<Longrightarrow> text_or_none why \<Longrightarrow> text_or_none ctx \<Longrightarrow> one_of PROJECT_STATUSES status
    \<Longrightarrow> creatable st Project [(''name'', name), (''why'', why), (''context'', ctx), (''status'', status)]"
  "resolves st user project \<Longrightarrow> is_text title \<Longrightarrow> is_text finished \<Longrightarrow> due_ok target
    \<Longrightarrow> creatable st Goal [(''project_id'', PStr (row_id project)), (''title'', title), (''definition_of_done'', finished), (''target_date'', target)]"
  "resolves st user project \<Longrightarrow> is_text title \<Longrightarrow> one_of TASK_STATUSES status' \<Longrightarrow> due_ok due \<Longrightarrow> owner_ok owner \<Longrightarrow> text_or_none goal
    \<Longrightarrow> creatable st Task [(''project_id'', PStr (row_id project)), (''title'', title), (''status'', status'), (''due_date'', due), (''owner'', owner),
          (''goal_id'', goal), (''declared_files'', PList [])]"
  "resolves st user project \<Longrightarrow> is_text decided \<Longrightarrow> text_or_none why \<Longrightarrow> text_or_none thread
    \<Longrightarrow> creatable st Note [(''project_id'', PStr (row_id project)), (''decided'', decided), (''why'', why), (''thread_id'', thread)]"
  using creatable_plan(1) [of name why ctx status st] creatable_plan(2) [of st user project title finished target]
    creatable_plan(3) [of st user project title status' due owner goal] creatable_plan(4) [of st user project decided why thread]
  unfolding typed_plan by (simp_all add: project_values_def goal_values_def task_values_def note_values_def)

lemma goal_text: "bind_res r (\<lambda>g. Inr (PStr g)) = Inr x \<Longrightarrow> text_or_none x"
  by (auto simp: bind_res_Inr)

lemmas read_types = field_types ledger_date_ok goal_text

lemma project_error:
  assumes ok: "ledger_ok env (pr_ledger run)" and fk: "\<not> le_fk env" and a: "apply_create_project env call c run = Inl e"
  shows "own_error e"
  using a unfolding apply_create_project_def Let_def bind_prod_Inl
  using field_errors create_succeeds [OF ok plan_rows(1) fk] create_ok [OF ok plan_rows(1)] thread_link_succeeds(1) [OF _ fk]
  by (auto simp: bind_res_Inl ledger_status_one split: if_splits dest!: read_types)

lemma goal_error:
  assumes ok: "ledger_ok env (pr_ledger run)" and fk: "\<not> le_fk env" and p: "resolves (pr_ledger run) user project"
    and a: "apply_create_goal env call c project named run = Inl e"
  shows "own_error e"
  using a unfolding apply_create_goal_def Let_def bind_prod_Inl
  using field_errors create_succeeds [OF ok plan_rows(2) [OF p] fk] by (auto simp: bind_res_Inl dest!: read_types)

lemma note_error:
  assumes ok: "ledger_ok env (pr_ledger run)" and fk: "\<not> le_fk env" and p: "resolves (pr_ledger run) user project"
    and a: "apply_add_note env call c project named run = Inl e"
  shows "own_error e"
  using a unfolding apply_add_note_def Let_def bind_prod_Inl
  using field_errors create_succeeds [OF ok plan_rows(4) [OF p] fk] thread_value_ok [of call] by (auto simp: bind_res_Inl dest!: read_types)

lemma task_error:
  assumes ok: "ledger_ok env (pr_ledger run)" and fk: "\<not> le_fk env" and p: "resolves (pr_ledger run) user project"
    and a: "apply_create_task env call c project named run = Inl e"
  shows "own_error e"
  using a unfolding apply_create_task_def Let_def bind_prod_Inl
  using field_errors find_errors(2) create_succeeds [OF ok plan_rows(3) [OF p] fk] create_ok [OF ok plan_rows(3) [OF p]] thread_link_succeeds(2) [OF _ fk]
    create_ok [OF ok plan_rows(3) [OF p _ _ _ _ text_or_none_simps(1)]]
  by (auto simp: bind_res_Inl ledger_status_one dest!: read_types intro!: text_or_none_simps split: if_splits)

lemma change_task_error:
  assumes "ledger_ok env (pr_ledger run)" "\<not> le_fk env" "apply_update_task env call c pin task named run = Inl e"
  shows "own_error e"
  using assms(3) unfolding apply_update_task_def bind_prod_Inl
  using update_values_error update_succeeds [OF assms(1) update_values_settable assms(2)] by (auto simp: bind_res_Inl split: if_splits)

lemma thread_error:
  assumes "ledger_ok env (pr_ledger run)" "\<not> le_fk env" "apply_link_thread env call c project named run = Inl e"
  shows "own_error e"
  using assms(3) unfolding apply_link_thread_def bind_prod_Inl
  using field_errors thread_link_succeeds(1) [OF assms(1,2)] by (auto simp: bind_res_Inl split: if_splits dest!: read_types)

lemma change_error:
  assumes ok: "ledger_ok env (pr_ledger run)" and fk: "\<not> le_fk env" and a: "apply_change env call c run = Inl e"
  shows "own_error e"
proof (cases "dget c ''op'' = PStr ''create_project''")
  case True
  then show ?thesis using a project_error [OF ok fk] by (auto simp: apply_change_def Let_def bind_res_Inl)
next
  case False
  show ?thesis
  proof (cases "resolve_change env call c run")
    case (Inl err)
    then show ?thesis using a False resolve_error by (auto simp: apply_change_def Let_def)
  next
    case (Inr x)
    obtain task project named where r: "resolve_change env call c run = Inr (task, project, named)" using Inr by (cases x) auto
    note p = resolve_change_resolves(1) [OF ledger_ok_filed [OF ok] r]
    show ?thesis
      using a False r goal_error [OF ok fk p] task_error [OF ok fk p] note_error [OF ok fk p] thread_error [OF ok fk]
        change_task_error [OF ok fk] find_errors(3)
      by (auto simp: apply_change_def Let_def bind_res_Inl split: if_splits option.splits)
  qed
qed

lemma changes_error:
  "ledger_ok env (pr_ledger run) \<Longrightarrow> \<not> le_fk env \<Longrightarrow> apply_changes env call cs run = Inl e \<Longrightarrow> own_error e"
proof (induction cs arbitrary: run)
  case (Cons c cs)
  from Cons.prems(3) consider "apply_change env call c run = Inl e"
    | run' where "apply_change env call c run = Inr run'" "apply_changes env call cs run' = Inl e" by (auto simp: bind_res_Inl)
  then show ?case
  proof cases
    case 1
    then show ?thesis by (rule change_error [OF Cons.prems(1,2)])
  next
    case (2 run')
    show ?thesis by (rule Cons.IH [OF well_formed.change_keeps [OF Cons.prems(1) 2(1)] Cons.prems(2) 2(2)])
  qed
qed simp

lemma changes_ok_error: "changes_ok fstr cs = Inl e \<Longrightarrow> own_error e"
  by (induction cs) (auto simp: bind_res_Inl split: py.splits if_splits)

lemma shapes_error: "shapes_ok fstr v = Inl e \<Longrightarrow> own_error e"
  by (auto simp: shapes_ok_def simp del: changes_ok.simps split: py.splits list.splits dest: changes_ok_error)

lemma apply_in_error: "ledger_ok env st \<Longrightarrow> \<not> le_fk env \<Longrightarrow> apply_in env call changes st = Inl e \<Longrightarrow> own_error e"
  using shapes_error changes_error [of env "start_run st" call] by (auto simp: apply_in_def bind_res_Inl start_run_def)

subsection \<open>A ledger\<close>

definition garden_env :: ledger_env where
  "garden_env = \<lparr>le_id = (\<lambda>n. replicate (Suc n) (CHR ''r'')), le_clock = (\<lambda>n. ''now''), le_fk = False, le_lower = py_lower,
     le_fstr = (\<lambda>q. ''float'')\<rparr>"

definition garden_call :: plan_call where
  "garden_call = \<lparr>pc_user = ''ann'', pc_thread = Some ''chat'', pc_actor = ''assistant_disclosed'', pc_cause = Some ''w-1''\<rparr>"

text \<open>A project, two tasks of it, and the first of them done.\<close>

definition garden_plan :: py where
  "garden_plan = PList [
     PDict [(''op'', PStr ''create_project''), (''ref'', PStr ''p1''), (''name'', PStr ''Garden'')],
     PDict [(''op'', PStr ''create_task''), (''project'', PStr ''p1''), (''title'', PStr ''Buy seeds'')],
     PDict [(''op'', PStr ''create_task''), (''project'', PStr ''p1''), (''title'', PStr ''Dig beds''), (''due_date'', PStr ''20260402'')],
     PDict [(''op'', PStr ''update_task''), (''project'', PStr ''p1''), (''task'', PStr ''t 1''), (''status'', PStr ''done'')]]"

definition garden :: ledger where
  "garden = fst (apply_plan garden_env garden_call garden_plan empty_ledger)"

lemma inj_garden: "inj (le_id garden_env)"
  by (rule injI) (simp add: garden_env_def replicate_eq_replicate)

lemma garden_reachable: "ledger_reachable garden_env garden"
  unfolding garden_def by (rule ledger_reachable.step [OF ledger_reachable.start ledger_step.plan])

lemma garden_rows: "map (\<lambda>(k, r). (k, dget r ''project_id'')) (lg_rows garden)
    = [((Project, ''r''), PNone), ((Link, ''rr''), PNone), ((Task, ''rrr''), PStr ''r''), ((Task, ''rrrr''), PStr ''r'')]"
  unfolding garden_def by code_simp

lemma garden_tasks: "row garden Task ''rrr'' \<noteq> None \<and> row garden Task ''rrrr'' \<noteq> None \<and> row garden Project ''r'' \<noteq> None
    \<and> dget (the (row garden Task ''rrr'')) ''project_id'' = PStr ''r''"
proof -
  have "map_option (\<lambda>r. dget r ''project_id'') (row garden e i)
      = map_of [((Project, ''r''), PNone), ((Link, ''rr''), PNone), ((Task, ''rrr''), PStr ''r''), ((Task, ''rrrr''), PStr ''r'')] (e, i)" for e i
    unfolding garden_rows [symmetric] row_def map_of_map by simp
  from this [of Task "''rrr''"] this [of Task "''rrrr''"] this [of Project "''r''"] show ?thesis by (auto simp: map_option_eq_Some)
qed

subsection \<open>Every reachable ledger\<close>

text \<open>
  C18. Every row of a reachable ledger has exactly the columns of its table, each with a value of its type: versions and
  counters are numbers from 1 on, statuses of the table's list, short ids \<open>T-n\<close>, dates nothing or a text that reads back as
  itself, an owner nothing or a dictionary, declared files a list, optional texts nothing or a text, and every other column a text.
\<close>

theorem reachable_rows_typed:
  assumes "ledger_reachable env st" "inj (le_id env)" "row st e i = Some r"
  shows "row_ok e r \<and> dget r ''id'' = PStr i"
  using reachable_inv [OF assms(1,2)] assms(3) ledger_ok_row filed_def ledger_ok_filed
  by (fastforce simp: ledger_inv_def)

theorem reachable_rows_typed_witness:
  "\<exists>r. row garden Task ''rrr'' = Some r \<and> row_ok Task r \<and> dget r ''id'' = PStr ''rrr''"
  using garden_tasks reachable_rows_typed [OF garden_reachable inj_garden, of Task "''rrr''"] by blast

text \<open>
  C17. In a reachable ledger two tasks of one project never have the same short id, and every number given is below the
  project's counter, whatever mix of plans, batches, undos, edits and promotions led there.
\<close>

theorem short_ids_unique:
  assumes "ledger_reachable env st" "inj (le_id env)"
    and "row st Task i = Some t" "dget t ''project_id'' = PStr p" "row st Project p = Some project"
  shows "(\<exists>n. dget t ''short_id'' = PStr (short_id n) \<and> 1 \<le> n \<and> n < next_task project)
    \<and> (\<forall>j u. row st Task j = Some u \<and> dget u ''project_id'' = PStr p \<and> dget u ''short_id'' = dget t ''short_id'' \<longrightarrow> j = i)"
proof -
  have ok: "ledger_ok env st" using reachable_inv [OF assms(1,2)] by (simp add: ledger_inv_def)
  then have keys: "keys_unique st" and num: "tasks_numbered st" by (simp_all add: ledger_ok_def ledger_wf_def)
  obtain n where n: "numbered_id (dget t ''short_id'') n" using row_ok_Task(1) [OF ledger_ok_row [OF ok assms(3)]] by blast
  have "n < next_task project" using num assms(3-5) n unfolding tasks_numbered_def by blast
  moreover have "j = i" if "row st Task j = Some u" "dget u ''project_id'' = PStr p" "dget u ''short_id'' = dget t ''short_id''" for j u
  proof -
    have "same_on (unique_columns Task) u t" using that assms(4) by (simp add: same_on_def)
    then show ?thesis using keys assms(3) that(1) unfolding keys_unique_def by blast
  qed
  ultimately show ?thesis using n unfolding numbered_id_def by blast
qed

theorem short_ids_unique_witness:
  "\<exists>n t. row garden Task ''rrr'' = Some t \<and> dget t ''short_id'' = PStr (short_id n) \<and> 1 \<le> n"
proof -
  obtain t project where t: "row garden Task ''rrr'' = Some t" and p: "row garden Project ''r'' = Some project"
    and "dget t ''project_id'' = PStr ''r''" using garden_tasks by auto
  then show ?thesis using short_ids_unique [OF garden_reachable inj_garden t _ p] by blast
qed

text \<open>
  C16. The log accounts for the ledger: replaying it gives every row as it is (a project's task counter and time of change
  aside, which a new task moves), and every entry starts from the state the entry before it on that row left.
\<close>

theorem log_accounts_for_ledger:
  assumes "ledger_reachable env st" "inj (le_id env)"
  shows "(\<forall>e i. rel_option (same_row e) (replay (lg_log st) (e, i)) (row st e i))
    \<and> (\<forall>n < length (lg_log st). starts_where_ended (take n (lg_log st)) (lg_log st ! n))"
  using reachable_inv [OF assms] by (auto simp: ledger_inv_def log_ok_def explained_def chained_def)

theorem log_accounts_for_ledger_witness:
  "replay (lg_log garden) (Task, ''rrr'') \<noteq> None \<and> rel_option (same_row Task) (replay (lg_log garden) (Task, ''rrr'')) (row garden Task ''rrr'')"
  using garden_tasks log_accounts_for_ledger [OF garden_reachable inj_garden] by (metis option.rel_distinct(1) not_None_eq)

text \<open>
  C19. On a reachable ledger a plan either is applied, or changes nothing and fails with a message for the user (or with the
  conversion of a short id of more than 4300 digits): never on a stale version, a missing row, a unique constraint or a column
  that may not be \<open>NULL\<close>. The database does not enforce foreign keys here (\<open>\<not> le_fk env\<close>).
\<close>

theorem plan_fails_only_with_a_message:
  assumes "ledger_reachable env st" "inj (le_id env)" "\<not> le_fk env" "apply_plan env call changes st = (st', Inl e)"
  shows "st' = st \<and> own_error e"
  using assms(4) apply_in_error [OF _ assms(3), of st call changes] reachable_inv [OF assms(1,2)]
  by (auto simp: apply_plan_def transaction_def bind_res_Inl ledger_inv_def split: sum.splits)

definition bad_plan :: py where
  "bad_plan = PList [PDict [(''op'', PStr ''create_project''), (''ref'', PStr ''p1''), (''name'', PStr ''Garden'')],
     PDict [(''op'', PStr ''create_task''), (''project'', PStr ''orchard''), (''title'', PStr ''Mow'')]]"

lemma bad_plan_fails: "case apply_plan garden_env garden_call bad_plan empty_ledger of
    (st', Inl (Ledger_Error m)) \<Rightarrow> m \<noteq> [] | _ \<Rightarrow> False"
  by code_simp

theorem plan_fails_only_with_a_message_witness:
  "\<exists>e. apply_plan garden_env garden_call bad_plan empty_ledger = (empty_ledger, Inl e) \<and> own_error e"
proof -
  obtain st' e where f: "apply_plan garden_env garden_call bad_plan empty_ledger = (st', Inl e)"
    using bad_plan_fails by (auto split: prod.splits sum.splits)
  have "st' = empty_ledger \<and> own_error e"
    by (rule plan_fails_only_with_a_message [OF ledger_reachable.start inj_garden _ f]) (simp add: garden_env_def)
  then show ?thesis using f by blast
qed

end
