(* ===== verification/Sandbox_Files.thy ===== *)
theory Sandbox_Files
  imports Policy_Config Py_Text Stores "HOL-Library.Sublist"
begin

text \<open>
  The files a sandbox works on: POSIX paths as \<open>pathlib\<close> parses them, a directory tree with symbolic
  links, \<open>Path.resolve\<close> (\<open>os.path.realpath\<close> of Python 3.12), and the calls that create directories and
  read and write files. A file holds text; permissions and times of the host are left out.
\<close>

subsection \<open>Pure paths\<close>

fun split_on :: "char \<Rightarrow> string \<Rightarrow> string list" where
  "split_on c [] = [[]]"
| "split_on c (x # s) = (if x = c then [] # split_on c s else (case split_on c s of y # ys \<Rightarrow> (x # y) # ys | [] \<Rightarrow> [[x]]))"

type_synonym path = "string list"

definition path_root :: "string \<Rightarrow> string" where
  "path_root s = (if \<not> starts_with s ''/'' then [] else if starts_with s ''//'' \<and> \<not> starts_with s ''///'' then ''//'' else ''/'')"

definition path_parts :: "string \<Rightarrow> path" where
  "path_parts s = filter (\<lambda>n. n \<noteq> [] \<and> n \<noteq> ''.'') (split_on (CHR ''/'') s)"

definition pure_text :: "string \<Rightarrow> path \<Rightarrow> string" where
  "pure_text r parts = (if r = [] \<and> parts = [] then ''.'' else r @ py_join ''/'' parts)"

text \<open>\<open>str(Path(s))\<close>, \<open>str(Path(s).parent)\<close>, \<open>Path(s).name\<close>, \<open>Path(s).is_absolute()\<close>.\<close>

definition pure_str :: "string \<Rightarrow> string" where
  "pure_str s = pure_text (path_root s) (path_parts s)"

definition pure_parent :: "string \<Rightarrow> string" where
  "pure_parent s = pure_text (path_root s) (butlast (path_parts s))"

definition pure_name :: "string \<Rightarrow> string" where
  "pure_name s = (if path_parts s = [] then [] else last (path_parts s))"

definition is_absolute :: "string \<Rightarrow> bool" where
  "is_absolute s = (path_root s \<noteq> [])"

text \<open>A resolved path and its text.\<close>

definition path_str :: "path \<Rightarrow> string" where
  "path_str p = ''/'' @ py_join ''/'' p"

subsection \<open>Files\<close>

datatype node = Directory | File string | Link string

record file_system =
  fs_nodes :: "(path \<times> node) list"
  fs_cwd :: path

definition node_at :: "file_system \<Rightarrow> path \<Rightarrow> node option" where
  "node_at fs p = (if p = [] then Some Directory else map_of (fs_nodes fs) p)"

definition links :: "file_system \<Rightarrow> path list" where
  "links fs = map fst (filter (\<lambda>(p, n). case n of Link t \<Rightarrow> True | _ \<Rightarrow> False) (fs_nodes fs))"

text \<open>What is left of a path after a link that leads back to itself: joined as \<open>os.path.join\<close> joins texts.\<close>

definition join_rest :: "path \<Rightarrow> path \<Rightarrow> path" where
  "join_rest p rest = (if length rest \<ge> 2 \<and> hd rest = [] then rest else p @ rest)"

lemma link_in_links: "node_at fs p = Some (Link t) \<Longrightarrow> p \<noteq> [] \<Longrightarrow> p \<in> set (links fs)"
  by (force simp: node_at_def links_def dest: map_of_SomeD)

lemma fewer_links:
  assumes "p \<in> set ls" "p \<notin> set active"
  shows "length (filter (\<lambda>q. q \<notin> set (p # active)) ls) < length (filter (\<lambda>q. q \<notin> set active) ls)"
proof -
  have "filter (\<lambda>q. q \<notin> set (p # active)) ls = filter (\<lambda>q. q \<noteq> p) (filter (\<lambda>q. q \<notin> set active) ls)"
    by (simp add: filter_filter conj_commute)
  moreover have "length (filter (\<lambda>q. q \<noteq> p) (filter (\<lambda>q. q \<notin> set active) ls)) < length (filter (\<lambda>q. q \<notin> set active) ls)"
    by (rule length_filter_less [of p]) (use assms in auto)
  ultimately show ?thesis by simp
qed

text \<open>
  \<open>_joinrealpath\<close>: the names are walked one by one; a link is replaced by what its target resolves to. \<open>active\<close>
  holds the links being resolved (the entries of \<open>seen\<close> whose value is \<open>None\<close>); meeting one of them again is a loop.
\<close>

function walk :: "file_system \<Rightarrow> path list \<Rightarrow> path \<Rightarrow> path \<Rightarrow> path \<times> bool" where
  "walk fs active cur [] = (cur, True)"
| "walk fs active cur (n # rest) =
     (if n = [] \<or> n = ''.'' then walk fs active cur rest
      else if n = ''..'' then walk fs active (butlast cur) rest
      else
        let new = cur @ [n] in
        case node_at fs new of
          Some (Link t) \<Rightarrow>
            if new \<in> set active then (join_rest new rest, False)
            else (case walk fs (new # active) (if starts_with t ''/'' then [] else cur) (split_on (CHR ''/'') t) of
                (p, ok) \<Rightarrow> if ok then walk fs active p rest else (join_rest p rest, False))
        | _ \<Rightarrow> walk fs active new rest)"
  by pat_completeness auto
termination
  by (relation "measures [\<lambda>(fs, active, cur, rest). length (filter (\<lambda>q. q \<notin> set active) (links fs)), \<lambda>(fs, active, cur, rest). length rest]")
    (auto intro: fewer_links [simplified] link_in_links)

text \<open>\<open>os.path.normpath\<close> of an absolute path.\<close>

fun collapse :: "path \<Rightarrow> path \<Rightarrow> path" where
  "collapse acc [] = acc"
| "collapse acc (n # rest) = (if n = [] \<or> n = ''.'' then collapse acc rest
     else if n = ''..'' then collapse (butlast acc) rest else collapse (acc @ [n]) rest)"

definition walk_text :: "file_system \<Rightarrow> string \<Rightarrow> path \<times> bool" where
  "walk_text fs s = walk fs [] (if starts_with s ''/'' then [] else fs_cwd fs) (split_on (CHR ''/'') s)"

text \<open>
  \<open>Path(s).resolve()\<close>; \<open>None\<close> is the \<open>RuntimeError\<close> of a symlink loop, which is raised when the path left over
  still meets the loop.
\<close>

definition resolve :: "file_system \<Rightarrow> string \<Rightarrow> path option" where
  "resolve fs s =
     (case walk_text fs s of (p, ok) \<Rightarrow>
        if ok then Some p else if snd (walk fs [] [] (collapse [] p)) then Some (collapse [] p) else None)"

text \<open>Where the system finds the file of a path; \<open>None\<close> is \<open>ELOOP\<close>.\<close>

definition locate :: "file_system \<Rightarrow> string \<Rightarrow> path option" where
  "locate fs s = (case walk_text fs s of (p, ok) \<Rightarrow> if ok then Some p else None)"

definition node_of :: "file_system \<Rightarrow> string \<Rightarrow> node option" where
  "node_of fs s = (case locate fs s of Some p \<Rightarrow> node_at fs p | None \<Rightarrow> None)"

subsection \<open>Errors\<close>

datatype exc_kind = Sandbox_Error | Permission_Error | File_Not_Found_Error | Is_A_Directory_Error | Not_A_Directory_Error
  | File_Exists_Error | OS_Error | Runtime_Error | Value_Error | Re_Error

type_synonym exc = "exc_kind \<times> string"

definition os_message :: "int \<Rightarrow> string \<Rightarrow> string \<Rightarrow> string" where
  "os_message n text path = ''[Errno '' @ int_text n @ ''] '' @ text @ '': '' @ str_repr path"

definition loop_error :: "string \<Rightarrow> exc" where
  "loop_error s = (Runtime_Error, ''Symlink loop from '' @ str_repr s)"

definition resolved :: "file_system \<Rightarrow> string \<Rightarrow> exc + path" where
  "resolved fs s = (case resolve fs s of Some p \<Rightarrow> Inr p | None \<Rightarrow> Inl (loop_error s))"

subsection \<open>Reading and writing\<close>

definition fs_put :: "file_system \<Rightarrow> path \<Rightarrow> node \<Rightarrow> file_system" where
  "fs_put fs p n = fs\<lparr>fs_nodes := dset (fs_nodes fs) p n\<rparr>"

text \<open>\<open>os.makedirs(path, exist_ok=True)\<close>, at the place the path leads to: the missing directories, from the root down.\<close>

fun make_dirs :: "string \<Rightarrow> path \<Rightarrow> path \<Rightarrow> file_system \<Rightarrow> exc + file_system" where
  "make_dirs s done_part [] fs = Inr fs"
| "make_dirs s done_part (n # rest) fs =
     (let p = done_part @ [n] in
      case node_at fs p of
        None \<Rightarrow> make_dirs s p rest (fs_put fs p Directory)
      | Some Directory \<Rightarrow> make_dirs s p rest fs
      | Some _ \<Rightarrow> if rest = [] then Inl (File_Exists_Error, os_message 17 ''File exists'' s)
                else Inl (Not_A_Directory_Error, os_message 20 ''Not a directory'' s))"

definition loop_os_error :: "string \<Rightarrow> exc" where
  "loop_os_error s = (OS_Error, os_message 40 ''Too many levels of symbolic links'' s)"

definition make_dirs_at :: "string \<Rightarrow> string \<Rightarrow> file_system \<Rightarrow> exc + file_system" where
  "make_dirs_at shown s fs = (case locate fs s of Some p \<Rightarrow> make_dirs shown [] p fs | None \<Rightarrow> Inl (loop_os_error shown))"

text \<open>\<open>open(path)\<close> and \<open>read\<close>; \<open>open(path, mode)\<close> and \<open>write\<close>. A missing file is created where its directory is there.\<close>

text \<open>Text read from a file has its line ends as newlines; text written is kept as it is.\<close>

fun newlines_from :: "bool \<Rightarrow> string \<Rightarrow> string" where
  "newlines_from after_cr [] = []"
| "newlines_from after_cr (c # s) =
     (if c = CHR 0x0D then newline # newlines_from True s
      else if c = newline \<and> after_cr then newlines_from False s else c # newlines_from False s)"

definition universal_newlines :: "string \<Rightarrow> string" where
  "universal_newlines s = newlines_from False s"

definition open_read :: "file_system \<Rightarrow> string \<Rightarrow> string \<Rightarrow> exc + string" where
  "open_read fs shown s = (case locate fs s of
     None \<Rightarrow> Inl (loop_os_error shown)
   | Some p \<Rightarrow> (case node_at fs p of
       Some (File text) \<Rightarrow> Inr (universal_newlines text)
     | Some Directory \<Rightarrow> Inl (Is_A_Directory_Error, os_message 21 ''Is a directory'' shown)
     | _ \<Rightarrow> if \<exists>q \<in> set (prefixes (butlast p)). case node_at fs q of Some (File t) \<Rightarrow> True | _ \<Rightarrow> False
           then Inl (Not_A_Directory_Error, os_message 20 ''Not a directory'' shown)
           else Inl (File_Not_Found_Error, os_message 2 ''No such file or directory'' shown)))"

definition open_write :: "file_system \<Rightarrow> string \<Rightarrow> string \<Rightarrow> bool \<Rightarrow> string \<Rightarrow> exc + file_system" where
  "open_write fs shown s add text = (case locate fs s of
     None \<Rightarrow> Inl (loop_os_error shown)
   | Some p \<Rightarrow> (case node_at fs (butlast p) of
       Some Directory \<Rightarrow> (case node_at fs p of
           None \<Rightarrow> Inr (fs_put fs p (File text))
         | Some (File old) \<Rightarrow> Inr (fs_put fs p (File (if add then old @ text else text)))
         | Some _ \<Rightarrow> Inl (Is_A_Directory_Error, os_message 21 ''Is a directory'' shown))
     | None \<Rightarrow> Inl (File_Not_Found_Error, os_message 2 ''No such file or directory'' shown)
     | Some _ \<Rightarrow> Inl (Not_A_Directory_Error, os_message 20 ''Not a directory'' shown)))"

subsection \<open>What a walk gives\<close>

definition plain :: "string \<Rightarrow> bool" where
  "plain n = (n \<noteq> [] \<and> n \<noteq> ''.'' \<and> n \<noteq> ''..'' \<and> CHR ''/'' \<notin> set n)"

definition no_link :: "file_system \<Rightarrow> path \<Rightarrow> bool" where
  "no_link fs p = (\<forall>q t. prefix q p \<longrightarrow> node_at fs q \<noteq> Some (Link t))"

text \<open>A path is real when it is made of plain names and no link is on it.\<close>

definition real_path :: "file_system \<Rightarrow> path \<Rightarrow> bool" where
  "real_path fs p = (list_all plain p \<and> no_link fs p)"

lemma real_Nil [simp]: "real_path fs []"
  by (simp add: real_path_def no_link_def node_at_def)

lemma real_butlast: "real_path fs p \<Longrightarrow> real_path fs (butlast p)"
  by (meson prefix_order.trans prefixeq_butlast in_set_butlastD real_path_def no_link_def list_all_iff)

lemma real_snoc: "real_path fs (p @ [n]) \<longleftrightarrow> real_path fs p \<and> plain n \<and> (\<forall>t. node_at fs (p @ [n]) \<noteq> Some (Link t))"
  by (auto simp: real_path_def no_link_def prefix_snoc)

lemma real_prefix: "real_path fs p \<Longrightarrow> prefix q p \<Longrightarrow> real_path fs q"
  by (auto simp: real_path_def no_link_def list_all_iff prefix_def)

lemma split_on_no: "x \<in> set (split_on c s) \<Longrightarrow> c \<notin> set x"
  by (induction c s arbitrary: x rule: split_on.induct) (auto split: list.splits if_splits)

lemma split_on_ne [simp]: "split_on c s \<noteq> []"
  by (induction c s rule: split_on.induct) (auto split: list.splits)

lemma split_on_plain: "c \<notin> set x \<Longrightarrow> split_on c x = [x]"
  by (induction c x rule: split_on.induct) auto

lemma split_on_app: "c \<notin> set x \<Longrightarrow> split_on c (x @ c # s) = x # split_on c s"
  by (induction x) auto

lemma split_on_join: "\<forall>x \<in> set xs. c \<notin> set x \<Longrightarrow> xs \<noteq> [] \<Longrightarrow> split_on c (py_join [c] xs) = xs"
  by (induction "[c]" xs rule: py_join.induct) (auto simp: split_on_plain split_on_app)

declare walk.simps(2) [simp del]

lemma walk_skip: "n = [] \<or> n = ''.'' \<Longrightarrow> walk fs active cur (n # rest) = walk fs active cur rest"
  and walk_up: "walk fs active cur (''..'' # rest) = walk fs active (butlast cur) rest"
  and walk_step: "n \<noteq> [] \<Longrightarrow> n \<noteq> ''.'' \<Longrightarrow> n \<noteq> ''..'' \<Longrightarrow> \<nexists>t. node_at fs (cur @ [n]) = Some (Link t)
    \<Longrightarrow> walk fs active cur (n # rest) = walk fs active (cur @ [n]) rest"
  and walk_loop: "n \<noteq> [] \<Longrightarrow> n \<noteq> ''.'' \<Longrightarrow> n \<noteq> ''..'' \<Longrightarrow> node_at fs (cur @ [n]) = Some (Link t) \<Longrightarrow> cur @ [n] \<in> set active
    \<Longrightarrow> walk fs active cur (n # rest) = (join_rest (cur @ [n]) rest, False)"
  and walk_link: "n \<noteq> [] \<Longrightarrow> n \<noteq> ''.'' \<Longrightarrow> n \<noteq> ''..'' \<Longrightarrow> node_at fs (cur @ [n]) = Some (Link t) \<Longrightarrow> cur @ [n] \<notin> set active
    \<Longrightarrow> walk fs ((cur @ [n]) # active) (if starts_with t ''/'' then [] else cur) (split_on (CHR ''/'') t) = (q, ok)
    \<Longrightarrow> walk fs active cur (n # rest) = (if ok then walk fs active q rest else (join_rest q rest, False))"
  by (auto simp: walk.simps(2) Let_def split: option.splits node.splits)

text \<open>Induction over a walk, one case for each kind of name.\<close>

lemma walk_cases [case_names finished skip up step loop link]:
  assumes "\<And>active cur. P active cur []"
    and "\<And>active cur n rest. n = [] \<or> n = ''.'' \<Longrightarrow> P active cur rest \<Longrightarrow> P active cur (n # rest)"
    and "\<And>active cur rest. P active (butlast cur) rest \<Longrightarrow> P active cur (''..'' # rest)"
    and "\<And>active cur n rest. n \<noteq> [] \<Longrightarrow> n \<noteq> ''.'' \<Longrightarrow> n \<noteq> ''..'' \<Longrightarrow> \<nexists>t. node_at fs (cur @ [n]) = Some (Link t)
      \<Longrightarrow> P active (cur @ [n]) rest \<Longrightarrow> P active cur (n # rest)"
    and "\<And>active cur n rest t. n \<noteq> [] \<Longrightarrow> n \<noteq> ''.'' \<Longrightarrow> n \<noteq> ''..'' \<Longrightarrow> node_at fs (cur @ [n]) = Some (Link t)
      \<Longrightarrow> cur @ [n] \<in> set active \<Longrightarrow> P active cur (n # rest)"
    and "\<And>active cur n rest t q ok. n \<noteq> [] \<Longrightarrow> n \<noteq> ''.'' \<Longrightarrow> n \<noteq> ''..'' \<Longrightarrow> node_at fs (cur @ [n]) = Some (Link t)
      \<Longrightarrow> cur @ [n] \<notin> set active
      \<Longrightarrow> walk fs ((cur @ [n]) # active) (if starts_with t ''/'' then [] else cur) (split_on (CHR ''/'') t) = (q, ok)
      \<Longrightarrow> P ((cur @ [n]) # active) (if starts_with t ''/'' then [] else cur) (split_on (CHR ''/'') t)
      \<Longrightarrow> (ok \<Longrightarrow> P active q rest) \<Longrightarrow> P active cur (n # rest)"
  shows "P active cur rest"
  using assms
proof (induction fs active cur rest rule: walk.induct)
  case (1 fs active cur)
  then show ?case by blast
next
  case (2 fs active cur n rest)
  note rules = "2.prems"
  let ?new = "cur @ [n]" and ?from = "\<lambda>t. if starts_with t ''/'' then [] else cur"
  consider "n = [] \<or> n = ''.''" | "n = ''..''" | (name) "n \<noteq> []" "n \<noteq> ''.''" "n \<noteq> ''..''" by blast
  then show ?case
  proof cases
    case 1
    have "P active cur rest" by (rule "2.IH"(1) [OF 1]) (fact rules)+
    then show ?thesis using 1 rules(2) by blast
  next
    case 2
    have "P active (butlast cur) rest" by (rule "2.IH"(2)) (use 2 in simp, use 2 in simp, (fact rules)+)
    then show ?thesis using 2 rules(3) by blast
  next
    case name
    then have n: "\<not> (n = [] \<or> n = ''.'')" by simp
    show ?thesis
    proof (cases "\<exists>t. node_at fs ?new = Some (Link t)")
      case True
      then obtain t where t: "node_at fs ?new = Some (Link t)" ..
      show ?thesis
      proof (cases "?new \<in> set active")
        case True
        then show ?thesis using rules(5) name t by blast
      next
        case False
        obtain q ok where w: "walk fs (?new # active) (?from t) (split_on (CHR ''/'') t) = (q, ok)" by fastforce
        have "P (?new # active) (?from t) (split_on (CHR ''/'') t)"
          by (rule "2.IH"(6) [OF n name(3) refl t refl False]) (fact rules)+
        moreover have "P active q rest" if ok
          by (rule "2.IH"(7) [OF n name(3) refl t refl False w [symmetric] that]) (fact rules)+
        ultimately show ?thesis using rules(6) name t False w by blast
      qed
    next
      case False
      then consider "node_at fs ?new = None" | "node_at fs ?new = Some Directory" | f where "node_at fs ?new = Some (File f)"
        by (cases "node_at fs ?new"; cases "the (node_at fs ?new)") auto
      then have "P active ?new rest"
      proof cases
        case 1
        show ?thesis by (rule "2.IH"(3) [OF n name(3) refl 1]) (fact rules)+
      next
        case 2
        show ?thesis by (rule "2.IH"(4) [OF n name(3) refl 2 refl]) (fact rules)+
      next
        case (3 f)
        show ?thesis by (rule "2.IH"(5) [OF n name(3) refl 3 refl]) (fact rules)+
      qed
      then show ?thesis using rules(4) name False by blast
    qed
  qed
qed

lemma walk_real:
  "walk fs active cur rest = (p, True) \<Longrightarrow> real_path fs cur \<Longrightarrow> \<forall>n \<in> set rest. CHR ''/'' \<notin> set n \<Longrightarrow> real_path fs p"
proof (induction active cur rest arbitrary: p rule: walk_cases [where fs = fs])
  case (link active cur n rest t q ok)
  have ok and r: "walk fs active q rest = (p, True)" using link by (auto simp: walk_link split: if_splits)
  then have "real_path fs q" using link.IH(1) link.hyps(6) link.prems(2) split_on_no by fastforce
  then show ?case using link.IH(2) \<open>ok\<close> r link.prems(3) by simp
qed (auto simp: walk_skip walk_up walk_step walk_loop real_butlast real_snoc plain_def)

text \<open>A real path leads to itself.\<close>

lemma walk_plain: "list_all plain rest \<Longrightarrow> no_link fs (cur @ rest) \<Longrightarrow> walk fs active cur rest = (cur @ rest, True)"
proof (induction rest arbitrary: cur)
  case (Cons n rest)
  have "\<And>t. node_at fs (cur @ [n]) \<noteq> Some (Link t)" using Cons.prems(2) by (auto simp: no_link_def)
  moreover have "walk fs active (cur @ [n]) rest = ((cur @ [n]) @ rest, True)"
    by (rule Cons.IH) (use Cons.prems in auto)
  ultimately show ?case using Cons.prems(1) by (simp add: plain_def walk_step)
qed simp

lemma walk_path_str: "real_path fs p \<Longrightarrow> walk_text fs (path_str p) = (p, True)"
proof -
  assume r: "real_path fs p"
  have s: "split_on (CHR ''/'') (path_str p) = [] # (if p = [] then [[]] else p)"
    using r split_on_join [of p "CHR ''/''"] by (auto simp: path_str_def real_path_def list_all_iff plain_def)
  then show ?thesis using walk_plain [of p fs "[]" "[]"] r
    by (auto simp: walk_text_def path_str_def starts_with_def real_path_def walk_skip)
qed

lemma resolve_path_str: "real_path fs p \<Longrightarrow> resolve fs (path_str p) = Some p"
  and locate_path_str: "real_path fs p \<Longrightarrow> locate fs (path_str p) = Some p"
  by (simp_all add: resolve_def locate_def walk_path_str)

text \<open>No link leads back to itself.\<close>

definition links_end :: "file_system \<Rightarrow> bool" where
  "links_end fs = (\<forall>cur rest. snd (walk fs [] cur rest))"

definition fs_ok :: "file_system \<Rightarrow> bool" where
  "fs_ok fs = (links_end fs \<and> real_path fs (fs_cwd fs))"

lemma walk_text_ends: "fs_ok fs \<Longrightarrow> \<exists>p. walk_text fs s = (p, True) \<and> real_path fs p"
proof -
  assume ok: "fs_ok fs"
  obtain p b where w: "walk_text fs s = (p, b)" by fastforce
  with ok have "b" unfolding fs_ok_def links_end_def walk_text_def by (metis snd_conv)
  then show ?thesis using w ok walk_real [of fs "[]" _ "split_on (CHR ''/'') s" p] split_on_no
    by (fastforce simp: walk_text_def fs_ok_def)
qed

lemma resolve_ends: "fs_ok fs \<Longrightarrow> \<exists>p. resolve fs s = Some p \<and> locate fs s = Some p \<and> real_path fs p"
  using walk_text_ends [of fs s] by (auto simp: resolve_def locate_def)

lemma resolve_real: "fs_ok fs \<Longrightarrow> resolve fs s = Some p \<Longrightarrow> real_path fs p"
  using resolve_ends [of fs s] by auto

lemma resolvedE:
  assumes "fs_ok fs" "resolved fs s = Inr p" obtains "real_path fs p" "locate fs s = Some p" "resolve fs s = Some p"
  using assms resolve_ends [of fs s] by (auto simp: resolved_def)

lemma resolved_str: "real_path fs p \<Longrightarrow> resolved fs (path_str p) = Inr p"
  by (simp add: resolved_def resolve_path_str)

subsection \<open>What a write changes\<close>

definition same_links :: "file_system \<Rightarrow> file_system \<Rightarrow> bool" where
  "same_links fs fs' = (fs_cwd fs' = fs_cwd fs \<and> (\<forall>q t. node_at fs' q = Some (Link t) \<longleftrightarrow> node_at fs q = Some (Link t)))"

lemma same_links_refl [simp]: "same_links fs fs"
  by (simp add: same_links_def)

lemma same_links_trans: "same_links fs fs' \<Longrightarrow> same_links fs' fs'' \<Longrightarrow> same_links fs fs''"
  by (simp add: same_links_def)

lemma walk_same_links: "same_links fs fs' \<Longrightarrow> walk fs' active cur rest = walk fs active cur rest"
proof (induction active cur rest rule: walk_cases [where fs = fs])
  case (link active cur n rest t q ok)
  then have "walk fs' active cur (n # rest) = (if ok then walk fs' active q rest else (join_rest q rest, False))"
    by (intro walk_link) (auto simp: same_links_def)
  then show ?case using link by (auto simp: walk_link)
qed (auto simp: walk_skip walk_up walk_step walk_loop same_links_def)

lemma same_links_walks:
  assumes "same_links fs fs'"
  shows "locate fs' s = locate fs s" "resolve fs' s = resolve fs s" "resolved fs' s = resolved fs s"
    "real_path fs' p = real_path fs p" "fs_ok fs' = fs_ok fs"
proof -
  have w: "walk fs' = walk fs" by (intro ext) (rule walk_same_links [OF assms])
  have t: "walk_text fs' = walk_text fs" using assms by (intro ext) (simp add: walk_text_def w same_links_def)
  show "locate fs' s = locate fs s" "resolve fs' s = resolve fs s" unfolding locate_def resolve_def w t by (rule refl)+
  then show "resolved fs' s = resolved fs s" by (simp add: resolved_def)
  have r: "real_path fs' q = real_path fs q" for q using assms by (simp add: real_path_def no_link_def same_links_def)
  then show "real_path fs' p = real_path fs p" "fs_ok fs' = fs_ok fs"
    using assms by (simp_all add: fs_ok_def links_end_def w same_links_def)
qed

lemma fs_cwd_put [simp]: "fs_cwd (fs_put fs p n) = fs_cwd fs"
  by (simp add: fs_put_def)

lemma node_at_put: "node_at (fs_put fs p n) q = (if q = p \<and> p \<noteq> [] then Some n else node_at fs q)"
  by (simp add: node_at_def fs_put_def)

lemma same_links_put: "p \<noteq> [] \<Longrightarrow> \<nexists>t. n = Link t \<Longrightarrow> \<nexists>t. node_at fs p = Some (Link t) \<Longrightarrow> same_links fs (fs_put fs p n)"
  by (auto simp: same_links_def node_at_put)

text \<open>Making directories adds directories on the way to the path, and nothing else.\<close>

lemma make_dirs_changes:
  "make_dirs s d rest fs = Inr fs' \<Longrightarrow>
     same_links fs fs' \<and> node_at fs' (d @ rest) = (if rest = [] then node_at fs d else Some Directory)
     \<and> (\<forall>q. node_at fs' q \<noteq> node_at fs q \<longrightarrow> node_at fs q = None \<and> node_at fs' q = Some Directory \<and> prefix q (d @ rest))"
proof (induction s d rest fs rule: make_dirs.induct)
  case (2 s d n rest fs)
  let ?p = "d @ [n]"
  consider (new) "node_at fs ?p = None" "make_dirs s ?p rest (fs_put fs ?p Directory) = Inr fs'"
    | (old) "node_at fs ?p = Some Directory" "make_dirs s ?p rest fs = Inr fs'"
    using 2(3) by (auto simp: Let_def split: option.splits node.splits if_splits)
  then show ?case
  proof cases
    case new
    have l: "same_links fs (fs_put fs ?p Directory)" using new(1) by (intro same_links_put) auto
    note ih = "2.IH"(1) [OF refl new]
    have "node_at fs' (d @ n # rest) = Some Directory" using ih by (simp add: node_at_put split: if_splits)
    moreover have "node_at fs q = None \<and> node_at fs' q = Some Directory \<and> prefix q (d @ n # rest)" if c: "node_at fs' q \<noteq> node_at fs q" for q
    proof (cases "q = ?p")
      case True
      then have "node_at fs' q = Some Directory" using spec [OF conjunct2 [OF conjunct2 [OF ih]], of ?p] by (cases "node_at fs' ?p = Some Directory") (simp_all add: node_at_put)
      then show ?thesis using True new(1) by simp
    next
      case False
      then show ?thesis using spec [OF conjunct2 [OF conjunct2 [OF ih]], of q] c by (simp add: node_at_put)
    qed
    ultimately show ?thesis using ih same_links_trans [OF l] by simp
  next
    case old
    show ?thesis using "2.IH"(2) [OF refl old(1) refl old(2)] old(1) by (auto split: if_splits)
  qed
qed simp

lemma open_write_changes:
  assumes "open_write fs shown s add text = Inr fs'"
  obtains p where "locate fs s = Some p" "p \<noteq> [] \<Longrightarrow> same_links fs fs'" "p \<noteq> []"
    "\<forall>q. q \<noteq> p \<longrightarrow> node_at fs' q = node_at fs q" "\<exists>t. node_at fs' p = Some (File t)"
    "\<not> add \<Longrightarrow> node_at fs' p = Some (File text)"
proof -
  obtain p where p: "locate fs s = Some p" "node_at fs p \<noteq> Some Directory" "\<nexists>t. node_at fs p = Some (Link t)"
    and f: "fs' = fs_put fs p (File (case node_at fs p of Some (File old) \<Rightarrow> if add then old @ text else text | _ \<Rightarrow> text))"
    using assms by (auto simp: open_write_def split: option.splits node.splits)
  have "p \<noteq> []" using p(2) by (auto simp: node_at_def)
  moreover have "same_links fs fs'" unfolding f by (rule same_links_put) (use p \<open>p \<noteq> []\<close> in auto)
  ultimately show thesis using p(1) that [of p] by (auto simp: f node_at_put split: option.splits node.splits)
qed

end
