(* ===== verification/Sandbox_Local.thy ===== *)
theory Sandbox_Local
  imports Sandbox_Files Classify "HOL-Library.List_Lexorder" "HOL-Library.Char_ord"
begin

text \<open>
  \<open>LocalSandbox\<close>: the files of the host behind container paths (\<open>sandbox/local/local_sandbox.py\<close>), the mappings
  its provider sets up (\<open>local_sandbox_provider.py\<close>), listing and searching (\<open>list_dir.py\<close>, \<open>search.py\<close>).
  Container paths are not empty. Logging is left out.
\<close>

subsection \<open>Mappings\<close>

record path_mapping =
  pm_container :: string
  pm_local :: string
  pm_read_only :: bool

record volume_mount =
  vm_host :: string
  vm_container :: string
  vm_read_only :: bool

text \<open>What \<open>config.yaml\<close> says: the skills directory and where it is mounted, and the custom mounts.\<close>

record sandbox_settings =
  sb_skills_path :: string
  sb_skills_container :: string
  sb_mounts :: "volume_mount list"

definition strip_slashes :: "string \<Rightarrow> string" where
  "strip_slashes s = dropWhile (\<lambda>c. c = CHR ''/'') s"

definition no_end_slash :: "string \<Rightarrow> string" where
  "no_end_slash s = (let t = rstrip_by (\<lambda>c. c = CHR ''/'') s in if t = [] then ''/'' else t)"

definition below_text :: "string \<Rightarrow> string \<Rightarrow> bool" where
  "below_text base s = (s = base \<or> starts_with s (base @ ''/''))"

definition mount_mapping :: "file_system \<Rightarrow> string list \<Rightarrow> volume_mount \<Rightarrow> path_mapping list" where
  "mount_mapping fs reserved m =
     (let container = no_end_slash (vm_container m) in
      if \<not> is_absolute (vm_host m) then []
      else if \<not> starts_with container ''/'' then []
      else if list_ex (\<lambda>p. below_text p container) reserved then []
      else if node_of fs (vm_host m) = None then []
      else (case resolve fs (vm_host m) of
          Some p \<Rightarrow> [\<lparr>pm_container = container, pm_local = path_str p, pm_read_only = vm_read_only m\<rparr>] | None \<Rightarrow> []))"

definition setup_path_mappings :: "file_system \<Rightarrow> sandbox_settings \<Rightarrow> path_mapping list" where
  "setup_path_mappings fs cfg =
     (if node_of fs (sb_skills_path cfg) = None then []
      else [\<lparr>pm_container = sb_skills_container cfg, pm_local = pure_str (sb_skills_path cfg), pm_read_only = True\<rparr>])
     @ concat (map (mount_mapping fs [sb_skills_container cfg, ''/mnt/acp-workspace'', ''/mnt/user-data'']) (sb_mounts cfg))"

subsection \<open>Resolving container paths\<close>

definition longest_first :: "('a \<Rightarrow> string) \<Rightarrow> 'a list \<Rightarrow> 'a list" where
  "longest_first f xs = sort_key (\<lambda>x. - int (length (f x))) xs"

definition container_of :: "path_mapping \<Rightarrow> string" where
  "container_of m = no_end_slash (pm_container m)"

definition mapping_match :: "string \<Rightarrow> path_mapping \<Rightarrow> (path_mapping \<times> string) option" where
  "mapping_match s m =
     (let c = container_of m in
      if c = ''/'' then (if starts_with s ''/'' then Some (m, strip_slashes s) else None)
      else if below_text c s then Some (m, strip_slashes (drop (length c) s)) else None)"

fun first_some :: "('a \<Rightarrow> 'b option) \<Rightarrow> 'a list \<Rightarrow> 'b option" where
  "first_some f [] = None"
| "first_some f (x # xs) = (case f x of Some y \<Rightarrow> Some y | None \<Rightarrow> first_some f xs)"

definition find_path_mapping :: "path_mapping list \<Rightarrow> string \<Rightarrow> (path_mapping \<times> string) option" where
  "find_path_mapping ms s = first_some (mapping_match s) (longest_first container_of ms)"

type_synonym resolved_path = "string \<times> path_mapping option"

definition resolve_path_with_mapping :: "file_system \<Rightarrow> path_mapping list \<Rightarrow> string \<Rightarrow> exc + resolved_path" where
  "resolve_path_with_mapping fs ms s =
     (case find_path_mapping ms s of
        None \<Rightarrow> Inr (s, None)
      | Some (m, relative) \<Rightarrow>
          bind_res (resolved fs (pm_local m)) (\<lambda>base.
          bind_res (if relative = [] then Inr base else resolved fs (path_str base @ ''/'' @ relative)) (\<lambda>p.
            if prefix base p then Inr (path_str p, Some m)
            else Inl (Permission_Error, os_message 13 ''Access denied: path escapes mounted directory'' s))))"

definition resolve_path :: "file_system \<Rightarrow> path_mapping list \<Rightarrow> string \<Rightarrow> exc + string" where
  "resolve_path fs ms s = bind_res (resolve_path_with_mapping fs ms s) (\<lambda>(p, m). Inr p)"

text \<open>\<open>_is_read_only_path\<close>: the mapping with the longest local path around it decides, the first of equal ones.\<close>

fun best_mapping :: "file_system \<Rightarrow> string \<Rightarrow> (int \<times> path_mapping option) \<Rightarrow> path_mapping list \<Rightarrow> exc + path_mapping option" where
  "best_mapping fs s best [] = Inr (snd best)"
| "best_mapping fs s best (m # ms) =
     bind_res (resolved fs (pm_local m)) (\<lambda>p. let local_text = path_str p in
       best_mapping fs s (if below_text local_text s \<and> int (length local_text) > fst best then (int (length local_text), Some m) else best) ms)"

definition is_read_only_path :: "file_system \<Rightarrow> path_mapping list \<Rightarrow> string \<Rightarrow> exc + bool" where
  "is_read_only_path fs ms s =
     bind_res (resolved fs s) (\<lambda>p. bind_res (best_mapping fs (path_str p) (-1, None) ms)
       (\<lambda>best. Inr (case best of None \<Rightarrow> False | Some m \<Rightarrow> pm_read_only m)))"

definition is_resolved_path_read_only :: "file_system \<Rightarrow> path_mapping list \<Rightarrow> resolved_path \<Rightarrow> exc + bool" where
  "is_resolved_path_read_only fs ms r =
     (case snd r of Some m \<Rightarrow> if pm_read_only m then Inr True else is_read_only_path fs ms (fst r)
      | None \<Rightarrow> is_read_only_path fs ms (fst r))"

subsection \<open>Back to container paths\<close>

definition forward_slashes :: "string \<Rightarrow> string" where
  "forward_slashes s = map (\<lambda>c. if c = CHR 0x5C then CHR ''/'' else c) s"

fun reverse_with :: "file_system \<Rightarrow> string \<Rightarrow> path_mapping list \<Rightarrow> exc + string" where
  "reverse_with fs s [] = Inr s"
| "reverse_with fs s (m # ms) =
     bind_res (resolved fs (pm_local m)) (\<lambda>p. let local_text = path_str p in
       if below_text local_text s
       then (let relative = strip_slashes (drop (length local_text) s) in
             Inr (if relative = [] then pm_container m else pm_container m @ ''/'' @ relative))
       else reverse_with fs s ms)"

definition reverse_resolve_path :: "file_system \<Rightarrow> path_mapping list \<Rightarrow> string \<Rightarrow> exc + string" where
  "reverse_resolve_path fs ms s =
     bind_res (resolved fs (forward_slashes s)) (\<lambda>p. reverse_with fs (path_str p) (longest_first pm_local ms))"

subsection \<open>Paths inside a text\<close>

text \<open>\<open>pattern.sub\<close>: \<open>len s\<close> is the length of the match at the start of \<open>s\<close>, 0 for none; matches are not empty.\<close>

function sub_matches :: "(string \<Rightarrow> nat) \<Rightarrow> (string \<Rightarrow> exc + string) \<Rightarrow> string \<Rightarrow> exc + string" where
  "sub_matches len f s =
     (if s = [] then Inr []
      else if len s = 0 then bind_res (sub_matches len f (tl s)) (\<lambda>r. Inr (hd s # r))
      else bind_res (f (take (len s) s)) (\<lambda>x. bind_res (sub_matches len f (drop (len s) s)) (\<lambda>r. Inr (x @ r))))"
  by pat_completeness auto
termination
  by (relation "measure (\<lambda>(len, f, s). length s)") auto

declare sub_matches.simps [simp del]

definition path_char :: "char \<Rightarrow> bool" where
  "path_char c = (\<not> py_isspace c \<and> c \<notin> set [CHR 0x22, CHR 0x27, CHR '';'', CHR ''&'', CHR ''|'', CHR ''<'', CHR ''>'', CHR ''('', CHR '')''])"

text \<open>\<open>(?:[/\]rest)?\<close> of the patterns; \<open>seps\<close> are the separators it may start with.\<close>

definition tail_len :: "string \<Rightarrow> string \<Rightarrow> nat" where
  "tail_len seps s = (case s of [] \<Rightarrow> 0 | c # r \<Rightarrow> if c \<in> set seps then Suc (length (takeWhile path_char r)) else 0)"

definition local_len :: "string \<Rightarrow> string \<Rightarrow> nat" where
  "local_len local_text s = (if starts_with s local_text then length local_text + tail_len [CHR ''/'', CHR 0x5C] (drop (length local_text) s) else 0)"

fun reverse_each :: "file_system \<Rightarrow> path_mapping list \<Rightarrow> path_mapping list \<Rightarrow> string \<Rightarrow> exc + string" where
  "reverse_each fs ms [] text = Inr text"
| "reverse_each fs ms (m # rest) text =
     bind_res (resolved fs (pm_local m)) (\<lambda>p.
     bind_res (sub_matches (local_len (path_str p)) (reverse_resolve_path fs ms) text) (reverse_each fs ms rest))"

definition reverse_resolve_paths_in_output :: "file_system \<Rightarrow> path_mapping list \<Rightarrow> string \<Rightarrow> exc + string" where
  "reverse_resolve_paths_in_output fs ms text = reverse_each fs ms (longest_first pm_local ms) text"

text \<open>A container path, at the end of the text or before a character that ends a name, with what follows it.\<close>

definition ends_name :: "string \<Rightarrow> bool" where
  "ends_name r = (r = [] \<or> hd r = CHR ''/'' \<or> \<not> (py_isword (hd r) \<or> hd r = CHR ''.'' \<or> hd r = CHR ''-''))"

fun content_len :: "path_mapping list \<Rightarrow> string \<Rightarrow> nat" where
  "content_len [] s = 0"
| "content_len (m # ms) s =
     (let c = pm_container m; r = drop (length c) s in
      if starts_with s c \<and> ends_name r then length c + tail_len [CHR ''/''] r else content_len ms s)"

definition resolve_paths_in_content :: "file_system \<Rightarrow> path_mapping list \<Rightarrow> string \<Rightarrow> exc + string" where
  "resolve_paths_in_content fs ms text =
     sub_matches (content_len (longest_first pm_container ms)) (\<lambda>s. bind_res (resolve_path fs ms s) (\<lambda>p. Inr (forward_slashes p))) text"

subsection \<open>Reading and writing\<close>

definition HOST_EXECUTION_REMOVED :: string where
  "HOST_EXECUTION_REMOVED = ''Error: running commands on the host was removed. Commands run only in a container sandbox: set sandbox.use to omniharness.community.aio_sandbox:AioSandboxProvider.''"

definition execute_command :: "string \<Rightarrow> string" where
  "execute_command cmd = HOST_EXECUTION_REMOVED"

text \<open>The sandbox: its files and the paths it wrote.\<close>

record local_sandbox =
  lx_files :: file_system
  lx_mappings :: "path_mapping list"
  lx_written :: "string list"

text \<open>An \<open>OSError\<close> is raised again with the path the caller gave; a \<open>PermissionError\<close> is one.\<close>

definition shown_as :: "string \<Rightarrow> exc + 'a \<Rightarrow> exc + 'a" where
  "shown_as s r = (case r of
     Inl (Permission_Error, m) \<Rightarrow> Inl (Permission_Error, os_message 13 ''Access denied: path escapes mounted directory'' s) | _ \<Rightarrow> r)"

definition lx_read_file :: "local_sandbox \<Rightarrow> string \<Rightarrow> exc + string" where
  "lx_read_file x s =
     bind_res (resolve_path (lx_files x) (lx_mappings x) s) (\<lambda>p.
     bind_res (open_read (lx_files x) s p) (\<lambda>text.
       if p \<in> set (lx_written x) then reverse_resolve_paths_in_output (lx_files x) (lx_mappings x) text else Inr text))"

definition py_dirname :: "string \<Rightarrow> string" where
  "py_dirname s = (let head = rev (dropWhile (\<lambda>c. c \<noteq> CHR ''/'') (rev s)) in
     if list_all (\<lambda>c. c = CHR ''/'') head then head else rstrip_by (\<lambda>c. c = CHR ''/'') head)"

definition writable_path :: "local_sandbox \<Rightarrow> string \<Rightarrow> exc + string" where
  "writable_path x s =
     bind_res (resolve_path_with_mapping (lx_files x) (lx_mappings x) s) (\<lambda>r.
     bind_res (is_resolved_path_read_only (lx_files x) (lx_mappings x) r) (\<lambda>ro.
       if ro then Inl (OS_Error, os_message 30 ''Read-only file system'' s) else Inr (fst r)))"

definition lx_write_at :: "local_sandbox \<Rightarrow> string \<Rightarrow> string \<Rightarrow> string \<Rightarrow> bool \<Rightarrow> local_sandbox \<times> (exc + unit)" where
  "lx_write_at x s p content add =
     (case (if py_dirname p = [] then Inr (lx_files x) else make_dirs_at s (py_dirname p) (lx_files x)) of
        Inl e \<Rightarrow> (x, Inl e)
      | Inr fs \<Rightarrow>
          (case bind_res (shown_as s (resolve_paths_in_content fs (lx_mappings x) content)) (open_write fs s p add) of
             Inl e \<Rightarrow> (x\<lparr>lx_files := fs\<rparr>, Inl e)
           | Inr fs' \<Rightarrow> (x\<lparr>lx_files := fs', lx_written := p # lx_written x\<rparr>, Inr ())))"

definition lx_write_file :: "local_sandbox \<Rightarrow> string \<Rightarrow> string \<Rightarrow> bool \<Rightarrow> local_sandbox \<times> (exc + unit)" where
  "lx_write_file x s content add =
     (case writable_path x s of
        Inl e \<Rightarrow> (x, Inl e)
      | Inr p \<Rightarrow> lx_write_at x s p content add)"

text \<open>\<open>update_file\<close> writes what it is given as it is and does not note the path.\<close>

definition lx_update_file :: "local_sandbox \<Rightarrow> string \<Rightarrow> string \<Rightarrow> local_sandbox \<times> (exc + unit)" where
  "lx_update_file x s content =
     (case writable_path x s of
        Inl e \<Rightarrow> (x, Inl e)
      | Inr p \<Rightarrow>
          (case (if py_dirname p = [] then Inr (lx_files x) else make_dirs_at s (py_dirname p) (lx_files x)) of
             Inl e \<Rightarrow> (x, Inl e)
           | Inr fs \<Rightarrow>
               (case open_write fs s p False content of
                  Inl e \<Rightarrow> (x\<lparr>lx_files := fs\<rparr>, Inl e) | Inr fs' \<Rightarrow> (x\<lparr>lx_files := fs'\<rparr>, Inr ()))))"

subsection \<open>Where a write lands\<close>

lemma bind_res_eq_Inr: "bind_res r f = Inr b \<longleftrightarrow> (\<exists>a. r = Inr a \<and> f a = Inr b)"
  by (cases r) (auto simp: bind_res_def)

lemma py_join_snoc: "xs \<noteq> [] \<Longrightarrow> py_join sep (xs @ [x]) = py_join sep xs @ sep @ x"
  by (induction sep xs rule: py_join.induct) auto

lemma py_join_Cons: "py_join sep (x # xs) = x @ (if xs = [] then [] else sep @ py_join sep xs)"
  by (cases xs) auto

lemma py_join_app: "xs \<noteq> [] \<Longrightarrow> ys \<noteq> [] \<Longrightarrow> py_join sep (xs @ ys) = py_join sep xs @ sep @ py_join sep ys"
  by (induction xs) (auto simp: py_join_Cons)

lemma path_str_app: "p \<noteq> [] \<Longrightarrow> q \<noteq> [] \<Longrightarrow> path_str (p @ q) = path_str p @ ''/'' @ py_join ''/'' q"
  by (simp add: path_str_def py_join_app)

lemma path_str_inj: "list_all plain p \<Longrightarrow> list_all plain q \<Longrightarrow> path_str p = path_str q \<Longrightarrow> p = q"
proof -
  assume a: "list_all plain p" "list_all plain q" "path_str p = path_str q"
  have s: "split_on (CHR ''/'') (py_join ''/'' p) = (if p = [] then [[]] else p)" if "list_all plain p" for p
  proof (cases "p = []")
    case False
    have "\<forall>x \<in> set p. CHR ''/'' \<notin> set x" using that by (auto simp: list_all_iff plain_def)
    then show ?thesis using False split_on_join by simp
  qed simp
  have "py_join ''/'' p = py_join ''/'' q" using a(3) by (simp add: path_str_def)
  then have "(if p = [] then [[]] else p) = (if q = [] then [[]] else q)" using s [OF a(1)] s [OF a(2)] by simp
  moreover have "p \<noteq> [[]]" "q \<noteq> [[]]" using a(1,2) by (auto simp: plain_def)
  ultimately show ?thesis by (auto split: if_splits)
qed

text \<open>Texts of paths are below each other as the paths are; the top directory is not above anything as a text.\<close>

lemma under_path_str:
  assumes "list_all plain b" "list_all plain p"
  shows "below_text (path_str b) (path_str p) \<longleftrightarrow> (if b = [] then p = [] else prefix b p)"
proof (cases "b = []")
  case True
  have "\<not> starts_with (path_str p) ''//''"
  proof (cases p)
    case (Cons n ns)
    then obtain c m where "n = c # m" "c \<noteq> CHR ''/''" using assms(2) by (cases n) (auto simp: plain_def)
    then show ?thesis using Cons by (simp add: path_str_def starts_with_def py_join_Cons)
  qed (simp add: path_str_def starts_with_def)
  moreover have "path_str p = ''/'' \<longleftrightarrow> p = []" using path_str_inj [OF assms(2), of "[]"] by (auto simp: path_str_def)
  ultimately show ?thesis using True by (simp add: below_text_def path_str_def)
next
  case False
  show ?thesis
  proof
    assume u: "below_text (path_str b) (path_str p)"
    show "if b = [] then p = [] else prefix b p"
    proof (cases "path_str p = path_str b")
      case True
      then have "p = b" using path_str_inj [OF assms(2,1)] by simp
      then show ?thesis using False by simp
    next
      case ne: False
      then obtain r where r: "path_str p = path_str b @ ''/'' @ r" using u
        by (auto simp: below_text_def starts_with_def) (metis append.assoc append_Cons append_Nil append_take_drop_id)
      then have pj: "py_join ''/'' p = py_join ''/'' b @ CHR ''/'' # r" by (simp add: path_str_def)
      have split_app: "split_on (CHR ''/'') (py_join ''/'' b @ CHR ''/'' # r) = b @ split_on (CHR ''/'') r"
        if "b \<noteq> []" "\<forall>x \<in> set b. CHR ''/'' \<notin> set x" for b r
        using that by (induction "[CHR ''/'']" b rule: py_join.induct) (auto simp: split_on_app)
      have "p \<noteq> []" using pj by (cases p) auto
      then have "p = b @ split_on (CHR ''/'') r"
        using split_on_join [of p "CHR ''/''"] split_app [OF False, of r] pj assms by (auto simp: list_all_iff plain_def)
      then show ?thesis using False by simp
    qed
  next
    assume "if b = [] then p = [] else prefix b p"
    then obtain q where "p = b @ q" using False by (auto simp: prefix_def)
    then show "below_text (path_str b) (path_str p)" using False
      by (cases "q = []") (auto simp: below_text_def path_str_app starts_with_def)
  qed
qed

lemma py_dirname_path_str: "list_all plain p \<Longrightarrow> p \<noteq> [] \<Longrightarrow> py_dirname (path_str p) = path_str (butlast p)"
proof -
  assume p: "list_all plain p" "p \<noteq> []"
  obtain q n where qn: "p = q @ [n]" using p(2) by (cases p rule: rev_cases) auto
  have n: "CHR ''/'' \<notin> set n" and q: "list_all plain q" using p(1) qn by (auto simp: plain_def)
  let ?head = "path_str q @ (if q = [] then [] else ''/'')"
  have t: "path_str p = ?head @ n" using qn by (cases "q = []") (auto simp: path_str_def py_join_snoc)
  have "dropWhile (\<lambda>c. c \<noteq> CHR ''/'') (rev (path_str p)) = rev ?head"
    unfolding t rev_append using n by (subst dropWhile_append2) (auto simp: path_str_def split: if_splits)
  then have h: "rev (dropWhile (\<lambda>c. c \<noteq> CHR ''/'') (rev (path_str p))) = ?head" by (metis rev_rev_ident)
  show ?thesis
  proof (cases "q = []")
    case True
    then show ?thesis using h qn by (simp add: py_dirname_def path_str_def)
  next
    case False
    obtain c r where l: "path_str q = c @ [r]" "r \<noteq> CHR ''/''"
    proof -
      obtain q' m where m: "q = q' @ [m]" "m \<noteq> []" "CHR ''/'' \<notin> set m" using False q by (cases q rule: rev_cases) (auto simp: plain_def)
      then obtain m' k where "m = m' @ [k]" "k \<noteq> CHR ''/''" by (cases m rule: rev_cases) auto
      then show thesis using m that by (cases "q' = []") (auto simp: path_str_def py_join_snoc)
    qed
    have "\<not> list_all (\<lambda>c. c = CHR ''/'') (path_str q)" using l by simp
    moreover have "rstrip_by (\<lambda>c. c = CHR ''/'') ?head = path_str q" using l False by (simp add: rstrip_by_def)
    ultimately show ?thesis using h qn by (simp add: py_dirname_def Let_def)
  qed
qed

text \<open>What happened to the files: only the path changed, and directories were made above it where nothing was.\<close>

definition writes_at :: "file_system \<Rightarrow> file_system \<Rightarrow> path \<Rightarrow> bool" where
  "writes_at fs fs' p = (same_links fs fs' \<and> (\<forall>q. node_at fs' q \<noteq> node_at fs q \<longrightarrow>
     q = p \<or> node_at fs q = None \<and> node_at fs' q = Some Directory \<and> strict_prefix q p))"

lemma writes_at_refl [simp]: "writes_at fs fs p"
  by (simp add: writes_at_def)

lemma real_plain: "real_path fs p \<Longrightarrow> list_all plain p"
  by (simp add: real_path_def)

lemma make_dirs_above:
  assumes "real_path fs p" "p \<noteq> []" "make_dirs_at shown (py_dirname (path_str p)) fs = Inr fs'"
  shows "writes_at fs fs' p"
proof -
  have "py_dirname (path_str p) = path_str (butlast p)" using assms py_dirname_path_str real_plain by blast
  then have "make_dirs shown [] (butlast p) fs = Inr fs'"
    using assms locate_path_str [OF real_butlast [OF assms(1)]] by (simp add: make_dirs_at_def)
  moreover have above: "strict_prefix q p" if "prefix q (butlast p)" for q
    using that assms(2) by (cases p rule: rev_cases) (auto simp: strict_prefix_def prefix_def)
  ultimately show ?thesis using make_dirs_changes [of shown "[]" "butlast p" fs fs']
    using above by (auto simp: writes_at_def)
qed

lemma open_write_at:
  assumes "real_path fs p" "open_write fs shown (path_str p) add text = Inr fs'"
  shows "p \<noteq> [] \<and> writes_at fs fs' p \<and> (\<exists>t. node_at fs' p = Some (File t)) \<and> (\<not> add \<longrightarrow> node_at fs' p = Some (File text))"
proof -
  obtain q where q: "locate fs (path_str p) = Some q" "q \<noteq> [] \<Longrightarrow> same_links fs fs'" "q \<noteq> []"
    "\<forall>r. r \<noteq> q \<longrightarrow> node_at fs' r = node_at fs r" "\<exists>t. node_at fs' q = Some (File t)" "\<not> add \<Longrightarrow> node_at fs' q = Some (File text)"
    using open_write_changes [OF assms(2)] by metis
  then show ?thesis using locate_path_str [OF assms(1)] by (auto simp: writes_at_def)
qed

lemma writes_at_trans:
  assumes "writes_at fs fs' p" "writes_at fs' fs'' p" shows "writes_at fs fs'' p"
proof -
  have "q = p \<or> node_at fs q = None \<and> node_at fs'' q = Some Directory \<and> strict_prefix q p" if "node_at fs'' q \<noteq> node_at fs q" for q
  proof (cases "node_at fs' q = node_at fs q")
    case True
    then show ?thesis using that assms(2) unfolding writes_at_def by metis
  next
    case False
    then have "q = p \<or> node_at fs q = None \<and> node_at fs' q = Some Directory \<and> strict_prefix q p" using assms(1) unfolding writes_at_def by blast
    then show ?thesis using assms(2) unfolding writes_at_def by (metis option.distinct(1))
  qed
  then show ?thesis using assms same_links_trans unfolding writes_at_def by blast
qed

lemma path_str_ne: "path_str p \<noteq> []"
  by (simp add: path_str_def)

lemma py_dirname_top: "py_dirname (path_str []) = ''/''"
  by (simp add: py_dirname_def path_str_def)

text \<open>A write at a real path changes that path only, whether it succeeds or fails on the way.\<close>

lemma lx_write_at_real:
  assumes "real_path (lx_files x) p" "lx_write_at x s (path_str p) content add = (x', r)"
  shows "writes_at (lx_files x) (lx_files x') p \<and> lx_mappings x' = lx_mappings x
    \<and> (r = Inr () \<longrightarrow> (\<exists>t. node_at (lx_files x') p = Some (File t)))"
proof -
  let ?fs = "lx_files x" and ?d = "py_dirname (path_str p)"
  have "?d \<noteq> []"
    using py_dirname_path_str [OF real_plain [OF assms(1)]] path_str_ne py_dirname_top by (cases "p = []") auto
  then consider e where "x' = x" "r = Inl e"
    | fs e where "make_dirs_at s ?d ?fs = Inr fs" "x' = x\<lparr>lx_files := fs\<rparr>" "r = Inl e"
    | fs fs' tx where "make_dirs_at s ?d ?fs = Inr fs" "open_write fs s (path_str p) add tx = Inr fs'"
        "x' = x\<lparr>lx_files := fs', lx_written := path_str p # lx_written x\<rparr>" "r = Inr ()"
    using assms(2) by (auto simp: lx_write_at_def bind_res_eq_Inr split: sum.splits)
  then show ?thesis
  proof cases
    case (2 fs e)
    have "writes_at ?fs fs p"
    proof (cases "p = []")
      case True
      then have "fs = ?fs" using 2(1) locate_path_str [OF real_Nil] py_dirname_top by (simp add: make_dirs_at_def path_str_def)
      then show ?thesis by simp
    qed (use make_dirs_above [OF assms(1)] 2(1) in blast)
    then show ?thesis using 2 by simp
  next
    case (3 fs fs' tx)
    have same: "same_links ?fs fs" using 3(1) make_dirs_changes by (auto simp: make_dirs_at_def split: option.splits)
    have w: "p \<noteq> [] \<and> writes_at fs fs' p \<and> (\<exists>t. node_at fs' p = Some (File t))"
      using open_write_at [OF _ 3(2)] assms(1) same_links_walks(4) [OF same] by blast
    then show ?thesis using 3 writes_at_trans [OF make_dirs_above [OF assms(1) _ 3(1)]] by simp
  qed simp
qed

subsection \<open>Which paths may be written\<close>

lemma first_some_in: "first_some f xs = Some y \<Longrightarrow> \<exists>x \<in> set xs. f x = Some y"
  by (induction xs) (auto split: option.splits)

lemma set_longest_first [simp]: "set (longest_first f xs) = set xs"
  by (simp add: longest_first_def)

lemma find_path_mapping_in: "find_path_mapping ms s = Some (m, rel) \<Longrightarrow> m \<in> set ms"
  using first_some_in [of "mapping_match s" "longest_first container_of ms" "(m, rel)"]
  by (auto simp: find_path_mapping_def mapping_match_def Let_def split: if_splits)

text \<open>The mapping's directory is above the path.\<close>

definition around :: "file_system \<Rightarrow> path_mapping \<Rightarrow> path \<Rightarrow> bool" where
  "around fs m p = (case resolve fs (pm_local m) of Some b \<Rightarrow> prefix b p | None \<Rightarrow> False)"

lemma mapped_path:
  assumes "fs_ok fs" "resolve_path_with_mapping fs ms s = Inr (t, m)"
  shows "(m = None \<and> t = s \<and> find_path_mapping ms s = None) \<or> (\<exists>mm \<in> set ms. \<exists>p. m = Some mm \<and> t = path_str p \<and> real_path fs p \<and> around fs mm p)"
proof (cases "find_path_mapping ms s")
  case None
  then show ?thesis using assms(2) by (simp add: resolve_path_with_mapping_def)
next
  case (Some mr)
  obtain mm rel where mr: "mr = (mm, rel)" by fastforce
  obtain b p where b: "resolved fs (pm_local mm) = Inr b" and p: "p = b \<or> resolved fs (path_str b @ ''/'' @ rel) = Inr p"
      and t: "t = path_str p" "m = Some mm" "prefix b p"
    using assms(2) Some mr by (auto simp: resolve_path_with_mapping_def bind_res_eq_Inr split: if_splits)
  have "real_path fs b" "resolve fs (pm_local mm) = Some b" using resolvedE [OF assms(1) b] by blast+
  moreover have "real_path fs p" using p \<open>real_path fs b\<close> resolvedE [OF assms(1)] by blast
  ultimately show ?thesis using t Some mr find_path_mapping_in by (fastforce simp: around_def)
qed

text \<open>The mapping \<open>best_mapping\<close> settles on has the longest directory above the path.\<close>

definition best_so_far :: "file_system \<Rightarrow> string \<Rightarrow> int \<times> path_mapping option \<Rightarrow> bool" where
  "best_so_far fs s best = (case best of (k, None) \<Rightarrow> k = -1
     | (k, Some m) \<Rightarrow> (\<exists>b. resolve fs (pm_local m) = Some b \<and> k = int (length (path_str b)) \<and> below_text (path_str b) s))"

lemma best_mapping_longest:
  assumes "best_mapping fs s best ms = Inr res" "best_so_far fs s best"
  shows "\<exists>k. best_so_far fs s (k, res) \<and> fst best \<le> k \<and> (res \<noteq> None \<longrightarrow> the res \<in> set ms \<or> res = snd best)
    \<and> (\<forall>m \<in> set ms. \<forall>b. resolve fs (pm_local m) = Some b \<longrightarrow> below_text (path_str b) s \<longrightarrow> int (length (path_str b)) \<le> k)"
  using assms
proof (induction fs s best ms rule: best_mapping.induct)
  case (1 fs s best)
  then show ?case by (cases best) (auto intro: exI [of _ "fst best"])
next
  case (2 fs s best m ms)
  obtain b where b: "resolve fs (pm_local m) = Some b" "resolved fs (pm_local m) = Inr b"
    using 2(2) by (auto simp: bind_res_eq_Inr resolved_def split: option.splits)
  let ?take = "below_text (path_str b) s \<and> int (length (path_str b)) > fst best"
  let ?best = "if ?take then (int (length (path_str b)), Some m) else best"
  have rest: "best_mapping fs s ?best ms = Inr res" using 2(2) b by (auto simp: bind_res_def Let_def)
  have ok: "best_so_far fs s ?best" using 2(3) b by (simp add: best_so_far_def)
  obtain k where k: "best_so_far fs s (k, res)" "fst ?best \<le> k" "res \<noteq> None \<longrightarrow> the res \<in> set ms \<or> res = snd ?best"
      "\<forall>m \<in> set ms. \<forall>b. resolve fs (pm_local m) = Some b \<longrightarrow> below_text (path_str b) s \<longrightarrow> int (length (path_str b)) \<le> k"
    using "2.IH" [OF b(2) refl rest ok] by blast
  have "fst best \<le> k" using k(2) by (auto split: if_splits)
  moreover have "res \<noteq> None \<longrightarrow> the res \<in> set (m # ms) \<or> res = snd best" using k(3) by (auto split: if_splits)
  moreover have "int (length (path_str b)) \<le> k" if "below_text (path_str b) s" using k(2) that by (auto split: if_splits)
  ultimately show ?case using k(1,4) b(1) by (intro exI [of _ k]) auto
qed

lemma prefix_longer:
  assumes "prefix a p" "prefix b p" "length (path_str a) \<le> length (path_str b)" "list_all plain a"
  shows "prefix a b"
proof -
  consider "prefix a b" | c where "a = b @ c" "c \<noteq> []"
    using assms(1,2) by (metis prefix_def prefix_same_cases append.right_neutral)
  then show ?thesis
  proof cases
    case (2 c)
    then have "length (path_str b) < length (path_str a)"
    proof (cases "b = []")
      case True
      obtain n ns where "a = n # ns" "n \<noteq> []" using 2 True assms(4) by (cases a) (auto simp: plain_def)
      then show ?thesis using True by (simp add: path_str_def py_join_Cons)
    qed (simp add: path_str_app)
    then show ?thesis using assms(3) by simp
  qed
qed

text \<open>A read-only directory above a writable path has a writable mapping's directory between it and the path.\<close>

definition may_write :: "file_system \<Rightarrow> path_mapping list \<Rightarrow> path \<Rightarrow> bool" where
  "may_write fs ms p = (\<forall>m \<in> set ms. pm_read_only m \<longrightarrow> around fs m p \<longrightarrow> resolve fs (pm_local m) \<noteq> Some [] \<longrightarrow>
     (\<exists>m' \<in> set ms. \<not> pm_read_only m' \<and> around fs m' p
        \<and> prefix (the (resolve fs (pm_local m))) (the (resolve fs (pm_local m')))))"

lemma not_read_only:
  assumes ok: "fs_ok fs" and p: "real_path fs p" and ro: "is_read_only_path fs ms (path_str p) = Inr False"
  shows "may_write fs ms p"
  unfolding may_write_def
proof (intro ballI impI)
  fix m
  assume m: "m \<in> set ms" "pm_read_only m" "around fs m p" "resolve fs (pm_local m) \<noteq> Some []"
  then obtain b where b: "resolve fs (pm_local m) = Some b" "prefix b p" "b \<noteq> []" by (auto simp: around_def split: option.splits)
  obtain res where res: "best_mapping fs (path_str p) (-1, None) ms = Inr res" "\<not> (case res of None \<Rightarrow> False | Some m \<Rightarrow> pm_read_only m)"
    using ro resolved_str [OF p] by (auto simp: is_read_only_path_def bind_res_def split: sum.splits)
  obtain k where k: "best_so_far fs (path_str p) (k, res)" "res \<noteq> None \<longrightarrow> the res \<in> set ms"
      "\<forall>m \<in> set ms. \<forall>b. resolve fs (pm_local m) = Some b \<longrightarrow> below_text (path_str b) (path_str p) \<longrightarrow> int (length (path_str b)) \<le> k"
    using best_mapping_longest [OF res(1)] by (force simp: best_so_far_def)
  have pb: "list_all plain b" using resolve_real [OF ok b(1)] real_plain by blast
  then have "below_text (path_str b) (path_str p)" using under_path_str [of b p] p b real_plain by simp
  then have kb: "int (length (path_str b)) \<le> k" using k(3) m(1) b(1) by blast
  then obtain m' where m': "res = Some m'" using k(1) by (cases res) (auto simp: best_so_far_def)
  then obtain b' where b': "resolve fs (pm_local m') = Some b'" "k = int (length (path_str b'))" "below_text (path_str b') (path_str p)"
    using k(1) by (auto simp: best_so_far_def)
  have "list_all plain b'" using resolve_real [OF ok b'(1)] real_plain by blast
  then have "prefix b' p" using under_path_str [of b' p] b'(3) p real_plain by (auto split: if_splits)
  moreover have "prefix b b'" using prefix_longer [OF b(2) \<open>prefix b' p\<close> _ pb] kb b'(2) by simp
  ultimately show "\<exists>m' \<in> set ms. \<not> pm_read_only m' \<and> around fs m' p \<and> prefix (the (resolve fs (pm_local m))) (the (resolve fs (pm_local m')))"
    using k(2) m' res(2) b b' by (intro bexI [of _ m']) (auto simp: around_def)
qed

end
