(* ===== verification/Sandbox_Paths.thy ===== *)
theory Sandbox_Paths
  imports Sandbox_Local
begin

text \<open>
  The directories of a thread (\<open>config/paths.py\<close>) and the virtual paths an agent names (\<open>sandbox/tools.py\<close>): which
  ones the local sandbox's tools accept, the host paths they stand for, and how host paths are hidden in what
  the tools say. What the first successful load of the configuration gave is kept, so it is an argument here.
\<close>

subsection \<open>A thread's directories\<close>

definition safe_char :: "char \<Rightarrow> bool" where
  "safe_char c = (let n = code_of c in 48 \<le> n \<and> n \<le> 57 \<or> 65 \<le> n \<and> n \<le> 90 \<or> 97 \<le> n \<and> n \<le> 122 \<or> n = 95 \<or> n = 45)"

text \<open>\<open>^[A-Za-z0-9_\-]+$\<close> with \<open>match\<close>: \<open>$\<close> also matches before a newline that ends the text.\<close>

definition safe_id :: "string \<Rightarrow> bool" where
  "safe_id s = (let t = (if s \<noteq> [] \<and> last s = newline then butlast s else s) in t \<noteq> [] \<and> list_all safe_char t)"

definition validate_thread_id :: "string \<Rightarrow> exc + string" where
  "validate_thread_id s = (if safe_id s then Inr s
     else Inl (Value_Error, ''Invalid thread_id '' @ str_repr s @ '': only alphanumeric characters, hyphens, and underscores are allowed.''))"

definition validate_user_id :: "string \<Rightarrow> exc + string" where
  "validate_user_id s = (if safe_id s then Inr s
     else Inl (Value_Error, ''Invalid user_id '' @ str_repr s @ '': only alphanumeric characters, hyphens, and underscores are allowed.''))"

text \<open>\<open>base / a / b\<close> for names that are not absolute.\<close>

definition path_div :: "string \<Rightarrow> string list \<Rightarrow> string" where
  "path_div base names = pure_text (path_root base) (path_parts base @ concat (map path_parts names))"

definition user_dir :: "string \<Rightarrow> string \<Rightarrow> exc + string" where
  "user_dir base user = bind_res (validate_user_id user) (\<lambda>u. Inr (path_div base [''users'', u]))"

definition thread_dir :: "string \<Rightarrow> string option \<Rightarrow> string \<Rightarrow> exc + string" where
  "thread_dir base user thread =
     (case user of
        Some u \<Rightarrow> bind_res (user_dir base u) (\<lambda>d. bind_res (validate_thread_id thread) (\<lambda>t. Inr (path_div d [''threads'', t])))
      | None \<Rightarrow> bind_res (validate_thread_id thread) (\<lambda>t. Inr (path_div base [''threads'', t])))"

definition sandbox_dir :: "string \<Rightarrow> string option \<Rightarrow> string \<Rightarrow> string \<Rightarrow> exc + string" where
  "sandbox_dir base user thread name = bind_res (thread_dir base user thread) (\<lambda>d. Inr (path_div d [''user-data'', name]))"

definition acp_workspace_dir :: "string \<Rightarrow> string option \<Rightarrow> string \<Rightarrow> exc + string" where
  "acp_workspace_dir base user thread = bind_res (thread_dir base user thread) (\<lambda>d. Inr (path_div d [''acp-workspace'']))"

definition sandbox_user_data_dir :: "string \<Rightarrow> string option \<Rightarrow> string \<Rightarrow> exc + string" where
  "sandbox_user_data_dir base user thread = bind_res (thread_dir base user thread) (\<lambda>d. Inr (path_div d [''user-data'']))"

definition VIRTUAL_PATH_PREFIX :: string where "VIRTUAL_PATH_PREFIX = ''/mnt/user-data''"

definition resolve_virtual_path :: "file_system \<Rightarrow> string \<Rightarrow> string option \<Rightarrow> string \<Rightarrow> string \<Rightarrow> exc + path" where
  "resolve_virtual_path fs base user thread virtual =
     (let stripped = strip_slashes virtual; pre = strip_slashes VIRTUAL_PATH_PREFIX in
      if \<not> below_text pre stripped then Inl (Value_Error, ''Path must start with /'' @ pre)
      else
        let relative = strip_slashes (drop (length pre) stripped) in
        bind_res (sandbox_user_data_dir base user thread) (\<lambda>d.
        bind_res (resolved fs d) (\<lambda>base_path.
        bind_res (resolved fs (path_str base_path @ ''/'' @ relative)) (\<lambda>actual.
          if prefix base_path actual then Inr actual else Inl (Value_Error, ''Access denied: path traversal detected'')))))"

record thread_data =
  td_workspace :: "string option"
  td_uploads :: "string option"
  td_outputs :: "string option"

text \<open>\<open>_get_thread_paths\<close> of \<open>ThreadDataMiddleware\<close>.\<close>

definition get_thread_paths :: "string \<Rightarrow> string option \<Rightarrow> string \<Rightarrow> exc + thread_data" where
  "get_thread_paths base user thread =
     bind_res (sandbox_dir base user thread ''workspace'') (\<lambda>w.
     bind_res (sandbox_dir base user thread ''uploads'') (\<lambda>u.
     bind_res (sandbox_dir base user thread ''outputs'') (\<lambda>o'. Inr \<lparr>td_workspace = Some w, td_uploads = Some u, td_outputs = Some o'\<rparr>)))"

definition extract_thread_id :: "thread_data option \<Rightarrow> string option" where
  "extract_thread_id td =
     (case td of None \<Rightarrow> None
      | Some d \<Rightarrow> (case td_workspace d of
          Some (c # w) \<Rightarrow> Some (pure_name (pure_parent (pure_parent (c # w)))) | _ \<Rightarrow> None))"

subsection \<open>What the tools know of the host\<close>

record path_settings =
  ps_skills_container :: string
  ps_skills_host :: "string option"
  ps_mounts :: "volume_mount list"
  ps_base_dir :: string
  ps_user :: string
  ps_order :: "string list \<Rightarrow> string list"

text \<open>\<open>_get_custom_mounts\<close> and \<open>_get_skills_host_path\<close> keep what is there on the host.\<close>

definition get_custom_mounts :: "file_system \<Rightarrow> sandbox_settings \<Rightarrow> volume_mount list" where
  "get_custom_mounts fs cfg = filter (\<lambda>m. node_of fs (vm_host m) \<noteq> None) (sb_mounts cfg)"

definition get_skills_host_path :: "file_system \<Rightarrow> sandbox_settings \<Rightarrow> string option" where
  "get_skills_host_path fs cfg = (if node_of fs (sb_skills_path cfg) \<noteq> None then Some (pure_str (sb_skills_path cfg)) else None)"

definition get_acp_workspace_host_path :: "file_system \<Rightarrow> path_settings \<Rightarrow> string option \<Rightarrow> string option" where
  "get_acp_workspace_host_path fs ps thread =
     (case thread of
        Some t \<Rightarrow> (case acp_workspace_dir (ps_base_dir ps) (Some (ps_user ps)) t of
            Inr d \<Rightarrow> if node_of fs d \<noteq> None then Some d else None | Inl e \<Rightarrow> None)
      | None \<Rightarrow> (let d = path_div (ps_base_dir ps) [''acp-workspace''] in if node_of fs d \<noteq> None then Some d else None))"

definition ACP_WORKSPACE_VIRTUAL_PATH :: string where "ACP_WORKSPACE_VIRTUAL_PATH = ''/mnt/acp-workspace''"

definition is_skills_path :: "path_settings \<Rightarrow> string \<Rightarrow> bool" where
  "is_skills_path ps s = below_text (ps_skills_container ps) s"

definition is_acp_workspace_path :: "string \<Rightarrow> bool" where
  "is_acp_workspace_path s = below_text ACP_WORKSPACE_VIRTUAL_PATH s"

definition is_custom_mount_path :: "path_settings \<Rightarrow> string \<Rightarrow> bool" where
  "is_custom_mount_path ps s = list_ex (\<lambda>m. below_text (vm_container m) s) (ps_mounts ps)"

definition get_custom_mount_for_path :: "path_settings \<Rightarrow> string \<Rightarrow> volume_mount option" where
  "get_custom_mount_for_path ps s =
     foldl (\<lambda>best m. if below_text (vm_container m) s
         \<and> (case best of None \<Rightarrow> True | Some b \<Rightarrow> length (vm_container b) < length (vm_container m)) then Some m else best)
       None (ps_mounts ps)"

subsection \<open>The gate on a tool's path\<close>

definition reject_path_traversal :: "string \<Rightarrow> exc + unit" where
  "reject_path_traversal s =
     (if ''..'' \<in> set (split_on (CHR ''/'') (forward_slashes s)) then Inl (Permission_Error, ''Access denied: path traversal detected'') else Inr ())"

definition validate_local_tool_path :: "path_settings \<Rightarrow> string \<Rightarrow> thread_data option \<Rightarrow> bool \<Rightarrow> exc + unit" where
  "validate_local_tool_path ps s td read_only =
     (if td = None then Inl (Sandbox_Error, ''Thread data not available for local sandbox'')
      else bind_res (reject_path_traversal s) (\<lambda>_.
        if is_skills_path ps s
        then (if read_only then Inr () else Inl (Permission_Error, ''Write access to skills path is not allowed: '' @ s))
        else if is_acp_workspace_path s
        then (if read_only then Inr () else Inl (Permission_Error, ''Write access to ACP workspace is not allowed: '' @ s))
        else if starts_with s (VIRTUAL_PATH_PREFIX @ ''/'') then Inr ()
        else if is_custom_mount_path ps s
        then (case get_custom_mount_for_path ps s of
            Some m \<Rightarrow> if vm_read_only m \<and> \<not> read_only then Inl (Permission_Error, ''Write access to read-only mount is not allowed: '' @ s) else Inr ()
          | None \<Rightarrow> Inr ())
        else Inl (Permission_Error, ''Only paths under '' @ VIRTUAL_PATH_PREFIX @ ''/, '' @ ps_skills_container ps @ ''/, '' @ ACP_WORKSPACE_VIRTUAL_PATH
          @ ''/, or configured mount paths are allowed'')))"

subsection \<open>Virtual paths and host paths\<close>

definition is_slash :: "char \<Rightarrow> bool" where
  "is_slash c = (c = CHR ''/'' \<or> c = CHR 0x5C)"

definition path_separator_for_style :: "string \<Rightarrow> char" where
  "path_separator_for_style s = (if CHR 0x5C \<in> set s \<and> CHR ''/'' \<notin> set s then CHR 0x5C else CHR ''/'')"

definition join_path_preserving_style :: "string \<Rightarrow> string \<Rightarrow> string" where
  "join_path_preserving_style base relative =
     (if relative = [] then base
      else let sep = path_separator_for_style base in
        rstrip_by is_slash base @ sep # dropWhile is_slash (map (\<lambda>c. if c = (if sep = CHR ''/'' then CHR 0x5C else CHR ''/'') then sep else c) relative))"

definition given_path :: "string option \<Rightarrow> string list" where
  "given_path v = (case v of Some (c # s) \<Rightarrow> [c # s] | _ \<Rightarrow> [])"

definition virtual_to_actual :: "thread_data \<Rightarrow> (string \<times> string) list" where
  "virtual_to_actual td =
     (let own = map (\<lambda>p. (VIRTUAL_PATH_PREFIX @ ''/workspace'', p)) (given_path (td_workspace td))
          @ map (\<lambda>p. (VIRTUAL_PATH_PREFIX @ ''/uploads'', p)) (given_path (td_uploads td))
          @ map (\<lambda>p. (VIRTUAL_PATH_PREFIX @ ''/outputs'', p)) (given_path (td_outputs td))
      in case own of
           [] \<Rightarrow> []
         | (v, p) # rest \<Rightarrow> own @ (if list_all (\<lambda>(v', q). pure_parent q = pure_parent p) own then [(VIRTUAL_PATH_PREFIX, pure_parent p)] else []))"

definition actual_to_virtual :: "thread_data \<Rightarrow> (string \<times> string) list" where
  "actual_to_virtual td = foldl (\<lambda>d (v, a). dset d a v) [] (virtual_to_actual td)"

definition replace_at :: "string \<Rightarrow> string \<times> string \<Rightarrow> string option" where
  "replace_at s m =
     (case m of (virtual, actual) \<Rightarrow>
        if s = virtual then Some actual
        else if starts_with s (virtual @ ''/'')
        then (let out = join_path_preserving_style actual (strip_slashes (drop (length virtual) s)) in
              Some (if ends_with s ''/'' \<and> \<not> (out \<noteq> [] \<and> is_slash (last out)) then out @ [path_separator_for_style actual] else out))
        else None)"

definition replace_virtual_path :: "string \<Rightarrow> thread_data option \<Rightarrow> string" where
  "replace_virtual_path s td =
     (case td of None \<Rightarrow> s
      | Some d \<Rightarrow> (case first_some (replace_at s) (longest_first fst (virtual_to_actual d)) of Some t \<Rightarrow> t | None \<Rightarrow> s))"

fun resolve_roots :: "file_system \<Rightarrow> string list \<Rightarrow> exc + path list" where
  "resolve_roots fs [] = Inr []"
| "resolve_roots fs (s # ss) = bind_res (resolved fs s) (\<lambda>p. bind_res (resolve_roots fs ss) (\<lambda>ps. Inr (p # ps)))"

definition thread_roots :: "thread_data \<Rightarrow> string list" where
  "thread_roots td = concat (map (\<lambda>v. case v of Some s \<Rightarrow> [s] | None \<Rightarrow> []) [td_workspace td, td_uploads td, td_outputs td])"

definition validate_resolved_user_data_path :: "file_system \<Rightarrow> path \<Rightarrow> thread_data \<Rightarrow> exc + unit" where
  "validate_resolved_user_data_path fs p td =
     bind_res (resolve_roots fs (thread_roots td)) (\<lambda>roots.
       if roots = [] then Inl (Sandbox_Error, ''No allowed local sandbox directories configured'')
       else if list_ex (\<lambda>r. prefix r p) roots then Inr ()
       else Inl (Permission_Error, ''Access denied: path traversal detected''))"

definition resolve_and_validate_user_data_path :: "file_system \<Rightarrow> string \<Rightarrow> thread_data \<Rightarrow> exc + string" where
  "resolve_and_validate_user_data_path fs s td =
     bind_res (resolved fs (replace_virtual_path s (Some td))) (\<lambda>p.
     bind_res (validate_resolved_user_data_path fs p td) (\<lambda>_. Inr (path_str p)))"

definition resolve_skills_path :: "path_settings \<Rightarrow> string \<Rightarrow> exc + string" where
  "resolve_skills_path ps s =
     (case ps_skills_host ps of
        None \<Rightarrow> Inl (File_Not_Found_Error, ''Skills directory not available for path: '' @ s)
      | Some host \<Rightarrow>
          if s = ps_skills_container ps then Inr host
          else Inr (join_path_preserving_style host (strip_slashes (drop (length (ps_skills_container ps)) s))))"

text \<open>\<open>posixpath.normpath\<close> of a host path and \<open>commonpath\<close> of two, for absolute paths.\<close>

definition norm_parts :: "string \<Rightarrow> path" where
  "norm_parts s = collapse [] (split_on (CHR ''/'') s)"

definition resolve_acp_workspace_path :: "file_system \<Rightarrow> path_settings \<Rightarrow> string \<Rightarrow> string option \<Rightarrow> exc + string" where
  "resolve_acp_workspace_path fs ps s thread =
     bind_res (reject_path_traversal s) (\<lambda>_.
       case get_acp_workspace_host_path fs ps thread of
         None \<Rightarrow> Inl (File_Not_Found_Error, ''ACP workspace directory not available for path: '' @ s)
       | Some host \<Rightarrow>
           if s = ACP_WORKSPACE_VIRTUAL_PATH then Inr host
           else
             let target = join_path_preserving_style host (strip_slashes (drop (length ACP_WORKSPACE_VIRTUAL_PATH) s));
                 denied = Inl (Permission_Error, ''Access denied: path traversal detected'') in
             if CHR ''/'' \<in> set host \<and> CHR 0x5C \<notin> set host
             then (if prefix (norm_parts host) (norm_parts target) then Inr target else denied)
             else bind_res (resolved fs target) (\<lambda>p. bind_res (resolved fs host) (\<lambda>h.
               if prefix h p then Inr (path_str p) else denied)))"

text \<open>\<open>_resolve_local_read_path\<close> (glob, grep) and the same choice as the other tools spell it out, which leave mounts to the sandbox.\<close>

definition resolve_local_read_path :: "file_system \<Rightarrow> path_settings \<Rightarrow> string \<Rightarrow> thread_data \<Rightarrow> exc + string" where
  "resolve_local_read_path fs ps s td =
     bind_res (validate_local_tool_path ps s (Some td) True) (\<lambda>_.
       if is_skills_path ps s then resolve_skills_path ps s
       else if is_acp_workspace_path s then resolve_acp_workspace_path fs ps s (extract_thread_id (Some td))
       else resolve_and_validate_user_data_path fs s td)"

definition local_read_path :: "file_system \<Rightarrow> path_settings \<Rightarrow> string \<Rightarrow> thread_data option \<Rightarrow> exc + string" where
  "local_read_path fs ps s td =
     bind_res (validate_local_tool_path ps s td True) (\<lambda>_.
       if is_skills_path ps s then resolve_skills_path ps s
       else if is_acp_workspace_path s then resolve_acp_workspace_path fs ps s (extract_thread_id td)
       else if is_custom_mount_path ps s then Inr s
       else (case td of Some d \<Rightarrow> resolve_and_validate_user_data_path fs s d | None \<Rightarrow> Inr s))"

definition local_write_path :: "file_system \<Rightarrow> path_settings \<Rightarrow> string \<Rightarrow> thread_data option \<Rightarrow> exc + string" where
  "local_write_path fs ps s td =
     bind_res (validate_local_tool_path ps s td False) (\<lambda>_.
       if is_custom_mount_path ps s then Inr s
       else (case td of Some d \<Rightarrow> resolve_and_validate_user_data_path fs s d | None \<Rightarrow> Inr s))"

subsection \<open>Host paths in what a tool says\<close>

definition path_variants :: "string \<Rightarrow> string list" where
  "path_variants s = [s, forward_slashes s, map (\<lambda>c. if c = CHR ''/'' then CHR 0x5C else c) s]"

text \<open>A base matches where each of its backslashes meets either separator.\<close>

definition base_len :: "string \<Rightarrow> string \<Rightarrow> nat" where
  "base_len base s =
     (if length base \<le> length s \<and> list_all2 (\<lambda>b c. if b = CHR 0x5C then is_slash c else b = c) base (take (length base) s)
      then length base + tail_len [CHR ''/'', CHR 0x5C] (drop (length base) s) else 0)"

definition masked :: "string \<Rightarrow> string \<Rightarrow> string \<Rightarrow> string" where
  "masked base virtual s =
     (if s = base then virtual
      else let relative = dropWhile is_slash (drop (length base) s) in if relative = [] then virtual else virtual @ ''/'' @ relative)"

fun mask_each :: "string \<Rightarrow> string list \<Rightarrow> string \<Rightarrow> exc + string" where
  "mask_each virtual [] text = Inr text"
| "mask_each virtual (b # bs) text = bind_res (sub_matches (base_len b) (\<lambda>s. Inr (masked b virtual s)) text) (mask_each virtual bs)"

definition mask_base :: "file_system \<Rightarrow> path_settings \<Rightarrow> string \<Rightarrow> string \<Rightarrow> string \<Rightarrow> exc + string" where
  "mask_base fs ps virtual host text =
     bind_res (resolved fs (pure_str host)) (\<lambda>p.
       mask_each virtual (ps_order ps (remdups (path_variants (pure_str host) @ path_variants (path_str p)))) text)"

fun mask_bases :: "file_system \<Rightarrow> path_settings \<Rightarrow> (string \<times> string) list \<Rightarrow> string \<Rightarrow> exc + string" where
  "mask_bases fs ps [] text = Inr text"
| "mask_bases fs ps ((host, virtual) # rest) text = bind_res (mask_base fs ps virtual host text) (mask_bases fs ps rest)"

definition hidden_bases :: "file_system \<Rightarrow> path_settings \<Rightarrow> thread_data option \<Rightarrow> (string \<times> string) list" where
  "hidden_bases fs ps td =
     (case ps_skills_host ps of Some (c # h) \<Rightarrow> [(c # h, ps_skills_container ps)] | _ \<Rightarrow> [])
     @ (case get_acp_workspace_host_path fs ps (extract_thread_id td) of Some (c # h) \<Rightarrow> [(c # h, ACP_WORKSPACE_VIRTUAL_PATH)] | _ \<Rightarrow> [])
     @ (case td of None \<Rightarrow> [] | Some d \<Rightarrow> longest_first fst (actual_to_virtual d))"

definition mask_local_paths_in_output :: "file_system \<Rightarrow> path_settings \<Rightarrow> string \<Rightarrow> thread_data option \<Rightarrow> exc + string" where
  "mask_local_paths_in_output fs ps text td = mask_bases fs ps (hidden_bases fs ps td) text"

end
