(* ===== verification/Sandbox_Search.thy ===== *)
theory Sandbox_Search
  imports Sandbox_Local
begin

text \<open>
  Listing and searching directories (\<open>sandbox/local/list_dir.py\<close>, \<open>sandbox/search.py\<close>) and the sandbox's
  operations over them. A directory yields its entries in the order of the tree. The regular expression of a
  search is an argument (\<open>None\<close> is \<open>re.error\<close>); files that cannot be read as text are left out.
\<close>

subsection \<open>Names that are skipped\<close>

definition IGNORE_PATTERNS :: "string list" where
  "IGNORE_PATTERNS = [''.git'', ''.svn'', ''.hg'', ''.bzr'', ''node_modules'', ''__pycache__'', ''.venv'', ''venv'', ''.env'', ''env'',
     ''.tox'', ''.nox'', ''.eggs'', ''*.egg-info'', ''site-packages'', ''dist'', ''build'', ''.next'', ''.nuxt'', ''.output'', ''.turbo'',
     ''target'', ''out'', ''.idea'', ''.vscode'', ''*.swp'', ''*.swo'', ''*~'', ''.project'', ''.classpath'', ''.settings'', ''.DS_Store'',
     ''Thumbs.db'', ''desktop.ini'', ''*.lnk'', ''*.log'', ''*.tmp'', ''*.temp'', ''*.bak'', ''*.cache'', ''.cache'', ''logs'', ''.coverage'',
     ''coverage'', ''.nyc_output'', ''htmlcov'', ''.pytest_cache'', ''.mypy_cache'', ''.ruff_cache'']"

definition should_ignore_name :: "string \<Rightarrow> bool" where
  "should_ignore_name n = list_ex (\<lambda>pat. glob_match pat n) IGNORE_PATTERNS"

definition should_ignore_path :: "string \<Rightarrow> bool" where
  "should_ignore_path s = list_ex (\<lambda>n. n \<noteq> [] \<and> should_ignore_name n) (split_on (CHR ''/'') (forward_slashes s))"

subsection \<open>Matching relative paths\<close>

text \<open>
  \<open>PurePosixPath.match\<close> of Python 3.12 on a relative path: the pattern's parts against the last parts of the
  path. An empty pattern is a \<open>ValueError\<close>; an absolute one matches no relative path.
\<close>

definition pure_match :: "string \<Rightarrow> path \<Rightarrow> exc + bool" where
  "pure_match pat rel =
     (let pats = path_parts pat in
      if is_absolute pat then Inr False
      else if pats = [] then Inl (Value_Error, ''empty pattern'')
      else Inr (length pats \<le> length rel \<and> list_all2 glob_match pats (drop (length rel - length pats) rel)))"

definition path_matches :: "string \<Rightarrow> path \<Rightarrow> exc + bool" where
  "path_matches pat rel =
     bind_res (pure_match pat rel) (\<lambda>b. if b then Inr True else if starts_with pat ''**/'' then pure_match (drop 3 pat) rel else Inr False)"

subsection \<open>Directories\<close>

definition entries :: "file_system \<Rightarrow> path \<Rightarrow> path list" where
  "entries fs p = filter (\<lambda>q. q \<noteq> [] \<and> butlast q = p) (map fst (fs_nodes fs))"

definition is_dir_node :: "file_system \<Rightarrow> path \<Rightarrow> bool" where
  "is_dir_node fs p = (node_at fs p = Some Directory)"

definition link_target :: "file_system \<Rightarrow> path \<Rightarrow> string option" where
  "link_target fs p = (case node_at fs p of Some (Link t) \<Rightarrow> Some t | _ \<Rightarrow> None)"

definition marked :: "file_system \<Rightarrow> path \<Rightarrow> string" where
  "marked fs p = path_str p @ (if is_dir_node fs p then ''/'' else [])"

text \<open>\<open>_traverse\<close> of \<open>list_dir\<close>: \<open>depth\<close> levels below \<open>p\<close>; a link is shown as what it leads to, inside the root only.\<close>

fun bind_list :: "('a \<Rightarrow> exc + 'b list) \<Rightarrow> 'a list \<Rightarrow> exc + 'b list" where
  "bind_list f [] = Inr []"
| "bind_list f (x # xs) = bind_res (f x) (\<lambda>ys. bind_res (bind_list f xs) (\<lambda>zs. Inr (ys @ zs)))"

lemma bind_list_cong [fundef_cong]: "xs = ys \<Longrightarrow> (\<And>x. x \<in> set ys \<Longrightarrow> f x = g x) \<Longrightarrow> bind_list f xs = bind_list g ys"
  by (induction xs arbitrary: ys) auto

fun traverse :: "file_system \<Rightarrow> path \<Rightarrow> nat \<Rightarrow> path \<Rightarrow> exc + string list" where
  "traverse fs base 0 p = Inr []"
| "traverse fs base (Suc depth) p =
     bind_list (\<lambda>q.
       if should_ignore_name (last q) then Inr []
       else if link_target fs q \<noteq> None
       then bind_res (resolved fs (path_str q)) (\<lambda>r. Inr (if prefix base r then [marked fs r] else []))
       else bind_res (resolved fs (path_str q)) (\<lambda>r.
         if \<not> prefix base r then Inr []
         else bind_res (if is_dir_node fs q then traverse fs base depth q else Inr []) (\<lambda>below. Inr (marked fs r # below))))
       (entries fs p)"

definition list_dir :: "file_system \<Rightarrow> string \<Rightarrow> nat \<Rightarrow> exc + string list" where
  "list_dir fs s depth =
     bind_res (resolved fs s) (\<lambda>p. if \<not> is_dir_node fs p then Inr [] else bind_res (traverse fs p depth p) (\<lambda>ls. Inr (sort ls)))"

subsection \<open>Walking a tree\<close>

text \<open>\<open>os.walk\<close> without following links: each directory with its directories and files; links to directories count as directories.\<close>

definition leads_to_dir :: "file_system \<Rightarrow> path \<Rightarrow> bool" where
  "leads_to_dir fs p = (node_of fs (path_str p) = Some Directory)"

fun os_walk :: "nat \<Rightarrow> file_system \<Rightarrow> path \<Rightarrow> (path \<times> path list \<times> path list) list" where
  "os_walk 0 fs p = []"
| "os_walk (Suc fuel) fs p =
     (let dirs = filter (\<lambda>q. leads_to_dir fs q \<and> \<not> should_ignore_name (last q)) (entries fs p);
          files = filter (\<lambda>q. \<not> leads_to_dir fs q) (entries fs p) in
      (p, dirs, files) # concat (map (os_walk fuel fs) (filter (\<lambda>q. link_target fs q = None) dirs)))"

text \<open>No path of the tree is longer than the fuel.\<close>

definition walk_fuel :: "file_system \<Rightarrow> nat" where
  "walk_fuel fs = Suc (foldl max 0 (map (length \<circ> fst) (fs_nodes fs)))"

definition search_root :: "file_system \<Rightarrow> string \<Rightarrow> exc + path" where
  "search_root fs s =
     bind_res (resolved fs s) (\<lambda>p. case node_at fs p of
         None \<Rightarrow> Inl (File_Not_Found_Error, path_str p)
       | Some Directory \<Rightarrow> Inr p
       | Some _ \<Rightarrow> Inl (Not_A_Directory_Error, path_str p))"

text \<open>Matches are gathered until there are \<open>max_results\<close> of them.\<close>

fun gather :: "nat \<Rightarrow> 'b list \<Rightarrow> ('a \<Rightarrow> exc + 'b list) \<Rightarrow> 'a list \<Rightarrow> exc + 'b list \<times> bool" where
  "gather limit acc f [] = Inr (acc, False)"
| "gather limit acc f (x # xs) =
     bind_res (f x) (\<lambda>ys.
       if ys = [] then gather limit acc f xs
       else if length (acc @ ys) \<ge> limit then Inr (take (max limit (Suc (length acc))) (acc @ ys), True)
       else gather limit (acc @ ys) f xs)"

definition find_glob_matches :: "file_system \<Rightarrow> string \<Rightarrow> string \<Rightarrow> bool \<Rightarrow> nat \<Rightarrow> exc + string list \<times> bool" where
  "find_glob_matches fs s pat include_dirs limit =
     bind_res (search_root fs s) (\<lambda>base.
       gather limit [] (\<lambda>q. bind_res (path_matches pat (drop (length base) q)) (\<lambda>b. Inr (if b then [path_str q] else [])))
         (concat (map (\<lambda>(p, dirs, files). (if include_dirs then dirs else []) @ filter (\<lambda>q. \<not> should_ignore_name (last q)) files)
           (os_walk (walk_fuel fs) fs base))))"

record grep_match =
  gm_path :: string
  gm_line_number :: nat
  gm_line :: string

definition truncate_line :: "string \<Rightarrow> nat \<Rightarrow> string" where
  "truncate_line line n = (let t = rstrip_by (\<lambda>c. c = newline \<or> c = CHR 0x0D) line in
     if length t \<le> n then t else take (n - 3) t @ ''...'')"

text \<open>The lines of a file as reading yields them, with their ends.\<close>

fun file_lines :: "string \<Rightarrow> string list" where
  "file_lines [] = []"
| "file_lines (c # s) = (if c = newline then [c] # file_lines s else (case file_lines s of [] \<Rightarrow> [[c]] | l # ls \<Rightarrow> (c # l) # ls))"

fun matching_lines :: "(string \<Rightarrow> bool) \<Rightarrow> string \<Rightarrow> nat \<Rightarrow> string list \<Rightarrow> grep_match list" where
  "matching_lines found p n [] = []"
| "matching_lines found p n (l # ls) =
     (if length l \<le> 2000 \<and> found l then \<lparr>gm_path = p, gm_line_number = n, gm_line = truncate_line l 200\<rparr> # matching_lines found p (Suc n) ls
      else matching_lines found p (Suc n) ls)"

definition is_binary :: "string \<Rightarrow> bool" where
  "is_binary text = (CHR 0x00 \<in> set (take 8192 text))"

definition grep_file :: "file_system \<Rightarrow> path \<Rightarrow> (string \<Rightarrow> bool) \<Rightarrow> string option \<Rightarrow> path \<Rightarrow> exc + grep_match list" where
  "grep_file fs base found pat q =
     bind_res (case pat of None \<Rightarrow> Inr True | Some g \<Rightarrow> path_matches g (drop (length base) q)) (\<lambda>wanted.
       if \<not> wanted \<or> link_target fs q \<noteq> None then Inr []
       else (case node_at fs q of
           Some (File text) \<Rightarrow> Inr (if length text > 1000000 \<or> is_binary text then [] else matching_lines found (path_str q) 1 (file_lines (universal_newlines text)))
         | _ \<Rightarrow> Inr []))"

definition find_grep_matches ::
  "file_system \<Rightarrow> (string \<Rightarrow> bool) option \<Rightarrow> string \<Rightarrow> string option \<Rightarrow> nat \<Rightarrow> exc + grep_match list \<times> bool" where
  "find_grep_matches fs regex s pat limit =
     bind_res (search_root fs s) (\<lambda>base.
       case regex of
         None \<Rightarrow> Inl (Re_Error, [])
       | Some found \<Rightarrow>
           gather limit [] (grep_file fs base found pat)
             (filter (\<lambda>q. \<not> should_ignore_name (last q)) (concat (map (\<lambda>(p, dirs, files). files) (os_walk (walk_fuel fs) fs base)))))"

subsection \<open>The sandbox's listing and searching\<close>

fun map_res :: "('a \<Rightarrow> exc + 'b) \<Rightarrow> 'a list \<Rightarrow> exc + 'b list" where
  "map_res f [] = Inr []"
| "map_res f (x # xs) = bind_res (f x) (\<lambda>y. bind_res (map_res f xs) (\<lambda>ys. Inr (y # ys)))"

definition shown_entry :: "local_sandbox \<Rightarrow> string \<Rightarrow> exc + string" where
  "shown_entry x e =
     (if e \<noteq> [] \<and> (last e = CHR ''/'' \<or> last e = CHR 0x5C)
      then bind_res (reverse_resolve_path (lx_files x) (lx_mappings x) (rstrip_by (\<lambda>c. c = CHR ''/'' \<or> c = CHR 0x5C) e)) (\<lambda>t.
        Inr (if ends_with t ''/'' then t else t @ ''/''))
      else reverse_resolve_path (lx_files x) (lx_mappings x) e)"

definition lx_list_dir :: "local_sandbox \<Rightarrow> string \<Rightarrow> exc + string list" where
  "lx_list_dir x s =
     bind_res (resolve_path (lx_files x) (lx_mappings x) s) (\<lambda>p.
     bind_res (list_dir (lx_files x) p 2) (map_res (shown_entry x)))"

definition lx_glob :: "local_sandbox \<Rightarrow> string \<Rightarrow> string \<Rightarrow> bool \<Rightarrow> nat \<Rightarrow> exc + string list \<times> bool" where
  "lx_glob x s pat include_dirs limit =
     bind_res (resolve_path (lx_files x) (lx_mappings x) s) (\<lambda>p.
     bind_res (find_glob_matches (lx_files x) p pat include_dirs limit) (\<lambda>(ms, short).
     bind_res (map_res (reverse_resolve_path (lx_files x) (lx_mappings x)) ms) (\<lambda>ts. Inr (ts, short))))"

definition lx_grep :: "local_sandbox \<Rightarrow> (string \<Rightarrow> bool) option \<Rightarrow> string \<Rightarrow> string option \<Rightarrow> nat \<Rightarrow> exc + grep_match list \<times> bool" where
  "lx_grep x regex s pat limit =
     bind_res (resolve_path (lx_files x) (lx_mappings x) s) (\<lambda>p.
     bind_res (find_grep_matches (lx_files x) regex p pat limit) (\<lambda>(ms, short).
     bind_res (map_res (\<lambda>m. bind_res (reverse_resolve_path (lx_files x) (lx_mappings x) (gm_path m)) (\<lambda>t. Inr (m\<lparr>gm_path := t\<rparr>))) ms)
       (\<lambda>ts. Inr (ts, short))))"

end
