(* ===== verification/Sandbox_Tools.thy ===== *)
theory Sandbox_Tools
  imports Sandbox_Paths Sandbox_Search
begin

text \<open>
  The sandbox's tools (\<open>sandbox/tools.py\<close>): how a sandbox is taken for a thread, how long outputs are short, and
  \<open>bash\<close>, \<open>ls\<close>, \<open>glob\<close>, \<open>grep\<close>, \<open>read_file\<close>, \<open>write_file\<close> and \<open>str_replace\<close> with every error they catch. The
  sandbox behind them is a record of operations: \<open>LocalSandbox\<close> is \<open>local_ops\<close>, one in a container any other.
  The lock a write takes on its path is left out (calls come one after the other).
\<close>

subsection \<open>Cutting outputs\<close>

definition slice_to :: "int \<Rightarrow> 'a list \<Rightarrow> 'a list" where
  "slice_to n s = (if n \<ge> 0 then take (nat n) s else take (length s - nat (- n)) s)"

definition bash_marker :: "int \<Rightarrow> string" where
  "bash_marker n = newline # ''... [middle truncated: '' @ int_text n @ '' chars skipped] ...'' @ [newline]"

definition truncate_bash_output :: "string \<Rightarrow> int \<Rightarrow> string" where
  "truncate_bash_output output max_chars =
     (let total = int (length output) in
      if max_chars = 0 then output
      else if total \<le> max_chars then output
      else
        let kept = max 0 (max_chars - int (length (bash_marker total))) in
        if kept = 0 then slice_to max_chars output
        else
          let head_len = kept div 2; tail_len = kept - head_len in
          take (nat head_len) output @ bash_marker (total - kept)
            @ (if tail_len > 0 then drop (length output - nat tail_len) output else []))"

definition head_marker :: "string \<Rightarrow> int \<Rightarrow> int \<Rightarrow> string" where
  "head_marker hint shown whole = newline # ''... [truncated: showing first '' @ int_text shown @ '' of '' @ int_text whole @ '' chars. '' @ hint @ ''] ...''"

definition truncate_head :: "string \<Rightarrow> string \<Rightarrow> int \<Rightarrow> string" where
  "truncate_head hint output max_chars =
     (let total = int (length output) in
      if max_chars = 0 then output
      else if total \<le> max_chars then output
      else
        let kept = max 0 (max_chars - int (length (head_marker hint total total))) in
        if kept = 0 then slice_to max_chars output
        else take (nat kept) output @ head_marker hint kept total)"

definition truncate_read_file_output :: "string \<Rightarrow> int \<Rightarrow> string" where
  "truncate_read_file_output = truncate_head ''Use start_line/end_line to read a specific range''"

definition truncate_ls_output :: "string \<Rightarrow> int \<Rightarrow> string" where
  "truncate_ls_output = truncate_head ''Use a more specific path to see fewer results''"

definition clamp_max_results :: "int \<Rightarrow> int \<Rightarrow> int \<Rightarrow> int" where
  "clamp_max_results value dflt upper_bound = (if value \<le> 0 then dflt else min value upper_bound)"

text \<open>\<open>_get_tool_config_int\<close>: the tool's configured value where it is an integer.\<close>

definition get_tool_config_int :: "(string \<Rightarrow> string \<Rightarrow> py option) \<Rightarrow> string \<Rightarrow> string \<Rightarrow> int \<Rightarrow> int" where
  "get_tool_config_int config name key dflt =
     (case config name key of Some (PInt n) \<Rightarrow> n | Some (PBool b) \<Rightarrow> of_bool b | _ \<Rightarrow> dflt)"

definition resolve_max_results :: "(string \<Rightarrow> string \<Rightarrow> py option) \<Rightarrow> string \<Rightarrow> int \<Rightarrow> int \<Rightarrow> int \<Rightarrow> int" where
  "resolve_max_results config name requested dflt upper_bound =
     min (clamp_max_results requested dflt upper_bound)
       (clamp_max_results (get_tool_config_int config name ''max_results'' dflt) dflt upper_bound)"

fun numbered_lines :: "nat \<Rightarrow> string list \<Rightarrow> string list" where
  "numbered_lines n [] = []"
| "numbered_lines n (l # ls) = (nat_text n @ ''. '' @ l) # numbered_lines (Suc n) ls"

definition found_line :: "nat \<Rightarrow> string \<Rightarrow> string \<Rightarrow> bool \<Rightarrow> string" where
  "found_line n what base short = ''Found '' @ nat_text n @ '' '' @ what @ '' under '' @ base @ (if short then '' (showing first '' @ nat_text n @ '')'' else [])"

definition format_glob_results :: "string \<Rightarrow> string list \<Rightarrow> bool \<Rightarrow> string" where
  "format_glob_results base ms short =
     (if ms = [] then ''No files matched under '' @ base
      else py_join [newline] (found_line (length ms) ''paths'' base short # numbered_lines 1 ms
        @ (if short then [''Results truncated. Narrow the path or pattern to see fewer matches.''] else [])))"

definition format_grep_results :: "string \<Rightarrow> grep_match list \<Rightarrow> bool \<Rightarrow> string" where
  "format_grep_results base ms short =
     (if ms = [] then ''No matches found under '' @ base
      else py_join [newline] (found_line (length ms) ''matches'' base short
        # map (\<lambda>m. gm_path m @ '':'' @ nat_text (gm_line_number m) @ '': '' @ gm_line m) ms
        @ (if short then [''Results truncated. Narrow the path or add a glob filter.''] else [])))"

subsection \<open>A thread's sandbox\<close>

text \<open>The state and the context of a run, as far as the tools use them.\<close>

record tool_runtime =
  rt_sandbox :: "string option"
  rt_thread_data :: "thread_data option"
  rt_dirs_created :: bool
  rt_has_context :: bool
  rt_context_thread :: "string option"
  rt_context_sandbox :: "string option"
  rt_config_thread :: "string option"

definition is_local_sandbox :: "tool_runtime \<Rightarrow> bool" where
  "is_local_sandbox rt = (rt_sandbox rt = Some ''local'')"

text \<open>The sandbox in use: its operations on the world \<open>'w\<close>, the provider's, and the host's files.\<close>

record 'w sandbox_ops =
  so_acquire :: "string \<Rightarrow> string"
  so_get :: "string \<Rightarrow> bool"
  so_files :: "'w \<Rightarrow> file_system"
  so_set_files :: "file_system \<Rightarrow> 'w \<Rightarrow> 'w"
  so_command :: "string \<Rightarrow> 'w \<Rightarrow> 'w \<times> (exc + string)"
  so_read :: "string \<Rightarrow> 'w \<Rightarrow> exc + string"
  so_write :: "string \<Rightarrow> string \<Rightarrow> bool \<Rightarrow> 'w \<Rightarrow> 'w \<times> (exc + unit)"
  so_list :: "string \<Rightarrow> 'w \<Rightarrow> exc + string list"
  so_glob :: "string \<Rightarrow> string \<Rightarrow> bool \<Rightarrow> nat \<Rightarrow> 'w \<Rightarrow> exc + string list \<times> bool"
  so_grep :: "(string \<Rightarrow> bool) option \<Rightarrow> string \<Rightarrow> string option \<Rightarrow> nat \<Rightarrow> 'w \<Rightarrow> exc + grep_match list \<times> bool"

text \<open>\<open>LocalSandboxProvider\<close>: one sandbox, made when it is first asked for.\<close>

definition local_acquire :: "string \<Rightarrow> string" where "local_acquire thread = ''local''"
definition local_get :: "string \<Rightarrow> bool" where "local_get i = (i = ''local'')"

definition local_ops :: "local_sandbox sandbox_ops" where
  "local_ops = \<lparr>so_acquire = local_acquire, so_get = local_get, so_files = lx_files, so_set_files = (\<lambda>fs x. x\<lparr>lx_files := fs\<rparr>),
     so_command = (\<lambda>c x. (x, Inr (execute_command c))), so_read = (\<lambda>s x. lx_read_file x s),
     so_write = (\<lambda>s content add x. lx_write_file x s content add), so_list = (\<lambda>s x. lx_list_dir x s),
     so_glob = (\<lambda>s pat dirs n x. lx_glob x s pat dirs n), so_grep = (\<lambda>regex s pat n x. lx_grep x regex s pat n)\<rparr>"

definition with_sandbox :: "tool_runtime \<Rightarrow> string \<Rightarrow> tool_runtime" where
  "with_sandbox rt i = (if rt_has_context rt then rt\<lparr>rt_context_sandbox := Some i\<rparr> else rt)"

definition ensure_sandbox_initialized :: "'w sandbox_ops \<Rightarrow> tool_runtime \<Rightarrow> tool_runtime \<times> (exc + unit)" where
  "ensure_sandbox_initialized ops rt =
     (let thread = (case (if rt_has_context rt then rt_context_thread rt else None) of Some t \<Rightarrow> Some t | None \<Rightarrow> rt_config_thread rt);
          lazily = (case thread of
              None \<Rightarrow> (rt, Inl (Sandbox_Error, ''Thread ID not available in runtime context''))
            | Some t \<Rightarrow>
                let i = so_acquire ops t; rt' = rt\<lparr>rt_sandbox := Some i\<rparr> in
                if so_get ops i then (with_sandbox rt' i, Inr ())
                else (rt', Inl (Sandbox_Error, ''Sandbox not found after acquisition'' @ (if i = [] then [] else '' (sandbox_id='' @ i @ '')'')))) in
      case rt_sandbox rt of
        Some i \<Rightarrow> if so_get ops i then (with_sandbox rt i, Inr ()) else lazily
      | None \<Rightarrow> lazily)"

fun make_all :: "string list \<Rightarrow> file_system \<Rightarrow> file_system \<times> (exc + unit)" where
  "make_all [] fs = (fs, Inr ())"
| "make_all (s # ss) fs = (case make_dirs_at s s fs of Inl e \<Rightarrow> (fs, Inl e) | Inr fs' \<Rightarrow> make_all ss fs')"

definition ensure_thread_directories_exist :: "'w sandbox_ops \<Rightarrow> tool_runtime \<times> 'w \<Rightarrow> (tool_runtime \<times> 'w) \<times> (exc + unit)" where
  "ensure_thread_directories_exist ops st =
     (case st of (rt, w) \<Rightarrow>
        if \<not> is_local_sandbox rt then (st, Inr ())
        else (case rt_thread_data rt of
            None \<Rightarrow> (st, Inr ())
          | Some td \<Rightarrow>
              if rt_dirs_created rt then (st, Inr ())
              else (case make_all (given_path (td_workspace td) @ given_path (td_uploads td) @ given_path (td_outputs td)) (so_files ops w) of
                  (fs, Inl e) \<Rightarrow> ((rt, so_set_files ops fs w), Inl e)
                | (fs, Inr _) \<Rightarrow> ((rt\<lparr>rt_dirs_created := True\<rparr>, so_set_files ops fs w), Inr ()))))"

subsection \<open>Errors a tool answers with\<close>

definition exc_name :: "exc_kind \<Rightarrow> string" where
  "exc_name k = (case k of Sandbox_Error \<Rightarrow> ''SandboxRuntimeError'' | Permission_Error \<Rightarrow> ''PermissionError''
     | File_Not_Found_Error \<Rightarrow> ''FileNotFoundError'' | Is_A_Directory_Error \<Rightarrow> ''IsADirectoryError'' | Not_A_Directory_Error \<Rightarrow> ''NotADirectoryError''
     | File_Exists_Error \<Rightarrow> ''FileExistsError'' | OS_Error \<Rightarrow> ''OSError'' | Runtime_Error \<Rightarrow> ''RuntimeError'' | Value_Error \<Rightarrow> ''ValueError'' | Re_Error \<Rightarrow> ''error'')"

definition is_os_error :: "exc_kind \<Rightarrow> bool" where
  "is_os_error k = (k \<in> set [Permission_Error, File_Not_Found_Error, Is_A_Directory_Error, Not_A_Directory_Error, File_Exists_Error, OS_Error])"

definition sanitize_error :: "file_system \<Rightarrow> path_settings \<Rightarrow> tool_runtime \<Rightarrow> exc \<Rightarrow> exc + string" where
  "sanitize_error fs ps rt e =
     (let msg = exc_name (fst e) @ '': '' @ snd e in
      if is_local_sandbox rt then mask_local_paths_in_output fs ps msg (rt_thread_data rt) else Inr msg)"

text \<open>A tool's \<open>except\<close> clauses after the one for sandbox errors: the first that names the error's class answers.\<close>

definition answered :: "'w sandbox_ops \<Rightarrow> path_settings \<Rightarrow> string \<Rightarrow> (exc_kind \<Rightarrow> (string \<Rightarrow> string) option) \<Rightarrow> tool_runtime \<Rightarrow> 'w \<Rightarrow> exc + string \<Rightarrow> exc + string" where
  "answered ops ps doing handler rt w r =
     (case r of
        Inr t \<Rightarrow> Inr t
      | Inl (k, m) \<Rightarrow>
          if k = Sandbox_Error then Inr (''Error: '' @ m)
          else (case handler k of
              Some f \<Rightarrow> Inr (''Error: '' @ f m)
            | None \<Rightarrow> bind_res (sanitize_error (so_files ops w) ps rt (k, m)) (\<lambda>t. Inr (''Error: '' @ doing @ '': '' @ t))))"

text \<open>What every tool does first.\<close>

definition prepared :: "'w sandbox_ops \<Rightarrow> tool_runtime \<times> 'w \<Rightarrow> (tool_runtime \<times> 'w) \<times> (exc + unit)" where
  "prepared ops st =
     (case ensure_sandbox_initialized ops (fst st) of
        (rt, Inl e) \<Rightarrow> ((rt, snd st), Inl e)
      | (rt, Inr _) \<Rightarrow> ensure_thread_directories_exist ops (rt, snd st))"

subsection \<open>Reading tools\<close>

definition simple_errors :: "string \<Rightarrow> (exc_kind \<times> string) list \<Rightarrow> exc_kind \<Rightarrow> (string \<Rightarrow> string) option" where
  "simple_errors s table k = map_option (\<lambda>text m. text @ '': '' @ s) (map_of table k)"

definition the_path :: "'w sandbox_ops \<Rightarrow> tool_runtime \<Rightarrow> exc + string \<Rightarrow> string \<Rightarrow> exc + string" where
  "the_path ops rt local_path s = (if is_local_sandbox rt then local_path else Inr s)"

definition ls_tool :: "'w sandbox_ops \<Rightarrow> path_settings \<Rightarrow> int \<Rightarrow> string \<Rightarrow> tool_runtime \<times> 'w \<Rightarrow> (tool_runtime \<times> 'w) \<times> (exc + string)" where
  "ls_tool ops ps max_chars s st =
     (case prepared ops st of ((rt, w), ready) \<Rightarrow>
       let fs = so_files ops w in
       ((rt, w), answered ops ps ''Unexpected error listing directory''
          (simple_errors s [(File_Not_Found_Error, ''Directory not found''), (Permission_Error, ''Permission denied'')]) rt w
          (bind_res ready (\<lambda>_. bind_res (the_path ops rt (local_read_path fs ps s (rt_thread_data rt)) s) (\<lambda>p.
           bind_res (so_list ops p w) (\<lambda>ls.
             if ls = [] then Inr ''(empty)''
             else bind_res (if is_local_sandbox rt \<and> rt_thread_data rt \<noteq> None
                 then mask_local_paths_in_output fs ps (py_join [newline] ls) (rt_thread_data rt) else Inr (py_join [newline] ls)) (\<lambda>t.
               Inr (truncate_ls_output t max_chars))))))))"

definition glob_tool ::
  "'w sandbox_ops \<Rightarrow> path_settings \<Rightarrow> (string \<Rightarrow> string \<Rightarrow> py option) \<Rightarrow> string \<Rightarrow> string \<Rightarrow> bool \<Rightarrow> int \<Rightarrow> tool_runtime \<times> 'w
     \<Rightarrow> (tool_runtime \<times> 'w) \<times> (exc + string)" where
  "glob_tool ops ps config pat s include_dirs max_results st =
     (case prepared ops st of ((rt, w), ready) \<Rightarrow>
       let fs = so_files ops w in
       ((rt, w), answered ops ps ''Unexpected error searching paths''
          (simple_errors s [(File_Not_Found_Error, ''Directory not found''), (Not_A_Directory_Error, ''Path is not a directory''), (Permission_Error, ''Permission denied'')]) rt w
          (bind_res ready (\<lambda>_.
           bind_res (if \<not> is_local_sandbox rt then Inr s
               else (case rt_thread_data rt of
                   None \<Rightarrow> Inl (Sandbox_Error, ''Thread data not available for local sandbox'')
                 | Some td \<Rightarrow> resolve_local_read_path fs ps s td)) (\<lambda>p.
           bind_res (so_glob ops p pat include_dirs (nat (resolve_max_results config ''glob'' max_results 200 1000)) w) (\<lambda>(ms, short).
           bind_res (map_res (\<lambda>m. if is_local_sandbox rt then mask_local_paths_in_output fs ps m (rt_thread_data rt) else Inr m) ms) (\<lambda>ts.
             Inr (format_glob_results s ts short))))))))"

definition grep_tool ::
  "'w sandbox_ops \<Rightarrow> path_settings \<Rightarrow> (string \<Rightarrow> string \<Rightarrow> py option) \<Rightarrow> (string \<Rightarrow> bool) option \<Rightarrow> string \<Rightarrow> string option \<Rightarrow> int
     \<Rightarrow> tool_runtime \<times> 'w \<Rightarrow> (tool_runtime \<times> 'w) \<times> (exc + string)" where
  "grep_tool ops ps config regex s pat max_results st =
     (case prepared ops st of ((rt, w), ready) \<Rightarrow>
       let fs = so_files ops w in
       ((rt, w), answered ops ps ''Unexpected error searching file contents''
          (\<lambda>k. if k = Re_Error then Some (\<lambda>m. ''Invalid regex pattern: '' @ m) else simple_errors s [(File_Not_Found_Error, ''Directory not found''),
             (Not_A_Directory_Error, ''Path is not a directory''), (Permission_Error, ''Permission denied'')] k) rt w
          (bind_res ready (\<lambda>_.
           bind_res (if \<not> is_local_sandbox rt then Inr s
               else (case rt_thread_data rt of
                   None \<Rightarrow> Inl (Sandbox_Error, ''Thread data not available for local sandbox'')
                 | Some td \<Rightarrow> resolve_local_read_path fs ps s td)) (\<lambda>p.
           bind_res (so_grep ops regex p pat (nat (resolve_max_results config ''grep'' max_results 100 500)) w) (\<lambda>(ms, short).
           bind_res (map_res (\<lambda>m. bind_res (if is_local_sandbox rt then mask_local_paths_in_output fs ps (gm_path m) (rt_thread_data rt) else Inr (gm_path m))
               (\<lambda>t. Inr (m\<lparr>gm_path := t\<rparr>))) ms) (\<lambda>ts.
             Inr (format_grep_results s ts short))))))))"

text \<open>\<open>splitlines\<close>, and \<open>xs[a:b]\<close> with Python's negative indices.\<close>

definition line_break :: "char \<Rightarrow> bool" where
  "line_break c = (let n = code_of c in 10 \<le> n \<and> n \<le> 13 \<or> 28 \<le> n \<and> n \<le> 30 \<or> n = 133)"

fun split_lines :: "bool \<Rightarrow> string \<Rightarrow> string list" where
  "split_lines after_cr [] = []"
| "split_lines after_cr (c # s) =
     (if c = newline \<and> after_cr then split_lines False s
      else if line_break c then [] # split_lines (c = CHR 0x0D) s
      else (case split_lines False s of l # ls \<Rightarrow> (c # l) # ls | [] \<Rightarrow> [[c]]))"

definition py_index :: "nat \<Rightarrow> int \<Rightarrow> nat" where
  "py_index len i = (if i < 0 then nat (max 0 (i + int len)) else min (nat i) len)"

definition py_slice :: "int \<Rightarrow> int \<Rightarrow> 'a list \<Rightarrow> 'a list" where
  "py_slice a b xs = drop (py_index (length xs) a) (take (py_index (length xs) b) xs)"

definition read_file_tool ::
  "'w sandbox_ops \<Rightarrow> path_settings \<Rightarrow> int \<Rightarrow> string \<Rightarrow> int option \<Rightarrow> int option \<Rightarrow> tool_runtime \<times> 'w \<Rightarrow> (tool_runtime \<times> 'w) \<times> (exc + string)" where
  "read_file_tool ops ps max_chars s start_line end_line st =
     (case prepared ops st of ((rt, w), ready) \<Rightarrow>
       let fs = so_files ops w in
       ((rt, w), answered ops ps ''Unexpected error reading file''
          (simple_errors s [(File_Not_Found_Error, ''File not found''), (Permission_Error, ''Permission denied reading file''),
             (Is_A_Directory_Error, ''Path is a directory, not a file'')]) rt w
          (bind_res ready (\<lambda>_. bind_res (the_path ops rt (local_read_path fs ps s (rt_thread_data rt)) s) (\<lambda>p.
           bind_res (so_read ops p w) (\<lambda>content.
             if content = [] then Inr ''(empty)''
             else Inr (truncate_read_file_output (case (start_line, end_line) of
                 (Some a, Some b) \<Rightarrow> py_join [newline] (py_slice (a - 1) b (split_lines False content))
               | _ \<Rightarrow> content) max_chars)))))))"

subsection \<open>Writing tools\<close>

definition write_errors :: "string \<Rightarrow> exc_kind \<Rightarrow> (string \<Rightarrow> string) option" where
  "write_errors s = simple_errors s [(Permission_Error, ''Permission denied writing to file''), (Is_A_Directory_Error, ''Path is a directory, not a file'')]"

definition write_failure :: "string \<Rightarrow> exc_kind \<Rightarrow> string" where
  "write_failure s k = (if is_os_error k then ''Failed to write file '' @ CHR 0x27 # s @ [CHR 0x27] else ''Unexpected error writing file'')"

definition write_file_tool :: "'w sandbox_ops \<Rightarrow> path_settings \<Rightarrow> string \<Rightarrow> string \<Rightarrow> bool \<Rightarrow> tool_runtime \<times> 'w \<Rightarrow> (tool_runtime \<times> 'w) \<times> (exc + string)" where
  "write_file_tool ops ps s content add st =
     (case prepared ops st of ((rt, w), ready) \<Rightarrow>
       (case bind_res ready (\<lambda>_. the_path ops rt (local_write_path (so_files ops w) ps s (rt_thread_data rt)) s) of
          Inl e \<Rightarrow> ((rt, w), answered ops ps (write_failure s (fst e)) (write_errors s) rt w (Inl e))
        | Inr p \<Rightarrow>
            (case so_write ops p content add w of
               (w', Inl e) \<Rightarrow> ((rt, w'), answered ops ps (write_failure s (fst e)) (write_errors s) rt w' (Inl e))
             | (w', Inr _) \<Rightarrow> ((rt, w'), Inr ''OK''))))"

definition py_replace :: "string \<Rightarrow> string \<Rightarrow> string \<Rightarrow> string" where
  "py_replace old new s = (if old = [] then new @ concat (map (\<lambda>c. c # new) s) else replace_all old new s)"

fun py_replace_first :: "string \<Rightarrow> string \<Rightarrow> string \<Rightarrow> string" where
  "py_replace_first old new [] = (if old = [] then new else [])"
| "py_replace_first old new (c # s) =
     (if starts_with (c # s) old then new @ drop (length old) (c # s) else c # py_replace_first old new s)"

definition str_replace_tool :: "'w sandbox_ops \<Rightarrow> path_settings \<Rightarrow> string \<Rightarrow> string \<Rightarrow> string \<Rightarrow> bool \<Rightarrow> tool_runtime \<times> 'w \<Rightarrow> (tool_runtime \<times> 'w) \<times> (exc + string)" where
  "str_replace_tool ops ps s old new everywhere st =
     (case prepared ops st of ((rt, w), ready) \<Rightarrow>
       let failed = (\<lambda>w. answered ops ps ''Unexpected error replacing string'' (simple_errors s
             [(File_Not_Found_Error, ''File not found''), (Permission_Error, ''Permission denied accessing file'')]) rt w) in
       (case bind_res ready (\<lambda>_. bind_res (the_path ops rt (local_write_path (so_files ops w) ps s (rt_thread_data rt)) s) (\<lambda>p.
             bind_res (so_read ops p w) (\<lambda>content. Inr (p, content)))) of
          Inl e \<Rightarrow> ((rt, w), failed w (Inl e))
        | Inr (p, content) \<Rightarrow>
            if content = [] then ((rt, w), Inr ''OK'')
            else if \<not> contains_str content old then ((rt, w), Inr (''Error: String to replace not found in file: '' @ s))
            else (case so_write ops p (if everywhere then py_replace old new content else py_replace_first old new content) False w of
                (w', Inl e) \<Rightarrow> ((rt, w'), failed w' (Inl e))
              | (w', Inr _) \<Rightarrow> ((rt, w'), Inr ''OK''))))"

subsection \<open>Commands\<close>

definition LOCAL_HOST_BASH_DISABLED_MESSAGE :: string where
  "LOCAL_HOST_BASH_DISABLED_MESSAGE = ''Running commands on the host was removed: it is not a sandbox boundary. Commands run only in a container sandbox; switch sandbox.use to AioSandboxProvider.''"

definition uses_local_sandbox_provider :: "string \<Rightarrow> bool" where
  "uses_local_sandbox_provider use =
     (use \<in> set [''omniharness.sandbox.local:LocalSandboxProvider'', ''omniharness.sandbox.local.local_sandbox_provider:LocalSandboxProvider'']
      \<or> ends_with use '':LocalSandboxProvider'' \<and> contains_str use ''omniharness.sandbox.local'')"

text \<open>The sandbox section's \<open>use\<close>; \<open>None\<close> without one.\<close>

definition is_host_bash_allowed :: "string option \<Rightarrow> bool" where
  "is_host_bash_allowed use = (case use of None \<Rightarrow> False | Some u \<Rightarrow> \<not> uses_local_sandbox_provider u)"

text \<open>
  \<open>bash_tool\<close>. \<open>checked\<close> is what the local branch would do to a command after the check: refuse it or rewrite its
  paths; with the local provider the check comes before it.
\<close>

definition bash_tool ::
  "'w sandbox_ops \<Rightarrow> path_settings \<Rightarrow> string option \<Rightarrow> (string \<Rightarrow> thread_data option \<Rightarrow> exc + string) \<Rightarrow> int \<Rightarrow> string \<Rightarrow> tool_runtime \<times> 'w
     \<Rightarrow> (tool_runtime \<times> 'w) \<times> (exc + string)" where
  "bash_tool ops ps use checked max_chars cmd st =
     (case ensure_sandbox_initialized ops (fst st) of (rt, ready) \<Rightarrow>
       let w = snd st;
           failed = (\<lambda>rt w. answered ops ps ''Unexpected error executing command'' (\<lambda>k. if k = Permission_Error then Some (\<lambda>m. m) else None) rt w) in
       (case ready of
          Inl e \<Rightarrow> ((rt, w), failed rt w (Inl e))
        | Inr _ \<Rightarrow>
            if is_local_sandbox rt \<and> \<not> is_host_bash_allowed use then ((rt, w), Inr (''Error: '' @ LOCAL_HOST_BASH_DISABLED_MESSAGE))
            else (case ensure_thread_directories_exist ops (rt, w) of
                ((rt, w), Inl e) \<Rightarrow> ((rt, w), failed rt w (Inl e))
              | ((rt, w), Inr _) \<Rightarrow>
                  (case (if is_local_sandbox rt then checked cmd (rt_thread_data rt) else Inr cmd) of
                     Inl e \<Rightarrow> ((rt, w), failed rt w (Inl e))
                   | Inr cmd \<Rightarrow>
                       (case so_command ops cmd w of
                          (w', Inl e) \<Rightarrow> ((rt, w'), failed rt w' (Inl e))
                        | (w', Inr out) \<Rightarrow> ((rt, w'), failed rt w' (bind_res
                            (if is_local_sandbox rt then mask_local_paths_in_output (so_files ops w') ps out (rt_thread_data rt) else Inr out)
                            (\<lambda>t. Inr (truncate_bash_output t max_chars)))))))))"

end
