(* ===== verification/Sandbox_Safety.thy ===== *)
theory Sandbox_Safety
  imports Sandbox_Tools
begin

text \<open>
  What the tools cannot do: a cut output stays within its limit, no command runs on the host, and no sequence of
  calls changes a file outside the thread's directories and the writable mounts.
\<close>

subsection \<open>Cut outputs\<close>

lemma length_nat_text_mono: "m \<le> n \<Longrightarrow> length (nat_text m) \<le> length (nat_text n)"
proof (induction n arbitrary: m rule: nat_text.induct)
  case (1 n)
  show ?case
  proof (cases "n < 10")
    case True
    then show ?thesis using 1(2) by (simp add: nat_text.simps [of m] nat_text.simps [of n])
  next
    case False
    have "m div 10 \<le> n div 10" using 1(2) by (simp add: div_le_mono)
    then have "length (nat_text (m div 10)) \<le> length (nat_text (n div 10))" using 1(1) False by blast
    then show ?thesis using False by (simp add: nat_text.simps [of m] nat_text.simps [of n])
  qed
qed

lemma length_int_text_mono: "0 \<le> a \<Longrightarrow> a \<le> b \<Longrightarrow> length (int_text a) \<le> length (int_text b)"
  using length_nat_text_mono [of "nat a" "nat b"] by (simp add: int_text_def)

text \<open>
  A cut output of \<open>bash\<close> is never longer than the limit, and keeps the first and the last part of the output; with no
  limit, or within it, the output is unchanged.
\<close>

theorem bash_output_within_limit:
  "(0 < n \<longrightarrow> int (length (truncate_bash_output s n)) \<le> n)
    \<and> (n = 0 \<or> int (length s) \<le> n \<longrightarrow> truncate_bash_output s n = s)
    \<and> (int (length (bash_marker (int (length s)))) < n \<and> n < int (length s) \<longrightarrow>
        (\<exists>a mid b. truncate_bash_output s n = take a s @ mid @ drop (length s - b) s
          \<and> int (a + b) = n - int (length (bash_marker (int (length s)))) \<and> a \<le> b \<and> b \<le> Suc a))"
proof -
  let ?marker = "\<lambda>k. length (bash_marker k)" and ?t = "int (length s)"
  have marker: "?marker k \<le> ?marker ?t" if "0 \<le> k" "k \<le> ?t" for k
    using length_int_text_mono [OF that] by (simp add: bash_marker_def)
  let ?kept = "n - int (?marker ?t)"
  have cut: "truncate_bash_output s n = take (nat (?kept div 2)) s @ bash_marker (?t - ?kept) @ drop (length s - nat (?kept - ?kept div 2)) s"
    if "int (?marker ?t) < n" "n < ?t"
    using that by (auto simp: truncate_bash_output_def Let_def max_def)
  have "int (length (truncate_bash_output s n)) \<le> n" if n: "0 < n"
  proof -
    consider "?t \<le> n" | "n < ?t" "n \<le> int (?marker ?t)" | "n < ?t" "int (?marker ?t) < n" by linarith
    then show ?thesis
    proof cases
      case 3
      have "?marker (?t - ?kept) \<le> ?marker ?t" using 3 by (intro marker) auto
      then show ?thesis using cut [OF 3(2,1)] 3 by (simp add: min_def nat_eq_iff) linarith
    qed (use n in \<open>auto simp: truncate_bash_output_def slice_to_def Let_def max_def\<close>)
  qed
  moreover have "\<exists>a mid b. truncate_bash_output s n = take a s @ mid @ drop (length s - b) s \<and> int (a + b) = ?kept \<and> a \<le> b \<and> b \<le> Suc a"
    if "int (?marker ?t) < n" "n < ?t"
  proof -
    have "int (nat (?kept div 2) + nat (?kept - ?kept div 2)) = ?kept" "nat (?kept div 2) \<le> nat (?kept - ?kept div 2)"
      "nat (?kept - ?kept div 2) \<le> Suc (nat (?kept div 2))" using that by linarith+
    then show ?thesis using cut [OF that] by blast
  qed
  moreover have "truncate_bash_output s n = s" if "n = 0 \<or> ?t \<le> n"
    using that by (auto simp: truncate_bash_output_def Let_def)
  ultimately show ?thesis by blast
qed

theorem bash_output_within_limit_witness:
  "int (length (truncate_bash_output (replicate 100 (CHR ''x'')) 60)) \<le> 60"
  using bash_output_within_limit [of 60 "replicate 100 (CHR ''x'')"] by simp

lemma head_output_within_limit: "0 < n \<Longrightarrow> int (length (truncate_head hint s n)) \<le> n"
proof -
  assume n: "0 < n"
  let ?t = "int (length s)" and ?kept = "n - int (length (head_marker hint (int (length s)) (int (length s))))"
  show ?thesis
  proof (cases "n < ?t \<and> 0 < ?kept")
    case True
    have "length (head_marker hint ?kept ?t) \<le> length (head_marker hint ?t ?t)"
      using length_int_text_mono [of ?kept ?t] True by (simp add: head_marker_def)
    then show ?thesis using True by (simp add: truncate_head_def Let_def max_def min_def) linarith
  next
    case False
    then show ?thesis using n by (auto simp: truncate_head_def slice_to_def Let_def max_def)
  qed
qed

subsection \<open>No command on the host\<close>

text \<open>
  With the local provider \<open>bash\<close> runs nothing: whatever the command and the run, the files stay as they are and the
  answer is an error.
\<close>

theorem bash_runs_nothing_locally:
  assumes "uses_local_sandbox_provider use"
  shows "snd (fst (bash_tool local_ops ps (Some use) checked n cmd st)) = snd st
    \<and> (\<exists>m. snd (bash_tool local_ops ps (Some use) checked n cmd st) = Inr (''Error: '' @ m))"
proof -
  obtain rt r where e: "ensure_sandbox_initialized local_ops (fst st) = (rt, r)" by fastforce
  have "rt_sandbox rt = Some ''local''" if "r = Inr ()"
    using e that by (auto simp: ensure_sandbox_initialized_def Let_def local_ops_def local_acquire_def local_get_def with_sandbox_def
      split: option.splits if_splits)
  moreover have "\<exists>m. r = Inl (Sandbox_Error, m)" if "r \<noteq> Inr ()"
    using e that by (auto simp: ensure_sandbox_initialized_def Let_def local_ops_def local_acquire_def local_get_def with_sandbox_def
      split: option.splits if_splits)
  ultimately show ?thesis using e assms
    by (cases r) (auto simp: bash_tool_def Let_def is_local_sandbox_def is_host_bash_allowed_def answered_def)
qed

definition LOCAL_PROVIDER :: string where "LOCAL_PROVIDER = ''omniharness.sandbox.local:LocalSandboxProvider''"

theorem bash_runs_nothing_locally_witness:
  "\<forall>ps checked n rt x. snd (fst (bash_tool local_ops ps (Some LOCAL_PROVIDER) checked n ''rm -rf /'' (rt, x))) = x"
proof (intro allI)
  fix ps checked n rt x
  have "uses_local_sandbox_provider LOCAL_PROVIDER" by (simp add: uses_local_sandbox_provider_def LOCAL_PROVIDER_def)
  from bash_runs_nothing_locally [OF this, of ps checked n "''rm -rf /''" "(rt, x)"]
  show "snd (fst (bash_tool local_ops ps (Some LOCAL_PROVIDER) checked n ''rm -rf /'' (rt, x))) = x" by simp
qed

subsection \<open>Sequences of calls\<close>

datatype tool_call =
    Bash_Call string
  | Ls_Call string
  | Glob_Call string string bool int
  | Grep_Call "(string \<Rightarrow> bool) option" string "string option" int
  | Read_Call string "int option" "int option"
  | Write_Call string string bool
  | Replace_Call string string string bool

record tool_limits =
  tl_bash :: int
  tl_read :: int
  tl_ls :: int
  tl_results :: "string \<Rightarrow> string \<Rightarrow> py option"

definition run_tool ::
  "path_settings \<Rightarrow> tool_limits \<Rightarrow> (string \<Rightarrow> thread_data option \<Rightarrow> exc + string) \<Rightarrow> tool_call \<Rightarrow> tool_runtime \<times> local_sandbox
     \<Rightarrow> (tool_runtime \<times> local_sandbox) \<times> (exc + string)" where
  "run_tool ps limits checked call st =
     (case call of
        Bash_Call cmd \<Rightarrow> bash_tool local_ops ps (Some LOCAL_PROVIDER) checked (tl_bash limits) cmd st
      | Ls_Call s \<Rightarrow> ls_tool local_ops ps (tl_ls limits) s st
      | Glob_Call pat s dirs n \<Rightarrow> glob_tool local_ops ps (tl_results limits) pat s dirs n st
      | Grep_Call regex s pat n \<Rightarrow> grep_tool local_ops ps (tl_results limits) regex s pat n st
      | Read_Call s a b \<Rightarrow> read_file_tool local_ops ps (tl_read limits) s a b st
      | Write_Call s content add \<Rightarrow> write_file_tool local_ops ps s content add st
      | Replace_Call s old new everywhere \<Rightarrow> str_replace_tool local_ops ps s old new everywhere st)"

fun run_tools ::
  "path_settings \<Rightarrow> tool_limits \<Rightarrow> (string \<Rightarrow> thread_data option \<Rightarrow> exc + string) \<Rightarrow> tool_call list \<Rightarrow> tool_runtime \<times> local_sandbox
     \<Rightarrow> tool_runtime \<times> local_sandbox" where
  "run_tools ps limits checked [] st = st"
| "run_tools ps limits checked (c # cs) st = run_tools ps limits checked cs (fst (run_tool ps limits checked c st))"

text \<open>A run that has its sandbox and its directories.\<close>

definition ready :: "thread_data \<Rightarrow> tool_runtime \<Rightarrow> bool" where
  "ready td rt = (rt_sandbox rt = Some ''local'' \<and> rt_thread_data rt = Some td \<and> rt_dirs_created rt)"

text \<open>Every mount the tools know of is mapped by the sandbox.\<close>

definition mounts_mapped :: "path_settings \<Rightarrow> path_mapping list \<Rightarrow> bool" where
  "mounts_mapped ps ms = (\<forall>m \<in> set (ps_mounts ps). \<exists>mm \<in> set ms. container_of mm = vm_container m)"

text \<open>Where the tools of a thread may write: in one of its directories or a writable mount, and not where a read-only mount is the closest.\<close>

definition in_thread :: "file_system \<Rightarrow> thread_data \<Rightarrow> path \<Rightarrow> bool" where
  "in_thread fs td p = list_ex (\<lambda>s. case resolve fs s of Some r \<Rightarrow> prefix r p | None \<Rightarrow> False) (thread_roots td)"

definition allowed :: "file_system \<Rightarrow> path_mapping list \<Rightarrow> thread_data \<Rightarrow> path \<Rightarrow> bool" where
  "allowed fs ms td p = (real_path fs p \<and> may_write fs ms p \<and> (in_thread fs td p \<or> (\<exists>m \<in> set ms. \<not> pm_read_only m \<and> around fs m p)))"

lemma resolve_roots_in: "resolve_roots fs ss = Inr ps \<Longrightarrow> p \<in> set ps \<Longrightarrow> \<exists>s \<in> set ss. resolve fs s = Some p"
  by (induction ss arbitrary: ps) (auto simp: bind_res_eq_Inr resolved_def split: option.splits)

lemma user_data_path:
  assumes "fs_ok fs" "resolve_and_validate_user_data_path fs s td = Inr t"
  obtains p where "t = path_str p" "real_path fs p" "in_thread fs td p"
proof -
  obtain p roots where p: "resolved fs (replace_virtual_path s (Some td)) = Inr p" "t = path_str p"
    and r: "resolve_roots fs (thread_roots td) = Inr roots" "list_ex (\<lambda>r. prefix r p) roots"
    using assms(2) by (auto simp: resolve_and_validate_user_data_path_def validate_resolved_user_data_path_def bind_res_eq_Inr split: if_splits)
  obtain q where "q \<in> set roots" "prefix q p" using r(2) by (auto simp: list_ex_iff)
  then have "in_thread fs td p" using resolve_roots_in [OF r(1)] by (force simp: in_thread_def list_ex_iff)
  then show thesis using that p resolvedE [OF assms(1) p(1)] by blast
qed

lemma mapped_mount:
  assumes "mounts_mapped ps ms" "is_custom_mount_path ps s" shows "find_path_mapping ms s \<noteq> None"
proof -
  obtain m where "m \<in> set (ps_mounts ps)" "below_text (vm_container m) s"
    using assms(2) by (auto simp: is_custom_mount_path_def list_ex_iff)
  then obtain mm where m: "below_text (vm_container m) s" "mm \<in> set ms" "container_of mm = vm_container m"
    using assms(1) by (auto simp: mounts_mapped_def)
  have "mapping_match s mm \<noteq> None"
    using m by (cases s) (auto simp: mapping_match_def below_text_def starts_with_def Let_def split: if_splits)
  moreover have "first_some f xs \<noteq> None" if "x \<in> set xs" "f x \<noteq> None" for f :: "path_mapping \<Rightarrow> (path_mapping \<times> string) option" and x xs
    using that by (induction xs) (auto split: option.splits)
  ultimately show ?thesis using m(2) unfolding find_path_mapping_def by (metis set_longest_first)
qed

text \<open>What the sandbox agrees to write to is allowed.\<close>

lemma written_path_allowed:
  assumes ok: "fs_ok (lx_files x)" and mounts: "mounts_mapped ps (lx_mappings x)"
    and p: "local_write_path (lx_files x) ps s (Some td) = Inr t" and w: "writable_path x t = Inr t'"
  obtains q where "t' = path_str q" "allowed (lx_files x) (lx_mappings x) td q"
proof -
  let ?fs = "lx_files x" and ?ms = "lx_mappings x"
  obtain m where r: "resolve_path_with_mapping ?fs ?ms t = Inr (t', m)" "is_resolved_path_read_only ?fs ?ms (t', m) = Inr False"
    using w by (auto simp: writable_path_def bind_res_eq_Inr split: if_splits)
  from mapped_path [OF ok r(1)] consider (none) "m = None" "t' = t" "find_path_mapping ?ms t = None"
    | (some) mm q where "mm \<in> set ?ms" "m = Some mm" "t' = path_str q" "real_path ?fs q" "around ?fs mm q" by (elim disjE conjE bexE exE) simp_all
  then show thesis
  proof cases
    case none
    then have "\<not> is_custom_mount_path ps s" using p mapped_mount [OF mounts, of s]
      by (auto simp: local_write_path_def bind_res_eq_Inr)
    then have "resolve_and_validate_user_data_path ?fs s td = Inr t" using p by (simp add: local_write_path_def bind_res_eq_Inr)
    then obtain q where q: "t = path_str q" "real_path ?fs q" "in_thread ?fs td q" by (rule user_data_path [OF ok])
    then have "may_write ?fs ?ms q" using not_read_only [OF ok q(2)] none r(2) by (simp add: is_resolved_path_read_only_def)
    then show thesis using that q none by (simp add: allowed_def)
  next
    case some
    then have "\<not> pm_read_only mm" "is_read_only_path ?fs ?ms t' = Inr False" using r(2) by (auto simp: is_resolved_path_read_only_def split: if_splits)
    then show thesis using that some not_read_only [OF ok some(4)] by (auto simp: allowed_def)
  qed
qed

subsection \<open>No call writes elsewhere\<close>

text \<open>One of the thread's directories, or above it; or above a path where it may write.\<close>

definition on_the_way :: "file_system \<Rightarrow> path_mapping list \<Rightarrow> thread_data \<Rightarrow> path \<Rightarrow> bool" where
  "on_the_way fs ms td q = (list_ex (\<lambda>s. case resolve fs s of Some r \<Rightarrow> prefix q r | None \<Rightarrow> False) (thread_roots td)
     \<or> (\<exists>p. allowed fs ms td p \<and> strict_prefix q p))"

text \<open>The change of the files by calls: at allowed paths, and directories made on the way to them and to the thread's own.\<close>

definition stays_inside :: "file_system \<Rightarrow> path_mapping list \<Rightarrow> thread_data \<Rightarrow> file_system \<Rightarrow> bool" where
  "stays_inside fs ms td fs' = (same_links fs fs' \<and> (\<forall>q. node_at fs' q \<noteq> node_at fs q \<longrightarrow>
     allowed fs ms td q \<or> node_at fs q = None \<and> node_at fs' q = Some Directory \<and> on_the_way fs ms td q))"

lemma stays_inside_refl [simp]: "stays_inside fs ms td fs"
  by (simp add: stays_inside_def)

lemma stays_insideD: "stays_inside fs ms td fs' \<Longrightarrow> node_at fs' q \<noteq> node_at fs q \<Longrightarrow>
    allowed fs ms td q \<or> node_at fs q = None \<and> node_at fs' q = Some Directory \<and> on_the_way fs ms td q"
  by (simp add: stays_inside_def)

lemma stays_inside_write: "allowed fs ms td p \<Longrightarrow> writes_at fs fs' p \<Longrightarrow> stays_inside fs ms td fs'"
  unfolding stays_inside_def writes_at_def on_the_way_def by blast

lemma allowed_same_links: "same_links fs fs' \<Longrightarrow> allowed fs' ms td p = allowed fs ms td p"
proof -
  assume l: "same_links fs fs'"
  have "around fs' m p = around fs m p" for m by (simp add: around_def same_links_walks [OF l])
  then show ?thesis by (simp add: allowed_def may_write_def in_thread_def same_links_walks [OF l])
qed

lemma on_the_way_same_links: "same_links fs fs' \<Longrightarrow> on_the_way fs' ms td q = on_the_way fs ms td q"
  by (simp add: on_the_way_def same_links_walks allowed_same_links)

lemma stays_inside_trans:
  assumes "stays_inside fs ms td fs'" "stays_inside fs' ms td fs''" shows "stays_inside fs ms td fs''"
proof -
  have l: "same_links fs fs'" using assms(1) by (simp add: stays_inside_def)
  note a = allowed_same_links [OF l] on_the_way_same_links [OF l]
  have "allowed fs ms td q \<or> node_at fs q = None \<and> node_at fs'' q = Some Directory \<and> on_the_way fs ms td q"
    if d: "node_at fs'' q \<noteq> node_at fs q" for q
  proof (cases "node_at fs' q = node_at fs q")
    case True
    then have "node_at fs'' q \<noteq> node_at fs' q" using d by simp
    from stays_insideD [OF assms(2) this] show ?thesis using True a by simp
  next
    case False
    from stays_insideD [OF assms(1) this] consider "allowed fs ms td q"
      | "node_at fs q = None" "node_at fs' q = Some Directory" "on_the_way fs ms td q" by (elim disjE conjE) simp_all
    then show ?thesis
    proof cases
      case 2
      show ?thesis
      proof (cases "node_at fs'' q = node_at fs' q")
        case True
        then show ?thesis using 2 by simp
      next
        case False
        from stays_insideD [OF assms(2) this] show ?thesis using a 2(2) by simp
      qed
    qed blast
  qed
  then show ?thesis using assms same_links_trans unfolding stays_inside_def by blast
qed

lemma lx_write_inside:
  assumes "fs_ok (lx_files x)" "mounts_mapped ps (lx_mappings x)" "local_write_path (lx_files x) ps s (Some td) = Inr t"
    and "lx_write_file x t content add = (x', r)"
  shows "stays_inside (lx_files x) (lx_mappings x) td (lx_files x') \<and> lx_mappings x' = lx_mappings x"
proof (cases "writable_path x t")
  case (Inl e)
  then show ?thesis using assms(4) by (simp add: lx_write_file_def)
next
  case (Inr t')
  obtain q where q: "t' = path_str q" "allowed (lx_files x) (lx_mappings x) td q" using written_path_allowed [OF assms(1-3) Inr] .
  then have "lx_write_at x t (path_str q) content add = (x', r)" using assms(4) Inr by (simp add: lx_write_file_def)
  then show ?thesis using lx_write_at_real [of x q] q(2) stays_inside_write by (auto simp: allowed_def)
qed

lemma prepared_ready: "ready td rt \<Longrightarrow> \<exists>rt'. prepared local_ops (rt, x) = ((rt', x), Inr ()) \<and> ready td rt'"
  by (auto simp: ready_def prepared_def ensure_sandbox_initialized_def local_ops_def local_get_def Let_def with_sandbox_def
      ensure_thread_directories_exist_def is_local_sandbox_def)

text \<open>The directories of the thread, made by its first call.\<close>

lemma make_all_inside:
  assumes "fs_ok fs" "set ss \<subseteq> set (thread_roots td)" "make_all ss fs = (fs', r)"
  shows "stays_inside fs ms td fs'"
  using assms
proof (induction ss arbitrary: fs)
  case (Cons s ss)
  show ?case
  proof (cases "make_dirs_at s s fs")
    case (Inl e)
    then show ?thesis using Cons.prems(3) by simp
  next
    case (Inr fs1)
    obtain p where p: "resolve fs s = Some p" "locate fs s = Some p" using resolve_ends [OF Cons.prems(1)] by blast
    then have m: "make_dirs s [] p fs = Inr fs1" using Inr by (simp add: make_dirs_at_def)
    have one: "stays_inside fs ms td fs1"
      using make_dirs_changes [OF m] p(1) Cons.prems(2) by (auto simp: stays_inside_def on_the_way_def list_ex_iff intro!: bexI [of _ s])
    then have "fs_ok fs1" using Cons.prems(1) same_links_walks(5) by (auto simp: stays_inside_def)
    from Cons.IH [OF this] Cons.prems(2,3) Inr have "stays_inside fs1 ms td fs'" by simp
    then show ?thesis by (rule stays_inside_trans [OF one])
  qed
qed simp

lemma given_roots: "set (given_path (td_workspace td) @ given_path (td_uploads td) @ given_path (td_outputs td)) \<subseteq> set (thread_roots td)"
  by (auto simp: given_path_def thread_roots_def split: option.splits list.splits)

lemma ensured:
  assumes "rt_thread_data rt = Some td" "ensure_sandbox_initialized local_ops rt = (rt', r)"
  shows "rt_thread_data rt' = Some td" "r = Inr () \<Longrightarrow> rt_sandbox rt' = Some ''local''"
  using assms by (auto simp: ensure_sandbox_initialized_def local_ops_def local_get_def local_acquire_def Let_def with_sandbox_def
      split: option.splits if_splits)

lemma directories_ensured:
  assumes "rt_thread_data rt = Some td" "rt_sandbox rt = Some ''local''" "fs_ok (lx_files x)"
    and "ensure_thread_directories_exist local_ops (rt, x) = ((rt', x'), r)"
  shows "rt_thread_data rt' = Some td \<and> (r = Inr () \<longrightarrow> ready td rt') \<and> stays_inside (lx_files x) ms td (lx_files x') \<and> lx_mappings x' = lx_mappings x"
proof (cases "rt_dirs_created rt")
  case True
  then show ?thesis using assms by (auto simp: ensure_thread_directories_exist_def is_local_sandbox_def ready_def)
next
  case False
  obtain fs r1 where m: "make_all (given_path (td_workspace td) @ given_path (td_uploads td) @ given_path (td_outputs td)) (lx_files x) = (fs, r1)"
    by fastforce
  from make_all_inside [OF assms(3) given_roots this] have "stays_inside (lx_files x) ms td fs" .
  then show ?thesis using False assms m
    by (auto simp: ensure_thread_directories_exist_def is_local_sandbox_def ready_def local_ops_def split: sum.splits)
qed

lemma prepared_inside:
  assumes "rt_thread_data rt = Some td" "fs_ok (lx_files x)" "prepared local_ops (rt, x) = ((rt', x'), r)"
  shows "rt_thread_data rt' = Some td \<and> (r = Inr () \<longrightarrow> ready td rt') \<and> stays_inside (lx_files x) ms td (lx_files x') \<and> lx_mappings x' = lx_mappings x"
proof -
  obtain rt1 r1 where e: "ensure_sandbox_initialized local_ops rt = (rt1, r1)" by fastforce
  note en = ensured [OF assms(1) e]
  show ?thesis
  proof (cases r1)
    case (Inl err)
    then show ?thesis using assms(3) e en(1) by (auto simp: prepared_def)
  next
    case (Inr u)
    then have "ensure_thread_directories_exist local_ops (rt1, x) = ((rt', x'), r)" using assms(3) e by (simp add: prepared_def)
    then show ?thesis using directories_ensured [OF en assms(2)] Inr by simp
  qed
qed

lemma ensure_ready: "ready td rt \<Longrightarrow> \<exists>rt'. ensure_sandbox_initialized local_ops rt = (rt', Inr ()) \<and> ready td rt'"
  by (auto simp: ready_def ensure_sandbox_initialized_def local_ops_def local_get_def Let_def with_sandbox_def)

lemma ready_local: "ready td rt \<Longrightarrow> is_local_sandbox rt \<and> rt_thread_data rt = Some td"
  by (simp add: ready_def is_local_sandbox_def)

lemma the_path_ready: "ready td rt \<Longrightarrow> the_path ops rt p s = p"
  by (simp add: the_path_def ready_def is_local_sandbox_def)

lemma local_ops_simps [simp]: "so_files local_ops = lx_files" "so_read local_ops s x = lx_read_file x s"
  "so_write local_ops s content add x = lx_write_file x s content add"
  by (simp_all add: local_ops_def)

lemma local_provider: "uses_local_sandbox_provider LOCAL_PROVIDER"
  by (simp add: uses_local_sandbox_provider_def LOCAL_PROVIDER_def)

lemma write_tool_inside:
  assumes "rt_thread_data rt = Some td" "fs_ok (lx_files x)" "mounts_mapped ps (lx_mappings x)"
    and "write_file_tool local_ops ps s content add (rt, x) = ((rt', x'), r)"
  shows "rt_thread_data rt' = Some td \<and> stays_inside (lx_files x) (lx_mappings x) td (lx_files x') \<and> lx_mappings x' = lx_mappings x"
proof -
  obtain rt1 x1 r1 where p: "prepared local_ops (rt, x) = ((rt1, x1), r1)" by (metis surj_pair)
  note pre = prepared_inside [OF assms(1,2) p, of "lx_mappings x"]
  show ?thesis
  proof (cases "bind_res r1 (\<lambda>_. the_path local_ops rt1 (local_write_path (lx_files x1) ps s (rt_thread_data rt1)) s)")
    case (Inl e)
    then show ?thesis using assms(4) pre p by (auto simp: write_file_tool_def)
  next
    case (Inr t)
    then have rdy: "ready td rt1" using pre by (auto simp: bind_res_eq_Inr)
    have ok: "fs_ok (lx_files x1)" using pre assms(2) same_links_walks(5) by (auto simp: stays_inside_def)
    have t: "local_write_path (lx_files x1) ps s (Some td) = Inr t"
      using Inr ready_local [OF rdy] by (auto simp: bind_res_eq_Inr the_path_ready [OF rdy])
    obtain x2 r2 where w: "lx_write_file x1 t content add = (x2, r2)" by fastforce
    then have "rt' = rt1" "x' = x2" using assms(4) p Inr by (auto simp: write_file_tool_def split: sum.splits)
    moreover have "stays_inside (lx_files x1) (lx_mappings x1) td (lx_files x2) \<and> lx_mappings x2 = lx_mappings x1"
      using lx_write_inside [OF ok _ t w] assms(3) pre by simp
    ultimately show ?thesis using pre stays_inside_trans by auto
  qed
qed

lemma replace_tool_inside:
  assumes "rt_thread_data rt = Some td" "fs_ok (lx_files x)" "mounts_mapped ps (lx_mappings x)"
    and "str_replace_tool local_ops ps s old new everywhere (rt, x) = ((rt', x'), r)"
  shows "rt_thread_data rt' = Some td \<and> stays_inside (lx_files x) (lx_mappings x) td (lx_files x') \<and> lx_mappings x' = lx_mappings x"
proof -
  obtain rt1 x1 r1 where p: "prepared local_ops (rt, x) = ((rt1, x1), r1)" by (metis surj_pair)
  note pre = prepared_inside [OF assms(1,2) p, of "lx_mappings x"]
  let ?read = "bind_res r1 (\<lambda>_. bind_res (the_path local_ops rt1 (local_write_path (lx_files x1) ps s (rt_thread_data rt1)) s) (\<lambda>p.
     bind_res (lx_read_file x1 p) (\<lambda>content. Inr (p, content))))"
  show ?thesis
  proof (cases ?read)
    case (Inl e)
    then show ?thesis using assms(4) pre p by (auto simp: str_replace_tool_def Let_def)
  next
    case (Inr tc)
    obtain t c where tc: "tc = (t, c)" by fastforce
    have rdy: "ready td rt1" using pre Inr by (auto simp: bind_res_eq_Inr)
    have ok: "fs_ok (lx_files x1)" using pre assms(2) same_links_walks(5) by (auto simp: stays_inside_def)
    have t: "local_write_path (lx_files x1) ps s (Some td) = Inr t"
      using Inr tc ready_local [OF rdy] by (auto simp: bind_res_eq_Inr the_path_ready [OF rdy])
    let ?new = "if everywhere then py_replace old new c else py_replace_first old new c"
    obtain x2 r2 where w: "lx_write_file x1 t ?new False = (x2, r2)" by fastforce
    then have "rt' = rt1 \<and> (x' = x1 \<or> x' = x2)" using assms(4) p Inr tc
      by (auto simp: str_replace_tool_def Let_def split: sum.splits if_splits)
    moreover have "stays_inside (lx_files x1) (lx_mappings x1) td (lx_files x2) \<and> lx_mappings x2 = lx_mappings x1"
      using lx_write_inside [OF ok _ t w] assms(3) pre by simp
    ultimately show ?thesis using pre stays_inside_trans by auto
  qed
qed

text \<open>A reading tool does to the run and the files what its preparation does.\<close>

lemma reading_only_prepares:
  "fst (ls_tool local_ops ps n s st) = fst (prepared local_ops st)" "fst (glob_tool local_ops ps cfg pat s dirs n st) = fst (prepared local_ops st)"
  "fst (grep_tool local_ops ps cfg regex s pat' n st) = fst (prepared local_ops st)" "fst (read_file_tool local_ops ps n s a b st) = fst (prepared local_ops st)"
  by (simp_all add: ls_tool_def glob_tool_def grep_tool_def read_file_tool_def Let_def split: prod.splits)

lemma prepared_only:
  assumes "rt_thread_data rt = Some td" "fs_ok (lx_files x)" "fst (prepared local_ops (rt, x)) = (rt', x')"
  shows "rt_thread_data rt' = Some td \<and> stays_inside (lx_files x) (lx_mappings x) td (lx_files x') \<and> lx_mappings x' = lx_mappings x"
proof -
  obtain r where "prepared local_ops (rt, x) = ((rt', x'), r)" using assms(3) by (metis prod.collapse)
  from prepared_inside [OF assms(1,2) this] show ?thesis by blast
qed

lemma bash_inside:
  assumes "rt_thread_data rt = Some td"
  shows "rt_thread_data (fst (fst (bash_tool local_ops ps (Some LOCAL_PROVIDER) checked n cmd (rt, x)))) = Some td
    \<and> snd (fst (bash_tool local_ops ps (Some LOCAL_PROVIDER) checked n cmd (rt, x))) = x"
proof -
  obtain rt1 r1 where e: "ensure_sandbox_initialized local_ops rt = (rt1, r1)" by fastforce
  show ?thesis using ensured [OF assms e] e local_provider
    by (cases r1) (auto simp: bash_tool_def Let_def is_host_bash_allowed_def is_local_sandbox_def)
qed

lemma run_tool_inside:
  assumes "rt_thread_data rt = Some td" "fs_ok (lx_files x)" "mounts_mapped ps (lx_mappings x)" "run_tool ps limits checked call (rt, x) = ((rt', x'), r)"
  shows "rt_thread_data rt' = Some td \<and> stays_inside (lx_files x) (lx_mappings x) td (lx_files x') \<and> lx_mappings x' = lx_mappings x"
proof -
  have quiet: ?thesis if "fst (run_tool ps limits checked call (rt, x)) = fst (prepared local_ops (rt, x))"
    by (rule prepared_only [OF assms(1,2)]) (use that assms(4) in simp)
  show ?thesis
  proof (cases call)
    case (Write_Call s content add)
    then show ?thesis using write_tool_inside [OF assms(1-3)] assms(4) by (simp add: run_tool_def)
  next
    case (Replace_Call s old new everywhere)
    then show ?thesis using replace_tool_inside [OF assms(1-3)] assms(4) by (simp add: run_tool_def)
  next
    case (Bash_Call cmd)
    then show ?thesis using bash_inside [OF assms(1), of ps checked "tl_bash limits" cmd x] assms(4) by (auto simp: run_tool_def)
  qed (rule quiet, simp add: run_tool_def reading_only_prepares)+
qed

lemma calls_stay_inside:
  assumes "rt_thread_data rt = Some td" "fs_ok (lx_files x)" "mounts_mapped ps (lx_mappings x)"
  shows "stays_inside (lx_files x) (lx_mappings x) td (lx_files (snd (run_tools ps limits checked calls (rt, x))))"
proof -
  let ?ms = "lx_mappings x"
  have "stays_inside fs ?ms td (lx_files (snd (run_tools ps limits checked calls (rt, y))))"
    if "rt_thread_data rt = Some td" "stays_inside fs ?ms td (lx_files y)" "lx_mappings y = ?ms" "fs_ok fs" for rt y fs
    using that
  proof (induction calls arbitrary: rt y)
    case (Cons c cs)
    obtain rt' y' r where c: "run_tool ps limits checked c (rt, y) = ((rt', y'), r)" by (metis surj_pair)
    have "fs_ok (lx_files y)" using Cons.prems(2,4) same_links_walks(5) by (auto simp: stays_inside_def)
    from run_tool_inside [OF Cons.prems(1) this _ c] Cons.prems(3) assms(3)
    have y': "rt_thread_data rt' = Some td" "stays_inside (lx_files y) ?ms td (lx_files y')" "lx_mappings y' = ?ms" by auto
    show ?case using Cons.IH [OF y'(1) stays_inside_trans [OF Cons.prems(2) y'(2)] y'(3) Cons.prems(4)] c by simp
  qed simp
  then show ?thesis using assms by simp
qed

subsection \<open>A host\<close>

lemma no_link_prefixes: "no_link fs p \<longleftrightarrow> list_all (\<lambda>q. case node_at fs q of Some (Link t) \<Rightarrow> False | _ \<Rightarrow> True) (prefixes p)"
  by (auto simp: no_link_def list_all_iff split: option.splits node.splits)

text \<open>Links whose targets are real absolute paths end.\<close>

lemma absolute_links_end:
  assumes "\<forall>(p, n) \<in> set (fs_nodes fs). case n of Link t \<Rightarrow> \<exists>r. t = path_str r \<and> real_path fs r | _ \<Rightarrow> True"
  shows "links_end fs"
proof -
  have "active = [] \<longrightarrow> snd (walk fs active cur rest)" for active cur rest
  proof (induction active cur rest rule: walk_cases [where fs = fs])
    case (link active cur n rest t q ok)
    have "(cur @ [n], Link t) \<in> set (fs_nodes fs)" using link.hyps(4) by (auto simp: node_at_def dest: map_of_SomeD split: if_splits)
    then obtain r where r: "t = path_str r" "real_path fs r" using assms by fastforce
    have "starts_with t ''/''" using r(1) by (simp add: path_str_def starts_with_def)
    moreover have "split_on (CHR ''/'') t = [] # (if r = [] then [[]] else r)"
      using r split_on_join [of r "CHR ''/''"] by (auto simp: path_str_def real_path_def list_all_iff plain_def)
    ultimately have "q = r" "ok" using link.hyps(6) walk_plain [of r fs "[]"] r(2) by (auto simp: walk_skip real_path_def split: if_splits)
    then show ?case using link.IH(2) walk_link [OF link.hyps(1-6), of rest] by auto
  qed (auto simp: walk_skip walk_up walk_step walk_loop)
  then show ?thesis by (simp add: links_end_def)
qed

text \<open>A host with a thread's directories, a read-only mount and, in the workspace, a link out of it.\<close>

definition host :: file_system where
  "host = \<lparr>fs_nodes =
     [([''h''], Directory), ([''h'', ''ws''], Directory), ([''h'', ''up''], Directory), ([''h'', ''out''], Directory),
      ([''h'', ''ws'', ''etc''], Link ''/etc''), ([''etc''], Directory), ([''etc'', ''key''], File ''secret''),
      ([''ref''], Directory), ([''ref'', ''a''], File ''text'')], fs_cwd = [''srv'']\<rparr>"

definition host_sandbox :: local_sandbox where
  "host_sandbox = \<lparr>lx_files = host, lx_mappings = [\<lparr>pm_container = ''/mnt/ref'', pm_local = ''/ref'', pm_read_only = True\<rparr>], lx_written = []\<rparr>"

definition host_thread :: thread_data where
  "host_thread = \<lparr>td_workspace = Some ''/h/ws'', td_uploads = Some ''/h/up'', td_outputs = Some ''/h/out''\<rparr>"

definition host_run :: tool_runtime where
  "host_run = \<lparr>rt_sandbox = Some ''local'', rt_thread_data = Some host_thread, rt_dirs_created = True, rt_has_context = True,
     rt_context_thread = Some ''t'', rt_context_sandbox = None, rt_config_thread = None\<rparr>"

definition host_paths :: path_settings where
  "host_paths = \<lparr>ps_skills_container = ''/mnt/skills'', ps_skills_host = None,
     ps_mounts = [\<lparr>vm_host = ''/ref'', vm_container = ''/mnt/ref'', vm_read_only = True\<rparr>], ps_base_dir = ''/b'', ps_user = ''u'', ps_order = (\<lambda>xs. xs)\<rparr>"

definition host_limits :: tool_limits where
  "host_limits = \<lparr>tl_bash = 20000, tl_read = 50000, tl_ls = 20000, tl_results = (\<lambda>t k. None)\<rparr>"

lemma host_ok: "fs_ok host"
proof -
  have "real_path host [''etc'']" "real_path host (fs_cwd host)"
    unfolding real_path_def no_link_prefixes by (simp_all add: host_def node_at_def plain_def)
  moreover have "links_end host"
    by (rule absolute_links_end) (use \<open>real_path host [''etc'']\<close> in \<open>auto simp: host_def path_str_def intro!: exI [of _ "[''etc'']"]\<close>)
  ultimately show ?thesis by (simp add: fs_ok_def)
qed

lemma host_ready: "ready host_thread host_run"
  by (simp add: ready_def host_run_def)

lemma host_data: "rt_thread_data host_run = Some host_thread"
  by (simp add: host_run_def)

lemma host_mounts: "mounts_mapped host_paths (lx_mappings host_sandbox)"
  by (simp add: mounts_mapped_def host_paths_def host_sandbox_def container_of_def no_end_slash_def rstrip_by_def)

text \<open>
  C11. Over any sequence of calls of the sandbox's tools in a run of a thread, with any paths and texts, its first call
  included, which gets the sandbox and makes the thread's directories: every file that changes is in one of the thread's own
  directories or in a writable mount, and not where a read-only mount is the closest (a read-only mount of the host's root
  directory protects nothing), whatever links there are, as long as no links form a loop and the working directory is a real
  path (\<open>fs_ok\<close>). The only other change is a directory
  made, where nothing was, at or above one of the thread's directories or above such a file. This needs that the sandbox maps
  every mount the tools know of; a mount it skipped is written to on the host (\<open>skipped_mount_reaches_host\<close>).
\<close>

theorem tool_calls_stay_inside:
  assumes "rt_thread_data rt = Some td" "fs_ok (lx_files x)" "mounts_mapped ps (lx_mappings x)"
  shows "stays_inside (lx_files x) (lx_mappings x) td (lx_files (snd (run_tools ps limits checked calls (rt, x))))"
  using assms by (rule calls_stay_inside)

definition host_calls :: "tool_call list" where
  "host_calls = [Write_Call ''/mnt/user-data/workspace/notes/a'' ''one'' False, Write_Call ''/mnt/user-data/workspace/etc/key'' ''x'' False,
     Write_Call ''/mnt/ref/a'' ''x'' False, Replace_Call ''/mnt/user-data/workspace/notes/a'' ''one'' ''two'' False, Bash_Call ''rm -rf /'']"

definition host_after :: file_system where
  "host_after = lx_files (snd (run_tools host_paths host_limits (\<lambda>c td. Inr c) host_calls (host_run, host_sandbox)))"

lemma host_after_nodes: "node_at host_after [''h'', ''ws'', ''notes'', ''a''] = Some (File ''two'') \<and> node_at host_after [''etc'', ''key''] = Some (File ''secret'')
    \<and> node_at host_after [''ref'', ''a''] = Some (File ''text'')"
  unfolding host_after_def by code_simp

theorem tool_calls_stay_inside_witness:
  "stays_inside host (lx_mappings host_sandbox) host_thread host_after \<and> node_at host_after [''h'', ''ws'', ''notes'', ''a''] = Some (File ''two'')"
  using tool_calls_stay_inside [OF host_data _ host_mounts, of host_limits "\<lambda>c td. Inr c" host_calls] host_ok host_after_nodes
  by (simp add: host_after_def host_sandbox_def)

end
