(* ===== verification/Sandbox_Threads.thy ===== *)
theory Sandbox_Threads
  imports Sandbox_Safety
begin

text \<open>
  The threads' directories are kept apart, and what a tool writes a tool reads back. At the end, cases where the
  code does something else than it says.
\<close>

subsection \<open>Directories of threads\<close>

lemma safe_char_plain: "safe_char c \<Longrightarrow> c \<noteq> CHR ''/'' \<and> c \<noteq> CHR ''.''"
  by (auto simp: safe_char_def code_of_def)

lemma safe_id_plain: "safe_id s \<Longrightarrow> plain s"
proof -
  assume s: "safe_id s"
  have t: "plain t" if "t \<noteq> []" "list_all safe_char t" for t
    using that safe_char_plain by (cases t) (auto simp: plain_def list_all_iff)
  show ?thesis
  proof (cases "s \<noteq> [] \<and> last s = newline")
    case True
    then obtain t where st: "s = t @ [newline]" by (metis append_butlast_last_id)
    then have "plain t" using s t by (simp add: safe_id_def)
    then show ?thesis unfolding st by (cases t) (auto simp: plain_def newline_def)
  next
    case False
    then show ?thesis using s t by (auto simp: safe_id_def Let_def)
  qed
qed

lemma path_parts_str: "list_all plain p \<Longrightarrow> path_parts (path_str p) = p"
proof -
  assume p: "list_all plain p"
  then have "\<forall>x \<in> set p. CHR ''/'' \<notin> set x" by (auto simp: list_all_iff plain_def)
  then have "split_on (CHR ''/'') (path_str p) = [] # (if p = [] then [[]] else p)"
    using split_on_join [of p "CHR ''/''"] by (auto simp: path_str_def)
  moreover have "filter (\<lambda>n. n \<noteq> [] \<and> n \<noteq> ''.'') p = p" using p by (auto simp: list_all_iff plain_def intro: filter_True)
  ultimately show ?thesis by (auto simp: path_parts_def)
qed

lemma path_parts_plain: "plain n \<Longrightarrow> path_parts n = [n]"
  by (simp add: path_parts_def plain_def split_on_plain)

lemma path_root_str: "list_all plain p \<Longrightarrow> path_root (path_str p) = ''/''"
proof (cases p)
  case (Cons n ns)
  moreover assume "list_all plain p"
  ultimately obtain c m where "n = c # m" "c \<noteq> CHR ''/''" by (cases n) (auto simp: plain_def)
  then show ?thesis using Cons by (simp add: path_root_def path_str_def starts_with_def py_join_Cons)
qed (simp add: path_root_def path_str_def starts_with_def)

lemma path_div_str: "list_all plain b \<Longrightarrow> list_all plain ns \<Longrightarrow> path_div (path_str b) ns = path_str (b @ ns)"
proof -
  assume a: "list_all plain b" "list_all plain ns"
  have "concat (map path_parts ns) = ns" using a(2) by (induction ns) (auto simp: path_parts_plain)
  moreover have "path_div (path_str b) ns = pure_text ''/'' (b @ concat (map path_parts ns))"
    unfolding path_div_def path_parts_str [OF a(1)] path_root_str [OF a(1)] by (rule refl)
  ultimately show ?thesis by (simp add: pure_text_def path_str_def)
qed

definition thread_path :: "path \<Rightarrow> string \<Rightarrow> string \<Rightarrow> path" where
  "thread_path b user thread = b @ [''users'', user, ''threads'', thread]"

lemma thread_dir_str:
  assumes "list_all plain b" "thread_dir (path_str b) (Some user) thread = Inr d"
  shows "safe_id user \<and> safe_id thread \<and> d = path_str (thread_path b user thread)"
proof -
  have s: "safe_id user" "safe_id thread" "d = path_div (path_div (path_str b) [''users'', user]) [''threads'', thread]"
    using assms(2) by (auto simp: thread_dir_def user_dir_def validate_user_id_def validate_thread_id_def bind_res_eq_Inr split: if_splits)
  have "plain ''users''" "plain ''threads''" by (simp_all add: plain_def)
  then have "path_div (path_str b) [''users'', user] = path_str (b @ [''users'', user])"
      "path_div (path_str (b @ [''users'', user])) [''threads'', thread] = path_str ((b @ [''users'', user]) @ [''threads'', thread])"
    using assms(1) safe_id_plain s(1,2) by (intro path_div_str; simp)+
  then show ?thesis using s by (simp add: thread_path_def)
qed

lemma thread_roots_str:
  assumes "list_all plain b" "get_thread_paths (path_str b) (Some user) thread = Inr td"
  shows "safe_id user \<and> safe_id thread \<and> thread_roots td = map (\<lambda>n. path_str (thread_path b user thread @ [''user-data'', n])) [''workspace'', ''uploads'', ''outputs'']"
proof -
  obtain d where d: "thread_dir (path_str b) (Some user) thread = Inr d"
    and td: "thread_roots td = map (\<lambda>n. path_div d [''user-data'', n]) [''workspace'', ''uploads'', ''outputs'']"
    using assms(2) by (auto simp: get_thread_paths_def sandbox_dir_def bind_res_eq_Inr thread_roots_def)
  note s = thread_dir_str [OF assms(1) d]
  have p: "list_all plain (thread_path b user thread)" using s assms(1) safe_id_plain by (simp add: thread_path_def plain_def)
  have "path_div d [''user-data'', n] = path_str (thread_path b user thread @ [''user-data'', n])" if "n \<in> {''workspace'', ''uploads'', ''outputs''}" for n
    using s path_div_str [OF p, of "[''user-data'', n]"] that by (auto simp: plain_def)
  then show ?thesis using s td by simp
qed

text \<open>No writable mount has a directory above or below this one.\<close>

definition no_mount_near :: "file_system \<Rightarrow> path_mapping list \<Rightarrow> path \<Rightarrow> bool" where
  "no_mount_near fs ms p = list_all (\<lambda>m. pm_read_only m \<or>
     (case resolve fs (pm_local m) of Some b \<Rightarrow> \<not> prefix b p \<and> \<not> prefix p b | None \<Rightarrow> True)) ms"

lemma own_root:
  assumes td: "list_all plain b" "get_thread_paths (path_str b) (Some user) thread = Inr td"
    and real: "list_all (\<lambda>s. real_path fs (path_parts s)) (thread_roots td)" and s: "s \<in> set (thread_roots td)" "resolve fs s = Some r"
  shows "prefix (thread_path b user thread) r"
proof -
  note roots = thread_roots_str [OF td]
  obtain n where n: "s = path_str (thread_path b user thread @ [''user-data'', n])" "n \<in> {''workspace'', ''uploads'', ''outputs''}"
    using s(1) roots by auto
  have p: "list_all plain (thread_path b user thread @ [''user-data'', n])"
    using roots td(1) safe_id_plain n(2) by (auto simp: thread_path_def plain_def)
  have "real_path fs (thread_path b user thread @ [''user-data'', n])"
    using real s(1) n(1) path_parts_str [OF p] by (auto simp: list_all_iff)
  then have "r = thread_path b user thread @ [''user-data'', n]" using s(2) n(1) resolve_path_str by auto
  then show ?thesis by (auto simp: prefix_def)
qed

lemma threads_disjoint:
  assumes "(user, thread) \<noteq> (user', thread')" "prefix (thread_path b user thread) q" "prefix (thread_path b user' thread') q"
  shows False
proof -
  have "thread_path b user thread = thread_path b user' thread'"
    using assms(2,3) by (auto simp: prefix_def thread_path_def append_eq_append_conv2)
  then show False using assms(1) by (simp add: thread_path_def)
qed

lemma other_thread_not_allowed:
  assumes td: "list_all plain b" "get_thread_paths (path_str b) (Some user) thread = Inr td"
    and real: "list_all (\<lambda>s. real_path fs (path_parts s)) (thread_roots td)"
    and other: "(user, thread) \<noteq> (user', thread')" and far: "no_mount_near fs ms (thread_path b user' thread')"
    and q: "allowed fs ms td q"
  shows "\<not> prefix (thread_path b user' thread') q"
proof
  assume pre: "prefix (thread_path b user' thread') q"
  from q consider "in_thread fs td q" | m where "m \<in> set ms" "\<not> pm_read_only m" "around fs m q" by (auto simp: allowed_def)
  then show False
  proof cases
    case 1
    then obtain s r where s: "s \<in> set (thread_roots td)" "resolve fs s = Some r" "prefix r q"
      by (auto simp: in_thread_def list_ex_iff split: option.splits)
    have "prefix (thread_path b user thread) q" using own_root [OF td real s(1,2)] s(3) prefix_order.trans by blast
    then show False using threads_disjoint [OF other _ pre] by blast
  next
    case (2 m)
    then obtain r where r: "resolve fs (pm_local m) = Some r" "prefix r q" by (auto simp: around_def split: option.splits)
    have "\<not> prefix r (thread_path b user' thread') \<and> \<not> prefix (thread_path b user' thread') r"
      using far 2(1,2) r(1) by (auto simp: no_mount_near_def list_all_iff)
    then show False using prefix_same_cases [OF r(2) pre] by blast
  qed
qed

lemma other_thread_not_on_the_way:
  assumes td: "list_all plain b" "get_thread_paths (path_str b) (Some user) thread = Inr td"
    and real: "list_all (\<lambda>s. real_path fs (path_parts s)) (thread_roots td)"
    and other: "(user, thread) \<noteq> (user', thread')" and far: "no_mount_near fs ms (thread_path b user' thread')"
    and q: "on_the_way fs ms td q"
  shows "\<not> prefix (thread_path b user' thread') q"
proof
  assume pre: "prefix (thread_path b user' thread') q"
  from q consider s r where "s \<in> set (thread_roots td)" "resolve fs s = Some r" "prefix q r"
    | p where "allowed fs ms td p" "strict_prefix q p" by (auto simp: on_the_way_def list_ex_iff split: option.splits)
  then show False
  proof cases
    case 1
    then show False using threads_disjoint [OF other own_root [OF td real 1(1,2)]] pre prefix_order.trans by blast
  next
    case 2
    then show False using other_thread_not_allowed [OF td real other far 2(1)] pre prefix_order.trans by (auto simp: strict_prefix_def)
  qed
qed

text \<open>
  C13. Threads are kept apart: no sequence of calls of the tools of one thread, its first call included, changes anything in
  the directory of another thread or of another user's thread, when the base directory is a plain path, no link is on the way
  to the thread's own directories and no links form a loop, no writable mount has a directory at, above or below the other's,
  and the sandbox maps every mount the tools know of (a mount it skipped is written to on the host).
\<close>

theorem other_threads_untouched:
  assumes "rt_thread_data rt = Some td" "fs_ok (lx_files x)" "mounts_mapped ps (lx_mappings x)"
    and "list_all plain b" "get_thread_paths (path_str b) (Some user) thread = Inr td"
    and "list_all (\<lambda>s. real_path (lx_files x) (path_parts s)) (thread_roots td)"
    and "(user, thread) \<noteq> (user', thread')" "no_mount_near (lx_files x) (lx_mappings x) (thread_path b user' thread')"
    and "prefix (thread_path b user' thread') q"
  shows "node_at (lx_files (snd (run_tools ps limits checked calls (rt, x)))) q = node_at (lx_files x) q"
proof (rule ccontr)
  assume "\<not> ?thesis"
  from stays_insideD [OF calls_stay_inside [OF assms(1-3)] this]
  show False using other_thread_not_allowed [OF assms(4-8)] other_thread_not_on_the_way [OF assms(4-8)] assms(9) by blast
qed

subsection \<open>A host with two threads\<close>

definition two_threads :: file_system where
  "two_threads = \<lparr>fs_nodes = [([''b''], Directory), ([''b'', ''users''], Directory), ([''b'', ''users'', ''ann''], Directory),
     ([''b'', ''users'', ''ann'', ''threads''], Directory), ([''b'', ''users'', ''ann'', ''threads'', ''t1''], Directory),
     ([''b'', ''users'', ''ann'', ''threads'', ''t2''], Directory)], fs_cwd = []\<rparr>"

definition ann_run :: tool_runtime where
  "ann_run = host_run\<lparr>rt_sandbox := None, rt_dirs_created := False, rt_thread_data := Some \<lparr>td_workspace = Some ''/b/users/ann/threads/t1/user-data/workspace'',
     td_uploads = Some ''/b/users/ann/threads/t1/user-data/uploads'', td_outputs = Some ''/b/users/ann/threads/t1/user-data/outputs''\<rparr>\<rparr>"

definition ann_sandbox :: local_sandbox where
  "ann_sandbox = \<lparr>lx_files = two_threads, lx_mappings = [], lx_written = []\<rparr>"

definition ann_calls :: "tool_call list" where
  "ann_calls = [Write_Call ''/mnt/user-data/workspace/a'' ''one'' False, Write_Call ''/mnt/user-data/workspace/../../../t2/b'' ''x'' False]"

lemma ann_wrote: "node_at (lx_files (snd (run_tools (host_paths\<lparr>ps_mounts := []\<rparr>) host_limits (\<lambda>c td. Inr c) ann_calls (ann_run, ann_sandbox))))
    [''b'', ''users'', ''ann'', ''threads'', ''t1'', ''user-data'', ''workspace'', ''a''] = Some (File ''one'')"
  by code_simp

lemma two_threads_ok: "fs_ok two_threads"
proof -
  have "links_end two_threads" by (rule absolute_links_end) (simp add: two_threads_def)
  then show ?thesis by (simp add: fs_ok_def two_threads_def)
qed

theorem other_threads_untouched_witness:
  "node_at (lx_files (snd (run_tools (host_paths\<lparr>ps_mounts := []\<rparr>) host_limits (\<lambda>c td. Inr c) ann_calls (ann_run, ann_sandbox))))
     [''b'', ''users'', ''ann'', ''threads'', ''t2'', ''b''] = None"
proof -
  let ?td = "\<lparr>td_workspace = Some ''/b/users/ann/threads/t1/user-data/workspace'',
     td_uploads = Some ''/b/users/ann/threads/t1/user-data/uploads'', td_outputs = Some ''/b/users/ann/threads/t1/user-data/outputs''\<rparr>"
  have r: "rt_thread_data ann_run = Some ?td" by (simp add: ann_run_def)
  have f: "lx_files ann_sandbox = two_threads" "lx_mappings ann_sandbox = []" by (simp_all add: ann_sandbox_def)
  have m: "mounts_mapped (host_paths\<lparr>ps_mounts := []\<rparr>) (lx_mappings ann_sandbox)" by (simp add: mounts_mapped_def)
  have p: "list_all plain [''b'']" by (simp add: plain_def)
  have td: "get_thread_paths (path_str [''b'']) (Some ''ann'') ''t1'' = Inr ?td" by code_simp
  have real: "list_all (\<lambda>s. real_path (lx_files ann_sandbox) (path_parts s)) (thread_roots ?td)"
    unfolding f real_path_def no_link_prefixes by code_simp
  have far: "no_mount_near (lx_files ann_sandbox) (lx_mappings ann_sandbox) (thread_path [''b''] ''ann'' ''t2'')"
    by (simp add: f no_mount_near_def)
  show ?thesis
    using other_threads_untouched [OF r _ m p td real _ far, of "[''b'', ''users'', ''ann'', ''threads'', ''t2'', ''b'']" host_limits "\<lambda>c td. Inr c" ann_calls]
      two_threads_ok f by (simp add: thread_path_def node_at_def two_threads_def)
qed

subsection \<open>What is written is read back\<close>

text \<open>No path of the sandbox is in the text, on either side.\<close>

definition no_paths :: "file_system \<Rightarrow> path_mapping list \<Rightarrow> string \<Rightarrow> bool" where
  "no_paths fs ms text = list_all (\<lambda>k. content_len (longest_first pm_container ms) (drop k text) = 0
     \<and> list_all (\<lambda>m. case resolve fs (pm_local m) of Some p \<Rightarrow> local_len (path_str p) (drop k text) = 0 | None \<Rightarrow> True) ms)
     [0..<Suc (length text)]"

lemma sub_matches_none: "\<forall>k \<le> length s. len (drop k s) = 0 \<Longrightarrow> sub_matches len f s = Inr s"
proof (induction s)
  case (Cons c s)
  have "\<forall>k \<le> length s. len (drop k s) = 0" using Cons.prems by (metis Suc_le_mono drop_Suc_Cons length_Cons)
  moreover have "len (c # s) = 0" using spec [OF Cons.prems, of 0] by simp
  ultimately show ?case using Cons.IH by (simp add: sub_matches.simps [of len f "c # s"] bind_res_def)
qed (simp add: sub_matches.simps)

lemma no_paths_kept: "no_paths fs ms s \<Longrightarrow> resolve_paths_in_content fs' ms s = Inr s"
  unfolding resolve_paths_in_content_def by (rule sub_matches_none) (auto simp: no_paths_def list_all_iff)

lemma no_paths_reversed:
  assumes "fs_ok fs" "no_paths fs ms s" shows "reverse_resolve_paths_in_output fs ms s = Inr s"
proof -
  have "reverse_each fs ms ms' s = Inr s" if "set ms' \<subseteq> set ms" for ms'
    using that
  proof (induction ms')
    case (Cons m ms')
    obtain p where p: "resolve fs (pm_local m) = Some p" using resolve_ends [OF assms(1)] by blast
    then have "\<forall>k \<le> length s. local_len (path_str p) (drop k s) = 0"
      using assms(2) Cons.prems by (force simp: no_paths_def list_all_iff)
    then show ?case using Cons p sub_matches_none by (simp add: resolved_def bind_res_def)
  qed simp
  then show ?thesis by (simp add: reverse_resolve_paths_in_output_def)
qed

lemma no_paths_same: "same_links fs fs' \<Longrightarrow> no_paths fs' ms s = no_paths fs ms s"
  by (simp add: no_paths_def same_links_walks)

lemma no_cr_kept: "CHR 0x0D \<notin> set s \<Longrightarrow> universal_newlines s = s"
proof -
  have "CHR 0x0D \<notin> set s \<Longrightarrow> newlines_from False s = s" by (induction s) auto
  then show "CHR 0x0D \<notin> set s \<Longrightarrow> universal_newlines s = s" by (simp add: universal_newlines_def)
qed

lemma resolve_path_same: "same_links fs fs' \<Longrightarrow> resolve_path fs' ms s = resolve_path fs ms s"
proof -
  assume "same_links fs fs'"
  then have r: "resolved fs' = resolved fs" by (intro ext) (rule same_links_walks(3))
  show ?thesis unfolding resolve_path_def resolve_path_with_mapping_def r by (rule refl)
qed

lemma write_then_read:
  assumes ok: "fs_ok (lx_files x)" and w: "lx_write_file x s c False = (x', Inr ())"
    and plain_text: "no_paths (lx_files x) (lx_mappings x) c" "CHR 0x0D \<notin> set c"
  shows "lx_read_file x' s = Inr c \<and> same_links (lx_files x) (lx_files x') \<and> lx_mappings x' = lx_mappings x"
proof -
  let ?fs = "lx_files x" and ?ms = "lx_mappings x"
  obtain p where p: "writable_path x s = Inr p" "lx_write_at x s p c False = (x', Inr ())"
    using w by (auto simp: lx_write_file_def split: sum.splits)
  have r: "resolve_path ?fs ?ms s = Inr p" using p(1) by (auto simp: writable_path_def resolve_path_def bind_res_eq_Inr split: if_splits)
  obtain fs1 fs2 where f: "py_dirname p = [] \<and> fs1 = ?fs \<or> make_dirs_at s (py_dirname p) ?fs = Inr fs1"
      "open_write fs1 s p False c = Inr fs2" "x' = x\<lparr>lx_files := fs2, lx_written := p # lx_written x\<rparr>"
    using p(2) no_paths_kept [OF plain_text(1)] by (auto simp: lx_write_at_def shown_as_def bind_res_def split: sum.splits if_splits)
  have l1: "same_links ?fs fs1" using f(1) make_dirs_changes by (auto simp: make_dirs_at_def split: option.splits)
  obtain q where q: "locate fs1 p = Some q" "same_links fs1 fs2" "node_at fs2 q = Some (File c)"
    using open_write_changes [OF f(2)] by metis
  have l: "same_links ?fs fs2" using same_links_trans [OF l1 q(2)] .
  have "locate fs2 p = Some q" using q(1) same_links_walks(1) [OF q(2)] by simp
  then have "open_read fs2 s p = Inr c" using q(3) no_cr_kept [OF plain_text(2)] by (simp add: open_read_def)
  moreover have "reverse_resolve_paths_in_output fs2 ?ms c = Inr c"
    using no_paths_reversed ok plain_text(1) no_paths_same [OF l] same_links_walks(5) [OF l] by blast
  ultimately have "lx_read_file x' s = Inr c"
    using r f(3) resolve_path_same [OF l] by (simp add: lx_read_file_def bind_res_def)
  then show ?thesis using l f(3) by simp
qed

lemma read_path_after_write:
  assumes "same_links fs fs'" "local_write_path fs ps s (Some td) = Inr t" shows "local_read_path fs' ps s (Some td) = Inr t"
proof -
  have "resolve_roots fs' rs = resolve_roots fs rs" for rs by (induction rs) (simp_all add: same_links_walks [OF assms(1)])
  then have "resolve_and_validate_user_data_path fs' s td = resolve_and_validate_user_data_path fs s td"
    by (simp add: resolve_and_validate_user_data_path_def validate_resolved_user_data_path_def same_links_walks [OF assms(1)])
  then show ?thesis using assms(2)
    by (auto simp: local_read_path_def local_write_path_def validate_local_tool_path_def bind_res_eq_Inr Let_def split: if_splits option.splits)
qed

text \<open>
  C22. What \<open>write_file\<close> wrote, \<open>read_file\<close> gives back: after a write answered with OK, the first call of the run included, reading the
  same path in the same run gives exactly the text, cut to the limit, or \<open>(empty)\<close> for the empty text, when the text has no carriage
  return and mentions no path of the sandbox, on either side, and no links of the host form a loop.
\<close>

theorem written_text_is_read_back:
  assumes "rt_thread_data rt = Some td" "fs_ok (lx_files x)" "no_paths (lx_files x) (lx_mappings x) c" "CHR 0x0D \<notin> set c"
    and "write_file_tool local_ops ps s c False (rt, x) = ((rt', x'), Inr ''OK'')"
  shows "snd (read_file_tool local_ops ps n s None None (rt', x')) = Inr (if c = [] then ''(empty)'' else truncate_read_file_output c n)"
proof -
  obtain rt1 x1 r1 where p: "prepared local_ops (rt, x) = ((rt1, x1), r1)" by (metis surj_pair)
  note pre = prepared_inside [OF assms(1,2) p, of "lx_mappings x"]
  then have l: "same_links (lx_files x) (lx_files x1)" by (simp add: stays_inside_def)
  have ans: "answered local_ops ps t h r y (Inl e) \<noteq> Inr ''OK''" for t h r y e
    by (cases e) (auto simp: answered_def bind_res_eq_Inr split: option.splits)
  obtain u t where r1: "r1 = Inr u" and t0: "the_path local_ops rt1 (local_write_path (lx_files x1) ps s (rt_thread_data rt1)) s = Inr t"
    using assms(5) p ans by (cases "bind_res r1 (\<lambda>_. the_path local_ops rt1 (local_write_path (lx_files x1) ps s (rt_thread_data rt1)) s)")
      (auto simp: write_file_tool_def bind_res_eq_Inr)
  have rdy: "ready td rt1" using pre r1 by simp
  have t: "local_write_path (lx_files x1) ps s (Some td) = Inr t" using t0 ready_local [OF rdy] by (simp add: the_path_ready [OF rdy])
  obtain x2 r2 where w: "lx_write_file x1 t c False = (x2, r2)" by fastforce
  have x2: "r2 = Inr ()" "x' = x2" "rt' = rt1"
    using assms(5) p r1 t0 w ans by (auto simp: write_file_tool_def bind_res_def split: sum.splits)
  have ok: "fs_ok (lx_files x1)" using assms(2) l by (simp add: same_links_walks)
  have np: "no_paths (lx_files x1) (lx_mappings x1) c" using assms(3) pre by (simp add: no_paths_def same_links_walks [OF l])
  note again = write_then_read [OF ok _ np assms(4), of t x2]
  have b: "lx_read_file x2 t = Inr c" "same_links (lx_files x1) (lx_files x2)" using again w x2(1) by auto
  obtain rt2 where rt2: "prepared local_ops (rt1, x2) = ((rt2, x2), Inr ())" "ready td rt2" using prepared_ready [OF rdy] by blast
  then show ?thesis
    using b(1) x2 read_path_after_write [OF b(2) t] ready_local [OF rt2(2)]
    by (simp add: read_file_tool_def bind_res_def the_path_ready answered_def)
qed

definition wrote_note :: "(tool_runtime \<times> local_sandbox) \<times> (exc + string)" where
  "wrote_note = write_file_tool local_ops host_paths ''/mnt/user-data/workspace/notes'' ''hello'' False (host_run, host_sandbox)"

lemma wrote_note_ok: "snd wrote_note = Inr ''OK'' \<and> no_paths host (lx_mappings host_sandbox) ''hello''"
  by code_simp

theorem written_text_is_read_back_witness:
  "snd (read_file_tool local_ops host_paths 50000 ''/mnt/user-data/workspace/notes'' None None (fst wrote_note)) = Inr (truncate_read_file_output ''hello'' 50000)"
proof -
  obtain rt' x' where w: "wrote_note = ((rt', x'), Inr ''OK'')" using wrote_note_ok by (metis prod.collapse)
  have f: "lx_files host_sandbox = host" by (simp add: host_sandbox_def)
  show ?thesis unfolding w fst_conv
    using written_text_is_read_back [OF host_data _ _ _ w [unfolded wrote_note_def], of 50000] wrote_note_ok host_ok by (simp add: f)
qed

subsection \<open>Where the code does something else than it says\<close>

text \<open>
  A mount the provider skips, because its host path is relative, is still accepted by the tools, and its container path
  is then used as a path of the host.
\<close>

definition skipped_mount :: sandbox_settings where
  "skipped_mount = \<lparr>sb_skills_path = ''/sk'', sb_skills_container = ''/mnt/skills'',
     sb_mounts = [\<lparr>vm_host = ''data'', vm_container = ''/srv'', vm_read_only = False\<rparr>]\<rparr>"

definition skipping_host :: file_system where
  "skipping_host = \<lparr>fs_nodes = [([''app''], Directory), ([''app'', ''data''], Directory), ([''srv''], Directory)], fs_cwd = [''app'']\<rparr>"

lemma skipped_mount_reaches_host:
  "setup_path_mappings skipping_host skipped_mount = [] \<and>
   node_at (lx_files (snd (fst (write_file_tool local_ops (host_paths\<lparr>ps_mounts := get_custom_mounts skipping_host skipped_mount\<rparr>) ''/srv/a'' ''x'' False
     (host_run, \<lparr>lx_files = skipping_host, lx_mappings = setup_path_mappings skipping_host skipped_mount, lx_written = []\<rparr>))))) [''srv'', ''a''] = Some (File ''x'')"
  by code_simp

text \<open>\<open>glob\<close> and \<open>grep\<close> refuse every path of a custom mount: it passes the gate and is then taken for user data.\<close>

lemma mounts_are_not_searched:
  assumes "is_custom_mount_path ps s" "\<not> is_skills_path ps s" "\<not> is_acp_workspace_path s"
    and "replace_virtual_path s (Some td) = s" "resolve fs s = Some p" "\<not> in_thread fs td p" "thread_roots td \<noteq> []" "fs_ok fs"
  shows "\<exists>m. resolve_local_read_path fs ps s td = Inl (Permission_Error, m)"
proof -
  obtain roots where r: "resolve_roots fs (thread_roots td) = Inr roots" "map Some roots = map (resolve fs) (thread_roots td)"
  proof -
    have "\<exists>rs. resolve_roots fs ss = Inr rs \<and> map Some rs = map (resolve fs) ss" for ss
    proof (induction ss)
      case (Cons t ss)
      obtain q where "resolve fs t = Some q" using resolve_ends [OF assms(8)] by blast
      moreover obtain rs where "resolve_roots fs ss = Inr rs" "map Some rs = map (resolve fs) ss" using Cons by blast
      ultimately show ?case by (intro exI [of _ "q # rs"]) (simp add: resolved_def bind_res_def)
    qed simp
    then show thesis using that by blast
  qed
  have "\<not> list_ex (\<lambda>r. prefix r p) roots"
  proof
    assume "list_ex (\<lambda>r. prefix r p) roots"
    then obtain q where q: "q \<in> set roots" "prefix q p" by (auto simp: list_ex_iff)
    then have "Some q \<in> set (map (resolve fs) (thread_roots td))" unfolding r(2) [symmetric] by simp
    then obtain t where "t \<in> set (thread_roots td)" "resolve fs t = Some q" by auto
    then show False using assms(6) q(2) by (force simp: in_thread_def list_ex_iff)
  qed
  moreover have "roots \<noteq> []" using r(2) assms(7) by auto
  ultimately have "\<exists>m. resolve_and_validate_user_data_path fs s td = Inl (Permission_Error, m)"
    using assms(4,5) r(1) by (simp add: resolve_and_validate_user_data_path_def validate_resolved_user_data_path_def resolved_def bind_res_def)
  then show ?thesis using assms(1-3)
    by (auto simp: resolve_local_read_path_def validate_local_tool_path_def bind_res_def reject_path_traversal_def split: option.splits)
qed

text \<open>A link in the skills directory leads \<open>read_file\<close> out of it, where the sandbox itself refuses the same path.\<close>

definition skills_host :: local_sandbox where
  "skills_host = \<lparr>lx_files = \<lparr>fs_nodes = [([''sk''], Directory), ([''sk'', ''k''], Link ''/etc/key''), ([''etc''], Directory), ([''etc'', ''key''], File ''secret'')], fs_cwd = []\<rparr>,
     lx_mappings = [\<lparr>pm_container = ''/mnt/skills'', pm_local = ''/sk'', pm_read_only = True\<rparr>], lx_written = []\<rparr>"

lemma skills_link_escapes:
  "snd (read_file_tool local_ops (host_paths\<lparr>ps_skills_host := Some ''/sk''\<rparr>) 50000 ''/mnt/skills/k'' None None (host_run, skills_host)) = Inr ''secret''
    \<and> (case lx_read_file skills_host ''/mnt/skills/k'' of Inl (Permission_Error, m) \<Rightarrow> True | _ \<Rightarrow> False)"
  by code_simp

text \<open>A text that mentions a path leading out of a mount cannot be written anywhere.\<close>

lemma mentioned_path_refused:
  "snd (write_file_tool local_ops host_paths ''/mnt/user-data/workspace/a'' ''see /mnt/ref/../x'' False (host_run, host_sandbox))
    = Inr ''Error: Permission denied writing to file: /mnt/user-data/workspace/a''"
  by code_simp

text \<open>\<open>str_replace\<close> changes every line end of a file with carriage returns, not only the text it is to replace.\<close>

lemma replace_drops_carriage_returns:
  "node_at (lx_files (snd (fst (str_replace_tool local_ops host_paths ''/mnt/user-data/workspace/a'' ''b'' ''c'' False
     (host_run, host_sandbox\<lparr>lx_files := fs_put host [''h'', ''ws'', ''a''] (File [CHR ''a'', CHR 0x0D, newline, CHR ''b''])\<rparr>)))))
    [''h'', ''ws'', ''a''] = Some (File [CHR ''a'', newline, CHR ''c''])"
  by code_simp

end
