(* ===== verification/Run_Manager.thy ===== *)
theory Run_Manager
  imports Datetimes Stores
begin

text \<open>
  The registry of runs (\<open>omniharness/runtime/runs\<close>: \<open>manager.py\<close>, \<open>schemas.py\<close>, and what \<open>worker.py\<close> does with it).
  A thread's checkpoint is written by the run that holds the thread; other writers wait for it
  (\<open>write_when_idle\<close>, \<open>drain_deferred\<close>). What runs under the manager's lock is one step. The rows of the run
  store are an argument (\<open>None\<close> where reading them fails), and so is the reader of their times; writing to
  the run store is best effort and left out, as is the sleep of \<open>cleanup\<close>.
\<close>

datatype run_status = Run_Pending | Run_Running | Run_Success | Run_Error | Run_Timeout | Run_Interrupted

fun run_status_str :: "run_status \<Rightarrow> string" where
  "run_status_str Run_Pending = ''pending''"
| "run_status_str Run_Running = ''running''"
| "run_status_str Run_Success = ''success''"
| "run_status_str Run_Error = ''error''"
| "run_status_str Run_Timeout = ''timeout''"
| "run_status_str Run_Interrupted = ''interrupted''"

definition run_status_of :: "string \<Rightarrow> run_status option" where
  "run_status_of s = find (\<lambda>st. run_status_str st = s) [Run_Pending, Run_Running, Run_Success, Run_Error, Run_Timeout, Run_Interrupted]"

datatype disconnect_mode = Cancel_Run | Continue_Run

text \<open>
  An asyncio task: created and not yet begun, running, in the worker's \<open>finally\<close> (its last checkpoint is
  written), done.
\<close>

datatype run_task = Task_New | Task_Running | Task_Closing | Task_Done

record run_record =
  rr_id :: string
  rr_thread :: string
  rr_assistant :: "string option"
  rr_status :: run_status
  rr_on_disconnect :: disconnect_mode
  rr_strategy :: string
  rr_metadata :: dict
  rr_kwargs :: dict
  rr_created :: string
  rr_updated :: string
  rr_task :: "run_task option"
  rr_abort :: bool
  rr_action :: string
  rr_error :: "string option"

record 'w run_manager =
  rm_runs :: "(string \<times> run_record) list"
  rm_deferred :: "(string \<times> 'w list) list"
  rm_drains :: "(string \<times> string) list"

definition no_runs :: "'w run_manager" where
  "no_runs = \<lparr>rm_runs = [], rm_deferred = [], rm_drains = []\<rparr>"

definition runs_of :: "'w run_manager \<Rightarrow> run_record list" where
  "runs_of m = map snd (rm_runs m)"

subsection \<open>Who holds a thread\<close>

definition active_status :: "run_status \<Rightarrow> bool" where
  "active_status s = (s = Run_Pending \<or> s = Run_Running)"

definition task_unfinished :: "run_record \<Rightarrow> bool" where
  "task_unfinished r = (rr_task r \<noteq> None \<and> rr_task r \<noteq> Some Task_Done)"

definition run_busy :: "'w run_manager \<Rightarrow> string \<Rightarrow> string option \<Rightarrow> bool" where
  "run_busy m t exclude = list_ex (\<lambda>r. rr_thread r = t \<and> exclude \<noteq> Some (rr_id r)
     \<and> (active_status (rr_status r) \<or> task_unfinished r)) (runs_of m)"

definition thread_busy :: "'w run_manager \<Rightarrow> string \<Rightarrow> bool" where
  "thread_busy m t = run_busy m t None"

record run_row =
  rw_id :: "string option"
  rw_thread :: "string option"
  rw_assistant :: "string option"
  rw_status :: "string option"
  rw_strategy :: "string option"
  rw_metadata :: "dict option"
  rw_kwargs :: "dict option"
  rw_created :: "string option"
  rw_updated :: "string option"
  rw_error :: "string option"

definition STALE_AFTER :: int where "STALE_AFTER = 60 * 60 * 1000000"

definition text_or :: "string option \<Rightarrow> string option \<Rightarrow> string option" where
  "text_or a b = (case a of None \<Rightarrow> b | Some s \<Rightarrow> if s = [] then b else a)"

definition row_holds :: "(string \<Rightarrow> instant option) \<Rightarrow> instant \<Rightarrow> 'w run_manager \<Rightarrow> run_row \<Rightarrow> bool" where
  "row_holds parse now m row =
     ((case rw_id row of None \<Rightarrow> True | Some i \<Rightarrow> map_of (rm_runs m) i = None)
      \<and> (rw_status row = Some ''pending'' \<or> rw_status row = Some ''running'')
      \<and> (case text_or (rw_updated row) (rw_created row) of
           None \<Rightarrow> True
         | Some s \<Rightarrow> (case (if s = [] then None else parse s) of None \<Rightarrow> True | Some when \<Rightarrow> now - when < STALE_AFTER)))"

text \<open>No run store, a store that cannot be read, or its rows.\<close>

definition active_elsewhere :: "(string \<Rightarrow> instant option) \<Rightarrow> instant \<Rightarrow> run_row list option option \<Rightarrow> 'w run_manager \<Rightarrow> bool" where
  "active_elsewhere parse now rows m =
     (case rows of None \<Rightarrow> False | Some None \<Rightarrow> True | Some (Some rows) \<Rightarrow> list_ex (row_holds parse now m) rows)"

subsection \<open>Writing while no run holds the thread\<close>

datatype written = Was_Written | Was_Queued | Is_Elsewhere | Not_Persisted

text \<open>A write is named by what it writes; \<open>perform\<close> is what it does, and whether it persisted.\<close>

definition write_when_idle ::
  "('w \<Rightarrow> 's \<Rightarrow> 's \<times> bool) \<Rightarrow> bool \<Rightarrow> string \<Rightarrow> 'w \<Rightarrow> 'w run_manager \<times> 's \<Rightarrow> ('w run_manager \<times> 's) \<times> written" where
  "write_when_idle perform elsewhere t w ms = (let (m, s) = ms in
     if thread_busy m t then
       ((m\<lparr>rm_deferred := dset (rm_deferred m) t ((case map_of (rm_deferred m) t of None \<Rightarrow> [] | Some ws \<Rightarrow> ws) @ [w])\<rparr>, s), Was_Queued)
     else if elsewhere then ((m, s), Is_Elsewhere)
     else (let (s', ok) = perform w s in ((m, s'), if ok then Was_Written else Not_Persisted)))"

definition drain :: "('w \<Rightarrow> 's \<Rightarrow> 's \<times> bool) \<Rightarrow> string \<Rightarrow> string \<Rightarrow> 'w run_manager \<times> 's \<Rightarrow> 'w run_manager \<times> 's" where
  "drain perform t finished ms = (let (m, s) = ms in
     case map_of (rm_deferred m) t of
       None \<Rightarrow> (m, s)
     | Some ws \<Rightarrow> if run_busy m t (Some finished) then (m, s)
         else (m\<lparr>rm_deferred := ddel (rm_deferred m) t\<rparr>, foldl (\<lambda>s w. fst (perform w s)) s ws))"

subsection \<open>The life of a run\<close>

definition SUPPORTED_STRATEGIES :: "string list" where
  "SUPPORTED_STRATEGIES = [''reject'', ''interrupt'', ''rollback'']"

record run_request =
  rq_thread :: string
  rq_assistant :: "string option"
  rq_on_disconnect :: disconnect_mode
  rq_metadata :: dict
  rq_kwargs :: dict
  rq_strategy :: string

definition new_run :: "string \<Rightarrow> string \<Rightarrow> run_request \<Rightarrow> run_record" where
  "new_run i now q =
     \<lparr>rr_id = i, rr_thread = rq_thread q, rr_assistant = rq_assistant q, rr_status = Run_Pending,
      rr_on_disconnect = rq_on_disconnect q, rr_strategy = rq_strategy q, rr_metadata = rq_metadata q,
      rr_kwargs = rq_kwargs q, rr_created = now, rr_updated = now, rr_task = None, rr_abort = False,
      rr_action = ''interrupt'', rr_error = None\<rparr>"

definition create_run :: "string \<Rightarrow> string \<Rightarrow> run_request \<Rightarrow> 'w run_manager \<Rightarrow> 'w run_manager" where
  "create_run i now q m = m\<lparr>rm_runs := dset (rm_runs m) i (new_run i now q)\<rparr>"

text \<open>
  Cancelling a task that has not begun ends it before the worker's first line; one that runs meets
  the cancellation where it next waits.
\<close>

definition cancelled_task :: "run_task option \<Rightarrow> run_task option" where
  "cancelled_task t = (if t = Some Task_New then Some Task_Done else t)"

definition interrupt_run :: "string \<Rightarrow> string \<Rightarrow> run_record \<Rightarrow> run_record" where
  "interrupt_run action now r = r\<lparr>rr_action := action, rr_abort := True, rr_task := cancelled_task (rr_task r),
     rr_status := Run_Interrupted, rr_updated := now\<rparr>"

text \<open>The done-callbacks of the tasks a cancellation ends: each schedules a drain.\<close>

definition ended_drains :: "(run_record \<Rightarrow> bool) \<Rightarrow> 'w run_manager \<Rightarrow> (string \<times> string) list" where
  "ended_drains P m = map (\<lambda>r. (rr_thread r, rr_id r)) (filter (\<lambda>r. P r \<and> rr_task r = Some Task_New) (runs_of m))"

definition interrupt_runs :: "(run_record \<Rightarrow> bool) \<Rightarrow> string \<Rightarrow> string \<Rightarrow> 'w run_manager \<Rightarrow> 'w run_manager" where
  "interrupt_runs P action now m =
     m\<lparr>rm_runs := map (\<lambda>(i, r). (i, if P r then interrupt_run action now r else r)) (rm_runs m),
       rm_drains := rm_drains m @ ended_drains P m\<rparr>"

datatype run_error = Unsupported_Strategy string | Conflict string

definition holds_thread :: "string \<Rightarrow> run_record \<Rightarrow> bool" where
  "holds_thread t r = (rr_thread r = t \<and> active_status (rr_status r))"

definition create_or_reject :: "string \<Rightarrow> string \<Rightarrow> run_request \<Rightarrow> 'w run_manager \<Rightarrow> run_error + 'w run_manager" where
  "create_or_reject i now q m =
     (if rq_strategy q \<notin> set SUPPORTED_STRATEGIES then Inl (Unsupported_Strategy (rq_strategy q))
      else if rq_strategy q = ''reject'' \<and> list_ex (holds_thread (rq_thread q)) (runs_of m) then Inl (Conflict (rq_thread q))
      else Inr (create_run i now q
        (if rq_strategy q = ''reject'' then m else interrupt_runs (holds_thread (rq_thread q)) (rq_strategy q) now m)))"

definition change_run :: "string \<Rightarrow> (run_record \<Rightarrow> run_record) \<Rightarrow> 'w run_manager \<Rightarrow> 'w run_manager" where
  "change_run i f m = (case map_of (rm_runs m) i of None \<Rightarrow> m | Some r \<Rightarrow> m\<lparr>rm_runs := dset (rm_runs m) i (f r)\<rparr>)"

definition attach_task :: "string \<Rightarrow> 'w run_manager \<Rightarrow> 'w run_manager" where
  "attach_task i = change_run i (\<lambda>r. r\<lparr>rr_task := Some Task_New\<rparr>)"

definition set_status :: "string \<Rightarrow> run_status \<Rightarrow> string \<Rightarrow> string option \<Rightarrow> 'w run_manager \<Rightarrow> 'w run_manager" where
  "set_status i status now err = change_run i (\<lambda>r.
     r\<lparr>rr_status := status, rr_updated := now, rr_error := (case err of None \<Rightarrow> rr_error r | Some e \<Rightarrow> Some e)\<rparr>)"

definition cancel_run :: "string \<Rightarrow> string \<Rightarrow> string \<Rightarrow> 'w run_manager \<Rightarrow> 'w run_manager \<times> bool" where
  "cancel_run i action now m =
     (case map_of (rm_runs m) i of
        None \<Rightarrow> (m, False)
      | Some r \<Rightarrow> if \<not> active_status (rr_status r) then (m, False)
          else (interrupt_runs (\<lambda>r'. rr_id r' = i) action now m, True))"

definition cleanup_run :: "string \<Rightarrow> 'w run_manager \<Rightarrow> 'w run_manager" where
  "cleanup_run i m = m\<lparr>rm_runs := ddel (rm_runs m) i\<rparr>"

text \<open>What the worker does: begins, ends its stream, drains in its \<open>finally\<close>, and its task is done.\<close>

definition set_task :: "string \<Rightarrow> run_task \<Rightarrow> 'w run_manager \<Rightarrow> 'w run_manager" where
  "set_task i t = change_run i (\<lambda>r. r\<lparr>rr_task := Some t\<rparr>)"

definition start_task :: "string \<Rightarrow> string \<Rightarrow> 'w run_manager \<Rightarrow> 'w run_manager" where
  "start_task i now m = set_status i Run_Running now None (set_task i Task_Running m)"

datatype stream_end = Stream_Ended | Stream_Cancelled | Stream_Raised string

text \<open>The final status, its error, and whether the thread is rolled back.\<close>

definition final_status :: "stream_end \<Rightarrow> run_record \<Rightarrow> run_status \<times> string option \<times> bool" where
  "final_status how r =
     (case how of
        Stream_Raised msg \<Rightarrow> (Run_Error, Some msg, False)
      | Stream_Ended \<Rightarrow>
          if rr_abort r then
            (if rr_action r = ''rollback'' then (Run_Error, Some ''Rolled back by user'', True) else (Run_Interrupted, None, False))
          else (Run_Success, None, False)
      | Stream_Cancelled \<Rightarrow>
          if rr_action r = ''rollback'' then (Run_Error, Some ''Rolled back by user'', True) else (Run_Interrupted, None, False))"

definition close_task :: "string \<Rightarrow> stream_end \<Rightarrow> string \<Rightarrow> 'w run_manager \<Rightarrow> 'w run_manager" where
  "close_task i how now m =
     (case map_of (rm_runs m) i of
        None \<Rightarrow> m
      | Some r \<Rightarrow> (let (status, err, _) = final_status how r in set_task i Task_Closing (set_status i status now err m)))"

definition finish_task :: "string \<Rightarrow> 'w run_manager \<Rightarrow> 'w run_manager" where
  "finish_task i m =
     (case map_of (rm_runs m) i of
        None \<Rightarrow> m
      | Some r \<Rightarrow> set_task i Task_Done (m\<lparr>rm_drains := rm_drains m @ [(rr_thread r, rr_id r)]\<rparr>))"

subsection \<open>The runs of a thread\<close>

definition list_by_thread :: "'w run_manager \<Rightarrow> string \<Rightarrow> run_record list" where
  "list_by_thread m t = filter (\<lambda>r. rr_thread r = t) (runs_of m)"

definition or_blank :: "string option \<Rightarrow> string" where
  "or_blank x = (case x of None \<Rightarrow> [] | Some s \<Rightarrow> s)"

definition record_from_row :: "string \<Rightarrow> run_row \<Rightarrow> run_record" where
  "record_from_row i row =
     \<lparr>rr_id = i, rr_thread = or_blank (rw_thread row), rr_assistant = rw_assistant row,
      rr_status = (case run_status_of (case rw_status row of None \<Rightarrow> ''None'' | Some s \<Rightarrow> s) of None \<Rightarrow> Run_Error | Some s \<Rightarrow> s),
      rr_on_disconnect = Cancel_Run,
      rr_strategy = (case text_or (rw_strategy row) None of None \<Rightarrow> ''reject'' | Some s \<Rightarrow> s),
      rr_metadata = (case rw_metadata row of None \<Rightarrow> [] | Some d \<Rightarrow> d),
      rr_kwargs = (case rw_kwargs row of None \<Rightarrow> [] | Some d \<Rightarrow> d),
      rr_created = or_blank (rw_created row),
      rr_updated = or_blank (text_or (rw_updated row) (rw_created row)),
      rr_task = None, rr_abort = False, rr_action = ''interrupt'', rr_error = rw_error row\<rparr>"

definition last_n :: "int \<Rightarrow> 'a list \<Rightarrow> 'a list" where
  "last_n n xs = (if n = 0 then xs else if n < 0 then drop (nat (- n)) xs else drop (length xs - nat n) xs)"

fun history_rows :: "string \<Rightarrow> (string \<times> run_record) list \<Rightarrow> string list \<Rightarrow> run_row list \<Rightarrow> run_record list \<times> string list" where
  "history_rows t live seen [] = ([], seen)"
| "history_rows t live seen (row # rows) =
     (case text_or (rw_id row) None of
        None \<Rightarrow> history_rows t live seen rows
      | Some i \<Rightarrow>
          if i \<in> set seen \<or> (rw_thread row \<noteq> None \<and> rw_thread row \<noteq> Some t) then history_rows t live seen rows
          else (let (out, seen') = history_rows t live (seen @ [i]) rows
                in ((case map_of live i of None \<Rightarrow> record_from_row i row | Some r \<Rightarrow> r) # out, seen')))"

text \<open>The store's rows come newest first; no user in context lists this process's runs only.\<close>

definition list_history :: "bool \<Rightarrow> run_row list option option \<Rightarrow> int \<Rightarrow> 'w run_manager \<Rightarrow> string \<Rightarrow> run_record list" where
  "list_history user_known rows limit m t =
     (let live = list_by_thread m t in
      case (if user_known then rows else None) of
        None \<Rightarrow> last_n limit live
      | Some None \<Rightarrow> last_n limit live
      | Some (Some rows) \<Rightarrow>
          let (out, seen) = history_rows t (map (\<lambda>r. (rr_id r, r)) live) [] (rev rows)
          in last_n limit (out @ filter (\<lambda>r. rr_id r \<notin> set seen) live))"

end
