(* ===== verification/Gateway_Access.thy ===== *)
theory Gateway_Access
  imports Datetimes Stores
begin

text \<open>
  Who may act in the gateway and on whose records (\<open>backend/app/gateway/ownership.py\<close>), and the operator's
  commands on accounts (\<open>gateway/auth/accounts.py\<close>): one owner account, pinned by the row that the first account
  is created with. A refused request is the status of its \<open>HTTPException\<close>. The environment variable that names
  an owner arrives stripped; a missing database and failing transactions other than a lost race are left out,
  as are thread ids no row is kept for.
\<close>

record account =
  ac_id :: string
  ac_email :: string
  ac_hash :: "string option"
  ac_role :: string
  ac_created :: instant
  ac_needs_setup :: bool
  ac_token_version :: int
  ac_disabled_at :: "instant option"
  ac_disabled_reason :: "string option"

text \<open>The tables of accounts, the claim row's user, and the owners of threads and runs by id.\<close>

record account_db =
  db_users :: "account list"
  db_claim :: "string option"
  db_threads :: "(string \<times> string option) list"
  db_runs :: "(string \<times> string option) list"

subsection \<open>The owner account\<close>

definition enabled :: "account \<Rightarrow> bool" where
  "enabled u = (ac_disabled_at u = None)"

definition oldest_enabled :: "account_db \<Rightarrow> string option" where
  "oldest_enabled db = (case sort_key ac_created (sort_key ac_id (filter enabled (db_users db))) of
     [] \<Rightarrow> None | u # _ \<Rightarrow> Some (ac_id u))"

definition owner_user_id :: "string \<Rightarrow> account_db \<Rightarrow> string option" where
  "owner_user_id env db =
     (let named = (if env = [] then (case db_claim db of None \<Rightarrow> [] | Some i \<Rightarrow> i) else env) in
      if named \<noteq> [] then map_option ac_id (find (\<lambda>u. ac_id u = named \<and> enabled u) (db_users db))
      else oldest_enabled db)"

definition pin_owner :: "string \<Rightarrow> account_db \<Rightarrow> account_db \<times> string option" where
  "pin_owner env db =
     (if db_claim db \<noteq> None then (db, None)
      else case owner_user_id env db of None \<Rightarrow> (db, None) | Some i \<Rightarrow> (db\<lparr>db_claim := Some i\<rparr>, Some i))"

definition log_owner_at_startup :: "string \<Rightarrow> account_db \<Rightarrow> account_db \<times> string option" where
  "log_owner_at_startup env db = (let (db, _) = pin_owner env db in (db, owner_user_id env db))"

definition any_account_exists :: "account_db \<Rightarrow> bool" where
  "any_account_exists db = (db_users db \<noteq> [])"

definition first_account :: "string \<Rightarrow> string \<Rightarrow> string \<Rightarrow> string \<Rightarrow> instant \<Rightarrow> account" where
  "first_account i email hash role now =
     \<lparr>ac_id = i, ac_email = email, ac_hash = Some hash, ac_role = role, ac_created = now, ac_needs_setup = False,
      ac_token_version = 0, ac_disabled_at = None, ac_disabled_reason = None\<rparr>"

text \<open>The transaction of \<open>create_first_account\<close>: the claim, then the account; a taken key rolls both back.\<close>

definition insert_first_account :: "account \<Rightarrow> account_db \<Rightarrow> account_db \<times> account option" where
  "insert_first_account u db =
     (if db_claim db \<noteq> None then (db, None)
      else if list_ex (\<lambda>v. ac_id v = ac_id u \<or> ac_email v = ac_email u) (db_users db) then (db, None)
      else (db\<lparr>db_claim := Some (ac_id u), db_users := db_users db @ [u]\<rparr>, Some u))"

definition create_first_account :: "account \<Rightarrow> account_db \<Rightarrow> account_db \<times> account option" where
  "create_first_account u db = (if any_account_exists db then (db, None) else insert_first_account u db)"

definition LEGACY_DISABLED_PREFIX :: string where "LEGACY_DISABLED_PREFIX = ''!disabled!''"

text \<open>SQLite's \<open>LIKE\<close> does not tell ASCII capitals from small letters, other databases do.\<close>

definition prefix_disabled :: "bool \<Rightarrow> account \<Rightarrow> bool" where
  "prefix_disabled any_case u =
     (case ac_hash u of None \<Rightarrow> False
      | Some h \<Rightarrow> (let f = (if any_case then py_lower else id) in
          f (take (length LEGACY_DISABLED_PREFIX) h) = f LEGACY_DISABLED_PREFIX))"

definition migrated :: "bool \<Rightarrow> instant \<Rightarrow> account \<Rightarrow> account" where
  "migrated any_case now u =
     (if \<not> prefix_disabled any_case u then u
      else u\<lparr>ac_hash := map_option (drop (length LEGACY_DISABLED_PREFIX)) (ac_hash u),
             ac_disabled_at := (case ac_disabled_at u of None \<Rightarrow> Some now | Some t \<Rightarrow> Some t),
             ac_disabled_reason := (case ac_disabled_at u of
                None \<Rightarrow> Some ''migrated from the '!disabled!' password-hash prefix'' | Some _ \<Rightarrow> ac_disabled_reason u),
             ac_token_version := ac_token_version u + 1\<rparr>)"

definition migrate_prefix_disabled_accounts :: "bool \<Rightarrow> instant \<Rightarrow> account_db \<Rightarrow> account_db \<times> nat" where
  "migrate_prefix_disabled_accounts any_case now db =
     (db\<lparr>db_users := map (migrated any_case now) (db_users db)\<rparr>, length (filter (prefix_disabled any_case) (db_users db)))"

definition owned_rows :: "string \<Rightarrow> (string \<times> string option) list \<Rightarrow> (string \<times> string option) list" where
  "owned_rows owner = map (\<lambda>(i, u). (i, case u of None \<Rightarrow> Some owner | Some v \<Rightarrow> Some v))"

definition assign_ownerless_rows_to_owner :: "string \<Rightarrow> account_db \<Rightarrow> account_db" where
  "assign_ownerless_rows_to_owner env db =
     (case owner_user_id env db of None \<Rightarrow> db
      | Some i \<Rightarrow> db\<lparr>db_threads := owned_rows i (db_threads db), db_runs := owned_rows i (db_runs db)\<rparr>)"

text \<open>\<open>accounts disable\<close> and \<open>accounts enable\<close>.\<close>

definition update_user :: "account \<Rightarrow> account_db \<Rightarrow> account_db" where
  "update_user u db = db\<lparr>db_users := map (\<lambda>v. if ac_id v = ac_id u then u\<lparr>ac_created := ac_created v\<rparr> else v) (db_users db)\<rparr>"

datatype account_error = No_Account string | Owner_Needs_Force

definition set_disabled :: "string \<Rightarrow> instant \<Rightarrow> string \<Rightarrow> bool \<Rightarrow> string option \<Rightarrow> bool \<Rightarrow> account_db \<Rightarrow> account_error + account_db" where
  "set_disabled env now email disabled reason force db =
     (case find (\<lambda>u. ac_email u = email) (db_users db) of
        None \<Rightarrow> Inl (No_Account email)
      | Some u \<Rightarrow>
          if disabled then
            (if \<not> force \<and> Some (ac_id u) = owner_user_id env db then Inl Owner_Needs_Force
             else Inr (update_user (u\<lparr>ac_disabled_at := (case ac_disabled_at u of None \<Rightarrow> Some now | Some t \<Rightarrow> Some t),
               ac_disabled_reason := (if reason \<noteq> None \<and> reason \<noteq> Some [] then reason
                 else if ac_disabled_reason u \<noteq> None \<and> ac_disabled_reason u \<noteq> Some [] then ac_disabled_reason u
                 else Some ''disabled by the operator''),
               ac_token_version := ac_token_version u + 1\<rparr>) db))
          else Inr (update_user (u\<lparr>ac_disabled_at := None, ac_disabled_reason := None\<rparr>) db))"

subsection \<open>Requests\<close>

text \<open>The caller \<open>AuthMiddleware\<close> decided on: an account, or the internal principal.\<close>

record principal =
  pr_id :: string
  pr_role :: string
  pr_disabled :: bool

definition INTERNAL_ROLE :: string where "INTERNAL_ROLE = ''internal''"
definition DEFAULT_USER_ID :: string where "DEFAULT_USER_ID = ''default''"
definition SYSTEM_OWNERS :: "string list" where "SYSTEM_OWNERS = [DEFAULT_USER_ID]"

definition is_internal :: "principal \<Rightarrow> bool" where
  "is_internal p = (pr_role p = INTERNAL_ROLE)"

definition is_owner :: "string \<Rightarrow> account_db \<Rightarrow> principal option \<Rightarrow> bool" where
  "is_owner env db p = (case p of None \<Rightarrow> False
     | Some p \<Rightarrow> \<not> is_internal p \<and> owner_user_id env db = Some (pr_id p))"

text \<open>\<open>admits\<close> is \<open>admits_additional_accounts()\<close>: false but in tests.\<close>

definition account_admitted :: "bool \<Rightarrow> string \<Rightarrow> account_db \<Rightarrow> principal option \<Rightarrow> bool" where
  "account_admitted admits env db p = (case p of None \<Rightarrow> False
     | Some q \<Rightarrow> if is_internal q then True else if pr_disabled q then False
         else if is_owner env db p then True else admits)"

definition can_access :: "string \<Rightarrow> account_db \<Rightarrow> principal option \<Rightarrow> string option \<Rightarrow> bool" where
  "can_access env db p record_owner = (case p of None \<Rightarrow> False
     | Some q \<Rightarrow>
         if is_internal q then True
         else if record_owner = Some (pr_id q) then True
         else if (case record_owner of None \<Rightarrow> True | Some i \<Rightarrow> i \<in> set SYSTEM_OWNERS) then is_owner env db p
         else False)"

datatype http_error = Http nat string

definition not_found :: "string \<Rightarrow> string \<Rightarrow> http_error" where
  "not_found what ident = Http 404 (what @ '' '' @ ident @ '' not found'')"

definition require_access :: "string \<Rightarrow> account_db \<Rightarrow> principal option \<Rightarrow> string option \<Rightarrow> string \<Rightarrow> string \<Rightarrow> http_error + unit" where
  "require_access env db p record_owner what ident =
     (if can_access env db p record_owner then Inr () else Inl (not_found what ident))"

definition filter_accessible :: "string \<Rightarrow> account_db \<Rightarrow> principal option \<Rightarrow> ('a \<Rightarrow> string option) \<Rightarrow> 'a list \<Rightarrow> 'a list" where
  "filter_accessible env db p owner_of records = filter (\<lambda>r. can_access env db p (owner_of r)) records"

definition principal_id :: "principal option \<Rightarrow> http_error + string" where
  "principal_id p = (case p of None \<Rightarrow> Inl (Http 401 ''Authentication required'') | Some q \<Rightarrow> Inr (pr_id q))"

definition require_person :: "principal option \<Rightarrow> http_error + unit" where
  "require_person p = (case p of None \<Rightarrow> Inl (Http 401 ''Authentication required'')
     | Some q \<Rightarrow> if is_internal q then Inl (Http 403 ''Only a person signed in as the owner can answer a confirmation.'') else Inr ())"

definition require_owner_account :: "string \<Rightarrow> account_db \<Rightarrow> principal option \<Rightarrow> http_error + unit" where
  "require_owner_account env db p = (case p of None \<Rightarrow> Inl (Http 401 ''Authentication required'')
     | Some q \<Rightarrow> if is_internal q \<or> is_owner env db p then Inr () else Inl (Http 403 ''Only the owner account can see this.''))"

text \<open>\<open>ThreadMetaRepository.check_access\<close> and \<open>get\<close> on the table of threads.\<close>

definition check_access :: "account_db \<Rightarrow> string \<Rightarrow> string \<Rightarrow> bool \<Rightarrow> bool" where
  "check_access db t user require_existing =
     (case map_of (db_threads db) t of None \<Rightarrow> \<not> require_existing | Some None \<Rightarrow> True | Some (Some u) \<Rightarrow> u = user)"

definition require_thread_access :: "account_db \<Rightarrow> principal option \<Rightarrow> string \<Rightarrow> bool \<Rightarrow> http_error + unit" where
  "require_thread_access db p t require_existing = bind_res (principal_id p) (\<lambda>caller.
     if check_access db t caller require_existing then Inr () else Inl (not_found ''Thread'' t))"

definition card_thread_open_to :: "string option \<Rightarrow> string option \<Rightarrow> string option \<Rightarrow> bool" where
  "card_thread_open_to thread_owner answerer install_owner =
     (if answerer = None then False
      else if thread_owner \<noteq> None \<and> thread_owner = answerer then True
      else (case thread_owner of None \<Rightarrow> False | Some i \<Rightarrow> i \<in> set SYSTEM_OWNERS)
        \<and> install_owner \<noteq> None \<and> answerer = install_owner)"

definition require_card_thread_access :: "string \<Rightarrow> account_db \<Rightarrow> principal option \<Rightarrow> string \<Rightarrow> http_error + unit" where
  "require_card_thread_access env db p t = bind_res (principal_id p) (\<lambda>caller.
     if check_access db t caller False then Inr ()
     else case map_of (db_threads db) t of
       None \<Rightarrow> Inl (not_found ''Thread'' t)
     | Some owner \<Rightarrow>
         (let install = (case p of Some q \<Rightarrow> if is_internal q then None else owner_user_id env db | None \<Rightarrow> None) in
          if card_thread_open_to owner (Some caller) install then Inr () else Inl (not_found ''Thread'' t)))"

subsection \<open>One account\<close>

text \<open>
  Registrations on any worker: a request first looks whether an account exists, and its transaction comes
  later. Startup migrates, pins and assigns; the operator disables and enables.
\<close>

record install =
  in_db :: account_db
  in_registering :: "account list"

inductive account_step :: "install \<Rightarrow> install \<Rightarrow> bool" where
  look: "\<not> any_account_exists (in_db s) \<Longrightarrow> account_step s (s\<lparr>in_registering := u # in_registering s\<rparr>)"
| commit: "u \<in> set (in_registering s) \<Longrightarrow>
    account_step s (s\<lparr>in_db := fst (insert_first_account u (in_db s)), in_registering := remove1 u (in_registering s)\<rparr>)"
| startup: "account_step s (s\<lparr>in_db := assign_ownerless_rows_to_owner env
    (fst (log_owner_at_startup env (fst (migrate_prefix_disabled_accounts any_case now (in_db s)))))\<rparr>)"
| disable: "set_disabled env now email off reason force (in_db s) = Inr db \<Longrightarrow> account_step s (s\<lparr>in_db := db\<rparr>)"

definition fresh_install :: install where
  "fresh_install = \<lparr>in_db = \<lparr>db_users = [], db_claim = None, db_threads = [], db_runs = []\<rparr>, in_registering = []\<rparr>"

inductive install_reachable :: "install \<Rightarrow> bool" where
  fresh: "install_reachable fresh_install"
| step: "install_reachable s \<Longrightarrow> account_step s s' \<Longrightarrow> install_reachable s'"

text \<open>No account and no claim, or one account and the claim that names it.\<close>

definition one_account :: "account_db \<Rightarrow> bool" where
  "one_account db = (case db_users db of [] \<Rightarrow> db_claim db = None | [u] \<Rightarrow> db_claim db = Some (ac_id u) | _ \<Rightarrow> False)"

lemma one_account_cases:
  assumes "one_account db"
  obtains "db_users db = []" "db_claim db = None" | u where "db_users db = [u]" "db_claim db = Some (ac_id u)"
  using assms by (auto simp: one_account_def split: list.splits)

lemma one_account_insert: "one_account db \<Longrightarrow> one_account (fst (insert_first_account u db))"
  by (erule one_account_cases) (auto simp: one_account_def insert_first_account_def)

lemma migrated_id [simp]: "ac_id (migrated any_case now u) = ac_id u"
  by (simp add: migrated_def)

lemma one_account_migrate: "one_account db \<Longrightarrow> one_account (fst (migrate_prefix_disabled_accounts any_case now db))"
  by (erule one_account_cases) (simp_all add: one_account_def migrate_prefix_disabled_accounts_def)

lemma one_account_startup: "one_account db \<Longrightarrow> one_account (fst (log_owner_at_startup env db))"
  by (erule one_account_cases)
    (auto simp: one_account_def log_owner_at_startup_def pin_owner_def owner_user_id_def oldest_enabled_def Let_def
      split: prod.splits option.splits)

lemma one_account_assign: "one_account db \<Longrightarrow> one_account (assign_ownerless_rows_to_owner env db)"
  by (auto simp: one_account_def assign_ownerless_rows_to_owner_def split: option.splits list.splits)

lemma one_account_update: "one_account db \<Longrightarrow> one_account (update_user u db)"
  by (erule one_account_cases) (auto simp: one_account_def update_user_def)

lemma one_account_disable: "one_account db \<Longrightarrow> set_disabled env now email off reason force db = Inr db' \<Longrightarrow> one_account db'"
  by (auto simp: set_disabled_def one_account_update split: option.splits if_splits)

lemma reachable_one_account: "install_reachable s \<Longrightarrow> one_account (in_db s)"
proof (induction rule: install_reachable.induct)
  case fresh
  then show ?case by (simp add: fresh_install_def one_account_def)
next
  case (step s s')
  from step.hyps(2) step.IH show ?case
    by cases (auto simp: one_account_insert one_account_migrate one_account_startup one_account_assign intro: one_account_disable)
qed

lemma owner_is_claimed: "one_account db \<Longrightarrow> owner_user_id env db = Some i \<Longrightarrow> db_claim db = Some i \<and> map ac_id (db_users db) = [i]"
  by (erule one_account_cases) (auto simp: owner_user_id_def oldest_enabled_def Let_def split: if_splits)

text \<open>
  C21. However registrations race, and whatever accounts are disabled or migrated, an installation that starts empty never
  has a second account; and a person is admitted only as that one account, the one the claim names, and only while it is enabled.
\<close>

theorem only_the_first_account_is_admitted:
  assumes "install_reachable s"
  shows "length (db_users (in_db s)) \<le> 1
    \<and> (\<forall>env p. account_admitted False env (in_db s) (Some p) \<longrightarrow> \<not> is_internal p \<longrightarrow>
        \<not> pr_disabled p \<and> (\<exists>u. db_users (in_db s) = [u] \<and> ac_id u = pr_id p \<and> enabled u \<and> db_claim (in_db s) = Some (pr_id p)))"
proof (intro conjI allI impI)
  note one = reachable_one_account [OF assms]
  show "length (db_users (in_db s)) \<le> 1" using one by (rule one_account_cases) simp_all
  fix env p assume p: "account_admitted False env (in_db s) (Some p)" "\<not> is_internal p"
  then show "\<not> pr_disabled p" by (auto simp: account_admitted_def)
  have own: "owner_user_id env (in_db s) = Some (pr_id p)"
    using p by (auto simp: account_admitted_def is_owner_def split: if_splits)
  from owner_is_claimed [OF one this] obtain u where
    u: "db_users (in_db s) = [u]" "ac_id u = pr_id p" "db_claim (in_db s) = Some (pr_id p)" by auto
  moreover have "enabled u" using own u by (auto simp: owner_user_id_def oldest_enabled_def Let_def split: if_splits)
  ultimately show "\<exists>u. db_users (in_db s) = [u] \<and> ac_id u = pr_id p \<and> enabled u \<and> db_claim (in_db s) = Some (pr_id p)" by blast
qed

definition ann :: account where "ann = first_account ''u1'' ''ann@x'' ''h'' ''admin'' 5"
definition ben :: account where "ben = first_account ''u2'' ''ben@x'' ''k'' ''admin'' 5"

text \<open>Two registrations that both saw no account: the second transaction changes nothing.\<close>

definition ann_won :: account_db where
  "ann_won = fst (insert_first_account ben (fst (insert_first_account ann (in_db fresh_install))))"

lemma ann_won_reachable: "install_reachable \<lparr>in_db = ann_won, in_registering = []\<rparr>"
proof -
  let ?s = "fresh_install\<lparr>in_registering := [ann, ben]\<rparr>"
  let ?t = "?s\<lparr>in_db := fst (insert_first_account ann (in_db ?s)), in_registering := [ben]\<rparr>"
  have "account_step fresh_install (fresh_install\<lparr>in_registering := ben # in_registering fresh_install\<rparr>)"
    by (rule account_step.look) (simp add: fresh_install_def any_account_exists_def)
  then have 1: "install_reachable (fresh_install\<lparr>in_registering := [ben]\<rparr>)"
    using install_reachable.fresh install_reachable.step by (force simp: fresh_install_def)
  have "account_step (fresh_install\<lparr>in_registering := [ben]\<rparr>) ?s"
    using account_step.look [of "fresh_install\<lparr>in_registering := [ben]\<rparr>" ann] by (simp add: fresh_install_def any_account_exists_def)
  then have 2: "install_reachable ?s" using 1 install_reachable.step by blast
  have "account_step ?s ?t" using account_step.commit [of ann ?s] by simp
  then have 3: "install_reachable ?t" using 2 install_reachable.step by blast
  have "account_step ?t (?t\<lparr>in_db := fst (insert_first_account ben (in_db ?t)), in_registering := []\<rparr>)"
    using account_step.commit [of ben ?t] by simp
  then have "install_reachable (?t\<lparr>in_db := fst (insert_first_account ben (in_db ?t)), in_registering := []\<rparr>)"
    using 3 install_reachable.step by blast
  then show ?thesis by (simp add: ann_won_def fresh_install_def)
qed

theorem only_the_first_account_is_admitted_witness:
  "\<exists>u. db_users ann_won = [u] \<and> ac_id u = ''u1'' \<and> enabled u \<and> db_claim ann_won = Some ''u1''"
proof -
  have "account_admitted False [] ann_won (Some \<lparr>pr_id = ''u1'', pr_role = ''admin'', pr_disabled = False\<rparr>)"
    "\<not> is_internal \<lparr>pr_id = ''u1'', pr_role = ''admin'', pr_disabled = False\<rparr>"
    by (simp_all add: ann_won_def ann_def ben_def first_account_def insert_first_account_def fresh_install_def account_admitted_def
      is_owner_def owner_user_id_def is_internal_def INTERNAL_ROLE_def enabled_def Let_def)
  then show ?thesis using only_the_first_account_is_admitted [OF ann_won_reachable] by fastforce
qed

text \<open>
  The owner may answer the cards of the system's threads and of their own, and of no other person's.
\<close>

lemma card_thread_needs_owner:
  "card_thread_open_to owner (Some p) inst \<longleftrightarrow> owner = Some p \<or> (owner = Some DEFAULT_USER_ID \<and> inst = Some p)"
  by (auto simp: card_thread_open_to_def SYSTEM_OWNERS_def split: option.splits)

end
