(* ===== verification/Result_Posts.thy ===== *)
theory Result_Posts
  imports Run_Manager Gateway_Access Pending
begin

text \<open>
  Posting the result of a confirmed call into its chat (\<open>backend/app/gateway/routers/confirmations.py\<close> with
  \<open>policy/surface_run.py\<close>), through the registry of runs. A chat is the list of messages of its thread's latest
  checkpoint; each access to the checkpointer may fail, as \<open>faults\<close> says. Sleeping retries are a list.
  The redacted text of a result (\<open>result_report\<close>) is an argument.
\<close>

record chat_message =
  cm_id :: string
  cm_content :: string
  cm_name :: "string option"
  cm_confirmation :: "dict option"

definition invited_requester :: "pending_action \<Rightarrow> bool" where
  "invited_requester a = (pa_requester a \<noteq> [] \<and> pa_requester a \<noteq> ''lead_agent'')"

definition ended_failed :: "pending_action \<Rightarrow> bool" where
  "ended_failed a = (pa_outcome a = Some Failed \<or> pa_outcome a = Some Targets_Drifted)"

definition report_id :: "string \<Rightarrow> string" where
  "report_id i = ''confirmation-'' @ i"

definition report_message :: "pending_action \<Rightarrow> string \<Rightarrow> chat_message" where
  "report_message a content =
     \<lparr>cm_id = report_id (pa_id a), cm_content = content,
      cm_name = (if invited_requester a then Some (pa_requester a) else None),
      cm_confirmation = Some
        [(''action_id'', PStr (pa_id a)), (''tool_name'', PStr (pa_tool_name a)), (''agent'', PStr (pa_requester a)),
         (''delegation_chain'', PList (map PStr (pa_chain a))),
         (''outcome'', PStr (case pa_outcome a of
             Some oc \<Rightarrow> if ended_failed a then outcome_str oc else ''executed'' | None \<Rightarrow> ''executed'')),
         (''continue_agent'', if invited_requester a \<and> \<not> ended_failed a then PStr (pa_requester a) else PNone),
         (''provenance'', PStr ''untrusted_tool_output'')]\<rparr>"

definition failure_report :: "(string \<Rightarrow> string option) \<Rightarrow> string \<Rightarrow> pending_action \<Rightarrow> string \<Rightarrow> string" where
  "failure_report redacted withheld a reason =
     (let who = (if invited_requester a then pa_requester a @ '' could not complete'' else ''I could not complete'');
          composed = py_strip (who @ '' **'' @ pa_tool_name a @ ''** after you confirmed it. '' @ reason)
      in case redacted composed of
           Some final \<Rightarrow> final
         | None \<Rightarrow> ''**'' @ pa_tool_name a @ ''** did not complete after you confirmed it. '' @ withheld)"

subsection \<open>Appending to a checkpoint\<close>

text \<open>Which access raises (reading, writing, reading back), and whether a write that returned was lost.\<close>

record faults =
  ft_read :: bool
  ft_put :: bool
  ft_lost :: bool
  ft_reread :: bool

definition no_faults :: faults where
  "no_faults = \<lparr>ft_read = False, ft_put = False, ft_lost = False, ft_reread = False\<rparr>"

datatype append_outcome = WRITTEN | GONE | POST_ERROR

type_synonym chats = "(string \<times> chat_message list) list"

definition has_message :: "chat_message list \<Rightarrow> string \<Rightarrow> bool" where
  "has_message ms i = list_ex (\<lambda>m. cm_id m = i) ms"

definition append_to_checkpoint :: "faults \<Rightarrow> string \<Rightarrow> chat_message \<Rightarrow> chats \<Rightarrow> chats \<times> append_outcome" where
  "append_to_checkpoint ft t msg chats =
     (if ft_read ft then (chats, POST_ERROR)
      else case map_of chats t of
        None \<Rightarrow> (chats, GONE)
      | Some ms \<Rightarrow>
          if has_message ms (cm_id msg) then (chats, WRITTEN)
          else if ft_put ft then (chats, POST_ERROR)
          else let chats' = (if ft_lost ft then chats else dset chats t (ms @ [msg])) in
            if ft_reread ft then (chats', POST_ERROR)
            else (chats', if (case map_of chats' t of None \<Rightarrow> False | Some ms' \<Rightarrow> has_message ms' (cm_id msg))
                          then WRITTEN else POST_ERROR))"

subsection \<open>Posting, waiting and retrying\<close>

record post =
  po_action :: pending_action
  po_message :: chat_message

record post_world =
  pw_store :: store
  pw_chats :: chats
  pw_retries :: "(rat \<times> post) list"
  pw_ticks :: nat

definition POST_RETRY_DELAYS :: "rat list" where "POST_RETRY_DELAYS = [1, 4, 15, 60]"
definition ELSEWHERE_RETRY_DELAY :: rat where "ELSEWHERE_RETRY_DELAY = 5"

definition post_thread :: "post \<Rightarrow> string" where
  "post_thread p = or_blank (pa_thread_id (po_action p))"

definition post_id :: "post \<Rightarrow> string" where
  "post_id p = pa_id (po_action p)"

definition schedule_post :: "rat \<Rightarrow> post \<Rightarrow> post_world \<Rightarrow> post_world" where
  "schedule_post delay p w = w\<lparr>pw_retries := pw_retries w @ [(delay, p)]\<rparr>"

definition mark_post :: "string \<Rightarrow> string \<Rightarrow> string option \<Rightarrow> int option \<Rightarrow> post_world \<Rightarrow> post_world" where
  "mark_post i state content attempts w = w\<lparr>pw_store := set_post_state (pw_store w) i state content attempts\<rparr>"

definition schedule_retry :: "post \<Rightarrow> post_world \<Rightarrow> post_world \<times> string" where
  "schedule_retry p w =
     (let attempts = (case store_get (pw_store w) (post_id p) of None \<Rightarrow> 0 | Some a \<Rightarrow> pa_post_attempts a) + 1 in
      if attempts > int (length POST_RETRY_DELAYS) then (mark_post (post_id p) ''failed'' None (Some attempts) w, ''failed'')
      else (schedule_post (POST_RETRY_DELAYS ! nat (attempts - 1)) p
              (mark_post (post_id p) ''waiting'' None (Some attempts) w), ''retrying''))"

text \<open>The closure \<open>write\<close> of \<open>post_result\<close>, with what it leaves in \<open>seen\<close>; it always returns \<open>True\<close>.\<close>

definition write_post :: "(nat \<Rightarrow> faults) \<Rightarrow> post \<Rightarrow> post_world \<Rightarrow> post_world \<times> string" where
  "write_post ft p w =
     (let (chats, outcome) = append_to_checkpoint (ft (pw_ticks w)) (post_thread p) (po_message p) (pw_chats w);
          w = w\<lparr>pw_chats := chats, pw_ticks := Suc (pw_ticks w)\<rparr>
      in case outcome of
           WRITTEN \<Rightarrow> (mark_post (post_id p) ''posted'' None None w, ''written'')
         | GONE \<Rightarrow> (mark_post (post_id p) ''dropped'' None None w, ''dropped'')
         | POST_ERROR \<Rightarrow> schedule_retry p w)"

definition perform_post :: "(nat \<Rightarrow> faults) \<Rightarrow> post \<Rightarrow> post_world \<Rightarrow> post_world \<times> bool" where
  "perform_post ft p w = (fst (write_post ft p w), True)"

definition recorded_waiting :: "post \<Rightarrow> post_world \<Rightarrow> post_world" where
  "recorded_waiting p w =
     (if (case store_get (pw_store w) (post_id p) of None \<Rightarrow> True | Some a \<Rightarrow> pa_post_state a \<noteq> ''waiting'')
      then mark_post (post_id p) ''waiting'' (Some (cm_content (po_message p))) None w else w)"

definition post_result ::
  "(nat \<Rightarrow> faults) \<Rightarrow> bool \<Rightarrow> post \<Rightarrow> post run_manager \<times> post_world \<Rightarrow> (post run_manager \<times> post_world) \<times> string" where
  "post_result ft elsewhere p mw =
     (let (m, w) = mw; w = recorded_waiting p w;
          ((m', w'), state) = write_when_idle (perform_post ft) elsewhere (post_thread p) p (m, w)
      in case state of
           Was_Queued \<Rightarrow> ((m', w'), ''queued'')
         | Is_Elsewhere \<Rightarrow> ((m', schedule_post ELSEWHERE_RETRY_DELAY p w'), ''queued'')
         | _ \<Rightarrow> ((m', w'), snd (write_post ft p w)))"

text \<open>A sleeping retry wakes.\<close>

definition fire_retry ::
  "(nat \<Rightarrow> faults) \<Rightarrow> bool \<Rightarrow> rat \<times> post \<Rightarrow> post run_manager \<times> post_world \<Rightarrow> post run_manager \<times> post_world" where
  "fire_retry ft elsewhere e mw =
     (let (m, w) = mw in fst (post_result ft elsewhere (snd e) (m, w\<lparr>pw_retries := remove1 e (pw_retries w)\<rparr>)))"

subsection \<open>At startup\<close>

definition result_may_post :: "account_db \<Rightarrow> string \<Rightarrow> string \<Rightarrow> string option \<Rightarrow> bool" where
  "result_may_post db t owner install_owner =
     (if check_access db t owner True then True
      else case map_of (db_threads db) t of None \<Rightarrow> False | Some thread_owner \<Rightarrow> card_thread_open_to thread_owner (Some owner) install_owner)"

text \<open>One action of the drain; \<open>db\<close> is \<open>None\<close> where there is no table of threads.\<close>

definition drain_one ::
  "string \<Rightarrow> account_db \<Rightarrow> bool \<Rightarrow> (nat \<Rightarrow> faults) \<Rightarrow> (string \<Rightarrow> bool) \<Rightarrow> (post run_manager \<times> post_world) \<times> nat \<Rightarrow> pending_action
     \<Rightarrow> (post run_manager \<times> post_world) \<times> nat" where
  "drain_one env db has_threads ft elsewhere acc a =
     (let ((m, w), posted) = acc in
      case or_none (pa_thread_id a) of
        None \<Rightarrow> acc
      | Some t \<Rightarrow>
          if has_threads \<and> map_of (db_threads db) t = None then ((m, mark_post (pa_id a) ''dropped'' None None w), posted)
          else let install_owner = owner_user_id env db;
                   owner = (case or_none (pa_owner_id a) of Some i \<Rightarrow> Some i | None \<Rightarrow> install_owner)
            in if has_threads \<and> (case owner of None \<Rightarrow> True | Some i \<Rightarrow> \<not> result_may_post db t i install_owner) then acc
               else let (mw', outcome) = post_result ft (elsewhere t)
                          \<lparr>po_action = a, po_message = report_message a (pa_post_content a)\<rparr> (m, w)
                 in (mw', if outcome = ''written'' then Suc posted else posted))"

definition drain_waiting_posts ::
  "string \<Rightarrow> account_db \<Rightarrow> bool \<Rightarrow> (nat \<Rightarrow> faults) \<Rightarrow> (string \<Rightarrow> bool) \<Rightarrow> post run_manager \<times> post_world
     \<Rightarrow> (post run_manager \<times> post_world) \<times> nat" where
  "drain_waiting_posts env db has_threads ft elsewhere mw =
     foldl (drain_one env db has_threads ft elsewhere) (mw, 0) (awaiting_post (pw_store (snd mw)) [''waiting''])"

end
