(* ===== verification/Posts_Facts.thy ===== *)
theory Posts_Facts
  imports Result_Posts
begin

text \<open>
  What one post does: it adds at most its own report to its own chat, keeps the reports of every chat distinct, and
  leaves its action posted, dropped, failed, or waiting with a retry. \<open>world_ok\<close> is the invariant of the world; the
  first set it takes are the reports somebody removed, with their threads; the second the ids that were ever posted.
\<close>

definition is_report :: "chat_message \<Rightarrow> bool" where
  "is_report m = starts_with (cm_id m) ''confirmation-''"

definition reports :: "chat_message list option \<Rightarrow> chat_message list" where
  "reports ms = (case ms of None \<Rightarrow> [] | Some ms \<Rightarrow> filter is_report ms)"

definition distinct_reports :: "chat_message list option \<Rightarrow> bool" where
  "distinct_reports ms = distinct (map cm_id (reports ms))"

text \<open>The ids of a chat's reports, but for those somebody removed from its thread.\<close>

definition ids_but :: "(string \<times> string) set \<Rightarrow> string \<Rightarrow> chat_message list option \<Rightarrow> string set" where
  "ids_but D t ms = {i \<in> cm_id ` set (reports ms). (t, i) \<notin> D}"

definition chat_at :: "post_world \<Rightarrow> string \<Rightarrow> chat_message list option" where
  "chat_at w t = map_of (pw_chats w) t"

definition thread_at :: "store \<Rightarrow> string \<Rightarrow> string option" where
  "thread_at st i = map_option (\<lambda>a. or_blank (pa_thread_id a)) (store_get st i)"

definition post_state_at :: "store \<Rightarrow> string \<Rightarrow> string option" where
  "post_state_at st i = map_option pa_post_state (store_get st i)"

definition wf_post :: "string set \<Rightarrow> store \<Rightarrow> post \<Rightarrow> bool" where
  "wf_post G st p = (cm_id (po_message p) = report_id (post_id p) \<and> post_id p \<in> G
     \<and> (\<forall>t. thread_at st (post_id p) = Some t \<longrightarrow> t = post_thread p))"

definition posted_present :: "(string \<times> string) set \<Rightarrow> post_world \<Rightarrow> bool" where
  "posted_present D w = (\<forall>i t. post_state_at (pw_store w) i = Some ''posted'' \<longrightarrow> thread_at (pw_store w) i = Some t \<longrightarrow> (t, report_id i) \<notin> D
     \<longrightarrow> report_id i \<in> cm_id ` set (reports (chat_at w t)))"

definition world_ok :: "(string \<times> string) set \<Rightarrow> string set \<Rightarrow> post_world \<Rightarrow> bool" where
  "world_ok D G w = (files_ok (pw_store w) \<and> (\<forall>t. distinct_reports (chat_at w t)) \<and> posted_present D w
     \<and> (\<forall>p\<in>snd ` set (pw_retries w). wf_post G (pw_store w) p))"

lemma get_set_post:
  assumes "files_ok st"
  shows "store_get (set_post_state st i s c n) j =
    (if j = i then map_option (\<lambda>a. a\<lparr>pa_post_state := s, pa_post_content := (case c of None \<Rightarrow> pa_post_content a | Some x \<Rightarrow> x),
       pa_post_attempts := (case n of None \<Rightarrow> pa_post_attempts a | Some x \<Rightarrow> x)\<rparr>) (store_get st i) else store_get st j)"
proof (cases "store_get st i")
  case (Some a)
  with files_ok_get [OF assms Some] show ?thesis by (cases c; cases n) (auto simp: set_post_state_def Let_def)
qed (auto simp: set_post_state_def)

lemma files_ok_set_post: "files_ok st \<Longrightarrow> files_ok (set_post_state st i s c n)"
  by (auto simp: set_post_state_def Let_def files_ok_save split: option.splits)

lemma thread_at_set_post [simp]: "files_ok st \<Longrightarrow> thread_at (set_post_state st i s c n) j = thread_at st j"
  by (auto simp: thread_at_def get_set_post option.map_comp o_def)

lemma post_state_set_post: "files_ok st \<Longrightarrow>
    post_state_at (set_post_state st i s c n) j = (if j = i \<and> store_get st i \<noteq> None then Some s else post_state_at st j)"
  by (cases "store_get st i") (auto simp: post_state_at_def get_set_post)

lemma is_report_report [simp]: "cm_id m = report_id i \<Longrightarrow> is_report m"
  by (simp add: is_report_def report_id_def starts_with_def)

lemma has_message_iff: "has_message ms i \<longleftrightarrow> i \<in> cm_id ` set ms"
  by (auto simp: has_message_def list_ex_iff)

lemma report_in_reports: "report_id i \<in> cm_id ` set ms \<Longrightarrow> report_id i \<in> cm_id ` set (filter is_report ms)"
proof -
  assume "report_id i \<in> cm_id ` set ms"
  then obtain m where "m \<in> set ms" "cm_id m = report_id i" by (metis imageE)
  then have "m \<in> set (filter is_report ms)" by simp
  then show "report_id i \<in> cm_id ` set (filter is_report ms)" using \<open>cm_id m = report_id i\<close> by (metis image_eqI)
qed

lemma wf_post_threads: "wf_post G st p \<Longrightarrow> (\<And>i. thread_at st' i = thread_at st i) \<Longrightarrow> wf_post G st' p"
  by (simp add: wf_post_def)

lemma append_cases:
  assumes "append_to_checkpoint ft t msg chats = (chats', outcome)"
  obtains (same) "chats' = chats" "outcome = WRITTEN \<Longrightarrow> \<exists>ms. map_of chats t = Some ms \<and> cm_id msg \<in> cm_id ` set ms"
  | (added) ms where "map_of chats t = Some ms" "cm_id msg \<notin> cm_id ` set ms" "chats' = dset chats t (ms @ [msg])"
proof (cases "ft_read ft \<or> map_of chats t = None")
  case True
  with assms show thesis by (intro same) (auto simp: append_to_checkpoint_def split: if_splits)
next
  case False
  then obtain ms where ms: "\<not> ft_read ft" "map_of chats t = Some ms" by auto
  show thesis
  proof (cases "cm_id msg \<in> cm_id ` set ms")
    case True
    with assms ms show thesis by (intro same) (auto simp: append_to_checkpoint_def has_message_iff)
  next
    case new: False
    show thesis
    proof (cases "ft_put ft \<or> ft_lost ft")
      case True
      with assms ms new show thesis
        by (intro same) (auto simp: append_to_checkpoint_def has_message_iff Let_def split: if_splits)
    next
      case False
      with assms ms new show thesis
        by (intro added [of ms]) (auto simp: append_to_checkpoint_def has_message_iff Let_def split: if_splits)
    qed
  qed
qed

text \<open>What writing one message leaves of the chats.\<close>

definition chat_added :: "post \<Rightarrow> post_world \<Rightarrow> post_world \<Rightarrow> bool" where
  "chat_added p w w' = ((\<forall>t. chat_at w' t = chat_at w t) \<or>
     (\<exists>ms. chat_at w (post_thread p) = Some ms \<and> cm_id (po_message p) \<notin> cm_id ` set ms
        \<and> (\<forall>t. chat_at w' t = (if t = post_thread p then Some (ms @ [po_message p]) else chat_at w t))))"

lemma distinct_reports_snoc:
  "distinct_reports (Some ms) \<Longrightarrow> cm_id m \<notin> cm_id ` set ms \<Longrightarrow> distinct_reports (Some (ms @ [m]))"
  by (auto simp: distinct_reports_def reports_def)

lemma chat_added_distinct: "chat_added p w w' \<Longrightarrow> distinct_reports (chat_at w t) \<Longrightarrow> distinct_reports (chat_at w' t)"
  by (auto simp: chat_added_def distinct_reports_snoc)

lemma chat_added_reports: "chat_added p w w' \<Longrightarrow> set (reports (chat_at w t)) \<subseteq> set (reports (chat_at w' t))"
  by (auto simp: chat_added_def reports_def)

lemma chat_added_other: "chat_added p w w' \<Longrightarrow> t \<noteq> post_thread p \<Longrightarrow> chat_at w' t = chat_at w t"
  by (auto simp: chat_added_def)

text \<open>A world whose chats only gained reports, and whose store changed post states of the post's own action.\<close>

lemma world_ok_mark:
  assumes "world_ok D G w" "wf_post G (pw_store w) p" "chat_added p w w'"
    and "pw_store w' = set_post_state (pw_store w) (post_id p) s c n"
    and "\<And>q. q \<in> snd ` set (pw_retries w') \<Longrightarrow> q \<in> snd ` set (pw_retries w) \<or> q = p"
    and "s = ''posted'' \<Longrightarrow> report_id (post_id p) \<in> cm_id ` set (reports (chat_at w' (post_thread p)))"
  shows "world_ok D G w'" "\<And>i. thread_at (pw_store w') i = thread_at (pw_store w) i"
proof -
  have ok: "files_ok (pw_store w)" using assms(1) by (simp add: world_ok_def)
  show th: "thread_at (pw_store w') i = thread_at (pw_store w) i" for i using assms(4) ok by simp
  have "posted_present D w'"
    unfolding posted_present_def
  proof (intro allI impI)
    fix i t assume a: "post_state_at (pw_store w') i = Some ''posted''" "thread_at (pw_store w') i = Some t" "(t, report_id i) \<notin> D"
    show "report_id i \<in> cm_id ` set (reports (chat_at w' t))"
    proof (cases "i = post_id p \<and> store_get (pw_store w) i \<noteq> None")
      case True
      then have "s = ''posted''" using a(1) assms(4) ok by (auto simp: post_state_set_post)
      moreover have "t = post_thread p" using a(2) th assms(2) True by (auto simp: wf_post_def)
      ultimately show ?thesis using assms(6) True by simp
    next
      case False
      then have "post_state_at (pw_store w) i = Some ''posted''" using a(1) assms(4) ok by (auto simp: post_state_set_post)
      then have "report_id i \<in> cm_id ` set (reports (chat_at w t))"
        using assms(1) a(2,3) th by (auto simp: world_ok_def posted_present_def)
      then show ?thesis using chat_added_reports [OF assms(3), of t] by blast
    qed
  qed
  moreover have "wf_post G (pw_store w') q" if "q \<in> snd ` set (pw_retries w')" for q
    using assms(5) [OF that] assms(1,2) th wf_post_threads by (auto simp: world_ok_def)
  ultimately show "world_ok D G w'"
    using assms(1,4) chat_added_distinct [OF assms(3)] ok by (auto simp: world_ok_def files_ok_set_post)
qed

lemma write_post_cases:
  assumes "write_post ft p w = (w', seen)"
  shows "chat_added p w w'"
    "\<exists>s n. pw_store w' = set_post_state (pw_store w) (post_id p) s None n
       \<and> (s = ''posted'' \<longrightarrow> cm_id (po_message p) \<in> cm_id ` (case chat_at w' (post_thread p) of None \<Rightarrow> {} | Some ms \<Rightarrow> set ms))
       \<and> (s = ''waiting'' \<longrightarrow> p \<in> snd ` set (pw_retries w'))"
    "set (pw_retries w) \<subseteq> set (pw_retries w')" "snd ` set (pw_retries w') \<subseteq> insert p (snd ` set (pw_retries w))"
proof -
  obtain chats outcome where ap: "append_to_checkpoint (ft (pw_ticks w)) (post_thread p) (po_message p) (pw_chats w) = (chats, outcome)"
    by fastforce
  note unf = write_post_def ap mark_post_def schedule_retry_def schedule_post_def chat_at_def Let_def
  have ch: "pw_chats w' = chats" using assms by (auto simp: unf split: append_outcome.splits if_splits)
  show added: "chat_added p w w'"
    by (rule append_cases [OF ap]) (simp_all add: chat_added_def chat_at_def ch)
  have here: "cm_id (po_message p) \<in> cm_id ` (case map_of chats (post_thread p) of None \<Rightarrow> {} | Some ms \<Rightarrow> set ms)"
    if "outcome = WRITTEN"
    using ap that by (auto simp: append_to_checkpoint_def has_message_iff Let_def split: if_splits option.splits)
  show "\<exists>s n. pw_store w' = set_post_state (pw_store w) (post_id p) s None n
       \<and> (s = ''posted'' \<longrightarrow> cm_id (po_message p) \<in> cm_id ` (case chat_at w' (post_thread p) of None \<Rightarrow> {} | Some ms \<Rightarrow> set ms))
       \<and> (s = ''waiting'' \<longrightarrow> p \<in> snd ` set (pw_retries w'))"
  proof (cases outcome)
    case WRITTEN
    with assms here show ?thesis
      by (intro exI [of _ "''posted''"] exI [of _ None]) (auto simp: unf)
  next
    case GONE
    with assms show ?thesis by (intro exI [of _ "''dropped''"] exI [of _ None]) (auto simp: unf)
  next
    case POST_ERROR
    let ?n = "(case store_get (pw_store w) (post_id p) of None \<Rightarrow> 0 | Some a \<Rightarrow> pa_post_attempts a) + 1"
    let ?late = "?n > int (length POST_RETRY_DELAYS)"
    from POST_ERROR assms show ?thesis
      by (intro exI [of _ "if ?late then ''failed'' else ''waiting''"] exI [of _ "Some ?n"]) (auto simp: unf)
  qed
  show "set (pw_retries w) \<subseteq> set (pw_retries w')" "snd ` set (pw_retries w') \<subseteq> insert p (snd ` set (pw_retries w))"
    using assms by (auto simp: unf split: append_outcome.splits if_splits)
qed

lemma write_post_ok:
  assumes "world_ok D G w" "wf_post G (pw_store w) p" "write_post ft p w = (w', seen)"
  shows "world_ok D G w'" "\<And>i. thread_at (pw_store w') i = thread_at (pw_store w) i"
    "\<And>t. t \<noteq> post_thread p \<Longrightarrow> chat_at w' t = chat_at w t"
proof -
  note facts = write_post_cases [OF assms(3)]
  obtain s n where s: "pw_store w' = set_post_state (pw_store w) (post_id p) s None n"
    "s = ''posted'' \<Longrightarrow> cm_id (po_message p) \<in> cm_id ` (case chat_at w' (post_thread p) of None \<Rightarrow> {} | Some ms \<Rightarrow> set ms)"
    using facts(2) by blast
  have "report_id (post_id p) \<in> cm_id ` set (reports (chat_at w' (post_thread p)))" if "s = ''posted''"
    using s(2) [OF that] assms(2) report_in_reports
    by (auto simp: wf_post_def reports_def split: option.splits)
  note world_ok_mark [OF assms(1,2) facts(1) s(1) _ this]
  then show "world_ok D G w'" "\<And>i. thread_at (pw_store w') i = thread_at (pw_store w) i" using facts(4) by blast+
  show "\<And>t. t \<noteq> post_thread p \<Longrightarrow> chat_at w' t = chat_at w t" using chat_added_other [OF facts(1)] .
qed

subsection \<open>No result is forgotten\<close>

definition covers :: "string set \<Rightarrow> post set \<Rightarrow> post_world \<Rightarrow> bool" where
  "covers L P w = (\<forall>i\<in>L. post_state_at (pw_store w) i = Some ''waiting'' \<longrightarrow> (\<exists>p\<in>P \<union> snd ` set (pw_retries w). post_id p = i))"

lemma write_post_covers:
  assumes "files_ok (pw_store w)" "covers L (insert p P) w" "write_post ft p w = (w', seen)"
  shows "covers L P w'"
  unfolding covers_def
proof (intro ballI impI)
  fix i assume i: "i \<in> L" "post_state_at (pw_store w') i = Some ''waiting''"
  note facts = write_post_cases [OF assms(3)]
  obtain s n where s: "pw_store w' = set_post_state (pw_store w) (post_id p) s None n"
    "s = ''waiting'' \<Longrightarrow> p \<in> snd ` set (pw_retries w')" using facts(2) by blast
  show "\<exists>q\<in>P \<union> snd ` set (pw_retries w'). post_id q = i"
  proof (cases "i = post_id p \<and> store_get (pw_store w) i \<noteq> None")
    case True
    then have "s = ''waiting''" using i(2) s(1) assms(1) by (auto simp: post_state_set_post)
    then show ?thesis using s(2) True by blast
  next
    case False
    then have old: "post_state_at (pw_store w) i = Some ''waiting''" using i(2) s(1) assms(1) by (auto simp: post_state_set_post)
    then have "i \<noteq> post_id p" using False by (auto simp: post_state_at_def)
    then show ?thesis using assms(2) i(1) old facts(3) by (fastforce simp: covers_def)
  qed
qed

text \<open>A queue of posts, all of one thread.\<close>

lemma perform_all:
  fixes ft :: "nat \<Rightarrow> faults"
  assumes "world_ok D G w" "\<And>p. p \<in> set ps \<Longrightarrow> wf_post G (pw_store w) p \<and> post_thread p = t" "covers L (set ps \<union> P) w"
  defines "w' \<equiv> foldl (\<lambda>w p. fst (perform_post ft p w)) w ps"
  shows "world_ok D G w' \<and> (\<forall>i. thread_at (pw_store w') i = thread_at (pw_store w) i)
    \<and> (\<forall>u. u \<noteq> t \<longrightarrow> chat_at w' u = chat_at w u) \<and> covers L P w'"
  using assms(1-3) unfolding w'_def
proof (induction ps arbitrary: w)
  case (Cons p ps)
  obtain w1 seen where w1: "write_post ft p w = (w1, seen)" by fastforce
  have p: "wf_post G (pw_store w) p" "post_thread p = t" using Cons.prems(2) by auto
  note one = write_post_ok [OF Cons.prems(1) p(1) w1]
  have "covers L (insert p (set ps \<union> P)) w" using Cons.prems(3) by simp
  from write_post_covers [OF _ this w1] have c: "covers L (set ps \<union> P) w1" using Cons.prems(1) by (simp add: world_ok_def)
  have q: "wf_post G (pw_store w1) q \<and> post_thread q = t" if "q \<in> set ps" for q
    using Cons.prems(2) [of q] that one(2) wf_post_threads by auto
  show ?case using Cons.IH [OF one(1) q c] one(2,3) p(2) by (simp add: perform_post_def w1)
qed simp

end
