(* ===== verification/Posts_History.thy ===== *)
theory Posts_History
  imports Posts_Facts
begin

text \<open>
  Runs, posts and chats over time. A step is one thing the gateway does: a run is registered, attached, begun,
  checkpoints, is rolled back, drains and ends; a confirmed call's result is posted; a retry wakes; a chat is
  deleted; the gateway restarts. A run keeps its messages in memory from when it reads the chat, and each of its
  checkpoints overwrites the chat with them. LangGraph
  merges the messages of a step by id, and a run's own messages have other ids than reports. Some writers remove
  messages: a run that summarises its history, the trimming of old messages, a client that sets a thread's state; they
  may leave any messages, and \<open>pg_lost\<close> records the reports they removed or brought in, with their threads. Other
  writers of the store are one step that leaves posting as it is. \<open>pg_memory\<close> holds, per run, the snapshot before it
  and its messages; \<open>pg_given\<close> the ids ever posted, \<open>pg_live\<close> those of this process.
\<close>

record posting =
  pg_runs :: "post run_manager"
  pg_world :: post_world
  pg_memory :: "(string \<times> (chat_message list option \<times> chat_message list)) list"
  pg_lost :: "(string \<times> string) set"
  pg_given :: "string set"
  pg_live :: "string set"

abbreviation the_run :: "posting \<Rightarrow> string \<Rightarrow> run_record option" where
  "the_run s i \<equiv> map_of (rm_runs (pg_runs s)) i"

abbreviation pg_store :: "posting \<Rightarrow> store" where
  "pg_store s \<equiv> pw_store (pg_world s)"

definition with_runs :: "posting \<Rightarrow> post run_manager \<Rightarrow> posting" where
  "with_runs s m = s\<lparr>pg_runs := m\<rparr>"

definition with_both :: "posting \<Rightarrow> post run_manager \<times> post_world \<Rightarrow> posting" where
  "with_both s mw = s\<lparr>pg_runs := fst mw, pg_world := snd mw\<rparr>"

definition with_chat :: "posting \<Rightarrow> string \<Rightarrow> chat_message list option \<Rightarrow> posting" where
  "with_chat s t ms = s\<lparr>pg_world := (pg_world s)\<lparr>pw_chats :=
     (case ms of None \<Rightarrow> ddel (pw_chats (pg_world s)) t | Some ms \<Rightarrow> dset (pw_chats (pg_world s)) t ms)\<rparr>\<rparr>"

definition or_no_messages :: "'a list option \<Rightarrow> 'a list" where
  "or_no_messages ms = (case ms of None \<Rightarrow> [] | Some ms \<Rightarrow> ms)"

text \<open>
  What \<open>add_messages\<close> of LangGraph makes of a history and the messages of a step: those with the id of a known message
  take its place, the others come after.
\<close>

definition merged :: "chat_message list \<Rightarrow> chat_message list \<Rightarrow> chat_message list \<Rightarrow> bool" where
  "merged mem new ms = (\<exists>rest. set rest \<subseteq> set new
     \<and> ms = map (\<lambda>m. case find (\<lambda>n. cm_id n = cm_id m) new of Some n \<Rightarrow> n | None \<Rightarrow> m) mem @ rest)"

text \<open>The reports that differ between two states of a thread.\<close>

definition lost_between :: "string \<Rightarrow> chat_message list option \<Rightarrow> chat_message list option \<Rightarrow> (string \<times> string) set" where
  "lost_between t old new = {t} \<times> (let a = cm_id ` set (reports old); b = cm_id ` set (reports new) in (a - b) \<union> (b - a))"

text \<open>What may become of an action in the store while nothing is posted.\<close>

definition keeps_posts :: "string set \<Rightarrow> store \<Rightarrow> store \<Rightarrow> bool" where
  "keeps_posts G st st' = (files_ok st' \<and> (\<forall>i.
     (i \<in> G \<longrightarrow> thread_at st' i = thread_at st i \<and> post_state_at st' i = post_state_at st i)
     \<and> (post_state_at st' i = Some ''posted'' \<longrightarrow> post_state_at st i = Some ''posted'' \<and> thread_at st' i = thread_at st i)))"

text \<open>The startup drain reaches \<open>post_result\<close> for these actions.\<close>

definition drainable :: "string \<Rightarrow> account_db \<Rightarrow> bool \<Rightarrow> pending_action \<Rightarrow> bool" where
  "drainable env db has_threads a =
     (case or_none (pa_thread_id a) of None \<Rightarrow> False
      | Some t \<Rightarrow> \<not> (has_threads \<and> map_of (db_threads db) t = None)
          \<and> \<not> (has_threads \<and> (case (case or_none (pa_owner_id a) of Some i \<Rightarrow> Some i | None \<Rightarrow> owner_user_id env db) of
                 None \<Rightarrow> True | Some i \<Rightarrow> \<not> result_may_post db t i (owner_user_id env db))))"

inductive posting_step :: "posting \<Rightarrow> posting \<Rightarrow> bool" where
  launch: "the_run s i = None \<Longrightarrow> (\<And>t. (t, i) \<notin> set (rm_drains (pg_runs s))) \<Longrightarrow>
    create_or_reject i now q (pg_runs s) = Inr m \<Longrightarrow> posting_step s (with_runs s m)"
| attach: "the_run s i = Some r \<Longrightarrow> rr_task r = None \<Longrightarrow> posting_step s (with_runs s (attach_task i (pg_runs s)))"
| start: "the_run s i = Some r \<Longrightarrow> rr_task r = Some Task_New \<Longrightarrow> ms = chat_at (pg_world s) (rr_thread r) \<Longrightarrow>
    posting_step s (with_runs s (start_task i now (pg_runs s))\<lparr>pg_memory := dset (pg_memory s) i (ms, or_no_messages ms)\<rparr>)"
| reread: "the_run s i = Some r \<Longrightarrow> rr_task r = Some Task_Running \<Longrightarrow> map_of (pg_memory s) i = Some (snap, mem) \<Longrightarrow>
    posting_step s (s\<lparr>pg_memory := dset (pg_memory s) i (snap, or_no_messages (chat_at (pg_world s) (rr_thread r)))\<rparr>)"
| checkpoint: "the_run s i = Some r \<Longrightarrow> rr_task r = Some Task_Running \<Longrightarrow> map_of (pg_memory s) i = Some (snap, mem) \<Longrightarrow>
    merged mem new ms \<Longrightarrow> (\<And>m. m \<in> set new \<Longrightarrow> \<not> is_report m) \<Longrightarrow>
    posting_step s ((with_chat s (rr_thread r) (Some ms))\<lparr>pg_memory := dset (pg_memory s) i (snap, ms)\<rparr>)"
| summarise: "the_run s i = Some r \<Longrightarrow> rr_task r = Some Task_Running \<Longrightarrow> map_of (pg_memory s) i = Some (snap, mem) \<Longrightarrow>
    distinct_reports (Some ms) \<Longrightarrow> lost = lost_between (rr_thread r) (chat_at (pg_world s) (rr_thread r)) (Some ms) \<Longrightarrow>
    posting_step s ((with_chat s (rr_thread r) (Some ms))\<lparr>pg_lost := pg_lost s \<union> lost, pg_memory := dset (pg_memory s) i (snap, ms)\<rparr>)"
| set_state: "distinct_reports (Some ms) \<Longrightarrow> lost = lost_between t (chat_at (pg_world s) t) (Some ms) \<Longrightarrow>
    posting_step s ((with_chat s t (Some ms))\<lparr>pg_lost := pg_lost s \<union> lost\<rparr>)"
| close: "the_run s i = Some r \<Longrightarrow> rr_task r = Some Task_Running \<Longrightarrow> map_of (pg_memory s) i = Some (snap, mem) \<Longrightarrow>
    s' = s \<or> (snd (snd (final_status how r)) \<and> s' = with_chat s (rr_thread r) snap) \<Longrightarrow>
    posting_step s (with_runs s' (close_task i how now (pg_runs s)))"
| worker_drain: "the_run s i = Some r \<Longrightarrow> rr_task r = Some Task_Closing \<Longrightarrow>
    posting_step s (with_both s (drain (perform_post ft) (rr_thread r) i (pg_runs s, pg_world s)))"
| finish: "the_run s i = Some r \<Longrightarrow> rr_task r = Some Task_Closing \<Longrightarrow> posting_step s (with_runs s (finish_task i (pg_runs s)))"
| late_drain: "(t, i) \<in> set (rm_drains (pg_runs s)) \<Longrightarrow>
    posting_step s (with_both s (drain (perform_post ft) t i ((pg_runs s)\<lparr>rm_drains := remove1 (t, i) (rm_drains (pg_runs s))\<rparr>, pg_world s)))"
| cancel: "posting_step s (with_runs s (fst (cancel_run i action now (pg_runs s))))"
| post: "store_get (pg_store s) (pa_id a) = Some b \<Longrightarrow> pa_thread_id b = pa_thread_id a \<Longrightarrow>
    posting_step s ((with_both s (fst (post_result ft elsewhere \<lparr>po_action = a, po_message = report_message a c\<rparr> (pg_runs s, pg_world s))))
      \<lparr>pg_given := insert (pa_id a) (pg_given s), pg_live := insert (pa_id a) (pg_live s)\<rparr>)"
| retry: "e \<in> set (pw_retries (pg_world s)) \<Longrightarrow>
    posting_step s (with_both s (fire_retry ft elsewhere e (pg_runs s, pg_world s)))"
| store_write: "keeps_posts (pg_given s) (pg_store s) st \<Longrightarrow> posting_step s (s\<lparr>pg_world := (pg_world s)\<lparr>pw_store := st\<rparr>\<rparr>)"
| delete_chat: "posting_step s ((with_chat s t None)\<lparr>pg_lost := pg_lost s \<union> {t} \<times> UNIV\<rparr>)"
| restart: "w = (pg_world s)\<lparr>pw_retries := []\<rparr> \<Longrightarrow>
    drained = filter (drainable env db has_threads) (awaiting_post (pg_store s) [''waiting'']) \<Longrightarrow>
    posting_step s ((with_both s (fst (drain_waiting_posts env db has_threads ft where_busy (no_runs, w))))
      \<lparr>pg_memory := [], pg_given := pg_given s \<union> pa_id ` set drained, pg_live := pa_id ` set drained\<rparr>)"

text \<open>Any store and any chats whose posted results are in them.\<close>

definition posting_start :: "posting \<Rightarrow> bool" where
  "posting_start s = (pg_runs s = no_runs \<and> pw_retries (pg_world s) = [] \<and> pg_live s = {} \<and> pg_lost s = {}
     \<and> world_ok {} (pg_given s) (pg_world s))"

inductive posting_reachable :: "posting \<Rightarrow> bool" where
  initial: "posting_start s \<Longrightarrow> posting_reachable s"
| step: "posting_reachable s \<Longrightarrow> posting_step s s' \<Longrightarrow> posting_reachable s'"

subsection \<open>The registry\<close>

definition ended_task :: "run_record \<Rightarrow> bool" where
  "ended_task r = (rr_task r = Some Task_Closing \<or> rr_task r = Some Task_Done)"

definition runs_ok :: "'w run_manager \<Rightarrow> bool" where
  "runs_ok m = (distinct (map fst (rm_runs m)) \<and> (\<forall>i r. map_of (rm_runs m) i = Some r \<longrightarrow> rr_id r = i)
     \<and> (\<forall>i r. map_of (rm_runs m) i = Some r \<longrightarrow> ended_task r \<longrightarrow> \<not> active_status (rr_status r))
     \<and> (\<forall>(t, i)\<in>set (rm_drains m). \<forall>r. map_of (rm_runs m) i = Some r \<longrightarrow> rr_thread r = t \<and> rr_task r = Some Task_Done))"

lemma in_runs_of: "distinct (map fst (rm_runs m)) \<Longrightarrow> r \<in> set (runs_of m) \<longleftrightarrow> (\<exists>i. map_of (rm_runs m) i = Some r)"
  by (force simp: runs_of_def)

lemma in_runs_iff: "runs_ok m \<Longrightarrow> r \<in> set (runs_of m) \<longleftrightarrow> map_of (rm_runs m) (rr_id r) = Some r"
  by (metis in_runs_of runs_ok_def)

lemma run_busyD:
  assumes "runs_ok m" "run_busy m t e"
  obtains i r where "map_of (rm_runs m) i = Some r" "rr_thread r = t" "e \<noteq> Some i" "active_status (rr_status r) \<or> task_unfinished r"
  using assms(2) in_runs_iff [OF assms(1)] unfolding run_busy_def list_ex_iff by blast

lemma run_busyI:
  assumes "runs_ok m" "map_of (rm_runs m) i = Some r" "rr_thread r = t" "e \<noteq> Some i" "active_status (rr_status r) \<or> task_unfinished r"
  shows "run_busy m t e"
proof -
  have "rr_id r = i" using assms(1,2) by (simp add: runs_ok_def)
  then show ?thesis using assms in_runs_iff [OF assms(1), of r] unfolding run_busy_def list_ex_iff by blast
qed

lemma map_of_map_snd: "map_of (map (\<lambda>(i, r). (i, f r)) xs) i = map_option f (map_of xs i)"
  by (induction xs) auto

lemma runs_of_interrupt: "map_of (rm_runs (interrupt_runs P action now m)) i =
    map_option (\<lambda>r. if P r then interrupt_run action now r else r) (map_of (rm_runs m) i)"
  by (simp add: interrupt_runs_def map_of_map_snd)

lemma runs_of_change: "map_of (rm_runs (change_run i f m)) j = (if j = i then map_option f (map_of (rm_runs m) i) else map_of (rm_runs m) j)"
  by (auto simp: change_run_def split: option.splits)

lemma distinct_change: "distinct (map fst (rm_runs m)) \<Longrightarrow> distinct (map fst (rm_runs (change_run i f m)))"
  by (auto simp: change_run_def distinct_dset split: option.splits)

lemma change_run_frame [simp]: "rm_drains (change_run i f m) = rm_drains m" "rm_deferred (change_run i f m) = rm_deferred m"
  by (simp_all add: change_run_def split: option.splits)

text \<open>A change of a run that leaves its identity, its thread, and a finished task.\<close>

definition same_life :: "run_record \<Rightarrow> run_record \<Rightarrow> bool" where
  "same_life r r' = (rr_id r' = rr_id r \<and> rr_thread r' = rr_thread r \<and> (rr_task r = Some Task_Done \<longrightarrow> rr_task r' = Some Task_Done)
     \<and> (ended_task r' \<longrightarrow> \<not> active_status (rr_status r')))"

lemma runs_ok_change:
  assumes "runs_ok m" "\<And>r. map_of (rm_runs m) i = Some r \<Longrightarrow> same_life r (f r)"
  shows "runs_ok (change_run i f m)"
  using assms distinct_change [of m i f]
  by (fastforce simp: runs_ok_def runs_of_change same_life_def split: if_splits option.splits)

lemma runs_ok_interrupt: "runs_ok m \<Longrightarrow> runs_ok (interrupt_runs P action now m)"
proof -
  assume m: "runs_ok m"
  have "distinct (map fst (rm_runs (interrupt_runs P action now m)))"
    using m by (simp add: runs_ok_def interrupt_runs_def comp_def case_prod_unfold)
  moreover have "rr_id r = i" if "map_of (rm_runs (interrupt_runs P action now m)) i = Some r" for i r
    using that m by (auto simp: runs_of_interrupt runs_ok_def interrupt_run_def)
  moreover have "\<not> active_status (rr_status r)" if "map_of (rm_runs (interrupt_runs P action now m)) i = Some r" "ended_task r" for i r
    using that m by (auto simp: runs_of_interrupt runs_ok_def interrupt_run_def active_status_def split: if_splits)
  moreover have "rr_thread r = t \<and> rr_task r = Some Task_Done"
    if dr: "(t, i) \<in> set (rm_drains (interrupt_runs P action now m))"
      and ru: "map_of (rm_runs (interrupt_runs P action now m)) i = Some r" for t i r
  proof -
    obtain r0 where r0: "map_of (rm_runs m) i = Some r0" "r = (if P r0 then interrupt_run action now r0 else r0)"
      using ru by (auto simp: runs_of_interrupt)
    from dr consider "(t, i) \<in> set (rm_drains m)" | r1 where "r1 \<in> set (runs_of m)" "P r1" "rr_task r1 = Some Task_New"
      "t = rr_thread r1" "i = rr_id r1" by (auto simp: interrupt_runs_def ended_drains_def)
    then show ?thesis
    proof cases
      case 1
      then show ?thesis using m r0 by (fastforce simp: runs_ok_def interrupt_run_def cancelled_task_def)
    next
      case 2
      then have "map_of (rm_runs m) i = Some r1" using in_runs_iff [OF m] by blast
      then show ?thesis using r0 2 by (auto simp: interrupt_run_def cancelled_task_def)
    qed
  qed
  ultimately show ?thesis unfolding runs_ok_def by blast
qed

lemma launched:
  assumes "create_or_reject i now q m = Inr m'"
  shows "\<exists>m1. m' = create_run i now q m1 \<and> (m1 = m \<or> (\<exists>P a. m1 = interrupt_runs P a now m))"
  using assms by (auto simp: create_or_reject_def split: if_splits)

lemma runs_ok_launch:
  assumes "runs_ok m" "map_of (rm_runs m) i = None" "\<And>t. (t, i) \<notin> set (rm_drains m)" "create_or_reject i now q m = Inr m'"
  shows "runs_ok m'"
proof -
  obtain m1 where m1: "m' = create_run i now q m1" "m1 = m \<or> (\<exists>P a. m1 = interrupt_runs P a now m)"
    using launched [OF assms(4)] by blast
  have ok: "runs_ok m1" using m1(2) assms(1) runs_ok_interrupt by blast
  have "(t, i) \<notin> set (rm_drains m1)" for t
  proof
    assume "(t, i) \<in> set (rm_drains m1)"
    with m1(2) assms(3) obtain r where "r \<in> set (runs_of m)" "rr_id r = i"
      by (auto simp: interrupt_runs_def ended_drains_def)
    then have "map_of (rm_runs m) i = Some r" using assms(1) by (auto simp: in_runs_iff)
    then show False using assms(2) by simp
  qed
  with ok show ?thesis
    by (fastforce simp: m1(1) runs_ok_def create_run_def new_run_def distinct_dset ended_task_def)
qed

end
