(* ===== verification/Posts_Safety.thy ===== *)
theory Posts_Safety
  imports Posts_History
begin

text \<open>
  Posted results stay where they were posted, and none that waits is forgotten. The invariant: queued and retried
  posts belong to their actions, a thread with a queue has somebody who will drain it, and what a running run
  remembers has the reports of its chat, but for those somebody removed, because no post is written while it runs.
\<close>

definition deferred_ok :: "string set \<Rightarrow> store \<Rightarrow> post run_manager \<Rightarrow> bool" where
  "deferred_ok G st m = (\<forall>t ps. map_of (rm_deferred m) t = Some ps \<longrightarrow> (\<forall>p\<in>set ps. wf_post G st p \<and> post_thread p = t))"

definition deferred_posts :: "post run_manager \<Rightarrow> post set" where
  "deferred_posts m = {p. \<exists>t ps. map_of (rm_deferred m) t = Some ps \<and> p \<in> set ps}"

text \<open>A run that is active, whose task is not done, or that is being launched.\<close>

definition will_end :: "run_record \<Rightarrow> bool" where
  "will_end r = (active_status (rr_status r) \<or> task_unfinished r \<or> rr_task r = None)"

definition attended :: "'w run_manager \<Rightarrow> string \<Rightarrow> bool" where
  "attended m t = ((\<exists>i r. map_of (rm_runs m) i = Some r \<and> rr_thread r = t \<and> will_end r) \<or> (\<exists>i. (t, i) \<in> set (rm_drains m)))"

definition queues_attended :: "'w run_manager \<Rightarrow> bool" where
  "queues_attended m = (\<forall>t. map_of (rm_deferred m) t \<noteq> None \<longrightarrow> attended m t)"

definition running_on :: "'w run_manager \<Rightarrow> string \<Rightarrow> run_record \<Rightarrow> bool" where
  "running_on m i r = (map_of (rm_runs m) i = Some r \<and> rr_task r = Some Task_Running)"

definition remembers :: "posting \<Rightarrow> string \<Rightarrow> string \<Rightarrow> bool" where
  "remembers s i t = (\<exists>snap mem. map_of (pg_memory s) i = Some (snap, mem) \<and> distinct_reports snap \<and> distinct_reports (Some mem)
     \<and> ids_but (pg_lost s) t snap = ids_but (pg_lost s) t (chat_at (pg_world s) t)
     \<and> ids_but (pg_lost s) t (Some mem) = ids_but (pg_lost s) t (chat_at (pg_world s) t))"

definition memory_ok :: "posting \<Rightarrow> bool" where
  "memory_ok s = (\<forall>i r. running_on (pg_runs s) i r \<longrightarrow> remembers s i (rr_thread r))"

text \<open>What concerns the registry and the world alone.\<close>

definition both_ok :: "(string \<times> string) set \<Rightarrow> string set \<Rightarrow> string set \<Rightarrow> post run_manager \<times> post_world \<Rightarrow> bool" where
  "both_ok D G L mw = (runs_ok (fst mw) \<and> world_ok D G (snd mw) \<and> deferred_ok G (pw_store (snd mw)) (fst mw)
     \<and> queues_attended (fst mw) \<and> covers L (deferred_posts (fst mw)) (snd mw))"

definition posting_ok :: "posting \<Rightarrow> bool" where
  "posting_ok s = (both_ok (pg_lost s) (pg_given s) (pg_live s) (pg_runs s, pg_world s) \<and> memory_ok s)"

subsection \<open>Writing posts\<close>

text \<open>Registry and threads are kept, and a chat changes only while nothing runs in it.\<close>

definition posts_only :: "post run_manager \<times> post_world \<Rightarrow> post run_manager \<times> post_world \<Rightarrow> bool" where
  "posts_only mw mw' = (rm_runs (fst mw') = rm_runs (fst mw)
     \<and> (\<forall>t. chat_at (snd mw') t \<noteq> chat_at (snd mw) t \<longrightarrow> (\<forall>i r. running_on (fst mw) i r \<longrightarrow> rr_thread r \<noteq> t))
     \<and> (\<forall>i. thread_at (pw_store (snd mw')) i = thread_at (pw_store (snd mw)) i))"

lemma covers_mono: "covers L P w \<Longrightarrow> P \<subseteq> Q \<Longrightarrow> covers L Q w"
  by (fastforce simp: covers_def)

lemma deferred_ok_threads: "deferred_ok G st m \<Longrightarrow> (\<And>i. thread_at st' i = thread_at st i) \<Longrightarrow> deferred_ok G st' m"
  by (meson deferred_ok_def wf_post_threads)

lemma runs_ok_same: "runs_ok m \<Longrightarrow> rm_runs m' = rm_runs m \<Longrightarrow> set (rm_drains m') \<subseteq> set (rm_drains m) \<Longrightarrow> runs_ok m'"
  by (fastforce simp: runs_ok_def)

lemma idle_not_running:
  assumes "runs_ok m" "\<not> run_busy m t e" "running_on m i r" "e = Some i \<Longrightarrow> rr_task r \<noteq> Some Task_Running"
  shows "rr_thread r \<noteq> t"
  using assms run_busyI [OF assms(1), of i r t e] by (auto simp: running_on_def task_unfinished_def)

lemma drain_ok:
  assumes "both_ok D G L (m, w)" "\<And>r. map_of (rm_runs m) i = Some r \<Longrightarrow> rr_task r \<noteq> Some Task_Running"
    and "drain (perform_post ft) t i (m, w) = mw'"
  shows "both_ok D G L mw' \<and> posts_only (m, w) mw' \<and> rm_drains (fst mw') = rm_drains m"
proof (cases "map_of (rm_deferred m) t = None \<or> run_busy m t (Some i)")
  case True
  then have "mw' = (m, w)" using assms(3) by (auto simp: drain_def split: option.splits if_splits)
  then show ?thesis using assms(1) by (simp add: posts_only_def)
next
  case False
  then obtain ps where ps: "map_of (rm_deferred m) t = Some ps" and idle: "\<not> run_busy m t (Some i)" by auto
  let ?m = "m\<lparr>rm_deferred := ddel (rm_deferred m) t\<rparr>"
  let ?w = "foldl (\<lambda>w p. fst (perform_post ft p w)) w ps"
  have mw': "mw' = (?m, ?w)" using assms(3) ps idle by (auto simp: drain_def)
  have ok: "runs_ok m" "world_ok D G w" "deferred_ok G (pw_store w) m" "queues_attended m" "covers L (deferred_posts m) w"
    using assms(1) by (simp_all add: both_ok_def)
  have "deferred_posts m \<subseteq> set ps \<union> deferred_posts ?m"
  proof
    fix q assume "q \<in> deferred_posts m"
    then obtain u qs where q: "map_of (rm_deferred m) u = Some qs" "q \<in> set qs" by (auto simp: deferred_posts_def)
    then show "q \<in> set ps \<union> deferred_posts ?m" using ps by (cases "u = t") (auto simp: deferred_posts_def)
  qed
  then have "covers L (set ps \<union> deferred_posts ?m) w" using ok(5) covers_mono by blast
  from perform_all [OF ok(2) _ this] ok(3) ps
  have all: "world_ok D G ?w" "\<And>i. thread_at (pw_store ?w) i = thread_at (pw_store w) i"
    "\<And>u. u \<noteq> t \<Longrightarrow> chat_at ?w u = chat_at w u" "covers L (deferred_posts ?m) ?w"
    by (auto simp: deferred_ok_def)
  have "rr_thread r \<noteq> t" if "running_on m j r" for j r
    using idle_not_running [OF ok(1) idle that] that assms(2) by (auto simp: running_on_def)
  then have "posts_only (m, w) mw'" using all(2,3) by (auto simp: posts_only_def mw')
  moreover have "deferred_ok G (pw_store ?w) ?m"
    using deferred_ok_threads [OF ok(3) all(2)] by (auto simp: deferred_ok_def split: if_splits)
  moreover have "queues_attended ?m" using ok(4) by (auto simp: queues_attended_def attended_def)
  moreover have "runs_ok ?m" using ok(1) by (rule runs_ok_same) simp_all
  ultimately show ?thesis using all(1,4) by (simp add: both_ok_def mw')
qed

lemma recorded_waiting_ok:
  assumes "world_ok D G w" "wf_post G (pw_store w) p" "covers L (insert p P) w"
  shows "world_ok D G (recorded_waiting p w)" "covers (insert (post_id p) L) (insert p P) (recorded_waiting p w)"
    "\<And>i. thread_at (pw_store (recorded_waiting p w)) i = thread_at (pw_store w) i"
    "\<And>t. chat_at (recorded_waiting p w) t = chat_at w t" "pw_retries (recorded_waiting p w) = pw_retries w"
proof -
  let ?w = "mark_post (post_id p) ''waiting'' (Some (cm_content (po_message p))) None w"
  have fo: "files_ok (pw_store w)" using assms(1) by (simp add: world_ok_def)
  have ch: "chat_added p w ?w" by (simp add: chat_added_def chat_at_def mark_post_def)
  have re: "q \<in> snd ` set (pw_retries w) \<or> q = p" if "q \<in> snd ` set (pw_retries ?w)" for q using that by (simp add: mark_post_def)
  note marked = world_ok_mark [OF assms(1,2) ch _ re, of "''waiting''" "Some (cm_content (po_message p))" None]
  have st: "pw_store ?w = set_post_state (pw_store w) (post_id p) ''waiting'' (Some (cm_content (po_message p))) None"
    by (simp add: mark_post_def)
  show "world_ok D G (recorded_waiting p w)" using marked(1) [OF st] assms(1) by (simp add: recorded_waiting_def)
  show "thread_at (pw_store (recorded_waiting p w)) i = thread_at (pw_store w) i" for i
    using fo by (simp add: recorded_waiting_def st)
  show "chat_at (recorded_waiting p w) t = chat_at w t" for t by (simp add: recorded_waiting_def mark_post_def chat_at_def)
  show "pw_retries (recorded_waiting p w) = pw_retries w" by (simp add: recorded_waiting_def mark_post_def)
  show "covers (insert (post_id p) L) (insert p P) (recorded_waiting p w)"
    unfolding covers_def
  proof (intro ballI impI)
    fix i assume i: "i \<in> insert (post_id p) L" "post_state_at (pw_store (recorded_waiting p w)) i = Some ''waiting''"
    show "\<exists>q\<in>insert p P \<union> snd ` set (pw_retries (recorded_waiting p w)). post_id q = i"
    proof (cases "i = post_id p")
      case False
      then have "post_state_at (pw_store w) i = Some ''waiting''"
        using i(2) fo by (auto simp: recorded_waiting_def st post_state_set_post split: if_splits)
      then show ?thesis using assms(3) i(1) False by (fastforce simp: covers_def recorded_waiting_def mark_post_def)
    qed blast
  qed
qed

lemma covers_schedule: "covers L (insert p P) w \<Longrightarrow> covers L P (schedule_post d p w)"
  by (fastforce simp: covers_def schedule_post_def)

lemma world_ok_schedule: "world_ok D G w \<Longrightarrow> wf_post G (pw_store w) p \<Longrightarrow> world_ok D G (schedule_post d p w)"
  by (auto simp: world_ok_def schedule_post_def posted_present_def chat_at_def)

lemma post_result_ok:
  assumes "both_ok D G {} (m, w)" "covers L (insert p (deferred_posts m)) w" "wf_post G (pw_store w) p"
    "post_result ft elsewhere p (m, w) = (mw', state)"
  shows "both_ok D G (insert (post_id p) L) mw' \<and> posts_only (m, w) mw' \<and> rm_drains (fst mw') = rm_drains m"
proof -
  let ?w = "recorded_waiting p w"
  let ?L = "insert (post_id p) L"
  have ok: "runs_ok m" "world_ok D G w" "deferred_ok G (pw_store w) m" "queues_attended m"
    using assms(1) by (simp_all add: both_ok_def)
  note rec = recorded_waiting_ok [OF ok(2) assms(3) assms(2)]
  have wf: "wf_post G (pw_store ?w) p" using wf_post_threads [OF assms(3) rec(3)] .
  have de: "deferred_ok G (pw_store ?w) m" using deferred_ok_threads [OF ok(3) rec(3)] .
  consider (busy) "thread_busy m (post_thread p)" | (away) "\<not> thread_busy m (post_thread p)" elsewhere
    | (idle) "\<not> thread_busy m (post_thread p)" "\<not> elsewhere" by blast
  then show ?thesis
  proof cases
    case busy
    let ?old = "case map_of (rm_deferred m) (post_thread p) of None \<Rightarrow> [] | Some ws \<Rightarrow> ws"
    let ?m = "m\<lparr>rm_deferred := dset (rm_deferred m) (post_thread p) (?old @ [p])\<rparr>"
    have mw': "mw' = (?m, ?w)" using assms(4) busy by (auto simp: post_result_def write_when_idle_def Let_def)
    have "insert p (deferred_posts m) \<subseteq> deferred_posts ?m"
    proof
      fix q assume "q \<in> insert p (deferred_posts m)"
      then consider "q = p" | u qs where "map_of (rm_deferred m) u = Some qs" "q \<in> set qs" by (auto simp: deferred_posts_def)
      then show "q \<in> deferred_posts ?m"
      proof cases
        case 1
        then show ?thesis by (auto simp: deferred_posts_def intro!: exI [of _ "post_thread p"])
      next
        case 2
        then show ?thesis by (cases "u = post_thread p") (auto simp: deferred_posts_def intro!: exI [of _ u])
      qed
    qed
    then have "covers ?L (deferred_posts ?m) ?w" using covers_mono rec(2) by blast
    moreover have "deferred_ok G (pw_store ?w) ?m" using de wf
      by (cases "map_of (rm_deferred m) (post_thread p)") (auto simp: deferred_ok_def)
    moreover have "queues_attended ?m"
    proof -
      have "attended m (post_thread p)" using run_busyD [OF ok(1) busy [unfolded thread_busy_def]]
        unfolding attended_def will_end_def by metis
      then show ?thesis using ok(4) by (auto simp: queues_attended_def attended_def)
    qed
    moreover have "runs_ok ?m" using ok(1) by (rule runs_ok_same) simp_all
    ultimately show ?thesis using rec by (simp add: both_ok_def posts_only_def mw')
  next
    case away
    let ?v = "schedule_post ELSEWHERE_RETRY_DELAY p ?w"
    have mw': "mw' = (m, ?v)" using assms(4) away by (auto simp: post_result_def write_when_idle_def Let_def)
    have "world_ok D G ?v" "covers ?L (deferred_posts m) ?v" using world_ok_schedule [OF rec(1) wf] covers_schedule [OF rec(2)] by blast+
    moreover have "pw_store ?v = pw_store ?w" "chat_at ?v t = chat_at ?w t" for t by (simp_all add: schedule_post_def chat_at_def)
    ultimately show ?thesis using rec ok de by (simp add: both_ok_def posts_only_def mw')
  next
    case idle
    obtain v seen where v: "write_post ft p ?w = (v, seen)" by fastforce
    have mw': "mw' = (m, v)" using assms(4) idle v by (auto simp: post_result_def write_when_idle_def perform_post_def Let_def)
    note wrote = write_post_ok [OF rec(1) wf v]
    have "covers ?L (deferred_posts m) v"
      using write_post_covers [OF _ rec(2) v] rec(1) by (simp add: world_ok_def)
    moreover have "rr_thread r \<noteq> t" if "running_on m i r" "chat_at v t \<noteq> chat_at w t" for i r t
      using idle_not_running [OF ok(1) idle(1) [unfolded thread_busy_def] that(1)] that(2) wrote(3) [of t] rec(4) by auto
    ultimately show ?thesis
      using wrote(1,2) rec(3) ok deferred_ok_threads [OF de wrote(2)] by (auto simp: both_ok_def posts_only_def mw')
  qed
qed

subsection \<open>The registry's steps\<close>

text \<open>A change of the registry that leaves the queues, and lets no run begin or a thread go unattended.\<close>

definition runs_only :: "post run_manager \<Rightarrow> post run_manager \<Rightarrow> bool" where
  "runs_only m m' = (runs_ok m' \<and> rm_deferred m' = rm_deferred m \<and> (\<forall>t. attended m t \<longrightarrow> attended m' t))"

definition no_run_begins :: "post run_manager \<Rightarrow> post run_manager \<Rightarrow> bool" where
  "no_run_begins m m' = (\<forall>i r'. running_on m' i r' \<longrightarrow> (\<exists>r. running_on m i r \<and> rr_thread r = rr_thread r'))"

lemma both_ok_runs: "both_ok D G L (m, w) \<Longrightarrow> runs_only m m' \<Longrightarrow> both_ok D G L (m', w)"
  by (auto simp: both_ok_def runs_only_def deferred_ok_def queues_attended_def deferred_posts_def)

lemma change_runs_only:
  assumes "runs_ok m" "map_of (rm_runs m) i = Some r" "same_life r (f r)" "will_end r \<Longrightarrow> will_end (f r)"
  shows "runs_only m (change_run i f m)"
proof -
  have "attended (change_run i f m) t" if "attended m t" for t
  proof -
    from that consider (run) j q where "map_of (rm_runs m) j = Some q" "rr_thread q = t" "will_end q"
      | (drain) j where "(t, j) \<in> set (rm_drains m)" by (auto simp: attended_def)
    then show ?thesis
    proof cases
      case run
      show ?thesis
      proof (cases "j = i")
        case True
        then have "q = r" using run(1) assms(2) by simp
        moreover have "map_of (rm_runs (change_run i f m)) i = Some (f r)" using assms(2) by (simp add: runs_of_change)
        ultimately show ?thesis using run(2,3) assms(3,4) unfolding attended_def same_life_def by metis
      next
        case False
        then have "map_of (rm_runs (change_run i f m)) j = Some q" using run(1) by (simp add: runs_of_change)
        then show ?thesis using run(2,3) unfolding attended_def by blast
      qed
    qed (auto simp: attended_def)
  qed
  then show ?thesis using runs_ok_change [OF assms(1), of i f] assms(2,3) by (simp add: runs_only_def)
qed

lemma change_no_run_begins:
  assumes "map_of (rm_runs m) i = Some r" "rr_thread (f r) = rr_thread r"
    "rr_task (f r) = Some Task_Running \<Longrightarrow> rr_task r = Some Task_Running"
  shows "no_run_begins m (change_run i f m)"
  using assms by (auto simp: no_run_begins_def running_on_def runs_of_change split: if_splits)

lemma interrupt_will_end: "will_end r \<Longrightarrow> rr_task r \<noteq> Some Task_New \<Longrightarrow> rr_task r \<noteq> Some Task_Done \<Longrightarrow> will_end (interrupt_run a now r)"
  by (cases "rr_task r") (auto simp: will_end_def interrupt_run_def task_unfinished_def cancelled_task_def)

lemma interrupt_runs_only:
  assumes "runs_ok m" "\<And>r. P r \<Longrightarrow> r \<in> set (runs_of m) \<Longrightarrow> rr_task r \<noteq> Some Task_Done"
  shows "runs_only m (interrupt_runs P a now m)" "no_run_begins m (interrupt_runs P a now m)"
proof -
  let ?m = "interrupt_runs P a now m"
  have "attended ?m t" if "attended m t" for t
  proof -
    from that consider (run) j q where "map_of (rm_runs m) j = Some q" "rr_thread q = t" "will_end q"
      | (drain) j where "(t, j) \<in> set (rm_drains m)" by (auto simp: attended_def)
    then show ?thesis
    proof cases
      case run
      have q: "q \<in> set (runs_of m)" "rr_id q = j" using run(1) in_runs_iff [OF assms(1), of q] assms(1) by (auto simp: runs_ok_def)
      have now: "map_of (rm_runs ?m) j = Some (if P q then interrupt_run a now q else q)" using run(1) by (simp add: runs_of_interrupt)
      show ?thesis
      proof (cases "P q")
        case False
        then show ?thesis using now run by (auto simp: attended_def)
      next
        case True
        show ?thesis
        proof (cases "rr_task q = Some Task_New")
          case True
          then have "(t, j) \<in> set (rm_drains ?m)" using \<open>P q\<close> q run(2) by (force simp: interrupt_runs_def ended_drains_def)
          then show ?thesis by (auto simp: attended_def)
        next
          case False
          then have "will_end (interrupt_run a now q)" using interrupt_will_end run(3) assms(2) [OF True q(1)] by blast
          then show ?thesis using now True run(2) by (force simp: attended_def interrupt_run_def)
        qed
      qed
    qed (auto simp: attended_def interrupt_runs_def)
  qed
  then show "runs_only m ?m" using runs_ok_interrupt [OF assms(1)] by (simp add: runs_only_def interrupt_runs_def)
  show "no_run_begins m ?m"
    unfolding no_run_begins_def
  proof (intro allI impI)
    fix i r' assume "running_on ?m i r'"
    then obtain r where "map_of (rm_runs m) i = Some r" "r' = (if P r then interrupt_run a now r else r)" "rr_task r' = Some Task_Running"
      by (auto simp: running_on_def runs_of_interrupt)
    then show "\<exists>r. running_on m i r \<and> rr_thread r = rr_thread r'"
      by (intro exI [of _ r]) (auto simp: running_on_def interrupt_run_def cancelled_task_def split: if_splits)
  qed
qed

end
