(* ===== verification/Posts_System.thy ===== *)
theory Posts_System
  imports Posts_Safety
begin

text \<open>Every step of \<open>Posts_History\<close> keeps the invariant, and what follows for the chats.\<close>

subsection \<open>Memory and chats\<close>

lemma memory_keeps:
  assumes "memory_ok s" "pg_memory s' = pg_memory s" "pg_lost s' = pg_lost s" "no_run_begins (pg_runs s) (pg_runs s')"
    and "\<And>i r. running_on (pg_runs s) i r \<Longrightarrow> chat_at (pg_world s') (rr_thread r) = chat_at (pg_world s) (rr_thread r)"
  shows "memory_ok s'"
  unfolding memory_ok_def
proof (intro allI impI)
  fix i r' assume "running_on (pg_runs s') i r'"
  then obtain r where r: "running_on (pg_runs s) i r" "rr_thread r = rr_thread r'"
    using assms(4) unfolding no_run_begins_def by blast
  then have "remembers s i (rr_thread r')" using assms(1) by (metis memory_ok_def)
  then show "remembers s' i (rr_thread r')" using assms(2,3) assms(5) [OF r(1)] r(2) by (simp add: remembers_def)
qed

lemma same_runs_begin: "rm_runs m' = rm_runs m \<Longrightarrow> no_run_begins m m'"
  by (auto simp: no_run_begins_def running_on_def)

lemma memory_posts_only:
  assumes "memory_ok s" "posts_only (pg_runs s, pg_world s) (pg_runs s', pg_world s')" "pg_memory s' = pg_memory s" "pg_lost s' = pg_lost s"
  shows "memory_ok s'"
  using assms(2) by (intro memory_keeps [OF assms(1,3,4)] same_runs_begin) (auto simp: posts_only_def)

lemma both_ok_more:
  assumes "both_ok D G L mw" "G \<subseteq> G'"
  shows "both_ok D G' L mw"
  using assms by (fastforce simp: both_ok_def world_ok_def deferred_ok_def wf_post_def)

lemma both_ok_fewer: "both_ok D G L mw \<Longrightarrow> L' \<subseteq> L \<Longrightarrow> both_ok D G L' mw"
  by (auto simp: both_ok_def covers_def)

lemma chat_at_with_chat: "chat_at (pg_world (with_chat s t ms)) u = (if u = t then ms else chat_at (pg_world s) u)"
  by (simp add: with_chat_def chat_at_def split: option.splits)

lemma with_chat_frame [simp]:
  "pg_runs (with_chat s t ms) = pg_runs s" "pg_memory (with_chat s t ms) = pg_memory s" "pg_lost (with_chat s t ms) = pg_lost s"
  "pg_given (with_chat s t ms) = pg_given s" "pg_live (with_chat s t ms) = pg_live s"
  "pw_store (pg_world (with_chat s t ms)) = pw_store (pg_world s)" "pw_retries (pg_world (with_chat s t ms)) = pw_retries (pg_world s)"
  by (simp_all add: with_chat_def)

lemma both_ok_chat:
  assumes "both_ok D G L (m, w)" "pw_store w' = pw_store w" "pw_retries w' = pw_retries w" "D \<subseteq> D'"
    and "\<And>u. distinct_reports (chat_at w' u)" "\<And>u. ids_but D' u (chat_at w' u) = ids_but D' u (chat_at w u)"
  shows "both_ok D' G L (m, w')"
proof -
  have "posted_present D' w'"
    unfolding posted_present_def
  proof (intro allI impI)
    fix i t assume a: "post_state_at (pw_store w') i = Some ''posted''" "thread_at (pw_store w') i = Some t" "(t, report_id i) \<notin> D'"
    then have "report_id i \<in> cm_id ` set (reports (chat_at w t))"
      using assms(1,2) subsetD [OF assms(4)] unfolding both_ok_def world_ok_def posted_present_def by (metis snd_conv)
    then show "report_id i \<in> cm_id ` set (reports (chat_at w' t))" using assms(6) [of t] a(3) by (auto simp: ids_but_def set_eq_iff)
  qed
  then show ?thesis using assms by (auto simp: both_ok_def world_ok_def covers_def)
qed

lemma distinct_reports_no [simp]: "distinct_reports None"
  by (simp add: distinct_reports_def reports_def)

lemma reports_or_no [simp]: "reports (Some (or_no_messages ms)) = reports ms" "distinct_reports (Some (or_no_messages ms)) = distinct_reports ms"
  by (simp_all add: reports_def or_no_messages_def distinct_reports_def split: option.splits)

lemma ids_or_no [simp]: "ids_but D t (Some (or_no_messages ms)) = ids_but D t ms"
  by (simp add: ids_but_def)

lemma ids_filter: "filter is_report ms = filter is_report ms' \<Longrightarrow> ids_but D t (Some ms) = ids_but D t (Some ms')"
  by (simp add: reports_def ids_but_def)

lemma ids_but_more: "ids_but D t a = ids_but D t b \<Longrightarrow> D \<subseteq> D' \<Longrightarrow> ids_but D' t a = ids_but D' t b"
  by (auto simp: ids_but_def set_eq_iff)

text \<open>A chat is replaced, with the same reports but for those recorded as removed.\<close>

lemma rewrite_ok:
  assumes "posting_ok s" "distinct_reports ms" "pg_lost s \<subseteq> D" "ids_but D t ms = ids_but D t (chat_at (pg_world s) t)"
  shows "posting_ok ((with_chat s t ms)\<lparr>pg_lost := D\<rparr>)"
proof -
  have ok: "both_ok (pg_lost s) (pg_given s) (pg_live s) (pg_runs s, pg_world s)" using assms(1) by (simp add: posting_ok_def)
  then have di: "distinct_reports (chat_at (pg_world s) u)" for u by (simp add: both_ok_def world_ok_def)
  have "both_ok D (pg_given s) (pg_live s) (pg_runs s, pg_world (with_chat s t ms))"
    using di assms(2-4) by (intro both_ok_chat [OF ok]) (simp_all add: chat_at_with_chat)
  moreover have "memory_ok ((with_chat s t ms)\<lparr>pg_lost := D\<rparr>)"
    unfolding memory_ok_def
  proof (intro allI impI)
    fix i r assume "running_on (pg_runs ((with_chat s t ms)\<lparr>pg_lost := D\<rparr>)) i r"
    then have "remembers s i (rr_thread r)" using assms(1) by (simp add: posting_ok_def memory_ok_def)
    then obtain snap mem where mem: "map_of (pg_memory s) i = Some (snap, mem)" "distinct_reports snap" "distinct_reports (Some mem)"
      and same: "ids_but D (rr_thread r) snap = ids_but D (rr_thread r) (chat_at (pg_world s) (rr_thread r))"
        "ids_but D (rr_thread r) (Some mem) = ids_but D (rr_thread r) (chat_at (pg_world s) (rr_thread r))"
      using ids_but_more [OF _ assms(3)] unfolding remembers_def by blast
    then show "remembers ((with_chat s t ms)\<lparr>pg_lost := D\<rparr>) i (rr_thread r)"
      using assms(4) by (cases "rr_thread r = t") (simp_all add: remembers_def chat_at_with_chat)
  qed
  ultimately show ?thesis by (simp add: posting_ok_def)
qed

lemma remember_ok:
  assumes "posting_ok s" "\<And>r. running_on (pg_runs s) i r \<Longrightarrow> remembers (s\<lparr>pg_memory := dset (pg_memory s) i x\<rparr>) i (rr_thread r)"
  shows "posting_ok (s\<lparr>pg_memory := dset (pg_memory s) i x\<rparr>)"
proof -
  have "remembers (s\<lparr>pg_memory := dset (pg_memory s) i x\<rparr>) j (rr_thread r)" if "running_on (pg_runs s) j r" for j r
    using assms that by (cases "j = i") (auto simp: posting_ok_def memory_ok_def remembers_def)
  then show ?thesis using assms(1) by (simp add: posting_ok_def memory_ok_def)
qed

lemma remembersD:
  assumes "posting_ok s" "the_run s i = Some r" "rr_task r = Some Task_Running" "map_of (pg_memory s) i = Some (snap, mem)"
  shows "distinct_reports snap" "distinct_reports (Some mem)"
    "ids_but (pg_lost s) (rr_thread r) snap = ids_but (pg_lost s) (rr_thread r) (chat_at (pg_world s) (rr_thread r))"
    "ids_but (pg_lost s) (rr_thread r) (Some mem) = ids_but (pg_lost s) (rr_thread r) (chat_at (pg_world s) (rr_thread r))"
proof -
  have "running_on (pg_runs s) i r" using assms by (simp add: running_on_def)
  then have "remembers s i (rr_thread r)" using assms(1) by (simp add: posting_ok_def memory_ok_def)
  then show "distinct_reports snap" "distinct_reports (Some mem)"
    "ids_but (pg_lost s) (rr_thread r) snap = ids_but (pg_lost s) (rr_thread r) (chat_at (pg_world s) (rr_thread r))"
    "ids_but (pg_lost s) (rr_thread r) (Some mem) = ids_but (pg_lost s) (rr_thread r) (chat_at (pg_world s) (rr_thread r))"
    using assms(4) by (simp_all add: remembers_def)
qed

subsection \<open>Steps of the registry\<close>

lemma runs_step:
  assumes "posting_ok s" "runs_only (pg_runs s) m" "no_run_begins (pg_runs s) m"
  shows "posting_ok (with_runs s m)"
proof -
  have "memory_ok (with_runs s m)"
    by (rule memory_keeps [of s]) (use assms in \<open>auto simp: posting_ok_def with_runs_def\<close>)
  then show ?thesis using both_ok_runs assms(1,2) by (auto simp: posting_ok_def with_runs_def)
qed

lemma posting_runs_ok: "posting_ok s \<Longrightarrow> runs_ok (pg_runs s)"
  by (simp add: posting_ok_def both_ok_def)

lemma dset_again: "dset (dset d k v) k v' = dset d k v'"
  by (induction d k v rule: dset.induct) auto

lemma change_change: "change_run i f (change_run i g m) = change_run i (f \<circ> g) m"
  by (cases "map_of (rm_runs m) i") (simp_all add: change_run_def dset_again)

lemma launch_step:
  assumes "runs_ok m" "map_of (rm_runs m) i = None" "\<And>t. (t, i) \<notin> set (rm_drains m)" "create_or_reject i now q m = Inr m'"
  shows "runs_only m m'" "no_run_begins m m'"
proof -
  obtain m1 where m1: "m' = create_run i now q m1" "m1 = m \<or> m1 = interrupt_runs (holds_thread (rq_thread q)) (rq_strategy q) now m"
    using assms(4) by (auto simp: create_or_reject_def split: if_splits)
  have "rr_task r \<noteq> Some Task_Done" if "holds_thread t r" "r \<in> set (runs_of m)" for t r
    using that assms(1) in_runs_iff [OF assms(1), of r] by (auto simp: runs_ok_def holds_thread_def ended_task_def)
  then have one: "\<And>t. attended m t \<Longrightarrow> attended m1 t" "no_run_begins m m1" "rm_deferred m1 = rm_deferred m"
    using m1(2) interrupt_runs_only [OF assms(1), of "holds_thread (rq_thread q)" "rq_strategy q" now] same_runs_begin [of m m]
    by (auto simp: runs_only_def)
  have fresh: "map_of (rm_runs m1) i = None" using m1(2) assms(2) by (elim disjE) (simp_all add: runs_of_interrupt)
  have "attended m' t" if "attended m1 t" for t
  proof -
    have at: "map_of (rm_runs m') j = Some r" if "map_of (rm_runs m1) j = Some r" for j r
      using that fresh by (cases "j = i") (simp_all add: m1(1) create_run_def)
    have "rm_drains m' = rm_drains m1" by (simp add: m1(1) create_run_def)
    then show ?thesis using that at unfolding attended_def by metis
  qed
  then show "runs_only m m'" using one(1,3) runs_ok_launch [OF assms] by (auto simp: runs_only_def m1(1) create_run_def)
  show "no_run_begins m m'"
    unfolding no_run_begins_def
  proof (intro allI impI)
    fix j r' assume "running_on m' j r'"
    then have "running_on m1 j r'" by (auto simp: running_on_def m1(1) create_run_def new_run_def split: if_splits)
    then show "\<exists>r. running_on m j r \<and> rr_thread r = rr_thread r'" using one(2) unfolding no_run_begins_def by blast
  qed
qed

lemma finish_step:
  assumes "runs_ok m" "map_of (rm_runs m) i = Some r" "rr_task r = Some Task_Closing"
  shows "runs_only m (finish_task i m)" "no_run_begins m (finish_task i m)"
proof -
  let ?f = "\<lambda>r. r\<lparr>rr_task := Some Task_Done\<rparr>"
  let ?m = "finish_task i m"
  have id: "rr_id r = i" using assms(1,2) by (simp add: runs_ok_def)
  have m: "rm_drains ?m = rm_drains m @ [(rr_thread r, i)]" "rm_deferred ?m = rm_deferred m"
    using assms(2) id by (simp_all add: finish_task_def set_task_def)
  have at: "map_of (rm_runs ?m) j = (if j = i then Some (?f r) else map_of (rm_runs m) j)" for j
    using assms(2) by (simp add: finish_task_def set_task_def runs_of_change)
  have "runs_ok (change_run i ?f (m\<lparr>rm_drains := []\<rparr>))"
    by (rule runs_ok_change [OF runs_ok_same [OF assms(1)]])
      (use assms in \<open>auto simp: same_life_def runs_ok_def ended_task_def\<close>)
  moreover have "rm_runs (change_run i ?f (m\<lparr>rm_drains := []\<rparr>)) = rm_runs ?m"
    using assms(2) by (simp add: finish_task_def set_task_def change_run_def)
  moreover have "rr_thread q = t \<and> rr_task q = Some Task_Done" if "(t, j) \<in> set (rm_drains ?m)" "map_of (rm_runs ?m) j = Some q" for t j q
    using that assms(1,2) by (cases "j = i") (auto simp: m(1) at runs_ok_def simp del: map_of_eq_Some_iff)
  ultimately have "runs_ok ?m" unfolding runs_ok_def by auto
  moreover have "attended ?m t" if "attended m t" for t
  proof (cases "t = rr_thread r")
    case True
    then show ?thesis unfolding attended_def m(1) by auto
  next
    case False
    with that assms(2) show ?thesis unfolding attended_def m(1) at
      by (elim disjE exE conjE) (metis option.inject, auto)
  qed
  ultimately show "runs_only m ?m" by (simp add: runs_only_def m)
  show "no_run_begins m ?m" using assms unfolding no_run_begins_def running_on_def at by (auto split: if_splits)
qed

lemma cancel_step:
  assumes "runs_ok m"
  shows "runs_only m (fst (cancel_run i a now m))" "no_run_begins m (fst (cancel_run i a now m))"
proof -
  have "runs_only m m" "no_run_begins m m" using assms same_runs_begin by (simp_all add: runs_only_def)
  moreover have "rr_task q \<noteq> Some Task_Done" if "map_of (rm_runs m) i = Some r" "active_status (rr_status r)" "rr_id q = i" "q \<in> set (runs_of m)" for r q
    using that assms in_runs_iff [OF assms, of q] by (auto simp: runs_ok_def ended_task_def)
  ultimately show "runs_only m (fst (cancel_run i a now m))" "no_run_begins m (fst (cancel_run i a now m))"
    using interrupt_runs_only [OF assms, of "\<lambda>r'. rr_id r' = i" a now]
    by (auto simp: cancel_run_def split: option.splits)
qed

subsection \<open>The startup drain\<close>

lemma report_wf: "pa_id a \<in> G \<Longrightarrow> (\<And>t. thread_at st (pa_id a) = Some t \<Longrightarrow> t = or_blank (pa_thread_id a)) \<Longrightarrow>
    wf_post G st \<lparr>po_action = a, po_message = report_message a c\<rparr>"
  by (simp add: wf_post_def post_id_def post_thread_def report_message_def)

lemma drain_one_ok:
  assumes "both_ok D G L (m, w)" "thread_at (pw_store w) (pa_id a) = Some (or_blank (pa_thread_id a))"
    and "drainable env db ht a \<Longrightarrow> pa_id a \<in> G" "drain_one env db ht ft el ((m, w), n) a = (mw', n')"
  shows "both_ok D G (if drainable env db ht a then insert (pa_id a) L else L) mw' \<and> rm_runs (fst mw') = rm_runs m
    \<and> (\<forall>i. thread_at (pw_store (snd mw')) i = thread_at (pw_store w) i)"
proof (cases "drainable env db ht a")
  case True
  let ?p = "\<lparr>po_action = a, po_message = report_message a (pa_post_content a)\<rparr>"
  obtain t where t: "or_none (pa_thread_id a) = Some t" using True by (auto simp: drainable_def split: option.splits)
  obtain state where st: "post_result ft (el t) ?p (m, w) = (mw', state)"
    using assms(4) True t by (cases "post_result ft (el t) ?p (m, w)")
      (auto simp: drain_one_def drainable_def Let_def split: if_splits prod.splits)
  have c: "covers L (deferred_posts m) w" using assms(1) by (simp add: both_ok_def)
  have "covers L (insert ?p (deferred_posts m)) w" using covers_mono [OF c] by blast
  moreover have "wf_post G (pw_store w) ?p" by (rule report_wf) (use assms(2,3) True in simp_all)
  moreover have "both_ok D G {} (m, w)" by (rule both_ok_fewer [OF assms(1)]) simp
  ultimately have "both_ok D G (insert (post_id ?p) L) mw' \<and> posts_only (m, w) mw' \<and> rm_drains (fst mw') = rm_drains m"
    using post_result_ok st by blast
  then show ?thesis using True by (simp add: post_id_def posts_only_def)
next
  case False
  let ?w = "mark_post (pa_id a) ''dropped'' None None w"
  consider (same) "mw' = (m, w)" | (gone) "mw' = (m, ?w)"
    using assms(4) False
    by (auto simp: drain_one_def drainable_def Let_def split: option.splits if_splits)
  then show ?thesis
  proof cases
    case same
    then show ?thesis using assms(1) False by simp
  next
    case gone
    let ?p = "\<lparr>po_action = a, po_message = report_message a []\<rparr>"
    have fo: "files_ok (pw_store w)" using assms(1) by (simp add: both_ok_def world_ok_def)
    have st: "pw_store ?w = set_post_state (pw_store w) (post_id ?p) ''dropped'' None None" by (simp add: mark_post_def post_id_def)
    have same: "chat_at ?w = chat_at w" "pw_retries ?w = pw_retries w" by (simp_all add: mark_post_def chat_at_def fun_eq_iff)
    have th: "thread_at (pw_store ?w) i = thread_at (pw_store w) i" for i using fo st by simp
    have wf: "wf_post (insert (pa_id a) G) (pw_store w) ?p" using report_wf assms(2) by fastforce
    have wo: "world_ok D (insert (pa_id a) G) w"
      using both_ok_more [OF assms(1), of "insert (pa_id a) G"] by (auto simp: both_ok_def)
    have "world_ok D (insert (pa_id a) G) ?w"
      by (rule world_ok_mark(1) [OF wo wf _ st]) (simp_all add: same chat_added_def)
    then have "world_ok D G ?w"
      using assms(1) th same(2) wf_post_threads by (auto simp: world_ok_def both_ok_def)
    moreover have "covers L (deferred_posts m) ?w"
      using assms(1) fo st same(2) by (auto simp: both_ok_def covers_def post_state_set_post post_id_def)
    ultimately show ?thesis
      using assms(1) gone False th deferred_ok_threads by (auto simp: both_ok_def)
  qed
qed

lemma drain_each_ok:
  assumes "both_ok D G L mw" "\<And>a. a \<in> set as \<Longrightarrow> thread_at (pw_store (snd mw)) (pa_id a) = Some (or_blank (pa_thread_id a))"
    and "\<And>a. a \<in> set as \<Longrightarrow> drainable env db ht a \<Longrightarrow> pa_id a \<in> G"
  shows "both_ok D G (L \<union> pa_id ` set (filter (drainable env db ht) as)) (fst (foldl (drain_one env db ht ft el) (mw, n) as))
    \<and> rm_runs (fst (fst (foldl (drain_one env db ht ft el) (mw, n) as))) = rm_runs (fst mw)"
  using assms
proof (induction as arbitrary: L mw n)
  case (Cons a as)
  obtain mw' n' where one: "drain_one env db ht ft el (mw, n) a = (mw', n')" by fastforce
  obtain m w where mw: "mw = (m, w)" by fastforce
  have at: "thread_at (pw_store w) (pa_id a) = Some (or_blank (pa_thread_id a))" using Cons.prems(2) [of a] by (simp add: mw)
  note ok = drain_one_ok [OF Cons.prems(1) [unfolded mw] at _ one [unfolded mw]]
  have ok: "both_ok D G (if drainable env db ht a then insert (pa_id a) L else L) mw'" "rm_runs (fst mw') = rm_runs m"
    "\<And>i. thread_at (pw_store (snd mw')) i = thread_at (pw_store w) i" using ok Cons.prems(3) [of a] by simp_all
  have rest: "thread_at (pw_store (snd mw')) (pa_id b) = Some (or_blank (pa_thread_id b))" if "b \<in> set as" for b
    using Cons.prems(2) [of b] ok(3) that by (simp add: mw)
  from Cons.IH [OF ok(1) rest Cons.prems(3), of n'] ok(2)
  show ?case by (cases "drainable env db ht a") (simp_all add: one [unfolded mw] mw)
qed simp

subsection \<open>Every step\<close>

lemma both_posting: "posting_ok s \<Longrightarrow> both_ok (pg_lost s) (pg_given s) (pg_live s) (pg_runs s, pg_world s)"
  by (simp add: posting_ok_def)

lemma posts_step:
  assumes "posting_ok s" "both_ok (pg_lost s) (pg_given s) (pg_live s) mw" "posts_only (pg_runs s, pg_world s) mw"
  shows "posting_ok (with_both s mw)"
proof -
  have "memory_ok (with_both s mw)"
    by (rule memory_posts_only [of s]) (use assms in \<open>auto simp: posting_ok_def with_both_def\<close>)
  then show ?thesis using assms(2) by (simp add: posting_ok_def with_both_def)
qed

lemma posting_ok_given:
  assumes "posting_ok s" "pg_given s \<subseteq> G"
  shows "posting_ok (s\<lparr>pg_given := G\<rparr>)"
  using both_ok_more [OF both_posting [OF assms(1)] assms(2)] assms(1)
  by (simp add: posting_ok_def memory_ok_def remembers_def)

lemma awaiting_stored: "a \<in> set (awaiting_post st states) \<Longrightarrow> \<exists>i. store_get st i = Some a"
  by (auto simp: awaiting_post_def in_listing)

lemma start_run_steps:
  assumes "runs_ok m" "map_of (rm_runs m) i = Some r" "rr_task r = Some Task_New"
  shows "runs_only m (start_task i now m)" "\<And>j q. running_on (start_task i now m) j q \<Longrightarrow> j \<noteq> i \<Longrightarrow> running_on m j q"
    "\<And>q. running_on (start_task i now m) i q \<Longrightarrow> rr_thread q = rr_thread r"
proof -
  let ?f = "(\<lambda>r. r\<lparr>rr_status := Run_Running, rr_updated := now, rr_error := (case None of None \<Rightarrow> rr_error r | Some e \<Rightarrow> Some e)\<rparr>)
    \<circ> (\<lambda>r. r\<lparr>rr_task := Some Task_Running\<rparr>)"
  have eq: "start_task i now m = change_run i ?f m" by (simp add: start_task_def set_status_def set_task_def change_change)
  show "runs_only m (start_task i now m)" unfolding eq
    by (rule change_runs_only [OF assms(1,2)]) (use assms(3) in \<open>simp_all add: same_life_def ended_task_def will_end_def active_status_def\<close>)
  show "running_on m j q" if "running_on (start_task i now m) j q" "j \<noteq> i" for j q
    using that by (simp add: eq running_on_def runs_of_change)
  show "rr_thread q = rr_thread r" if "running_on (start_task i now m) i q" for q
    using that assms(2) by (auto simp: eq running_on_def runs_of_change)
qed

lemma close_run_steps:
  assumes "runs_ok m" "map_of (rm_runs m) i = Some r" "rr_task r = Some Task_Running"
  shows "runs_only m (close_task i how now m)" "no_run_begins m (close_task i how now m)"
proof -
  obtain status err rb where fin: "final_status how r = (status, err, rb)" by (metis prod_cases3)
  let ?f = "(\<lambda>r. r\<lparr>rr_task := Some Task_Closing\<rparr>) \<circ>
    (\<lambda>r. r\<lparr>rr_status := status, rr_updated := now, rr_error := (case err of None \<Rightarrow> rr_error r | Some e \<Rightarrow> Some e)\<rparr>)"
  have eq: "close_task i how now m = change_run i ?f m"
    using assms(2) fin by (simp add: close_task_def set_status_def set_task_def change_change)
  have "\<not> active_status status"
    using fin by (auto simp: final_status_def active_status_def split: stream_end.splits if_splits)
  then show "runs_only m (close_task i how now m)" unfolding eq
    by (intro change_runs_only [OF assms(1,2)]) (simp_all add: same_life_def ended_task_def will_end_def task_unfinished_def assms(3))
  show "no_run_begins m (close_task i how now m)" unfolding eq
    by (rule change_no_run_begins [OF assms(2)]) simp_all
qed

end
