(* ===== verification/Posts_Stay.thy ===== *)
theory Posts_Stay
  imports Posts_System
begin

text \<open>
  The invariant over every step, and its two consequences: a posted result is in its chat once, whatever runs do
  there, and a result that waits is queued where somebody will drain it or has a retry. Two cases where runs of
  one thread overlap follow at the end.
\<close>

definition posting_inv :: "posting \<Rightarrow> bool" where
  "posting_inv s = (posting_ok s \<and> pg_live s \<subseteq> pg_given s)"

lemma start_inv: "posting_start s \<Longrightarrow> posting_inv s"
  by (auto simp: posting_start_def posting_inv_def posting_ok_def both_ok_def memory_ok_def running_on_def no_runs_def
    runs_ok_def deferred_ok_def queues_attended_def covers_def)

lemma thread_at_get: "store_get st i = Some a \<Longrightarrow> thread_at st i = Some (or_blank (pa_thread_id a))"
  by (simp add: thread_at_def)

lemma start_keeps:
  assumes "posting_ok s" "the_run s i = Some r" "rr_task r = Some Task_New" "ms = chat_at (pg_world s) (rr_thread r)"
  shows "posting_ok (with_runs s (start_task i now (pg_runs s))\<lparr>pg_memory := dset (pg_memory s) i (ms, or_no_messages ms)\<rparr>)" (is "posting_ok ?s")
proof -
  note st = start_run_steps [OF posting_runs_ok [OF assms(1)] assms(2,3)]
  have "distinct_reports ms" using both_posting [OF assms(1)] assms(4) by (simp add: both_ok_def world_ok_def)
  then have "remembers ?s j (rr_thread q)" if "running_on (pg_runs ?s) j q" for j q
  proof (cases "j = i")
    case True
    then have "rr_thread q = rr_thread r" using st(3) [of _ q] that by (simp add: with_runs_def)
    then show ?thesis using True \<open>distinct_reports ms\<close> assms(4) by (simp add: remembers_def with_runs_def)
  next
    case False
    then have "running_on (pg_runs s) j q" using st(2) [of _ j q] that by (simp add: with_runs_def)
    then have "remembers s j (rr_thread q)" using assms(1) by (simp add: posting_ok_def memory_ok_def)
    then show ?thesis using False by (simp add: remembers_def with_runs_def)
  qed
  then have "memory_ok ?s" by (simp add: memory_ok_def)
  then show ?thesis using both_ok_runs [OF both_posting [OF assms(1)] st(1)] by (simp add: posting_ok_def with_runs_def)
qed

lemma merged_reports:
  assumes "merged mem new ms" "\<And>m. m \<in> set new \<Longrightarrow> \<not> is_report m"
  shows "filter is_report ms = filter is_report mem"
proof -
  let ?f = "\<lambda>m. case find (\<lambda>n. cm_id n = cm_id m) new of Some n \<Rightarrow> n | None \<Rightarrow> m"
  obtain rest where r: "set rest \<subseteq> set new" "ms = map ?f mem @ rest" using assms(1) by (auto simp: merged_def)
  have same: "?f m = m" if "is_report m" for m
  proof -
    have "find (\<lambda>n. cm_id n = cm_id m) new = None"
      unfolding find_None_iff using assms(2) that by (metis is_report_def)
    then show ?thesis by simp
  qed
  have id: "cm_id (?f m) = cm_id m" for m
  proof (cases "find (\<lambda>n. cm_id n = cm_id m) new")
    case (Some n)
    then have "cm_id n = cm_id m" unfolding find_Some_iff by blast
    then show ?thesis by (simp add: Some)
  qed simp
  have other: "is_report (?f m) = is_report m" for m by (simp only: is_report_def id)
  have "filter is_report (map ?f mem) = filter is_report mem"
  proof (induction mem)
    case (Cons m mem)
    then show ?case using same [of m] other [of m] by (cases "is_report m") simp_all
  qed simp
  moreover have "filter is_report rest = []" using r(1) assms(2) by (auto simp: filter_empty_conv)
  ultimately show ?thesis using r(2) by simp
qed

lemma with_lost_same: "(with_chat s t ms)\<lparr>pg_lost := pg_lost s\<rparr> = with_chat s t ms"
  by (simp add: with_chat_def)

text \<open>A run's checkpoint, with the reports it removes.\<close>

lemma checkpoint_keeps:
  assumes "posting_ok s" "the_run s i = Some r" "rr_task r = Some Task_Running" "map_of (pg_memory s) i = Some (snap, mem)"
    and "distinct_reports (Some ms)" "pg_lost s \<subseteq> D" "ids_but D (rr_thread r) (Some ms) = ids_but D (rr_thread r) (chat_at (pg_world s) (rr_thread r))"
  shows "posting_ok ((with_chat s (rr_thread r) (Some ms))\<lparr>pg_lost := D, pg_memory := dset (pg_memory s) i (snap, ms)\<rparr>)"
proof -
  note mem = remembersD [OF assms(1-4)]
  let ?s = "(with_chat s (rr_thread r) (Some ms))\<lparr>pg_lost := D\<rparr>"
  have ok: "posting_ok ?s" by (rule rewrite_ok [OF assms(1,5,6,7)])
  have "posting_ok (?s\<lparr>pg_memory := dset (pg_memory ?s) i (snap, ms)\<rparr>)"
  proof (rule remember_ok [OF ok])
    fix q assume "running_on (pg_runs ?s) i q"
    then have "q = r" using assms(2) by (simp add: running_on_def)
    then show "remembers (?s\<lparr>pg_memory := dset (pg_memory ?s) i (snap, ms)\<rparr>) i (rr_thread q)"
      using mem(1) assms(5) ids_but_more [OF mem(3) assms(6)] assms(7) by (simp add: remembers_def chat_at_with_chat)
  qed
  then show ?thesis by simp
qed

lemma lost_between_ids: "ids_but (D \<union> lost_between t old new) t new = ids_but (D \<union> lost_between t old new) t old"
  by (auto simp: ids_but_def lost_between_def Let_def)

lemma close_keeps:
  assumes "posting_ok s" "the_run s i = Some r" "rr_task r = Some Task_Running" "map_of (pg_memory s) i = Some (snap, mem)"
    "s' = s \<or> s' = with_chat s (rr_thread r) snap"
  shows "posting_ok (with_runs s' (close_task i how now (pg_runs s)))"
proof -
  note mem = remembersD [OF assms(1-4)]
  have "posting_ok (with_chat s (rr_thread r) snap)" using rewrite_ok [OF assms(1) mem(1) subset_refl mem(3)] by (simp add: with_lost_same)
  then have s': "posting_ok s'" "pg_runs s' = pg_runs s" using assms(1,5) by auto
  note cl = close_run_steps [OF posting_runs_ok [OF s'(1)], unfolded s'(2), OF assms(2,3)]
  show ?thesis by (rule runs_step [OF s'(1)]) (simp_all add: s'(2) cl)
qed

lemma drain_keeps:
  assumes "posting_ok s" "\<And>r. the_run s i = Some r \<Longrightarrow> rr_task r \<noteq> Some Task_Running"
  shows "posting_ok (with_both s (drain (perform_post ft) t i (pg_runs s, pg_world s)))"
  using drain_ok [OF both_posting [OF assms(1)] assms(2) refl] posts_step [OF assms(1)] by blast

text \<open>A scheduled drain: it is taken from the list, and its queue is drained or its thread is busy.\<close>

lemma late_drain_keeps:
  assumes "posting_ok s" "(t, i) \<in> set (rm_drains (pg_runs s))"
  shows "posting_ok (with_both s (drain (perform_post ft) t i
    ((pg_runs s)\<lparr>rm_drains := remove1 (t, i) (rm_drains (pg_runs s))\<rparr>, pg_world s)))" (is "posting_ok (with_both s (?drain ?m))")
proof -
  let ?full = "drain (perform_post ft) t i (pg_runs s, pg_world s)"
  have ro: "runs_ok (pg_runs s)" using posting_runs_ok [OF assms(1)] .
  have fin: "\<And>r. the_run s i = Some r \<Longrightarrow> rr_task r \<noteq> Some Task_Running" using ro assms(2) by (fastforce simp: runs_ok_def)
  have full: "both_ok (pg_lost s) (pg_given s) (pg_live s) ?full \<and> posts_only (pg_runs s, pg_world s) ?full
      \<and> rm_drains (fst ?full) = rm_drains (pg_runs s)"
    by (rule drain_ok [OF both_posting [OF assms(1)] fin refl])
  have busy: "run_busy (pg_runs s\<lparr>rm_drains := d\<rparr>) u e = run_busy (pg_runs s) u e" for d u e
    by (simp add: run_busy_def runs_of_def)
  have eq: "?drain ?m = ((fst ?full)\<lparr>rm_drains := remove1 (t, i) (rm_drains (pg_runs s))\<rparr>, snd ?full)"
    by (auto simp: drain_def busy split: option.splits)
  have runs: "rm_runs (fst ?full) = rm_runs (pg_runs s)" "rm_drains (fst ?full) = rm_drains (pg_runs s)"
    using full by (simp_all add: posts_only_def)
  have q: "attended ((fst ?full)\<lparr>rm_drains := remove1 (t, i) (rm_drains (pg_runs s))\<rparr>) u"
    if d: "map_of (rm_deferred (fst ?full)) u \<noteq> None" for u
  proof (cases "u = t")
    case False
    have "attended (fst ?full) u" using full d unfolding both_ok_def queues_attended_def by blast
    then consider j r where "the_run s j = Some r" "rr_thread r = u" "will_end r" | j where "(u, j) \<in> set (rm_drains (pg_runs s))"
      unfolding attended_def runs by blast
    then show ?thesis
    proof cases
      case 2
      then have "(u, j) \<in> set (remove1 (t, i) (rm_drains (pg_runs s)))" using False by simp
      then show ?thesis unfolding attended_def by auto
    qed (auto simp: attended_def runs)
  next
    case True
    then have "run_busy (pg_runs s) t (Some i)" using d by (auto simp: drain_def split: option.splits if_splits)
    from run_busyD [OF ro this] obtain j r where "the_run s j = Some r" "rr_thread r = t" "active_status (rr_status r) \<or> task_unfinished r"
      by metis
    then show ?thesis using True by (auto simp: attended_def will_end_def runs)
  qed
  have "both_ok (pg_lost s) (pg_given s) (pg_live s) (?drain ?m)"
  proof -
    have "queues_attended (fst (?drain ?m))" using q by (simp add: queues_attended_def eq)
    moreover have "runs_ok (fst (?drain ?m))"
      by (rule runs_ok_same [OF ro]) (simp_all add: eq runs set_remove1_subset)
    ultimately show ?thesis using full by (simp add: both_ok_def eq deferred_ok_def deferred_posts_def)
  qed
  moreover have "posts_only (pg_runs s, pg_world s) (?drain ?m)" using full by (simp add: posts_only_def eq)
  ultimately show ?thesis by (rule posts_step [OF assms(1)])
qed

lemma post_keeps:
  assumes "posting_ok s" "store_get (pg_store s) (pa_id a) = Some b" "pa_thread_id b = pa_thread_id a"
  shows "posting_ok ((with_both s (fst (post_result ft elsewhere \<lparr>po_action = a, po_message = report_message a c\<rparr> (pg_runs s, pg_world s))))
      \<lparr>pg_given := insert (pa_id a) (pg_given s), pg_live := insert (pa_id a) (pg_live s)\<rparr>)"
proof -
  let ?p = "\<lparr>po_action = a, po_message = report_message a c\<rparr>"
  let ?G = "insert (pa_id a) (pg_given s)"
  obtain mw st where r: "post_result ft elsewhere ?p (pg_runs s, pg_world s) = (mw, st)" by fastforce
  have more: "both_ok (pg_lost s) ?G (pg_live s) (pg_runs s, pg_world s)"
    by (rule both_ok_more [OF both_posting [OF assms(1)]]) blast
  have wf: "wf_post ?G (pg_store s) ?p" by (rule report_wf) (simp_all add: thread_at_get [OF assms(2)] assms(3))
  have co: "covers (pg_live s) (insert ?p (deferred_posts (pg_runs s))) (pg_world s)"
    by (rule covers_mono [of _ "deferred_posts (pg_runs s)"]) (use more in \<open>auto simp: both_ok_def\<close>)
  from post_result_ok [OF both_ok_fewer [OF more] co wf r]
  have post: "both_ok (pg_lost s) ?G (insert (pa_id a) (pg_live s)) mw" "posts_only (pg_runs s, pg_world s) mw"
    by (simp_all add: post_id_def)
  have "memory_ok (with_both s mw)"
    by (rule memory_posts_only [of s]) (use assms(1) post(2) in \<open>auto simp: posting_ok_def with_both_def\<close>)
  then show ?thesis using post(1) by (simp add: r posting_ok_def with_both_def memory_ok_def remembers_def)
qed

lemma retry_keeps:
  assumes "posting_ok s" "e \<in> set (pw_retries (pg_world s))"
  shows "posting_ok (with_both s (fire_retry ft elsewhere e (pg_runs s, pg_world s)))"
proof -
  let ?w = "(pg_world s)\<lparr>pw_retries := remove1 e (pw_retries (pg_world s))\<rparr>"
  obtain mw st where r: "post_result ft elsewhere (snd e) (pg_runs s, ?w) = (mw, st)" by fastforce
  have ok: "both_ok (pg_lost s) (pg_given s) (pg_live s) (pg_runs s, pg_world s)" using both_posting [OF assms(1)] .
  have sub: "set (pw_retries ?w) \<subseteq> set (pw_retries (pg_world s))" by (simp add: set_remove1_subset)
  have wo: "world_ok (pg_lost s) (pg_given s) ?w" and wf: "wf_post (pg_given s) (pw_store ?w) (snd e)"
    using ok sub assms(2) by (auto simp: both_ok_def world_ok_def posted_present_def chat_at_def)
  have old: "covers (pg_live s) (deferred_posts (pg_runs s)) (pg_world s)" using ok by (simp add: both_ok_def)
  have "snd ` set (pw_retries (pg_world s)) \<subseteq> insert (snd e) (snd ` set (pw_retries ?w))"
  proof
    fix p assume "p \<in> snd ` set (pw_retries (pg_world s))"
    then obtain x where "x \<in> set (pw_retries (pg_world s))" "p = snd x" by blast
    then show "p \<in> insert (snd e) (snd ` set (pw_retries ?w))" by (cases "x = e") auto
  qed
  then have co: "covers (pg_live s) (insert (snd e) (deferred_posts (pg_runs s))) ?w"
    unfolding covers_def
  proof (intro ballI impI)
    fix i assume "i \<in> pg_live s" "post_state_at (pw_store ?w) i = Some ''waiting''"
    then have "\<exists>p\<in>deferred_posts (pg_runs s) \<union> snd ` set (pw_retries (pg_world s)). post_id p = i"
      using old unfolding covers_def by simp
    then obtain p where "p \<in> deferred_posts (pg_runs s) \<union> snd ` set (pw_retries (pg_world s))" "post_id p = i"
      by blast
    then show "\<exists>p\<in>insert (snd e) (deferred_posts (pg_runs s)) \<union> snd ` set (pw_retries ?w). post_id p = i"
      using \<open>snd ` set (pw_retries (pg_world s)) \<subseteq> insert (snd e) (snd ` set (pw_retries ?w))\<close> by blast
  qed
  have "both_ok (pg_lost s) (pg_given s) {} (pg_runs s, ?w)" using ok wo by (auto simp: both_ok_def covers_def)
  from post_result_ok [OF this co wf r]
  have post: "both_ok (pg_lost s) (pg_given s) (pg_live s) mw" "posts_only (pg_runs s, ?w) mw"
    using both_ok_fewer by blast+
  have "posts_only (pg_runs s, pg_world s) mw" using post(2) by (simp add: posts_only_def chat_at_def)
  from posts_step [OF assms(1) post(1) this] show ?thesis by (simp add: fire_retry_def r)
qed

lemma restart_keeps:
  fixes ft :: "nat \<Rightarrow> faults"
  assumes "posting_ok s"
  defines "as \<equiv> awaiting_post (pg_store s) [''waiting'']"
  shows "posting_ok ((with_both s (fst (drain_waiting_posts env db ht ft el (no_runs, (pg_world s)\<lparr>pw_retries := []\<rparr>))))
      \<lparr>pg_memory := [], pg_given := pg_given s \<union> pa_id ` set (filter (drainable env db ht) as),
       pg_live := pa_id ` set (filter (drainable env db ht) as)\<rparr>)"
proof -
  let ?w = "(pg_world s)\<lparr>pw_retries := []\<rparr>"
  let ?G = "pg_given s \<union> pa_id ` set (filter (drainable env db ht) as)"
  let ?r = "foldl (drain_one env db ht ft el) ((no_runs, ?w), 0) as"
  have fo: "files_ok (pg_store s)" using both_posting [OF assms(1)] by (simp add: both_ok_def world_ok_def)
  have "both_ok (pg_lost s) (pg_given s) {} (no_runs, ?w)"
    using both_posting [OF assms(1)]
    by (auto simp: both_ok_def world_ok_def posted_present_def chat_at_def no_runs_def runs_ok_def deferred_ok_def queues_attended_def covers_def)
  then have start: "both_ok (pg_lost s) ?G {} (no_runs, ?w)" by (rule both_ok_more) blast
  have at: "thread_at (pw_store (snd (no_runs, ?w))) (pa_id a) = Some (or_blank (pa_thread_id a))" if a: "a \<in> set as" for a
  proof -
    obtain i where "store_get (pg_store s) i = Some a" using awaiting_stored a unfolding as_def by blast
    then show ?thesis using thread_at_get files_ok_get [OF fo] by fastforce
  qed
  have "both_ok (pg_lost s) ?G ({} \<union> pa_id ` set (filter (drainable env db ht) as)) (fst ?r)
    \<and> rm_runs (fst (fst ?r)) = rm_runs (fst (no_runs :: post run_manager, ?w))"
    by (rule drain_each_ok [OF start at]) auto
  then show ?thesis
    by (simp add: posting_ok_def with_both_def drain_waiting_posts_def as_def [symmetric] memory_ok_def running_on_def no_runs_def)
qed

lemma store_keeps:
  assumes "posting_ok s" "pg_live s \<subseteq> pg_given s" "keeps_posts (pg_given s) (pg_store s) st"
  shows "posting_ok (s\<lparr>pg_world := (pg_world s)\<lparr>pw_store := st\<rparr>\<rparr>)"
proof -
  let ?w = "(pg_world s)\<lparr>pw_store := st\<rparr>"
  have ok: "both_ok (pg_lost s) (pg_given s) (pg_live s) (pg_runs s, pg_world s)" using both_posting [OF assms(1)] .
  have wf: "wf_post (pg_given s) st p" if "wf_post (pg_given s) (pg_store s) p" for p
    using that assms(3) by (simp add: wf_post_def keeps_posts_def)
  have "posted_present (pg_lost s) ?w"
    using ok assms(3) by (fastforce simp: both_ok_def world_ok_def posted_present_def keeps_posts_def chat_at_def)
  then have "world_ok (pg_lost s) (pg_given s) ?w"
    using ok assms(3) wf by (auto simp: both_ok_def world_ok_def keeps_posts_def chat_at_def)
  moreover have "covers (pg_live s) (deferred_posts (pg_runs s)) ?w"
    using ok assms(2,3) by (auto simp: both_ok_def covers_def keeps_posts_def)
  moreover have "deferred_ok (pg_given s) st (pg_runs s)" using ok wf by (auto simp: both_ok_def deferred_ok_def)
  ultimately have "both_ok (pg_lost s) (pg_given s) (pg_live s) (pg_runs s, ?w)" using ok by (simp add: both_ok_def)
  then show ?thesis using assms(1) by (simp add: posting_ok_def memory_ok_def remembers_def chat_at_def)
qed

lemma delete_keeps:
  assumes "posting_ok s"
  shows "posting_ok ((with_chat s t None)\<lparr>pg_lost := pg_lost s \<union> {t} \<times> UNIV\<rparr>)"
  by (rule rewrite_ok [OF assms]) (auto simp: ids_but_def)

lemma attach_keeps:
  assumes "posting_ok s" "the_run s i = Some r" "rr_task r = None"
  shows "posting_ok (with_runs s (attach_task i (pg_runs s)))"
proof (rule runs_step [OF assms(1)])
  show "runs_only (pg_runs s) (attach_task i (pg_runs s))" unfolding attach_task_def
    by (rule change_runs_only [OF posting_runs_ok [OF assms(1)] assms(2)])
      (simp_all add: same_life_def ended_task_def will_end_def task_unfinished_def assms(3))
  show "no_run_begins (pg_runs s) (attach_task i (pg_runs s))" unfolding attach_task_def
    by (rule change_no_run_begins [OF assms(2)]) simp_all
qed

lemma reread_keeps:
  assumes "posting_ok s" "the_run s i = Some r" "rr_task r = Some Task_Running" "map_of (pg_memory s) i = Some (snap, mem)"
  shows "posting_ok (s\<lparr>pg_memory := dset (pg_memory s) i (snap, or_no_messages (chat_at (pg_world s) (rr_thread r)))\<rparr>)"
proof (rule remember_ok [OF assms(1)])
  fix q assume "running_on (pg_runs s) i q"
  then have q: "q = r" using assms(2) by (simp add: running_on_def)
  have "distinct_reports (chat_at (pg_world s) (rr_thread r))" using both_posting [OF assms(1)] by (simp add: both_ok_def world_ok_def)
  then show "remembers (s\<lparr>pg_memory := dset (pg_memory s) i (snap, or_no_messages (chat_at (pg_world s) (rr_thread r)))\<rparr>) i (rr_thread q)"
    using remembersD [OF assms] q by (simp add: remembers_def)
qed

lemma with_chat_same: "(with_chat s t ms)\<lparr>pg_lost := pg_lost s, pg_memory := x\<rparr> = (with_chat s t ms)\<lparr>pg_memory := x\<rparr>"
  by (simp add: with_chat_def)

lemma posting_step_keeps:
  assumes "posting_step s s'" "posting_inv s"
  shows "posting_inv s'"
proof -
  have ok: "posting_ok s" "pg_live s \<subseteq> pg_given s" using assms(2) by (simp_all add: posting_inv_def)
  from assms(1) have "posting_ok s'"
  proof cases
    case (launch i now q m)
    then show ?thesis using launch_step [OF posting_runs_ok [OF ok(1)]] runs_step [OF ok(1)] by blast
  next
    case (finish i r)
    then show ?thesis using finish_step [OF posting_runs_ok [OF ok(1)]] runs_step [OF ok(1)] by blast
  next
    case (cancel i a now)
    then show ?thesis using cancel_step [OF posting_runs_ok [OF ok(1)]] runs_step [OF ok(1)] by blast
  next
    case (worker_drain i r ft)
    then show ?thesis using drain_keeps [OF ok(1), of i] by simp
  next
    case (close i r snap mem u how now)
    then show ?thesis using close_keeps [OF ok(1)] by blast
  next
    case (restart w drained env db ht ft el)
    then show ?thesis using restart_keeps [OF ok(1)] by simp
  next
    case (attach i r)
    then show ?thesis using attach_keeps [OF ok(1)] by simp
  next
    case (start i r ms now)
    then show ?thesis using start_keeps [OF ok(1)] by simp
  next
    case (reread i r snap mem)
    then show ?thesis using reread_keeps [OF ok(1)] by simp
  next
    case (checkpoint i r snap mem new ms)
    have rep: "filter is_report ms = filter is_report mem" by (rule merged_reports) (use checkpoint in auto)
    note mem = remembersD [OF ok(1) checkpoint(2-4)]
    have "distinct_reports (Some ms)" using mem(2) rep by (simp add: distinct_reports_def reports_def)
    from checkpoint_keeps [OF ok(1) checkpoint(2-4) this subset_refl] show ?thesis
      using ids_filter [OF rep] mem(4) checkpoint(1) by (simp add: with_chat_same)
  next
    case (summarise i r snap mem ms lost)
    have "pg_lost s \<subseteq> pg_lost s \<union> lost" by blast
    moreover have "ids_but (pg_lost s \<union> lost) (rr_thread r) (Some ms) = ids_but (pg_lost s \<union> lost) (rr_thread r) (chat_at (pg_world s) (rr_thread r))"
      unfolding summarise(6) by (rule lost_between_ids)
    ultimately show ?thesis unfolding summarise(1) by (rule checkpoint_keeps [OF ok(1) summarise(2-5)])
  next
    case (set_state ms lost t)
    have "pg_lost s \<subseteq> pg_lost s \<union> lost" by blast
    moreover have "ids_but (pg_lost s \<union> lost) t (Some ms) = ids_but (pg_lost s \<union> lost) t (chat_at (pg_world s) t)"
      unfolding set_state(3) by (rule lost_between_ids)
    ultimately show ?thesis unfolding set_state(1) by (rule rewrite_ok [OF ok(1) set_state(2)])
  next
    case (late_drain t i ft)
    then show ?thesis using late_drain_keeps [OF ok(1)] by simp
  next
    case (post a b ft el c)
    then show ?thesis using post_keeps [OF ok(1)] by simp
  next
    case (retry e ft el)
    then show ?thesis using retry_keeps [OF ok(1)] by simp
  next
    case (store_write st)
    then show ?thesis using store_keeps [OF ok] by simp
  next
    case (delete_chat t)
    then show ?thesis using delete_keeps [OF ok(1)] by simp
  qed
  moreover have "pg_live s' \<subseteq> pg_given s'"
    using assms(1) ok(2) by cases (auto simp: with_runs_def with_both_def)
  ultimately show ?thesis by (simp add: posting_inv_def)
qed

lemma posting_reachable_inv: "posting_reachable s \<Longrightarrow> posting_inv s"
  by (induction rule: posting_reachable.induct) (use start_inv posting_step_keeps in blast)+

subsection \<open>Posted results stay\<close>

lemma distinct_report_once: "distinct (map cm_id (filter is_report ms)) \<Longrightarrow> report_id i \<in> cm_id ` set (filter is_report ms) \<Longrightarrow>
    length (filter (\<lambda>m. cm_id m = report_id i) ms) = 1"
proof (induction ms)
  case (Cons m ms)
  show ?case
  proof (cases "cm_id m = report_id i")
    case True
    then have "report_id i \<notin> cm_id ` set (filter is_report ms)" using Cons.prems(1) by auto
    then have "\<forall>x\<in>set ms. cm_id x \<noteq> report_id i" using report_in_reports [of i ms] by (metis image_eqI)
    then show ?thesis using True by simp
  next
    case False
    then show ?thesis using Cons by (auto split: if_splits)
  qed
qed simp

lemma distinct_report_most:
  assumes "distinct (map cm_id (filter is_report ms))"
  shows "length (filter (\<lambda>m. cm_id m = report_id i) ms) \<le> 1"
proof (cases "report_id i \<in> cm_id ` set ms")
  case True
  then show ?thesis using distinct_report_once [OF assms report_in_reports [OF True]] by simp
next
  case False
  then have "filter (\<lambda>m. cm_id m = report_id i) ms = []" unfolding filter_empty_conv by (metis imageI)
  then show ?thesis by simp
qed

text \<open>
  C9. Whatever runs, cancellations, rollbacks, summaries, drains, retries and restarts there were, and however accesses to
  the checkpointer failed: a result is never in a chat twice, and a result recorded as posted is in its chat exactly once,
  unless \<open>pg_lost\<close> records that a step removed or replaced it there: the deletion of the chat, a run's summary of its history,
  or a writer that sets the messages of a thread. No ordinary checkpoint or rollback of a run, and no other post, overwrites it.
  A run's own messages do not have the ids of reports, and no writer puts the same report into one list of messages twice.
\<close>

theorem posted_results_stay:
  assumes "posting_reachable s" "store_get (pg_store s) i = Some a" "pa_post_state a = ''posted''"
  shows "(\<forall>t ms. chat_at (pg_world s) t = Some ms \<longrightarrow> length (filter (\<lambda>m. cm_id m = report_id i) ms) \<le> 1)
    \<and> ((or_blank (pa_thread_id a), report_id i) \<notin> pg_lost s \<longrightarrow>
        (\<exists>ms. chat_at (pg_world s) (or_blank (pa_thread_id a)) = Some ms \<and> length (filter (\<lambda>m. cm_id m = report_id i) ms) = 1))"
proof -
  let ?t = "or_blank (pa_thread_id a)"
  have ok: "world_ok (pg_lost s) (pg_given s) (pg_world s)"
    using posting_reachable_inv [OF assms(1)] by (simp add: posting_inv_def posting_ok_def both_ok_def)
  then have dist: "distinct (map cm_id (filter is_report ms))" if "chat_at (pg_world s) t = Some ms" for t ms
    using that unfolding world_ok_def distinct_reports_def reports_def by (metis option.simps(5))
  have "\<exists>ms. chat_at (pg_world s) ?t = Some ms \<and> length (filter (\<lambda>m. cm_id m = report_id i) ms) = 1" if "(?t, report_id i) \<notin> pg_lost s"
  proof -
    have rep: "report_id i \<in> cm_id ` set (reports (chat_at (pg_world s) ?t))"
      using ok assms(2,3) that by (simp add: world_ok_def posted_present_def post_state_at_def thread_at_get)
    then obtain ms where ms: "chat_at (pg_world s) ?t = Some ms"
      by (cases "chat_at (pg_world s) ?t") (auto simp: reports_def)
    then show ?thesis using rep dist distinct_report_once by (simp add: reports_def)
  qed
  then show ?thesis using dist distinct_report_most by blast
qed

text \<open>A result confirmed while a run holds its chat: queued, and written when the run ends.\<close>

definition chat_run :: "string \<Rightarrow> run_request" where
  "chat_run strategy = \<lparr>rq_thread = ''t1'', rq_assistant = None, rq_on_disconnect = Continue_Run, rq_metadata = [], rq_kwargs = [],
     rq_strategy = strategy\<rparr>"

definition quiet_chat :: posting where
  "quiet_chat = \<lparr>pg_runs = no_runs,
     pg_world = \<lparr>pw_store = \<lparr>st_files = [(''0123456789ab'', Stored sample_action)], st_claims = [], st_continued = []\<rparr>,
       pw_chats = [(''t1'', [])], pw_retries = [], pw_ticks = 0\<rparr>,
     pg_memory = [], pg_lost = {}, pg_given = {}, pg_live = {}\<rparr>"

definition launched_run :: "string \<Rightarrow> string \<Rightarrow> posting \<Rightarrow> posting" where
  "launched_run i strategy s = with_runs s
     (case create_or_reject i ''now'' (chat_run strategy) (pg_runs s) of Inr m \<Rightarrow> m | Inl _ \<Rightarrow> pg_runs s)"

definition attached_run :: "string \<Rightarrow> posting \<Rightarrow> posting" where
  "attached_run i s = with_runs s (attach_task i (pg_runs s))"

definition started_run :: "string \<Rightarrow> posting \<Rightarrow> posting" where
  "started_run i s = with_runs s (start_task i ''now'' (pg_runs s))\<lparr>pg_memory :=
     dset (pg_memory s) i (chat_at (pg_world s) ''t1'', or_no_messages (chat_at (pg_world s) ''t1''))\<rparr>"

definition posted_result :: "posting \<Rightarrow> posting" where
  "posted_result s = (with_both s (fst (post_result (\<lambda>_. no_faults) False
     \<lparr>po_action = sample_action, po_message = report_message sample_action ''Done.''\<rparr> (pg_runs s, pg_world s))))
     \<lparr>pg_given := insert ''0123456789ab'' (pg_given s), pg_live := insert ''0123456789ab'' (pg_live s)\<rparr>"

definition closed_run :: "string \<Rightarrow> posting \<Rightarrow> posting" where
  "closed_run i s = with_runs s (close_task i Stream_Ended ''now'' (pg_runs s))"

definition drained_run :: "string \<Rightarrow> posting \<Rightarrow> posting" where
  "drained_run i s = with_both s (drain (perform_post (\<lambda>_. no_faults)) ''t1'' i (pg_runs s, pg_world s))"

lemma quiet_chat_reachable: "posting_reachable quiet_chat"
  by (rule posting_reachable.initial)
    (auto simp: posting_start_def quiet_chat_def world_ok_def files_ok_def distinct_reports_def reports_def chat_at_def
      posted_present_def post_state_at_def store_get_def sample_action_def)

lemma launched_run_reachable:
  assumes "posting_reachable s" "the_run s i = None" "rm_drains (pg_runs s) = []"
    "strategy = ''reject'' \<Longrightarrow> \<not> list_ex (holds_thread ''t1'') (runs_of (pg_runs s))" "strategy \<in> set SUPPORTED_STRATEGIES"
  shows "posting_reachable (launched_run i strategy s)"
proof -
  obtain m where m: "create_or_reject i ''now'' (chat_run strategy) (pg_runs s) = Inr m"
    using assms(4,5) by (auto simp: create_or_reject_def chat_run_def)
  have "posting_step s (with_runs s m)" by (rule posting_step.launch [OF assms(2) _ m]) (simp add: assms(3))
  then show ?thesis using assms(1) posting_reachable.step by (simp add: launched_run_def m)
qed

lemma attached_run_reachable:
  "posting_reachable s \<Longrightarrow> map_option rr_task (the_run s i) = Some None \<Longrightarrow> posting_reachable (attached_run i s)"
  unfolding attached_run_def using posting_step.attach posting_reachable.step by blast

lemma started_run_reachable:
  assumes "posting_reachable s" "map_option (\<lambda>r. (rr_task r, rr_thread r)) (the_run s i) = Some (Some Task_New, ''t1'')"
  shows "posting_reachable (started_run i s)"
proof -
  obtain r where "the_run s i = Some r" "rr_task r = Some Task_New" "rr_thread r = ''t1''" using assms(2) by auto
  then show ?thesis using posting_step.start [of s i r "chat_at (pg_world s) ''t1''" "''now''"] assms(1) posting_reachable.step
    by (simp add: started_run_def)
qed

definition while_running :: posting where
  "while_running = posted_result (started_run ''r1'' (attached_run ''r1'' (launched_run ''r1'' ''reject'' quiet_chat)))"

definition run_over :: posting where
  "run_over = drained_run ''r1'' (closed_run ''r1'' while_running)"

lemma while_running_reachable: "posting_reachable while_running"
proof -
  have 1: "posting_reachable (launched_run ''r1'' ''reject'' quiet_chat)"
    by (rule launched_run_reachable [OF quiet_chat_reachable]) (code_simp, simp add: quiet_chat_def no_runs_def, simp add: quiet_chat_def no_runs_def runs_of_def, simp add: SUPPORTED_STRATEGIES_def)
  have 2: "posting_reachable (attached_run ''r1'' (launched_run ''r1'' ''reject'' quiet_chat))"
    by (rule attached_run_reachable [OF 1]) code_simp
  have 3: "posting_reachable (started_run ''r1'' (attached_run ''r1'' (launched_run ''r1'' ''reject'' quiet_chat)))" (is "posting_reachable ?s")
    by (rule started_run_reachable [OF 2]) code_simp
  have "store_get (pg_store ?s) (pa_id sample_action) = Some sample_action" by code_simp
  from posting_step.post [OF this refl, of "\<lambda>_. no_faults" False "''Done.''"]
  have "posting_step ?s while_running" by (simp add: while_running_def posted_result_def sample_action_def)
  then show ?thesis using 3 posting_reachable.step by blast
qed

lemma run_over_reachable: "posting_reachable run_over"
proof -
  obtain r where r: "the_run while_running ''r1'' = Some r" "rr_task r = Some Task_Running" "rr_thread r = ''t1''"
  proof -
    have "map_option (\<lambda>r. (rr_task r, rr_thread r)) (the_run while_running ''r1'') = Some (Some Task_Running, ''t1'')" by code_simp
    then show thesis using that by auto
  qed
  have mem: "map_of (pg_memory while_running) ''r1'' = Some (Some [], [])" by code_simp
  have 1: "posting_reachable (closed_run ''r1'' while_running)"
    using posting_step.close [OF r(1,2) mem, of while_running Stream_Ended "''now''"] while_running_reachable posting_reachable.step
    by (simp add: closed_run_def)
  obtain q where q: "the_run (closed_run ''r1'' while_running) ''r1'' = Some q" "rr_task q = Some Task_Closing" "rr_thread q = ''t1''"
  proof -
    have "map_option (\<lambda>r. (rr_task r, rr_thread r)) (the_run (closed_run ''r1'' while_running) ''r1'') = Some (Some Task_Closing, ''t1'')"
      by code_simp
    then show thesis using that by auto
  qed
  show ?thesis
    using posting_step.worker_drain [OF q(1,2), of "\<lambda>_. no_faults"] 1 posting_reachable.step q(3)
    by (simp add: run_over_def drained_run_def)
qed

theorem posted_results_stay_witness:
  "\<exists>ms. chat_at (pg_world run_over) ''t1'' = Some ms \<and> length (filter (\<lambda>m. cm_id m = report_id ''0123456789ab'') ms) = 1"
proof -
  have "map_option (\<lambda>a. (pa_post_state a, pa_thread_id a)) (store_get (pg_store run_over) ''0123456789ab'') = Some (''posted'', Some ''t1'')"
    by code_simp
  then obtain a where a: "store_get (pg_store run_over) ''0123456789ab'' = Some a" "pa_post_state a = ''posted''" "pa_thread_id a = Some ''t1''"
    by auto
  have "pg_lost run_over = {}"
    by (simp add: run_over_def drained_run_def closed_run_def while_running_def posted_result_def started_run_def attached_run_def
      launched_run_def with_runs_def with_both_def quiet_chat_def)
  then show ?thesis using conjunct2 [OF posted_results_stay [OF run_over_reachable a(1,2)]] a(3) by (simp add: or_blank_def)
qed

text \<open>
  C20. A confirmed result this process was given to post, and that still waits, is never forgotten: it has a retry, or
  it is queued for a thread that a run holds, that a scheduled drain will visit, or on which a run is being launched.
\<close>

theorem no_waiting_result_is_forgotten:
  assumes "posting_reachable s" "i \<in> pg_live s" "store_get (pg_store s) i = Some a" "pa_post_state a = ''waiting''"
  shows "\<exists>p. post_id p = i \<and> (p \<in> snd ` set (pw_retries (pg_world s)) \<or>
    (\<exists>t ps. map_of (rm_deferred (pg_runs s)) t = Some ps \<and> p \<in> set ps \<and>
       (thread_busy (pg_runs s) t \<or> (\<exists>j. (t, j) \<in> set (rm_drains (pg_runs s)))
        \<or> (\<exists>j r. the_run s j = Some r \<and> rr_thread r = t \<and> rr_task r = None))))"
proof -
  have ok: "both_ok (pg_lost s) (pg_given s) (pg_live s) (pg_runs s, pg_world s)"
    using posting_reachable_inv [OF assms(1)] by (simp add: posting_inv_def posting_ok_def)
  then have "covers (pg_live s) (deferred_posts (pg_runs s)) (pg_world s)" by (simp add: both_ok_def)
  then obtain p where p: "p \<in> deferred_posts (pg_runs s) \<union> snd ` set (pw_retries (pg_world s))" "post_id p = i"
    using assms(2-4) unfolding covers_def post_state_at_def by fastforce
  then consider "p \<in> snd ` set (pw_retries (pg_world s))"
    | t ps where "map_of (rm_deferred (pg_runs s)) t = Some ps" "p \<in> set ps" by (auto simp: deferred_posts_def)
  then show ?thesis
  proof cases
    case 2
    then have "attended (pg_runs s) t" using ok by (auto simp: both_ok_def queues_attended_def)
    moreover have "thread_busy (pg_runs s) t" if "the_run s j = Some r" "rr_thread r = t" "active_status (rr_status r) \<or> task_unfinished r" for j r
      using that run_busyI [of "pg_runs s" j r t None] ok by (auto simp: thread_busy_def both_ok_def)
    ultimately show ?thesis using 2 p(2) unfolding attended_def will_end_def by metis
  qed (use p(2) in blast)
qed

theorem no_waiting_result_is_forgotten_witness:
  "\<exists>p. post_id p = ''0123456789ab'' \<and> (p \<in> snd ` set (pw_retries (pg_world while_running)) \<or>
    (\<exists>t ps. map_of (rm_deferred (pg_runs while_running)) t = Some ps \<and> p \<in> set ps \<and>
       (thread_busy (pg_runs while_running) t \<or> (\<exists>j. (t, j) \<in> set (rm_drains (pg_runs while_running)))
        \<or> (\<exists>j r. the_run while_running j = Some r \<and> rr_thread r = t \<and> rr_task r = None))))"
proof -
  have "map_option pa_post_state (store_get (pg_store while_running) ''0123456789ab'') = Some ''waiting''" by code_simp
  then obtain a where "store_get (pg_store while_running) ''0123456789ab'' = Some a" "pa_post_state a = ''waiting''" by auto
  moreover have "''0123456789ab'' \<in> pg_live while_running" by (simp add: while_running_def posted_result_def)
  ultimately show ?thesis by (intro no_waiting_result_is_forgotten [OF while_running_reachable])
qed

subsection \<open>Runs of one thread that overlap\<close>

text \<open>
  A run that is interrupted between its registration and the attaching of its task has no task to cancel: it begins
  all the same, and is recorded running beside the run that interrupted it.
\<close>

definition both_begun :: posting where
  "both_begun = started_run ''r2'' (started_run ''r1'' (attached_run ''r2'' (attached_run ''r1''
     (launched_run ''r2'' ''interrupt'' (launched_run ''r1'' ''reject'' quiet_chat)))))"

lemma interrupted_run_begins:
  "posting_reachable both_begun \<and> map_option rr_status (the_run both_begun ''r1'') = Some Run_Running
    \<and> map_option rr_status (the_run both_begun ''r2'') = Some Run_Running"
proof -
  have 1: "posting_reachable (launched_run ''r1'' ''reject'' quiet_chat)"
    by (rule launched_run_reachable [OF quiet_chat_reachable]) (code_simp, simp add: quiet_chat_def no_runs_def, simp add: quiet_chat_def no_runs_def runs_of_def, simp add: SUPPORTED_STRATEGIES_def)
  have 2: "posting_reachable (launched_run ''r2'' ''interrupt'' (launched_run ''r1'' ''reject'' quiet_chat))"
    by (rule launched_run_reachable [OF 1]) (code_simp, code_simp, simp, simp add: SUPPORTED_STRATEGIES_def)
  note 3 = attached_run_reachable [OF 2, of "''r1''"]
  note 4 = attached_run_reachable [OF 3, of "''r2''"]
  note 5 = started_run_reachable [OF 4, of "''r1''"]
  note 6 = started_run_reachable [OF 5, of "''r2''"]
  have "posting_reachable both_begun" unfolding both_begun_def by (rule 6; code_simp)
  moreover have "map_option rr_status (the_run both_begun ''r1'') = Some Run_Running
    \<and> map_option rr_status (the_run both_begun ''r2'') = Some Run_Running" by code_simp
  ultimately show ?thesis by blast
qed

text \<open>
  A run cancelled by a \<open>rollback\<close> request restores the thread when its cancellation reaches it, by when the new run may
  have checkpointed: the new run's messages go from the chat.
\<close>

definition new_message :: chat_message where
  "new_message = \<lparr>cm_id = ''m1'', cm_content = ''Hello'', cm_name = None, cm_confirmation = None\<rparr>"

definition two_begun :: posting where
  "two_begun = started_run ''r2'' (attached_run ''r2'' (launched_run ''r2'' ''rollback''
     (started_run ''r1'' (attached_run ''r1'' (launched_run ''r1'' ''reject'' quiet_chat)))))"

definition second_wrote :: posting where
  "second_wrote = (with_chat two_begun ''t1'' (Some [new_message]))\<lparr>pg_memory := dset (pg_memory two_begun) ''r2'' (Some [], [new_message])\<rparr>"

definition first_rolled_back :: posting where
  "first_rolled_back = with_runs (with_chat second_wrote ''t1'' (Some [])) (close_task ''r1'' Stream_Cancelled ''now'' (pg_runs second_wrote))"

lemma two_begun_reachable: "posting_reachable two_begun"
proof -
  have 1: "posting_reachable (launched_run ''r1'' ''reject'' quiet_chat)"
    by (rule launched_run_reachable [OF quiet_chat_reachable]) (code_simp, simp add: quiet_chat_def no_runs_def, simp add: quiet_chat_def no_runs_def runs_of_def, simp add: SUPPORTED_STRATEGIES_def)
  note 2 = attached_run_reachable [OF 1, of "''r1''"]
  note 3 = started_run_reachable [OF 2, of "''r1''"]
  note 4 = launched_run_reachable [OF 3, of "''r2''" "''rollback''"]
  note 5 = attached_run_reachable [OF 4, of "''r2''"]
  note 6 = started_run_reachable [OF 5, of "''r2''"]
  show ?thesis unfolding two_begun_def by (rule 6; (code_simp | simp add: SUPPORTED_STRATEGIES_def))
qed

lemma late_rollback_erases_new_run:
  "posting_reachable second_wrote \<and> posting_step second_wrote first_rolled_back
    \<and> chat_at (pg_world second_wrote) ''t1'' = Some [new_message] \<and> chat_at (pg_world first_rolled_back) ''t1'' = Some []
    \<and> map_option rr_task (the_run first_rolled_back ''r2'') = Some (Some Task_Running)"
proof (intro conjI)
  obtain r2 where r2: "the_run two_begun ''r2'' = Some r2" "rr_task r2 = Some Task_Running" "rr_thread r2 = ''t1''"
  proof -
    have "map_option (\<lambda>r. (rr_task r, rr_thread r)) (the_run two_begun ''r2'') = Some (Some Task_Running, ''t1'')" by code_simp
    then show thesis using that by auto
  qed
  have mem2: "map_of (pg_memory two_begun) ''r2'' = Some (Some [], [])" by code_simp
  have "posting_step two_begun second_wrote"
    using posting_step.checkpoint [OF r2(1,2) mem2, of "[new_message]" "[new_message]"] r2(3)
    by (simp add: second_wrote_def is_report_def new_message_def starts_with_def merged_def)
  then show "posting_reachable second_wrote" using two_begun_reachable posting_reachable.step by blast
  obtain r1 where r1: "the_run second_wrote ''r1'' = Some r1" "rr_task r1 = Some Task_Running" "rr_thread r1 = ''t1''" "rr_action r1 = ''rollback''"
  proof -
    have "map_option (\<lambda>r. (rr_task r, rr_thread r, rr_action r)) (the_run second_wrote ''r1'') = Some (Some Task_Running, ''t1'', ''rollback'')"
      by code_simp
    then show thesis using that by auto
  qed
  have mem1: "map_of (pg_memory second_wrote) ''r1'' = Some (Some [], [])" by code_simp
  show "posting_step second_wrote first_rolled_back"
    using posting_step.close [OF r1(1,2) mem1, of "with_chat second_wrote ''t1'' (Some [])" Stream_Cancelled "''now''"] r1(3,4)
    by (simp add: first_rolled_back_def final_status_def)
  show "chat_at (pg_world second_wrote) ''t1'' = Some [new_message]" by code_simp
  show "chat_at (pg_world first_rolled_back) ''t1'' = Some []" by code_simp
  show "map_option rr_task (the_run first_rolled_back ''r2'') = Some (Some Task_Running)" by code_simp
qed

end
