(* ===== verification/Spec2Isabelle.thy ===== *)
theory Spec2Isabelle
  imports System Model_Call Stored_Targets Trigger_History Ledger_System Sandbox_Threads Posts_Stay Resume
begin

text \<open>
  The permission policy of omniHarness, the trigger engine beside it, the project ledger it guards and
  the sandbox tools it lets through.

  \<^bold>\<open>The program.\<close> An agent's tool calls pass one gate (\<open>backend/app/policy/middleware.py\<close>). It
  classifies each call by rules in a file (\<open>config.py\<close>, \<open>classify.py\<close>, \<open>predicates.py\<close>,
  \<open>runtime_floors.py\<close>) into three tiers, or refuses it: Tier 1 runs silently, Tier 2 runs and is
  disclosed in the reply (\<open>disclose.py\<close>), Tier 3 is put on a card and waits. What led to the call
  matters (\<open>lineage.py\<close>, \<open>private_reads.py\<close>, \<open>provenance.py\<close>, \<open>omniharness/agents/turns.py\<close>,
  \<open>agents/invitation.py\<close>), and standing grants let routine writes of scheduled runs go ahead up to
  a cap (\<open>grants.py\<close>). Cards are pending actions in a directory (\<open>models.py\<close>, \<open>pending.py\<close>); a
  person answers one by typing (\<open>confirm.py\<close>, \<open>confirm_flow.py\<close>) or on its card
  (\<open>gateway/routers/confirmations.py\<close>), and rules reloads and removed agents resolve some
  (\<open>supersede.py\<close>). The trigger engine (\<open>backend/app/trigger_engine\<close>) turns schedules and events into
  proactive messages: rules are evaluated under supervision, events are fingerprinted, firings are
  delivered, deferred, queued or coalesced. Confirmed plans write the project ledger
  (\<open>app/ledger/service.py\<close> over \<open>omniharness/persistence/ledger\<close>), which people also edit and undo
  (\<open>gateway/routers/ledger.py\<close>). The file and shell tools work in a thread's directories through
  virtual paths (\<open>omniharness/sandbox\<close>, \<open>omniharness/config/paths.py\<close>).

  \<^bold>\<open>Theories.\<close> \<open>Prelude\<close> has Python's values, dictionaries and text functions, and the collections
  \<open>text_simps\<close> and \<open>dict_simps\<close>; \<open>Datetimes\<close> instants and their ISO form; \<open>Py_Text\<close> \<open>repr\<close> and \<open>str\<close>;
  \<open>Stores\<close> the contract of a directory of records (locale \<open>record_store\<close>) and the loops over it.

  \<^item> Rules: \<open>Predicates\<close>, \<open>Policy_Model\<close> (tiers, rules, decisions, actions), \<open>Policy_Config\<close> (parsing and
    hot reloading, with every raise of the parser a branch), \<open>Classify\<close> (the decision, with the index of
    exact patterns as the code keeps it and the scan it equals).
  \<^item> Provenance: \<open>Lineage\<close> (who caused a call, private reads, summaries of folded history).
  \<^item> Cards: \<open>Confirm\<close> (the recogniser), \<open>Pending\<close> (documents, the store as a map from file names, claim
    files and Continue locks; it interprets \<open>record_store\<close>), \<open>Confirm_Flow\<close> (both answering routes;
    \<open>fs_calls\<close> lists the calls really made), \<open>Supersede\<close>, \<open>Stored_Targets\<close> (the re-check across the store).
  \<^item> The gate: \<open>Disclose\<close>, \<open>Plans\<close> (the texts a person confirms), \<open>Grants\<close>, \<open>Gate\<close> (one operation per
    method of \<open>PolicyMiddleware\<close> on a tool call, every one returning the state it leaves), \<open>Gate_Facts\<close>
    (its cases), \<open>Gate_Safety\<close>; \<open>Model_Call\<close> (the policy around a model call, and admission to the
    confirmation pool).
  \<^item> Composition: \<open>System\<close>, a step relation over gate, answers, reloads and removals sharing the store.
  \<^item> Triggers: \<open>Trigger_Model\<close> (rules, fingerprints, schedule, supervision), \<open>Trigger_Runner\<close> (one event, the
    three queues, the one release path), \<open>Trigger_History\<close> (histories of cycles).
  \<^item> The ledger: \<open>Ledger_Rows\<close> (tables, the log, every write of the repository), \<open>Ledger_Names\<close> (names and
    fields of a change), \<open>Ledger_Apply\<close> (plans, batches, validation, the controller), \<open>Ledger_Edits\<close> (undo, a
    person's edits, promotion, what is read); \<open>Ledger_Facts\<close>, \<open>Ledger_Dates\<close>, \<open>Ledger_Invariant\<close> (what one
    write keeps), \<open>Plan_Invariant\<close> (the locale of properties a plan keeps, interpreted on the invariants),
    \<open>Ledger_History\<close> (the log against the tables), \<open>Ledger_System\<close> (all writers as one step relation).
  \<^item> The sandbox: \<open>Sandbox_Files\<close> (paths, a tree with symbolic links, \<open>realpath\<close>), \<open>Sandbox_Local\<close>
    (\<open>LocalSandbox\<close> and its path mappings), \<open>Sandbox_Search\<close> (\<open>list_dir\<close>, \<open>glob\<close>, \<open>grep\<close>), \<open>Sandbox_Paths\<close>
    (a thread's directories and the path gate of \<open>tools.py\<close>), \<open>Sandbox_Tools\<close> (every tool with its errors,
    over a record of sandbox operations); \<open>Sandbox_Safety\<close>, \<open>Sandbox_Threads\<close> (the theorems).

  \<^bold>\<open>What is shown.\<close> In every reachable state each confirmed call was asked by the gate with exactly its
  tool, arguments and targets and later answered by its owner, and none runs twice (\<open>System\<close>). One
  dispatch holds what must ask, runs only what may run, records what is disclosed, and never makes two
  cards of one proposal (\<open>Gate_Safety\<close>). Classification is the maximum over all matching rules,
  monotone in provenance and sound for the SQL predicate (\<open>Classify\<close>); parsed rules are well formed
  and reloading is announced (\<open>Policy_Config\<close>); origin and privacy walks are exact, and summarising
  keeps them (\<open>Lineage\<close>). Answers run only own, open, unchanged plans (\<open>Confirm_Flow\<close>), documents round
  trip (\<open>Pending\<close>), grants cover only reversible Tier 2 calls within the cap (\<open>Grants\<close>), probing an
  answer first changes nothing and admission is bounded (\<open>Model_Call\<close>). No event is delivered twice or
  lost, and no rule is silenced for good (\<open>Trigger_History\<close>, \<open>Trigger_Model\<close>). In every reachable ledger
  rows are well typed, short ids are unique and below their counter, and replaying the log gives the
  tables; a plan fails with one of the service's own messages or not at all (\<open>Ledger_System\<close>). No sequence of
  tool calls changes a file outside the thread's directories and the writable mounts, no other thread's
  files change, no command runs on the host, cut outputs stay within their limit, and a written text is
  read back (\<open>Sandbox_Safety\<close>, \<open>Sandbox_Threads\<close>).

  \<^bold>\<open>Conventions.\<close> Python's integers are \<open>int\<close>, texts are lists of bytes-sized characters, dictionaries
  association lists in insertion order, exceptions the left of a sum or a constructor, \<open>None\<close> is
  \<open>None\<close>. Time is microseconds; the ledger's times are ISO texts. What the code reads from elsewhere
  (files, clocks, ids, the tool, the model, the ledger's lookups, the database's \<open>lower\<close>, redaction, the
  zone database, a regular-expression search, the order of a set, the path scan of a command) is an
  argument or a field of an environment record. Operations the code runs under a lock are one step.
  Loops are structural or have termination proofs (the look-back of \<open>Trigger_Model\<close>, the text
  functions, the resolution of links, by the links not yet followed). The one fuel is \<open>walk_fuel\<close> of
  \<open>Sandbox_Search\<close>: \<open>os.walk\<close> goes one directory deeper per unit, and no path of the tree is longer.

  \<^bold>\<open>Not modelled.\<close> The HTTP routes and channels of the gateway other than those named above, the
  frontend, persistence backends and migrations other than the ledger's, container sandboxes, model
  providers, memory, skills, MCP transport and session watching are I/O or
  glue around libraries; of the policy package the inspection views (\<open>explain.py\<close>, \<open>inspect.py\<close>), the
  editor of the rules file and the rebuilding of an agent's tools (\<open>surface_run.py\<close>) are left out, of the
  trigger engine its sources, its configuration loader and its thread mapping, of the sandbox the host's
  permissions, the lock of a write and the scan of a command's paths. Log lines are left out
  everywhere.
\<close>

end
